(* ===== verification/Rat_Prelude.thy ===== *)
theory Rat_Prelude
  imports Main "HOL-Library.Word"
begin

text \<open>
  Shared ground of the development: the machine types of the firmware, the checked, wrapping and
  saturating arithmetic that the Rust code spells out, big- and little-endian byte strings, and
  the list facts (splicing a byte range, chunking) that several components use.

  Bytes are 8-bit words.  Sizes, offsets and protocol integers are natural numbers together with
  the width of the Rust type: \<open>wrapping_add 32\<close>, \<open>checked_add 64\<close> and the like write
  out what the source does at the edge of the type.  A Rust string is the list of its UTF-8 bytes
  (one \<open>char\<close> per byte).
\<close>

unbundle bit_operations_syntax

type_synonym u8 = "8 word"
type_synonym bytes = "8 word list"

text \<open>The fact collections that the component theories extend.\<close>

named_theorems frame_simps \<open>which fields an operation leaves alone\<close>
named_theorems length_simps \<open>lengths of encoded values\<close>

subsection \<open>Fixed-width arithmetic\<close>

definition wrapping_add :: "nat \<Rightarrow> nat \<Rightarrow> nat \<Rightarrow> nat" where
  "wrapping_add w a b = (a + b) mod 2 ^ w"

definition checked_add :: "nat \<Rightarrow> nat \<Rightarrow> nat \<Rightarrow> nat option" where
  "checked_add w a b = (if a + b < 2 ^ w then Some (a + b) else None)"

definition saturating_add :: "nat \<Rightarrow> nat \<Rightarrow> nat \<Rightarrow> nat" where
  "saturating_add w a b = min (a + b) (2 ^ w - 1)"

abbreviation u16_max :: nat where "u16_max \<equiv> 65535"
abbreviation u32_max :: nat where "u32_max \<equiv> 4294967295"

lemma wrapping_add_less [simp]: "wrapping_add w a b < 2 ^ w"
  by (simp add: wrapping_add_def)

lemma wrapping_add_no_wrap: "a + b < 2 ^ w \<Longrightarrow> wrapping_add w a b = a + b"
  by (simp add: wrapping_add_def)

lemma checked_add_Some [simp]: "checked_add w a b = Some c \<longleftrightarrow> c = a + b \<and> a + b < 2 ^ w"
  by (auto simp: checked_add_def)

lemma checked_add_None [simp]: "checked_add w a b = None \<longleftrightarrow> 2 ^ w \<le> a + b"
  by (auto simp: checked_add_def)

text \<open>Masks of low bits are remainders.\<close>

lemma and_mask_nat:
  fixes n :: nat
  shows "n AND 0x0F = n mod 16" "n AND 0x1F = n mod 32" "n AND 0x3F = n mod 64" "n AND 0x7F = n mod 128"
proof -
  have "n AND (2 ^ k - 1) = n mod 2 ^ k" for k
    by (simp only: mask_eq_exp_minus_1 [symmetric] take_bit_eq_mask [symmetric] take_bit_eq_mod)
  from this [of 4] this [of 5] this [of 6] this [of 7]
  show "n AND 0x0F = n mod 16" "n AND 0x1F = n mod 32" "n AND 0x3F = n mod 64"
    "n AND 0x7F = n mod 128" by simp_all
qed

subsection \<open>Big- and little-endian byte strings\<close>

text \<open>\<open>be_bytes n v\<close> is \<open>to_be_bytes\<close> of an \<open>n\<close>-byte integer, \<open>of_be\<close> is
  \<open>from_be_bytes\<close>; the little-endian pair is the reversal.\<close>

primrec be_bytes :: "nat \<Rightarrow> nat \<Rightarrow> bytes" where
  "be_bytes 0 v = []"
| "be_bytes (Suc n) v = be_bytes n (v div 256) @ [of_nat v]"

definition of_be :: "bytes \<Rightarrow> nat" where
  "of_be bs = foldl (\<lambda>acc b. acc * 256 + unat b) 0 bs"

definition le_bytes :: "nat \<Rightarrow> nat \<Rightarrow> bytes" where
  "le_bytes n v = rev (be_bytes n v)"

definition of_le :: "bytes \<Rightarrow> nat" where
  "of_le bs = of_be (rev bs)"

lemma length_be_bytes [simp, length_simps]: "length (be_bytes n v) = n"
  by (induction n arbitrary: v) auto

lemma length_le_bytes [simp, length_simps]: "length (le_bytes n v) = n"
  by (simp add: le_bytes_def)

lemma of_be_Nil [simp]: "of_be [] = 0"
  by (simp add: of_be_def)

lemma of_be_snoc [simp]: "of_be (bs @ [b]) = of_be bs * 256 + unat b"
  by (simp add: of_be_def)

lemma unat_u8_less [simp]: "unat (b :: u8) < 256"
  using unsigned_less [of b] by simp

lemma of_be_be_bytes [simp]: "of_be (be_bytes n v) = v mod 256 ^ n"
proof (induction n arbitrary: v)
  case (Suc n)
  have "(v div 256) mod 256 ^ n * 256 + v mod 256 = v mod (256 * 256 ^ n)"
    by (simp add: mod_mult2_eq)
  with Suc show ?case by (simp add: unat_of_nat)
qed simp

lemma of_be_less: "of_be bs < 256 ^ length bs"
proof (induction bs rule: rev_induct)
  case (snoc b bs)
  have "of_be bs * 256 + unat b < (of_be bs + 1) * 256" by simp
  also have "\<dots> \<le> 256 ^ length bs * 256"
    using snoc by (intro mult_le_mono) auto
  finally show ?case by simp
qed simp

lemma be_bytes_of_be [simp]: "be_bytes (length bs) (of_be bs) = bs"
proof (induction bs rule: rev_induct)
  case (snoc b bs)
  have "(of_be bs * 256 + unat b) div 256 = of_be bs" by simp
  moreover have "(of_nat (of_be bs * 256 + unat b) :: u8) = b"
    by (rule word_unat_eq_iff [THEN iffD2]) (simp only: unat_of_nat, simp)
  ultimately show ?case using snoc by simp
qed simp

lemma of_le_le_bytes [simp]: "of_le (le_bytes n v) = v mod 256 ^ n"
  by (simp add: of_le_def le_bytes_def)

lemma of_le_less: "of_le bs < 256 ^ length bs"
  using of_be_less [of "rev bs"] by (simp add: of_le_def)

lemma le_bytes_of_le [simp]: "le_bytes (length bs) (of_le bs) = bs"
  using be_bytes_of_be [of "rev bs"] by (simp add: le_bytes_def of_le_def)

lemma be_bytes_nonempty: "0 < n \<Longrightarrow> be_bytes n v \<noteq> []"
  by (cases n) auto

subsection \<open>Splicing and chunking lists\<close>

text \<open>\<open>splice_at k ys xs\<close> overwrites the range of \<open>xs\<close> that starts at \<open>k\<close> with
  \<open>ys\<close> (\<open>copy_from_slice\<close> into a sub-slice).\<close>

definition splice_at :: "nat \<Rightarrow> 'a list \<Rightarrow> 'a list \<Rightarrow> 'a list" where
  "splice_at k ys xs = take k xs @ ys @ drop (k + length ys) xs"

lemma length_splice_at [simp, length_simps]:
  "k + length ys \<le> length xs \<Longrightarrow> length (splice_at k ys xs) = length xs"
  by (simp add: splice_at_def)

lemma nth_splice_at:
  assumes "k + length ys \<le> length xs" and "i < length xs"
  shows "splice_at k ys xs ! i
    = (if k \<le> i \<and> i < k + length ys then ys ! (i - k) else xs ! i)"
  using assms by (auto simp: splice_at_def nth_append)

lemma splice_at_Nil [simp]: "splice_at k [] xs = xs"
  by (simp add: splice_at_def)

lemma splice_at_splice_at:
  assumes "k + length ys + length zs \<le> length xs"
  shows "splice_at (k + length ys) zs (splice_at k ys xs) = splice_at k (ys @ zs) xs"
  using assms by (simp add: splice_at_def ac_simps)

lemma take_drop_splice_at:
  assumes "k + length ys \<le> length xs"
  shows "take (length ys) (drop k (splice_at k ys xs)) = ys"
  using assms by (simp add: splice_at_def)

lemma splice_at_own_range:
  assumes "k + n \<le> length xs"
  shows "splice_at k (take n (drop k xs)) xs = xs"
proof -
  have "drop (k + n) xs = drop n (drop k xs)" by (simp add: add.commute)
  with assms show ?thesis by (simp add: splice_at_def del: drop_drop)
qed

text \<open>\<open>chunks n xs\<close>: Rust's \<open>chunks(n)\<close>, all of length \<open>n\<close> but possibly the last.\<close>

function chunks :: "nat \<Rightarrow> 'a list \<Rightarrow> 'a list list" where
  "chunks n xs = (if n = 0 \<or> xs = [] then [] else take n xs # chunks n (drop n xs))"
  by pat_completeness auto
termination
  by (relation "measure (\<lambda>(n, xs). length xs)") auto

declare chunks.simps [simp del]

lemma chunks_Nil [simp]: "chunks n [] = []"
  by (simp add: chunks.simps)

lemma concat_chunks: "0 < n \<Longrightarrow> concat (chunks n xs) = xs"
  by (induction n xs rule: chunks.induct) (subst chunks.simps, auto)

lemma chunks_append_mult:
  assumes "0 < n" and "length ys = n * m"
  shows "chunks n (ys @ zs) = chunks n ys @ chunks n zs"
  using assms(2)
proof (induction m arbitrary: ys)
  case (Suc m)
  then have "ys \<noteq> []" and "length (drop n ys) = n * m" and "n \<le> length ys"
    using assms(1) by auto
  with Suc.IH [of "drop n ys"] assms(1) show ?case
    by (simp add: chunks.simps [of n "ys @ zs"] chunks.simps [of n ys])
qed simp

text \<open>\<open>slice_of k n xs\<close> is the sub-slice \<open>xs[k..k + n]\<close>.\<close>

definition slice_of :: "nat \<Rightarrow> nat \<Rightarrow> 'a list \<Rightarrow> 'a list" where
  "slice_of k n xs = take n (drop k xs)"

lemma length_slice_of [simp, length_simps]: "k + n \<le> length xs \<Longrightarrow> length (slice_of k n xs) = n"
  by (simp add: slice_of_def)

lemma slice_of_add:
  "slice_of k (m + n) xs = slice_of k m xs @ slice_of (k + m) n xs"
  by (simp add: slice_of_def take_add add.commute)

lemma nth_slice_of [simp]: "k + n \<le> length xs \<Longrightarrow> i < n \<Longrightarrow> slice_of k n xs ! i = xs ! (k + i)"
  by (simp add: slice_of_def)

subsection \<open>Text\<close>

text \<open>Decimal numbers and the padding of the formatting macros; ASCII case folding;
  the bytes of a string.\<close>

definition digit_char :: "nat \<Rightarrow> char" where
  "digit_char d = char_of (48 + d)"

fun dec :: "nat \<Rightarrow> string" where
  "dec n = (if n < 10 then [digit_char n] else dec (n div 10) @ [digit_char (n mod 10)])"

declare dec.simps [simp del]

definition pad_left :: "nat \<Rightarrow> char \<Rightarrow> string \<Rightarrow> string" where
  "pad_left w c s = replicate (w - length s) c @ s"

definition to_bytes :: "string \<Rightarrow> bytes" where
  "to_bytes s = map of_char s"

definition of_bytes :: "bytes \<Rightarrow> string" where
  "of_bytes bs = map (\<lambda>b. char_of (unat b)) bs"

definition ascii_lower :: "char \<Rightarrow> char" where
  "ascii_lower c = (let n = of_char c :: nat in
     if 65 \<le> n \<and> n \<le> 90 then char_of (n + 32) else c)"

definition eq_ignore_ascii_case :: "string \<Rightarrow> string \<Rightarrow> bool" where
  "eq_ignore_ascii_case a b \<longleftrightarrow> map ascii_lower a = map ascii_lower b"

definition is_ascii_graphic :: "char \<Rightarrow> bool" where
  "is_ascii_graphic c \<longleftrightarrow> (let n = of_char c :: nat in 33 \<le> n \<and> n \<le> 126)"

lemma length_to_bytes [simp, length_simps]: "length (to_bytes s) = length s"
  by (simp add: to_bytes_def)

lemma length_of_bytes [simp, length_simps]: "length (of_bytes bs) = length bs"
  by (simp add: of_bytes_def)

lemma unat_of_char [simp]: "unat (of_char c :: u8) = of_char c"
proof -
  have "unat (of_nat (of_char c) :: u8) = of_char c mod 2 ^ 8"
    by (simp only: unat_of_nat) simp
  then show ?thesis by (simp add: of_nat_of_char)
qed

lemma of_char_char_of_unat [simp]: "of_char (char_of (unat b)) = (b :: u8)"
proof -
  have "of_char (char_of (unat b)) = unat b" by simp
  then have "(of_nat (of_char (char_of (unat b)) :: nat) :: u8) = b" by (simp only: of_nat_unat ucast_id)
  then show ?thesis by (simp only: of_nat_of_char)
qed

lemma of_bytes_to_bytes [simp]: "of_bytes (to_bytes s) = s"
  by (simp add: of_bytes_def to_bytes_def comp_def)

lemma to_bytes_of_bytes [simp]: "to_bytes (of_bytes bs) = bs"
  by (simp add: of_bytes_def to_bytes_def comp_def)

lemma eq_ignore_ascii_case_refl [simp]: "eq_ignore_ascii_case a a"
  by (simp add: eq_ignore_ascii_case_def)

lemma eq_ignore_ascii_case_length: "eq_ignore_ascii_case a b \<Longrightarrow> length a = length b"
  by (auto simp: eq_ignore_ascii_case_def dest: map_eq_imp_length_eq)

text \<open>Well-formed UTF-8, as \<open>core::str::from_utf8\<close> accepts it: no overlong forms, no
  surrogates, nothing above U+10FFFF.\<close>

definition utf8_cont :: "u8 \<Rightarrow> bool" where
  "utf8_cont b \<longleftrightarrow> 0x80 \<le> b \<and> b \<le> 0xBF"

definition utf8_second_of_3 :: "u8 \<Rightarrow> u8 \<Rightarrow> bool" where
  "utf8_second_of_3 b0 b1 \<longleftrightarrow>
    (if b0 = 0xE0 then 0xA0 \<le> b1 \<and> b1 \<le> 0xBF
     else if b0 = 0xED then 0x80 \<le> b1 \<and> b1 \<le> 0x9F else utf8_cont b1)"

definition utf8_second_of_4 :: "u8 \<Rightarrow> u8 \<Rightarrow> bool" where
  "utf8_second_of_4 b0 b1 \<longleftrightarrow>
    (if b0 = 0xF0 then 0x90 \<le> b1 \<and> b1 \<le> 0xBF
     else if b0 = 0xF4 then 0x80 \<le> b1 \<and> b1 \<le> 0x8F else utf8_cont b1)"

fun utf8_valid :: "bytes \<Rightarrow> bool" where
  "utf8_valid [] = True"
| "utf8_valid (b0 # r) =
    (if b0 < 0x80 then utf8_valid r
     else if 0xC2 \<le> b0 \<and> b0 \<le> 0xDF then
       (case r of b1 # r1 \<Rightarrow> utf8_cont b1 \<and> utf8_valid r1 | [] \<Rightarrow> False)
     else if 0xE0 \<le> b0 \<and> b0 \<le> 0xEF then
       (case r of b1 # b2 # r2 \<Rightarrow> utf8_second_of_3 b0 b1 \<and> utf8_cont b2 \<and> utf8_valid r2
        | _ \<Rightarrow> False)
     else if 0xF0 \<le> b0 \<and> b0 \<le> 0xF4 then
       (case r of b1 # b2 # b3 # r3 \<Rightarrow>
          utf8_second_of_4 b0 b1 \<and> utf8_cont b2 \<and> utf8_cont b3 \<and> utf8_valid r3
        | _ \<Rightarrow> False)
     else False)"

lemma utf8_valid_ascii: "\<forall>b \<in> set bs. b < 0x80 \<Longrightarrow> utf8_valid bs"
  by (induction bs) auto

end
