(* ===== verification/Sd_Block.thy ===== *)
theory Sd_Block
  imports Rat_Prelude
begin

text \<open>
  \<open>src/sdblock.rs\<close>: the byte-seekable view of the first partition of the card.  The card is
  any implementation of the \<open>BlockDevice\<close> trait, a record of operations over an opaque state
  \<open>'d\<close>; what the adapter relies on is \<open>device_contract\<close>.  A block is a list of 512
  bytes.
\<close>

subsection \<open>Block devices\<close>

record 'd device_ops =
  dev_read :: "'d \<Rightarrow> nat \<Rightarrow> nat \<Rightarrow> bytes list option \<times> 'd"
  dev_write :: "'d \<Rightarrow> nat \<Rightarrow> bytes list \<Rightarrow> bool \<times> 'd"
  dev_num_blocks :: "'d \<Rightarrow> nat option"

definition block_len :: nat where "block_len = 512"
definition mbr_partition_table :: nat where "mbr_partition_table = 0x1BE"
definition mbr_signature :: nat where "mbr_signature = 0x1FE"
definition max_io_blocks :: nat where "max_io_blocks = 16"

text \<open>\<open>content d i\<close> is block \<open>i\<close> of the medium.  A read that succeeds returns the blocks
  and changes none; a write that succeeds replaces exactly its blocks, a write that fails
  leaves at least the blocks outside its range.\<close>

definition device_contract :: "'d device_ops \<Rightarrow> ('d \<Rightarrow> nat \<Rightarrow> bytes) \<Rightarrow> bool" where
  "device_contract ops content \<longleftrightarrow>
    (\<forall>d i. length (content d i) = block_len)
    \<and> (\<forall>d i n r d'. dev_read ops d i n = (r, d') \<longrightarrow> content d' = content d
         \<and> dev_num_blocks ops d' = dev_num_blocks ops d
         \<and> (\<forall>bs. r = Some bs \<longrightarrow> bs = map (content d) [i..<i + n]))
    \<and> (\<forall>d i bs ok d'. dev_write ops d i bs = (ok, d') \<longrightarrow> list_all (\<lambda>b. length b = block_len) bs \<longrightarrow>
         dev_num_blocks ops d' = dev_num_blocks ops d
         \<and> (\<forall>j. j < i \<or> i + length bs \<le> j \<longrightarrow> content d' j = content d j)
         \<and> (ok \<longrightarrow> (\<forall>k < length bs. content d' (i + k) = bs ! k)))
    \<and> (\<forall>d n. dev_num_blocks ops d = Some n \<longrightarrow> n \<le> u32_max)"

lemma contract_length: "device_contract ops content \<Longrightarrow> length (content d i) = block_len"
  by (simp add: device_contract_def)

lemma contract_read:
  "device_contract ops content \<Longrightarrow> dev_read ops d i n = (r, d') \<Longrightarrow> content d' = content d
    \<and> dev_num_blocks ops d' = dev_num_blocks ops d"
  by (simp add: device_contract_def)

lemma contract_read_Some:
  "device_contract ops content \<Longrightarrow> dev_read ops d i n = (Some bs, d') \<Longrightarrow>
    bs = map (content d) [i..<i + n]"
  by (simp add: device_contract_def)

lemma contract_write_outside:
  "device_contract ops content \<Longrightarrow> dev_write ops d i bs = (ok, d') \<Longrightarrow>
    list_all (\<lambda>b. length b = block_len) bs \<Longrightarrow> j < i \<or> i + length bs \<le> j \<Longrightarrow>
    content d' j = content d j"
  unfolding device_contract_def by blast

lemma contract_write_inside:
  "device_contract ops content \<Longrightarrow> dev_write ops d i bs = (True, d') \<Longrightarrow>
    list_all (\<lambda>b. length b = block_len) bs \<Longrightarrow> k < length bs \<Longrightarrow> content d' (i + k) = bs ! k"
  by (simp add: device_contract_def)

lemma contract_write_count:
  "device_contract ops content \<Longrightarrow> dev_write ops d i bs = (ok, d') \<Longrightarrow>
    list_all (\<lambda>b. length b = block_len) bs \<Longrightarrow> dev_num_blocks ops d' = dev_num_blocks ops d"
  by (simp add: device_contract_def)

lemma contract_count: "device_contract ops content \<Longrightarrow> dev_num_blocks ops d = Some n \<Longrightarrow> n \<le> u32_max"
  by (simp add: device_contract_def)

definition never_fails :: "'d device_ops \<Rightarrow> bool" where
  "never_fails ops \<longleftrightarrow> (\<forall>d i n. fst (dev_read ops d i n) \<noteq> None)
    \<and> (\<forall>d i bs. fst (dev_write ops d i bs))"

lemma never_fails_read: "dev_read ops d i n = (None, d') \<Longrightarrow> \<not> never_fails ops"
  by (metis fst_conv never_fails_def)

lemma never_fails_write: "dev_write ops d i bs = (False, d') \<Longrightarrow> \<not> never_fails ops"
  by (metis fst_conv never_fails_def)

subsection \<open>The adapter\<close>

datatype sd_block_error = Sd_Device | Sd_No_Partition | Sd_Out_Of_Range | Sd_Invalid_Position

datatype error_kind = Kind_Invalid_Input | Kind_Other

definition sd_error_kind :: "sd_block_error \<Rightarrow> error_kind" where
  "sd_error_kind e =
    (if e = Sd_Out_Of_Range \<or> e = Sd_Invalid_Position then Kind_Invalid_Input else Kind_Other)"

record 'd sd_block_device =
  sb_card :: 'd
  sb_base :: nat
  sb_size :: nat
  sb_pos :: nat

text \<open>The scan of the four partition entries, from \<open>index\<close> on.\<close>

fun find_partition :: "bytes \<Rightarrow> nat list \<Rightarrow> (nat \<times> nat) option" where
  "find_partition bs [] = None"
| "find_partition bs (index # rest) =
    (let entry = slice_of (mbr_partition_table + index * 16) 16 bs in
     if entry ! 4 = 0 then find_partition bs rest
     else
      (let start = of_le (slice_of 8 4 entry); len = of_le (slice_of 12 4 entry) in
       if len = 0 then find_partition bs rest
       else Some (start * block_len, len * block_len)))"

definition sd_mount :: "'d device_ops \<Rightarrow> 'd \<Rightarrow> sd_block_error + 'd sd_block_device" where
  "sd_mount ops dev =
    (case dev_read ops dev 0 1 of
       (None, dev) \<Rightarrow> Inl Sd_Device
     | (Some mbr, dev) \<Rightarrow>
        (let bs = mbr ! 0 in
         if bs ! mbr_signature \<noteq> 0x55 \<or> bs ! (mbr_signature + 1) \<noteq> 0xAA then Inl Sd_No_Partition
         else (case find_partition bs [0, 1, 2, 3] of
           None \<Rightarrow> Inl Sd_No_Partition
         | Some (base, sz) \<Rightarrow>
            (case dev_num_blocks ops dev of
               None \<Rightarrow> Inl Sd_Device
             | Some card_blocks \<Rightarrow>
                (if card_blocks * block_len < base + sz then Inl Sd_Out_Of_Range
                 else Inr \<lparr>sb_card = dev, sb_base = base, sb_size = sz, sb_pos = 0\<rparr>)))))"

definition into_inner :: "'d sd_block_device \<Rightarrow> 'd" where
  "into_inner s = sb_card s"

definition check_range :: "'d sd_block_device \<Rightarrow> nat \<Rightarrow> sd_block_error option" where
  "check_range s byte_len =
    (case checked_add 64 (sb_pos s) byte_len of
       None \<Rightarrow> Some Sd_Out_Of_Range
     | Some end_pos \<Rightarrow> if sb_size s < end_pos then Some Sd_Out_Of_Range else None)"

definition read_card_block :: "'d device_ops \<Rightarrow> 'd \<Rightarrow> nat \<Rightarrow> bytes option \<times> 'd" where
  "read_card_block ops dev card_block =
    (case dev_read ops dev card_block 1 of
       (None, dev) \<Rightarrow> (None, dev)
     | (Some bs, dev) \<Rightarrow> (Some (bs ! 0), dev))"

definition write_card_block :: "'d device_ops \<Rightarrow> 'd \<Rightarrow> nat \<Rightarrow> bytes \<Rightarrow> bool \<times> 'd" where
  "write_card_block ops dev card_block block = dev_write ops dev card_block [block]"

text \<open>Both transfer loops terminate because every round moves \<open>done\<close> towards the end of the
  buffer.\<close>

lemma loop_measure:
  "\<not> length buf \<le> fin \<Longrightarrow> 0 < k \<Longrightarrow>
    ((ops', dev', start', fin + k, splice_at fin (take (length buf - fin) xs) buf), (ops, dev, start, fin, buf))
      \<in> measure (\<lambda>(ops, dev, start, fin, buf). length buf - fin)"
  by (simp add: splice_at_def)

lemma loop_measure_same:
  "\<not> length buf \<le> fin \<Longrightarrow> 0 < k \<Longrightarrow>
    ((ops', dev', start', fin + k, buf), (ops, dev, start, fin, buf))
      \<in> measure (\<lambda>(ops, dev, start, fin, buf). length buf - fin)"
  by simp

text \<open>The transfer loops.  \<open>fin\<close> is \<open>done\<close>; the read loop also returns the caller's buffer.\<close>

function sd_read_loop ::
  "'d device_ops \<Rightarrow> 'd \<Rightarrow> nat \<Rightarrow> nat \<Rightarrow> bytes \<Rightarrow> bool \<times> bytes \<times> 'd" where
  "sd_read_loop ops dev start fin buf =
    (if length buf \<le> fin then (True, buf, dev)
     else
      (let absolute = start + fin;
           card_block = (absolute div block_len) mod 2 ^ 32;
           block_offset = absolute mod block_len;
           remaining = length buf - fin
       in if block_offset = 0 \<and> block_len \<le> remaining then
            (let blocks = min (remaining div block_len) max_io_blocks in
             case dev_read ops dev card_block blocks of
               (None, dev) \<Rightarrow> (False, buf, dev)
             | (Some scratch, dev) \<Rightarrow>
                 sd_read_loop ops dev start (fin + blocks * block_len)
                   (splice_at fin (take (length buf - fin) (concat scratch)) buf))
          else
            (case read_card_block ops dev card_block of
               (None, dev) \<Rightarrow> (False, buf, dev)
             | (Some block, dev) \<Rightarrow>
                (let count = min remaining (block_len - block_offset) in
                 sd_read_loop ops dev start (fin + count)
                   (splice_at fin (take (length buf - fin) (slice_of block_offset count block)) buf)))))"
  by pat_completeness auto
termination
proof (relation "measure (\<lambda>(ops, dev, start, fin, buf). length buf - fin)", goal_cases)
  case (2 ops dev start fin buf absolute card_block block_offset remaining blocks)
  then have "0 < blocks * block_len" by (auto simp: block_len_def max_io_blocks_def)
  with 2(1) show ?case by (intro loop_measure)
next
  case (3 ops dev start fin buf absolute card_block block_offset remaining x block dev' count)
  then have "0 < count" by (simp add: block_len_def)
  with 3(1) show ?case by (intro loop_measure)
qed simp

declare sd_read_loop.simps [simp del]

function sd_write_loop ::
  "'d device_ops \<Rightarrow> 'd \<Rightarrow> nat \<Rightarrow> nat \<Rightarrow> bytes \<Rightarrow> bool \<times> 'd" where
  "sd_write_loop ops dev start fin buf =
    (if length buf \<le> fin then (True, dev)
     else
      (let absolute = start + fin;
           card_block = (absolute div block_len) mod 2 ^ 32;
           block_offset = absolute mod block_len;
           remaining = length buf - fin
       in if block_offset = 0 \<and> block_len \<le> remaining then
            (let blocks = min (remaining div block_len) max_io_blocks in
             case dev_write ops dev card_block (chunks block_len (slice_of fin (blocks * block_len) buf)) of
               (False, dev) \<Rightarrow> (False, dev)
             | (True, dev) \<Rightarrow> sd_write_loop ops dev start (fin + blocks * block_len) buf)
          else
            (case read_card_block ops dev card_block of
               (None, dev) \<Rightarrow> (False, dev)
             | (Some block, dev) \<Rightarrow>
                (let count = min remaining (block_len - block_offset);
                     block = splice_at block_offset (slice_of fin count buf) block
                 in case write_card_block ops dev card_block block of
                      (False, dev) \<Rightarrow> (False, dev)
                    | (True, dev) \<Rightarrow> sd_write_loop ops dev start (fin + count) buf))))"
  by pat_completeness auto
termination
proof (relation "measure (\<lambda>(ops, dev, start, fin, buf). length buf - fin)", goal_cases)
  case (2 ops dev start fin buf absolute card_block block_offset remaining blocks)
  then have "0 < blocks * block_len" by (auto simp: block_len_def max_io_blocks_def)
  with 2(1) show ?case by (intro loop_measure_same)
next
  case (3 ops dev start fin buf absolute card_block block_offset remaining x dev' block count)
  then have "0 < count" by (simp add: block_len_def)
  with 3(1) show ?case by (intro loop_measure_same)
qed simp

declare sd_write_loop.simps [simp del]

text \<open>\<open>Read::read\<close>, \<open>Write::write\<close> and \<open>Seek::seek\<close>: the result, the caller's
  buffer (for a read) and the adapter afterwards.\<close>

definition sd_read ::
  "'d device_ops \<Rightarrow> 'd sd_block_device \<Rightarrow> bytes
    \<Rightarrow> (sd_block_error + nat) \<times> bytes \<times> 'd sd_block_device" where
  "sd_read ops s buf =
    (if buf = [] then (Inr 0, buf, s)
     else (case check_range s (length buf) of
       Some e \<Rightarrow> (Inl e, buf, s)
     | None \<Rightarrow>
        (case sd_read_loop ops (sb_card s) (sb_base s + sb_pos s) 0 buf of
           (False, buf, dev) \<Rightarrow> (Inl Sd_Device, buf, s\<lparr>sb_card := dev\<rparr>)
         | (True, buf, dev) \<Rightarrow>
             (Inr (length buf), buf, s\<lparr>sb_card := dev, sb_pos := sb_pos s + length buf\<rparr>))))"

definition sd_write ::
  "'d device_ops \<Rightarrow> 'd sd_block_device \<Rightarrow> bytes \<Rightarrow> (sd_block_error + nat) \<times> 'd sd_block_device" where
  "sd_write ops s buf =
    (if buf = [] then (Inr 0, s)
     else (case check_range s (length buf) of
       Some e \<Rightarrow> (Inl e, s)
     | None \<Rightarrow>
        (case sd_write_loop ops (sb_card s) (sb_base s + sb_pos s) 0 buf of
           (False, dev) \<Rightarrow> (Inl Sd_Device, s\<lparr>sb_card := dev\<rparr>)
         | (True, dev) \<Rightarrow>
             (Inr (length buf), s\<lparr>sb_card := dev, sb_pos := sb_pos s + length buf\<rparr>))))"

definition sd_flush :: "'d sd_block_device \<Rightarrow> (sd_block_error + unit) \<times> 'd sd_block_device" where
  "sd_flush s = (Inr (), s)"

datatype seek_from = Seek_Start nat | Seek_End int | Seek_Current int

definition sd_seek :: "'d sd_block_device \<Rightarrow> seek_from \<Rightarrow> (sd_block_error + nat) \<times> 'd sd_block_device" where
  "sd_seek s pos =
    (let target = (case pos of
         Seek_Start v \<Rightarrow> int v
       | Seek_End v \<Rightarrow> int (sb_size s) + v
       | Seek_Current v \<Rightarrow> int (sb_pos s) + v)
     in if \<not> (0 \<le> target \<and> target \<le> int (sb_size s)) then (Inl Sd_Invalid_Position, s)
        else (Inr (nat target), s\<lparr>sb_pos := nat target\<rparr>))"

subsection \<open>Bytes of a medium\<close>

definition byte_at :: "(nat \<Rightarrow> bytes) \<Rightarrow> nat \<Rightarrow> u8" where
  "byte_at c a = c (a div block_len) ! (a mod block_len)"

definition range_bytes :: "(nat \<Rightarrow> bytes) \<Rightarrow> nat \<Rightarrow> nat \<Rightarrow> bytes" where
  "range_bytes c a n = map (byte_at c) [a..<a + n]"

lemma length_range_bytes [simp, length_simps]: "length (range_bytes c a n) = n"
  by (simp add: range_bytes_def)

lemma range_bytes_append: "range_bytes c a (m + n) = range_bytes c a m @ range_bytes c (a + m) n"
  by (simp add: range_bytes_def upt_add_eq_append [of a "a + m" n] add.assoc [symmetric])

lemma block_len_pos [simp]: "0 < block_len"
  by (simp add: block_len_def)

lemma range_bytes_in_block:
  assumes "length (c i) = block_len" and "off + n \<le> block_len"
  shows "slice_of off n (c i) = range_bytes c (i * block_len + off) n"
proof (rule nth_equalityI)
  fix k
  assume "k < length (slice_of off n (c i))"
  with assms have k: "k < n" by simp
  with assms have "off + k < block_len" by simp
  then have "(i * block_len + (off + k)) div block_len = i"
    "(i * block_len + (off + k)) mod block_len = off + k" by simp_all
  with k assms show "slice_of off n (c i) ! k = range_bytes c (i * block_len + off) n ! k"
    by (simp add: range_bytes_def byte_at_def add.assoc)
qed (use assms in simp)

lemma range_bytes_block:
  "length (c i) = block_len \<Longrightarrow> range_bytes c (i * block_len) block_len = c i"
  using range_bytes_in_block [of c i 0 block_len] by (simp add: slice_of_def)

lemma concat_blocks:
  assumes "\<And>j. length (c j) = block_len"
  shows "concat (map c [i..<i + n]) = range_bytes c (i * block_len) (n * block_len)"
proof (induction n)
  case (Suc n)
  have "range_bytes c (i * block_len) (Suc n * block_len)
      = range_bytes c (i * block_len) (n * block_len + block_len)" by (simp add: add.commute)
  also have "\<dots> = range_bytes c (i * block_len) (n * block_len)
      @ range_bytes c ((i + n) * block_len) block_len"
    by (simp only: range_bytes_append add_mult_distrib)
  finally show ?case using Suc assms by (simp add: range_bytes_block)
qed (simp add: range_bytes_def)

subsection \<open>Reads\<close>

text \<open>The addresses of one transfer fit the 32-bit block index when the partition lies on a card
  that does.\<close>

lemma block_index_fits:
  assumes "start + n \<le> 2 ^ 32 * block_len" and "fin < n"
  shows "(start + fin) div block_len mod 4294967296 = (start + fin) div block_len"
proof -
  have "start + fin < 2 ^ 32 * block_len" using assms by simp
  then have "(start + fin) div block_len < 2 ^ 32" by (simp add: less_mult_imp_div_less)
  then show ?thesis by simp
qed

lemma read_progress:
  assumes "fin + k \<le> length buf"
  shows "length (splice_at fin (range_bytes c (start + fin) k) buf) = length buf"
    and "take (fin + k) (splice_at fin (range_bytes c (start + fin) k) buf)
        @ range_bytes c (start + (fin + k)) (length buf - (fin + k))
      = take fin buf @ range_bytes c (start + fin) (length buf - fin)"
proof -
  show "length (splice_at fin (range_bytes c (start + fin) k) buf) = length buf"
    using assms by simp
  have "length buf - fin = k + (length buf - (fin + k))" using assms by simp
  then have "range_bytes c (start + fin) (length buf - fin)
      = range_bytes c (start + fin) k @ range_bytes c (start + (fin + k)) (length buf - (fin + k))"
    by (simp only: range_bytes_append add.assoc)
  with assms show "take (fin + k) (splice_at fin (range_bytes c (start + fin) k) buf)
        @ range_bytes c (start + (fin + k)) (length buf - (fin + k))
      = take fin buf @ range_bytes c (start + fin) (length buf - fin)"
    by (simp add: splice_at_def)
qed

lemma aligned_run:
  assumes "device_contract ops content" and "a mod block_len = 0"
    and "dev_read ops dev (a div block_len) n = (Some bs, dev')"
  shows "concat bs = range_bytes (content dev) a (n * block_len)"
proof -
  have "a div block_len * block_len = a" using assms(2) div_mult_mod_eq [of a block_len] by simp
  then show ?thesis
    using contract_read_Some [OF assms(1,3)] concat_blocks [OF contract_length [OF assms(1)]]
    by simp
qed

lemma partial_block:
  assumes "device_contract ops content" and "a mod block_len + k \<le> block_len"
    and "read_card_block ops dev (a div block_len) = (Some b, dev')"
  shows "slice_of (a mod block_len) k b = range_bytes (content dev) a k"
proof -
  have "b = content dev (a div block_len)"
    using assms contract_read_Some [OF assms(1)]
    by (fastforce simp: read_card_block_def split: prod.splits option.splits)
  then show ?thesis
    using range_bytes_in_block [of "content dev" "a div block_len" "a mod block_len" k]
      contract_length [OF assms(1)] assms(2) by simp
qed

lemma read_card_block_fails: "read_card_block ops d i = (None, d') \<Longrightarrow> \<not> never_fails ops"
  by (auto simp: read_card_block_def dest: never_fails_read split: prod.splits option.splits)

lemma read_card_block_content:
  "device_contract ops content \<Longrightarrow> read_card_block ops dev i = (r, dev') \<Longrightarrow>
    content dev' = content dev \<and> dev_num_blocks ops dev' = dev_num_blocks ops dev"
  by (auto simp: read_card_block_def dest: contract_read split: prod.splits option.splits)

text \<open>One round of the read loop: it stops, or it fills \<open>k > 0\<close> more bytes with the medium's and
  goes on, or the device fails; the medium is never changed.\<close>

lemma sd_read_loop_step:
  assumes contract: "device_contract ops content"
    and fits: "start + length buf \<le> 2 ^ 32 * block_len" and more: "fin < length buf"
    and run: "sd_read_loop ops dev start fin buf = (ok, buf', dev')"
  obtains (failed) "\<not> ok" "\<not> never_fails ops" "buf' = buf" "content dev' = content dev"
      "dev_num_blocks ops dev' = dev_num_blocks ops dev"
  | (next_round) k dev1 where "0 < k" "fin + k \<le> length buf"
      "content dev1 = content dev" "dev_num_blocks ops dev1 = dev_num_blocks ops dev"
      "sd_read_loop ops dev1 start (fin + k)
        (splice_at fin (range_bytes (content dev) (start + fin) k) buf) = (ok, buf', dev')"
proof -
  let ?a = "start + fin"
  note index = block_index_fits [OF fits more]
  show thesis
  proof (cases "?a mod block_len = 0 \<and> block_len \<le> length buf - fin")
    case True
    define n where "n = min ((length buf - fin) div block_len) max_io_blocks"
    have "0 < n" using True by (simp add: n_def max_io_blocks_def div_greater_zero_iff)
    have "n * block_len \<le> (length buf - fin) div block_len * block_len" by (simp add: n_def)
    then have len: "n * block_len \<le> length buf - fin"
      by (rule order_trans) (rule div_times_less_eq_dividend)
    obtain r dev1 where r: "dev_read ops dev (?a div block_len) n = (r, dev1)" by force
    note same = contract_read [OF contract r]
    show thesis
    proof (cases r)
      case None
      with run True more r have "\<not> ok \<and> buf' = buf \<and> dev' = dev1"
        by (subst (asm) sd_read_loop.simps) (simp add: Let_def index n_def [symmetric])
      with same failed never_fails_read [OF r [unfolded None]] show thesis by simp
    next
      case (Some bs)
      note run_bytes = aligned_run [OF contract conjunct1 [OF True] r [unfolded Some]]
      have "sd_read_loop ops dev1 start (fin + n * block_len)
          (splice_at fin (range_bytes (content dev) ?a (n * block_len)) buf) = (ok, buf', dev')"
        using run True more r Some len
        by (subst (asm) sd_read_loop.simps) (simp add: Let_def index n_def [symmetric] run_bytes)
      with next_round [of "n * block_len" dev1] \<open>0 < n\<close> len same more show thesis by simp
    qed
  next
    case False
    define k where "k = min (length buf - fin) (block_len - ?a mod block_len)"
    have k: "0 < k" "fin + k \<le> length buf" "?a mod block_len + k \<le> block_len"
      using more mod_less_divisor [OF block_len_pos, of ?a] unfolding k_def by linarith+
    obtain r dev1 where r: "read_card_block ops dev (?a div block_len) = (r, dev1)" by force
    note same = read_card_block_content [OF contract r]
    show thesis
    proof (cases r)
      case None
      with run False more r have "\<not> ok \<and> buf' = buf \<and> dev' = dev1"
        by (subst (asm) sd_read_loop.simps) (simp add: Let_def index)
      with same failed read_card_block_fails [OF r [unfolded None]] show thesis by simp
    next
      case (Some b)
      note part = partial_block [OF contract k(3) r [unfolded Some]]
      have "sd_read_loop ops dev1 start (fin + k)
          (splice_at fin (range_bytes (content dev) ?a k) buf) = (ok, buf', dev')"
        using run False more r Some k(2)
        by (subst (asm) sd_read_loop.simps) (simp add: Let_def index k_def [symmetric] part)
      with next_round [of k dev1] k same show thesis by simp
    qed
  qed
qed

lemma sd_read_loop_correct:
  assumes contract: "device_contract ops content"
  shows "sd_read_loop ops dev start fin buf = (ok, buf', dev') \<Longrightarrow> fin \<le> length buf \<Longrightarrow>
    start + length buf \<le> 2 ^ 32 * block_len \<Longrightarrow>
    content dev' = content dev \<and> dev_num_blocks ops dev' = dev_num_blocks ops dev
    \<and> length buf' = length buf
    \<and> (never_fails ops \<longrightarrow> ok)
    \<and> (ok \<longrightarrow> buf' = take fin buf @ range_bytes (content dev) (start + fin) (length buf - fin))"
proof (induction "length buf - fin" arbitrary: dev fin buf rule: less_induct)
  case less
  show ?case
  proof (cases "length buf \<le> fin")
    case True
    with less.prems show ?thesis
      by (subst (asm) sd_read_loop.simps) (auto simp: range_bytes_def)
  next
    case False
    with less.prems have "fin < length buf" by simp
    from contract less.prems(3) this less.prems(1) show ?thesis
    proof (cases rule: sd_read_loop_step)
      case (next_round k dev1)
      then show ?thesis
        using less.hyps [OF _ next_round(5)] less.prems read_progress [OF next_round(2)]
        by simp
    qed simp
  qed
qed

subsection \<open>Writes\<close>

definition overwritten :: "(nat \<Rightarrow> bytes) \<Rightarrow> nat \<Rightarrow> bytes \<Rightarrow> (nat \<Rightarrow> bytes) \<Rightarrow> bool" where
  "overwritten c a bs c' \<longleftrightarrow>
    (\<forall>x. byte_at c' x = (if a \<le> x \<and> x < a + length bs then bs ! (x - a) else byte_at c x))"

lemma overwritten_Nil: "overwritten c a [] c"
  by (auto simp add: overwritten_def)

lemma overwritten_append:
  "overwritten c a xs c1 \<Longrightarrow> overwritten c1 (a + length xs) ys c2 \<Longrightarrow> overwritten c a (xs @ ys) c2"
  by (auto simp: overwritten_def nth_append)

lemma overwritten_range:
  assumes "overwritten c a bs c'"
  shows "range_bytes c' a (length bs) = bs"
    and "b + n \<le> a \<or> a + length bs \<le> b \<Longrightarrow> range_bytes c' b n = range_bytes c b n"
  using assms by (auto simp: overwritten_def range_bytes_def intro: nth_equalityI)

lemma nth_concat_uniform:
  "list_all (\<lambda>b. length b = L) bs \<Longrightarrow> k < length bs \<Longrightarrow> r < L \<Longrightarrow> concat bs ! (k * L + r) = bs ! k ! r"
proof (induction bs arbitrary: k)
  case (Cons b bs)
  then show ?case by (cases k) (auto simp: nth_append add.assoc)
qed simp

lemma length_concat_uniform: "list_all (\<lambda>b. length b = L) bs \<Longrightarrow> length (concat bs) = length bs * L"
  by (induction bs) auto

lemma chunks_uniform:
  assumes "0 < n"
  shows "length xs = m * n \<Longrightarrow> list_all (\<lambda>b. length b = n) (chunks n xs) \<and> length (chunks n xs) = m"
proof (induction m arbitrary: xs)
  case (Suc m)
  with assms have "xs \<noteq> []" by auto
  with assms Suc.IH [of "drop n xs"] Suc.prems show ?case by (simp add: chunks.simps [of n xs])
qed simp

lemma block_coordinates:
  obtains q r where "x = q * block_len + r" "r < block_len"
  using that [of "x div block_len" "x mod block_len"] by simp

lemma byte_at_coordinates: "r < block_len \<Longrightarrow> byte_at c (q * block_len + r) = c q ! r"
  by (simp add: byte_at_def)

lemma block_range_iff:
  assumes "r < block_len"
  shows "i * block_len \<le> q * block_len + r \<longleftrightarrow> i \<le> q"
    and "q * block_len + r < i * block_len \<longleftrightarrow> q < i"
proof -
  have q: "(q * block_len + r) div block_len = q" using assms by simp
  show "i * block_len \<le> q * block_len + r \<longleftrightarrow> i \<le> q"
    using less_eq_div_iff_mult_less_eq [of block_len i "q * block_len + r"] by (simp only: q block_len_pos)
  show "q * block_len + r < i * block_len \<longleftrightarrow> q < i"
    using div_less_iff_less_mult [of block_len "q * block_len + r" i] by (simp only: q block_len_pos)
qed

lemma dev_write_overwritten:
  assumes contract: "device_contract ops content" and w: "dev_write ops d i bs = (True, d')"
    and blocks: "list_all (\<lambda>b. length b = block_len) bs"
  shows "overwritten (content d) (i * block_len) (concat bs) (content d')"
  unfolding overwritten_def
proof
  fix x
  obtain q r where x: "x = q * block_len + r" and r: "r < block_len"
    using block_coordinates .
  have len: "i * block_len + length (concat bs) = (i + length bs) * block_len"
    using blocks by (simp add: length_concat_uniform add_mult_distrib)
  have range: "i * block_len \<le> x \<and> x < i * block_len + length (concat bs)
      \<longleftrightarrow> i \<le> q \<and> q < i + length bs"
    unfolding len x by (simp only: block_range_iff [OF r])
  show "byte_at (content d') x =
    (if i * block_len \<le> x \<and> x < i * block_len + length (concat bs)
     then concat bs ! (x - i * block_len) else byte_at (content d) x)"
  proof (cases "i \<le> q \<and> q < i + length bs")
    case True
    then have "x - i * block_len = (q - i) * block_len + r"
      by (simp add: x diff_mult_distrib)
    moreover have k: "q - i < length bs" using True by linarith
    then have "content d' q = bs ! (q - i)"
      using contract_write_inside [OF contract w blocks, of "q - i"] True by simp
    ultimately show ?thesis
      using True range r k by (simp add: nth_concat_uniform [OF blocks] x byte_at_coordinates)
  next
    case False
    then have "content d' q = content d q"
      by (intro contract_write_outside [OF contract w blocks]) auto
    with False r show ?thesis unfolding range by (auto simp: x byte_at_coordinates)
  qed
qed

text \<open>The read-modify-write of one block replaces only the bytes that were asked for.\<close>

lemma overwritten_splice:
  assumes o: "overwritten c (i * block_len) (splice_at off ys (c i)) c'"
    and len: "length (c i) = block_len" and fits: "off + length ys \<le> block_len"
  shows "overwritten c (i * block_len + off) ys c'"
  unfolding overwritten_def
proof
  fix x
  have block: "byte_at c (i * block_len + r) = c i ! r" if "r < block_len" for r
    using that by (rule byte_at_coordinates)
  have "byte_at c' x = (if i * block_len \<le> x \<and> x < i * block_len + block_len
      then splice_at off ys (c i) ! (x - i * block_len) else byte_at c x)"
    using o len fits by (simp add: overwritten_def)
  moreover have "splice_at off ys (c i) ! (x - i * block_len) =
      (if i * block_len + off \<le> x \<and> x < i * block_len + off + length ys
       then ys ! (x - (i * block_len + off)) else byte_at c x)"
    if "i * block_len \<le> x" "x < i * block_len + block_len"
  proof -
    define r where "r = x - i * block_len"
    then have x: "x = i * block_len + r" using that(1) by simp
    with that(2) have "r < block_len" by simp
    then show ?thesis
      using len fits by (simp add: x nth_splice_at block)
  qed
  ultimately show "byte_at c' x = (if i * block_len + off \<le> x \<and> x < i * block_len + off + length ys
       then ys ! (x - (i * block_len + off)) else byte_at c x)"
    using fits by auto
qed

lemma write_run_overwritten:
  assumes "device_contract ops content" and "a mod block_len = 0" and "length xs = n * block_len"
    and "dev_write ops d (a div block_len) (chunks block_len xs) = (True, d')"
  shows "overwritten (content d) a xs (content d')"
proof -
  have "a div block_len * block_len = a" using assms(2) div_mult_mod_eq [of a block_len] by simp
  then show ?thesis
    using dev_write_overwritten [OF assms(1,4)] chunks_uniform [OF block_len_pos assms(3)]
    by (simp add: concat_chunks)
qed

lemma write_block_overwritten:
  assumes contract: "device_contract ops content" and fits: "a mod block_len + length ys \<le> block_len"
    and r: "read_card_block ops d (a div block_len) = (Some b, d1)"
    and w: "write_card_block ops d1 (a div block_len) (splice_at (a mod block_len) ys b) = (True, d')"
  shows "overwritten (content d) a ys (content d')"
proof -
  have b: "b = content d (a div block_len)" and same: "content d1 = content d"
    using r contract_read_Some [OF contract] contract_read [OF contract]
    by (fastforce simp: read_card_block_def split: prod.splits option.splits)+
  have len: "length (content d (a div block_len)) = block_len" by (rule contract_length [OF contract])
  have blocks: "list_all (\<lambda>b. length b = block_len) [splice_at (a mod block_len) ys b]"
    using len fits by (simp add: b)
  have "overwritten (content d) (a div block_len * block_len + a mod block_len) ys (content d')"
    using dev_write_overwritten [OF contract w [unfolded write_card_block_def] blocks] len fits same
    by (intro overwritten_splice) (simp_all add: b)
  then show ?thesis by simp
qed

text \<open>The blocks of a medium that a byte range does not meet.\<close>

definition blocks_kept :: "(nat \<Rightarrow> bytes) \<Rightarrow> nat \<Rightarrow> nat \<Rightarrow> (nat \<Rightarrow> bytes) \<Rightarrow> bool" where
  "blocks_kept c a n c' \<longleftrightarrow>
    (\<forall>j. (j + 1) * block_len \<le> a \<or> a + n \<le> j * block_len \<longrightarrow> c' j = c j)"

lemma blocks_kept_refl: "blocks_kept c a n c"
  by (simp add: blocks_kept_def)

lemma blocks_kept_trans: "blocks_kept c a n c1 \<Longrightarrow> blocks_kept c1 a n c2 \<Longrightarrow> blocks_kept c a n c2"
  by (simp add: blocks_kept_def)

lemma dev_write_kept:
  assumes "device_contract ops content" and "dev_write ops d i bs = (ok, d')"
    and "list_all (\<lambda>b. length b = block_len) bs"
    and "a < (i + 1) * block_len" and "(i + length bs) * block_len < a + n + block_len"
  shows "blocks_kept (content d) a n (content d')"
  unfolding blocks_kept_def
proof (intro allI impI)
  fix j
  assume j: "(j + 1) * block_len \<le> a \<or> a + n \<le> j * block_len"
  have "j < i \<or> i + length bs \<le> j"
  proof (rule disjE [OF j])
    assume "(j + 1) * block_len \<le> a"
    then have "(j + 1) * block_len < (i + 1) * block_len" using assms(4) by (rule le_less_trans)
    then have "j + 1 < i + 1" by (rule mult_less_cancel2 [THEN iffD1, THEN conjunct2])
    then show ?thesis by simp
  next
    assume "a + n \<le> j * block_len"
    with assms(5) have "(i + length bs) * block_len < (j + 1) * block_len" by simp
    then have "i + length bs < j + 1" by (rule mult_less_cancel2 [THEN iffD1, THEN conjunct2])
    then show ?thesis by simp
  qed
  then show "content d' j = content d j"
    by (intro contract_write_outside [OF assms(1-3)])
qed

text \<open>One round of the loop: it fails on an error of the device, or the next bytes are written and the loop
  goes on behind them.\<close>

definition write_round ::
  "'d device_ops \<Rightarrow> ('d \<Rightarrow> nat \<Rightarrow> bytes) \<Rightarrow> 'd \<Rightarrow> nat \<Rightarrow> nat \<Rightarrow> bytes \<Rightarrow> bool \<Rightarrow> 'd \<Rightarrow> bool" where
  "write_round ops content dev start fin buf ok dev' \<longleftrightarrow>
    \<not> ok \<and> \<not> never_fails ops \<and> blocks_kept (content dev) start (length buf) (content dev')
      \<and> dev_num_blocks ops dev' = dev_num_blocks ops dev
    \<or> (\<exists>k dev1. 0 < k \<and> fin + k \<le> length buf
      \<and> overwritten (content dev) (start + fin) (slice_of fin k buf) (content dev1)
      \<and> blocks_kept (content dev) start (length buf) (content dev1)
      \<and> dev_num_blocks ops dev1 = dev_num_blocks ops dev
      \<and> sd_write_loop ops dev1 start (fin + k) buf = (ok, dev'))"

lemma write_roundI:
  "\<not> ok \<Longrightarrow> \<not> never_fails ops \<Longrightarrow> blocks_kept (content dev) start (length buf) (content dev') \<Longrightarrow>
    dev_num_blocks ops dev' = dev_num_blocks ops dev \<Longrightarrow> write_round ops content dev start fin buf ok dev'"
  "0 < k \<Longrightarrow> fin + k \<le> length buf \<Longrightarrow>
    overwritten (content dev) (start + fin) (slice_of fin k buf) (content dev1) \<Longrightarrow>
    blocks_kept (content dev) start (length buf) (content dev1) \<Longrightarrow>
    dev_num_blocks ops dev1 = dev_num_blocks ops dev \<Longrightarrow>
    sd_write_loop ops dev1 start (fin + k) buf = (ok, dev') \<Longrightarrow> write_round ops content dev start fin buf ok dev'"
  unfolding write_round_def by blast+

lemma block_of_write_above: "start < ((start + fin) div block_len + 1) * block_len"
  by (rule le_less_trans [OF le_add1 [of start fin]])
    (use dividend_less_div_times [OF block_len_pos, of "start + fin"] in simp)

text \<open>Whole blocks, as many as one command takes.\<close>

lemma aligned_write_round:
  assumes contract: "device_contract ops content"
    and fits: "start + length buf \<le> 2 ^ 32 * block_len" and more: "fin < length buf"
    and run: "sd_write_loop ops dev start fin buf = (ok, dev')"
    and aligned: "(start + fin) mod block_len = 0" "block_len \<le> length buf - fin"
  shows "write_round ops content dev start fin buf ok dev'"
proof -
  let ?a = "start + fin"
  let ?i = "?a div block_len"
  note index = block_index_fits [OF fits more]
  define n where "n = min ((length buf - fin) div block_len) max_io_blocks"
  have "0 < n" using aligned by (simp add: n_def max_io_blocks_def div_greater_zero_iff)
  have "n * block_len \<le> (length buf - fin) div block_len * block_len" by (simp add: n_def)
  then have len: "n * block_len \<le> length buf - fin"
    by (rule order_trans) (rule div_times_less_eq_dividend)
  define xs where "xs = slice_of fin (n * block_len) buf"
  have xs: "length xs = n * block_len" using len more by (simp add: xs_def)
  note uniform = chunks_uniform [OF block_len_pos xs]
  have "?i * block_len = ?a" using aligned div_mult_mod_eq [of ?a block_len] by simp
  then have "(?i + length (chunks block_len xs)) * block_len < start + length buf + block_len"
    using uniform len more by (simp add: add_mult_distrib block_len_def)
  note kept = dev_write_kept [OF contract _ conjunct1 [OF uniform] block_of_write_above this]
  obtain r dev1 where r: "dev_write ops dev ?i (chunks block_len xs) = (r, dev1)" by force
  note count = contract_write_count [OF contract r conjunct1 [OF uniform]]
  show ?thesis
  proof (cases r)
    case False
    with run aligned more r have "\<not> ok \<and> dev' = dev1"
      by (subst (asm) sd_write_loop.simps) (simp add: Let_def index n_def [symmetric] xs_def [symmetric])
    moreover have "\<not> never_fails ops" using False r by (auto dest: never_fails_write)
    ultimately show ?thesis using kept [OF r] count by (simp add: write_roundI(1))
  next
    case ok: True
    have "sd_write_loop ops dev1 start (fin + n * block_len) buf = (ok, dev')"
      using run aligned more r ok
      by (subst (asm) sd_write_loop.simps) (simp add: Let_def index n_def [symmetric] xs_def [symmetric])
    with write_roundI(2) [of "n * block_len" fin buf content dev start dev1] \<open>0 < n\<close> len more kept [OF r] count
      write_run_overwritten [OF contract aligned(1) xs r [unfolded eqTrueI [OF ok]]]
    show ?thesis by (simp add: xs_def)
  qed
qed

text \<open>Part of a block, which is read, changed and written back.\<close>

lemma partial_write_round:
  assumes contract: "device_contract ops content"
    and fits: "start + length buf \<le> 2 ^ 32 * block_len" and more: "fin < length buf"
    and run: "sd_write_loop ops dev start fin buf = (ok, dev')"
    and partial: "\<not> ((start + fin) mod block_len = 0 \<and> block_len \<le> length buf - fin)"
  shows "write_round ops content dev start fin buf ok dev'"
proof -
  let ?a = "start + fin"
  let ?i = "?a div block_len"
  note index = block_index_fits [OF fits more]
  define k where "k = min (length buf - fin) (block_len - ?a mod block_len)"
  have k: "0 < k" "fin + k \<le> length buf" "?a mod block_len + k \<le> block_len"
    using more mod_less_divisor [OF block_len_pos, of ?a] unfolding k_def by linarith+
  define ys where "ys = slice_of fin k buf"
  have ys: "length ys = k" using k by (simp add: ys_def)
  obtain r dev1 where r: "read_card_block ops dev ?i = (r, dev1)" by force
  note same = read_card_block_content [OF contract r]
  show ?thesis
  proof (cases r)
    case None
    with run partial more r have "\<not> ok \<and> dev' = dev1"
      by (subst (asm) sd_write_loop.simps) (simp add: Let_def index)
    with same blocks_kept_refl read_card_block_fails [OF r [unfolded None]]
    show ?thesis by (metis write_roundI(1))
  next
    case (Some b)
    define b' where "b' = splice_at (?a mod block_len) ys b"
    have "b = content dev ?i"
      using r Some contract_read_Some [OF contract]
      by (fastforce simp: read_card_block_def split: prod.splits option.splits)
    then have blocks: "list_all (\<lambda>b. length b = block_len) [b']"
      using k ys contract_length [OF contract] by (simp add: b'_def)
    have "?i * block_len < start + length buf"
      by (rule le_less_trans [OF div_times_less_eq_dividend]) (use more in simp)
    then have "(?i + length [b']) * block_len < start + length buf + block_len" by simp
    note kept = dev_write_kept [OF contract _ blocks block_of_write_above this]
    obtain w dev2 where w: "write_card_block ops dev1 ?i b' = (w, dev2)" by force
    note count = contract_write_count [OF contract w [unfolded write_card_block_def] blocks]
    note kept = kept [OF w [unfolded write_card_block_def]]
    have next_run: "(if w then sd_write_loop ops dev2 start (fin + k) buf else (False, dev2)) = (ok, dev')"
      using run partial more r Some w
      by (subst (asm) sd_write_loop.simps)
        (simp add: Let_def index k_def [symmetric] ys_def [symmetric] b'_def [symmetric] split: bool.splits)
    show ?thesis
    proof (cases w)
      case False
      with w have "\<not> never_fails ops" by (auto simp: write_card_block_def dest: never_fails_write)
      with False next_run kept count same show ?thesis by (simp add: write_roundI(1))
    next
      case ok: True
      have "overwritten (content dev) ?a ys (content dev2)"
        using write_block_overwritten [OF contract _ r [unfolded Some]] w ok k ys by (simp add: b'_def)
      with write_roundI(2) [of k fin buf content dev start dev2] next_run ok kept count same k
      show ?thesis by (simp add: ys_def)
    qed
  qed
qed

lemmas write_round_cases = aligned_write_round partial_write_round

lemma sd_write_loop_correct:
  assumes contract: "device_contract ops content"
  shows "sd_write_loop ops dev start fin buf = (ok, dev') \<Longrightarrow> fin \<le> length buf \<Longrightarrow>
    start + length buf \<le> 2 ^ 32 * block_len \<Longrightarrow>
    dev_num_blocks ops dev' = dev_num_blocks ops dev
    \<and> blocks_kept (content dev) start (length buf) (content dev')
    \<and> (never_fails ops \<longrightarrow> ok)
    \<and> (ok \<longrightarrow> overwritten (content dev) (start + fin) (drop fin buf) (content dev'))"
proof (induction "length buf - fin" arbitrary: dev fin rule: less_induct)
  case less
  show ?case
  proof (cases "length buf \<le> fin")
    case True
    with less.prems show ?thesis
      by (subst (asm) sd_write_loop.simps) (auto simp: overwritten_Nil blocks_kept_refl)
  next
    case False
    then have more: "fin < length buf" by simp
    have "write_round ops content dev start fin buf ok dev'"
      using write_round_cases [OF contract less.prems(3) more less.prems(1)] by argo
    then consider "\<not> ok" "\<not> never_fails ops" "blocks_kept (content dev) start (length buf) (content dev')"
        "dev_num_blocks ops dev' = dev_num_blocks ops dev"
      | (next_round) k dev1 where "0 < k" "fin + k \<le> length buf"
        "overwritten (content dev) (start + fin) (slice_of fin k buf) (content dev1)"
        "blocks_kept (content dev) start (length buf) (content dev1)"
        "dev_num_blocks ops dev1 = dev_num_blocks ops dev"
        "sd_write_loop ops dev1 start (fin + k) buf = (ok, dev')"
      unfolding write_round_def by blast
    then show ?thesis
    proof cases
      case (next_round k dev1)
      have "slice_of fin k buf @ drop (fin + k) buf = drop fin buf"
        using append_take_drop_id [of k "drop fin buf"] by (simp add: slice_of_def add.commute)
      moreover have "length (slice_of fin k buf) = k" using next_round(2) by simp
      ultimately show ?thesis
        using less.hyps [OF _ next_round(6)] less.prems next_round more
          overwritten_append [OF next_round(3), of "drop (fin + k) buf" "content dev'"]
          blocks_kept_trans [OF next_round(4)] by (simp add: add.assoc)
    qed simp
  qed
qed

subsection \<open>The partition\<close>

text \<open>The mounted adapter: the partition starts on a block, lies on a card whose block count
  fits 32 bits, and the position stays inside.\<close>

definition sd_wf :: "'d device_ops \<Rightarrow> 'd sd_block_device \<Rightarrow> bool" where
  "sd_wf ops s \<longleftrightarrow> sb_base s mod block_len = 0 \<and> sb_size s mod block_len = 0
    \<and> (\<exists>n. dev_num_blocks ops (sb_card s) = Some n \<and> n \<le> u32_max
         \<and> sb_base s + sb_size s \<le> n * block_len)
    \<and> sb_pos s \<le> sb_size s"

definition partition_bytes :: "('d \<Rightarrow> nat \<Rightarrow> bytes) \<Rightarrow> 'd sd_block_device \<Rightarrow> bytes" where
  "partition_bytes content s = range_bytes (content (sb_card s)) (sb_base s) (sb_size s)"

lemma sd_wf_fits: "sd_wf ops s \<Longrightarrow> sb_base s + sb_size s \<le> 2 ^ 32 * block_len"
  by (auto simp: sd_wf_def block_len_def)

lemma length_partition_bytes [simp]: "length (partition_bytes content s) = sb_size s"
  by (simp add: partition_bytes_def)

lemma slice_range_bytes: "k + n \<le> m \<Longrightarrow> slice_of k n (range_bytes c a m) = range_bytes c (a + k) n"
  by (simp add: slice_of_def range_bytes_def drop_map take_map add.assoc)

lemma overwritten_slice:
  assumes "overwritten c (a + k) bs c'" and "k + length bs \<le> m"
  shows "range_bytes c' a m = splice_at k bs (range_bytes c a m)"
proof (rule nth_equalityI)
  fix i
  assume "i < length (range_bytes c' a m)"
  then have i: "i < m" by simp
  then have "range_bytes c' a m ! i = byte_at c' (a + i)" "range_bytes c a m ! i = byte_at c (a + i)"
    by (simp_all add: range_bytes_def)
  with assms i show "range_bytes c' a m ! i = splice_at k bs (range_bytes c a m) ! i"
    by (auto simp: nth_splice_at overwritten_def)
qed (use assms in simp)

lemma check_range_None:
  "sb_size s < 2 ^ 63 \<Longrightarrow> check_range s n = None \<longleftrightarrow> sb_pos s + n \<le> sb_size s"
  by (auto simp: check_range_def checked_add_def)

lemma sd_wf_size: "sd_wf ops s \<Longrightarrow> sb_size s < 2 ^ 63"
  by (auto simp: sd_wf_def block_len_def)

lemma sd_read_spec:
  assumes contract: "device_contract ops content" and wf: "sd_wf ops s"
    and run: "sd_read ops s buf = (r, buf', s')"
  shows "sd_wf ops s'" "partition_bytes content s' = partition_bytes content s"
    "content (sb_card s') = content (sb_card s)" "length buf' = length buf"
    "r = Inr n \<Longrightarrow> n = length buf \<and> sb_pos s' = sb_pos s + length buf
       \<and> buf' = slice_of (sb_pos s) (length buf) (partition_bytes content s)"
    "r = Inl e \<Longrightarrow> sb_pos s' = sb_pos s"
    "r = Inl e \<Longrightarrow> never_fails ops \<Longrightarrow> buf \<noteq> [] \<and> sb_size s < sb_pos s + length buf"
proof -
  have "sd_wf ops s' \<and> partition_bytes content s' = partition_bytes content s
    \<and> content (sb_card s') = content (sb_card s) \<and> length buf' = length buf
    \<and> (\<forall>n. r = Inr n \<longrightarrow> n = length buf \<and> sb_pos s' = sb_pos s + length buf
         \<and> buf' = slice_of (sb_pos s) (length buf) (partition_bytes content s))
    \<and> (\<forall>e. r = Inl e \<longrightarrow> sb_pos s' = sb_pos s
         \<and> (never_fails ops \<longrightarrow> buf \<noteq> [] \<and> sb_size s < sb_pos s + length buf))"
  proof (cases "buf = [] \<or> check_range s (length buf) \<noteq> None")
    case True
    with run wf check_range_None [OF sd_wf_size [OF wf], of "length buf"] show ?thesis
      by (auto simp: sd_read_def slice_of_def split: if_splits option.splits)
  next
    case False
    with sd_wf_size [OF wf] have inside: "sb_pos s + length buf \<le> sb_size s"
      by (simp add: check_range_None)
    obtain ok b dev' where loop:
      "sd_read_loop ops (sb_card s) (sb_base s + sb_pos s) 0 buf = (ok, b, dev')"
      by (cases "sd_read_loop ops (sb_card s) (sb_base s + sb_pos s) 0 buf") auto
    have "sb_base s + sb_pos s + length buf \<le> 2 ^ 32 * block_len"
      using inside sd_wf_fits [OF wf] by simp
    from sd_read_loop_correct [OF contract loop _ this]
    have ok: "never_fails ops \<Longrightarrow> ok" and same: "content dev' = content (sb_card s)"
      "dev_num_blocks ops dev' = dev_num_blocks ops (sb_card s)" "length b = length buf"
      and bytes: "ok \<Longrightarrow> b = slice_of (sb_pos s) (length buf) (partition_bytes content s)"
      using inside by (auto simp: partition_bytes_def slice_range_bytes)
    show ?thesis
    proof (cases ok)
      case True
      with run False loop have "r = Inr (length b)" "buf' = b"
        "s' = s\<lparr>sb_card := dev', sb_pos := sb_pos s + length b\<rparr>"
        by (auto simp: sd_read_def)
      with same bytes [OF True] inside wf show ?thesis by (simp add: sd_wf_def partition_bytes_def)
    next
      case failed: False
      with run False loop have "r = Inl Sd_Device" "buf' = b" "s' = s\<lparr>sb_card := dev'\<rparr>"
        by (auto simp: sd_read_def)
      with same wf ok failed show ?thesis by (auto simp: sd_wf_def partition_bytes_def)
    qed
  qed
  then show "sd_wf ops s'" "partition_bytes content s' = partition_bytes content s"
    "content (sb_card s') = content (sb_card s)" "length buf' = length buf"
    "r = Inr n \<Longrightarrow> n = length buf \<and> sb_pos s' = sb_pos s + length buf
       \<and> buf' = slice_of (sb_pos s) (length buf) (partition_bytes content s)"
    "r = Inl e \<Longrightarrow> sb_pos s' = sb_pos s"
    "r = Inl e \<Longrightarrow> never_fails ops \<Longrightarrow> buf \<noteq> [] \<and> sb_size s < sb_pos s + length buf" by simp_all
qed

lemma sd_write_spec:
  assumes contract: "device_contract ops content" and wf: "sd_wf ops s"
    and run: "sd_write ops s buf = (r, s')"
  shows "sd_wf ops s'"
    "blocks_kept (content (sb_card s)) (sb_base s + sb_pos s) (length buf) (content (sb_card s'))"
    "r = Inr n \<Longrightarrow> n = length buf \<and> sb_pos s' = sb_pos s + length buf
       \<and> sb_pos s + length buf \<le> sb_size s
       \<and> partition_bytes content s' = splice_at (sb_pos s) buf (partition_bytes content s)"
    "r = Inl e \<Longrightarrow> sb_pos s' = sb_pos s"
    "r = Inl e \<Longrightarrow> never_fails ops \<Longrightarrow> buf \<noteq> [] \<and> sb_size s < sb_pos s + length buf"
    "sb_base s' = sb_base s \<and> sb_size s' = sb_size s"
proof -
  let ?kept = "blocks_kept (content (sb_card s)) (sb_base s + sb_pos s) (length buf) (content (sb_card s'))"
  have "sd_wf ops s' \<and> ?kept \<and> sb_base s' = sb_base s \<and> sb_size s' = sb_size s
    \<and> (\<forall>n. r = Inr n \<longrightarrow> n = length buf \<and> sb_pos s' = sb_pos s + length buf
         \<and> sb_pos s + length buf \<le> sb_size s
         \<and> partition_bytes content s' = splice_at (sb_pos s) buf (partition_bytes content s))
    \<and> (\<forall>e. r = Inl e \<longrightarrow> sb_pos s' = sb_pos s
         \<and> (never_fails ops \<longrightarrow> buf \<noteq> [] \<and> sb_size s < sb_pos s + length buf))"
  proof (cases "buf = [] \<or> check_range s (length buf) \<noteq> None")
    case True
    with run wf check_range_None [OF sd_wf_size [OF wf], of "length buf"] show ?thesis
      by (auto simp: sd_write_def sd_wf_def blocks_kept_refl split: if_splits option.splits)
  next
    case False
    then have inside: "sb_pos s + length buf \<le> sb_size s"
      by (simp add: check_range_None [OF sd_wf_size [OF wf]])
    obtain ok dev' where loop:
      "sd_write_loop ops (sb_card s) (sb_base s + sb_pos s) 0 buf = (ok, dev')" by force
    have "sb_base s + sb_pos s + length buf \<le> 2 ^ 32 * block_len"
      using inside sd_wf_fits [OF wf] by simp
    note outcome = sd_write_loop_correct [OF contract loop _ this]
    have kept: "blocks_kept (content (sb_card s)) (sb_base s + sb_pos s) (length buf) (content dev')"
      and same: "dev_num_blocks ops dev' = dev_num_blocks ops (sb_card s)" "never_fails ops \<Longrightarrow> ok"
      using outcome by simp_all
    show ?thesis
    proof (cases ok)
      case True
      with run False loop have r: "r = Inr (length buf)"
        "s' = s\<lparr>sb_card := dev', sb_pos := sb_pos s + length buf\<rparr>"
        by (auto simp: sd_write_def)
      have "range_bytes (content dev') (sb_base s) (sb_size s)
          = splice_at (sb_pos s) buf (range_bytes (content (sb_card s)) (sb_base s) (sb_size s))"
        using outcome True inside by (intro overwritten_slice) simp_all
      with r same kept inside wf show ?thesis by (simp add: sd_wf_def partition_bytes_def)
    next
      case failed: False
      with run False loop have "r = Inl Sd_Device" "s' = s\<lparr>sb_card := dev'\<rparr>"
        by (auto simp: sd_write_def)
      with same kept wf failed show ?thesis by (auto simp: sd_wf_def)
    qed
  qed
  then show "sd_wf ops s'" ?kept
    "r = Inr n \<Longrightarrow> n = length buf \<and> sb_pos s' = sb_pos s + length buf
       \<and> sb_pos s + length buf \<le> sb_size s
       \<and> partition_bytes content s' = splice_at (sb_pos s) buf (partition_bytes content s)"
    "r = Inl e \<Longrightarrow> sb_pos s' = sb_pos s"
    "r = Inl e \<Longrightarrow> never_fails ops \<Longrightarrow> buf \<noteq> [] \<and> sb_size s < sb_pos s + length buf"
    "sb_base s' = sb_base s \<and> sb_size s' = sb_size s" by simp_all
qed

lemma sd_seek_spec:
  assumes "sd_wf ops s" and "sd_seek s p = (r, s')"
  shows "sd_wf ops s'" "partition_bytes content s' = partition_bytes content s"
    "r = Inr n \<Longrightarrow> n \<le> sb_size s \<and> sb_pos s' = n" "r = Inl e \<Longrightarrow> s' = s"
  using assms by (auto simp: sd_seek_def sd_wf_def partition_bytes_def Let_def split: if_splits)

subsection \<open>Mounting\<close>

definition usable_entry :: "bytes \<Rightarrow> nat \<Rightarrow> bool" where
  "usable_entry mbr k \<longleftrightarrow> slice_of (mbr_partition_table + k * 16) 16 mbr ! 4 \<noteq> 0
    \<and> of_le (slice_of 12 4 (slice_of (mbr_partition_table + k * 16) 16 mbr)) \<noteq> 0"

definition entry_range :: "bytes \<Rightarrow> nat \<Rightarrow> nat \<times> nat" where
  "entry_range mbr k = (let entry = slice_of (mbr_partition_table + k * 16) 16 mbr in
     (of_le (slice_of 8 4 entry) * block_len, of_le (slice_of 12 4 entry) * block_len))"

lemma find_partition_eq:
  "find_partition mbr ks = map_option (entry_range mbr) (List.find (usable_entry mbr) ks)"
  by (induction ks) (auto simp: Let_def usable_entry_def entry_range_def)

lemma sd_mount_eq:
  assumes contract: "device_contract ops content"
  shows "sd_mount ops dev =
    (case dev_read ops dev 0 1 of (r, dev') \<Rightarrow>
       if r = None then Inl Sd_Device
       else if content dev 0 ! 0x1FE \<noteq> 0x55 \<or> content dev 0 ! 0x1FF \<noteq> 0xAA then Inl Sd_No_Partition
       else (case List.find (usable_entry (content dev 0)) [0, 1, 2, 3] of
         None \<Rightarrow> Inl Sd_No_Partition
       | Some k \<Rightarrow>
          (case dev_num_blocks ops dev of
             None \<Rightarrow> Inl Sd_Device
           | Some n \<Rightarrow>
              (let (base, sz) = entry_range (content dev 0) k in
               if n * block_len < base + sz then Inl Sd_Out_Of_Range
               else Inr \<lparr>sb_card = dev', sb_base = base, sb_size = sz, sb_pos = 0\<rparr>))))"
proof -
  obtain r dev' where r: "dev_read ops dev 0 1 = (r, dev')" by force
  then have "dev_num_blocks ops dev' = dev_num_blocks ops dev"
    using contract_read [OF contract r] by simp
  moreover have "r = Some mbr \<Longrightarrow> mbr ! 0 = content dev 0" for mbr
    using contract_read_Some [OF contract, of dev 0 1 mbr dev'] r by simp
  ultimately show ?thesis
    using r by (cases r)
      (auto simp: sd_mount_def find_partition_eq mbr_signature_def Let_def split: option.splits prod.splits)
qed

lemma sd_mount_wf:
  assumes contract: "device_contract ops content" and run: "sd_mount ops dev = Inr s"
  shows "sd_wf ops s" "sb_pos s = 0" "content (sb_card s) = content dev"
    "\<exists>k < 4. usable_entry (content dev 0) k \<and> (\<forall>j < k. \<not> usable_entry (content dev 0) j)
       \<and> (sb_base s, sb_size s) = entry_range (content dev 0) k"
proof -
  obtain r dev' where r: "dev_read ops dev 0 1 = (r, dev')" by force
  from run r obtain k n where k: "List.find (usable_entry (content dev 0)) [0, 1, 2, 3] = Some k"
    and n: "dev_num_blocks ops dev = Some n"
    and range: "entry_range (content dev 0) k = (sb_base s, sb_size s)"
    and fits: "sb_base s + sb_size s \<le> n * block_len"
    and s: "sb_card s = dev'" "sb_pos s = 0"
    by (auto simp: sd_mount_eq [OF contract] Let_def split: if_splits option.splits prod.splits)
  note same = contract_read [OF contract r]
  show "content (sb_card s) = content dev" "sb_pos s = 0" using same s by simp_all
  have "sb_base s mod block_len = 0" "sb_size s mod block_len = 0"
    using range unfolding entry_range_def Let_def by (metis Pair_inject mod_mult_self2_is_0)+
  then show "sd_wf ops s"
    using n fits s same contract_count [OF contract n] by (simp add: sd_wf_def)
  show "\<exists>k < 4. usable_entry (content dev 0) k \<and> (\<forall>j < k. \<not> usable_entry (content dev 0) j)
       \<and> (sb_base s, sb_size s) = entry_range (content dev 0) k"
    using k range by (intro exI [of _ k])
      (auto simp: less_Suc_eq numeral_eq_Suc split: if_splits)
qed

subsection \<open>The interface: a seekable byte store\<close>

text \<open>What \<open>hadris-fat\<close> may rely on when it sits on an adapter: the store behaves as one byte
  list, read and overwritten in place at a position.\<close>

locale byte_store =
  fixes st_read :: "'s \<Rightarrow> nat \<Rightarrow> bytes option \<times> 's"
    and st_write :: "'s \<Rightarrow> bytes \<Rightarrow> bool \<times> 's"
    and st_seek :: "'s \<Rightarrow> nat \<Rightarrow> bool \<times> 's"
    and view :: "'s \<Rightarrow> bytes"
    and position :: "'s \<Rightarrow> nat"
    and usable :: "'s \<Rightarrow> bool"
  assumes read_keeps: "usable s \<Longrightarrow> st_read s n = (r, s') \<Longrightarrow> usable s' \<and> view s' = view s"
    and read_law: "usable s \<Longrightarrow> st_read s n = (Some bs, s') \<Longrightarrow>
      bs = slice_of (position s) n (view s) \<and> position s' = position s + n"
    and write_law: "usable s \<Longrightarrow> st_write s bs = (True, s') \<Longrightarrow>
      usable s' \<and> position s + length bs \<le> length (view s)
      \<and> view s' = splice_at (position s) bs (view s) \<and> position s' = position s + length bs"
    and seek_law: "usable s \<Longrightarrow> st_seek s p = (ok, s') \<Longrightarrow>
      usable s' \<and> view s' = view s \<and> (ok \<longrightarrow> position s' = p)"
begin

lemma write_seek_read:
  assumes "usable s" "st_write s bs = (True, s1)" "st_seek s1 (position s) = (True, s2)"
    and "st_read s2 (length bs) = (Some r, s3)"
  shows "r = bs \<and> view s3 = splice_at (position s) bs (view s)"
proof -
  note w = write_law [OF assms(1,2)]
  note k = seek_law [OF conjunct1 [OF w] assms(3)]
  note r = read_law [OF conjunct1 [OF k] assms(4)] read_keeps [OF conjunct1 [OF k] assms(4)]
  show ?thesis
    using w k r take_drop_splice_at [of "position s" bs "view s"] by (simp add: slice_of_def)
qed

lemma consecutive_writes:
  assumes "usable s" "st_write s xs = (True, s1)" "st_write s1 ys = (True, s2)"
  shows "view s2 = splice_at (position s) (xs @ ys) (view s)"
proof -
  note w1 = write_law [OF assms(1,2)]
  note w2 = write_law [OF conjunct1 [OF w1] assms(3)]
  show ?thesis
    using w1 w2 splice_at_splice_at [of "position s" xs ys "view s"] by simp
qed

lemma untouched_bytes:
  assumes "usable s" "st_write s bs = (True, s1)" "i < length (view s)"
    and "i < position s \<or> position s + length bs \<le> i"
  shows "view s1 ! i = view s ! i"
  using write_law [OF assms(1,2)] assms(3,4) by (auto simp: nth_splice_at)

end

definition sd_read_bytes :: "'d device_ops \<Rightarrow> 'd sd_block_device \<Rightarrow> nat \<Rightarrow> bytes option \<times> 'd sd_block_device" where
  "sd_read_bytes ops s n =
    (case sd_read ops s (replicate n 0) of
       (Inl e, buf, s') \<Rightarrow> (None, s')
     | (Inr k, buf, s') \<Rightarrow> (Some buf, s'))"

definition sd_write_bytes :: "'d device_ops \<Rightarrow> 'd sd_block_device \<Rightarrow> bytes \<Rightarrow> bool \<times> 'd sd_block_device" where
  "sd_write_bytes ops s bs = (case sd_write ops s bs of (r, s') \<Rightarrow> (\<not> isl r, s'))"

definition sd_seek_start :: "'d sd_block_device \<Rightarrow> nat \<Rightarrow> bool \<times> 'd sd_block_device" where
  "sd_seek_start s p = (case sd_seek s (Seek_Start p) of (r, s') \<Rightarrow> (\<not> isl r, s'))"

interpretation sd: byte_store "sd_read_bytes ops" "sd_write_bytes ops" sd_seek_start
    "partition_bytes content" sb_pos "\<lambda>s. device_contract ops content \<and> sd_wf ops s"
  for ops :: "'d device_ops" and content :: "'d \<Rightarrow> nat \<Rightarrow> bytes"
proof (unfold_locales, goal_cases)
  case (1 s n r s')
  then show ?case
    using sd_read_spec(1,2) [of ops content s "replicate n 0"]
    by (auto simp: sd_read_bytes_def split: prod.splits sum.splits)
next
  case (2 s n bs s')
  then show ?case
    using sd_read_spec(5) [of ops content s "replicate n 0"]
    by (fastforce simp: sd_read_bytes_def split: prod.splits sum.splits)
next
  case (3 s bs s')
  then obtain n where n: "sd_write ops s bs = (Inr n, s')"
    by (auto simp: sd_write_bytes_def isl_def split: prod.splits sum.splits) (metis sum.exhaust)
  then show ?case
    using 3 sd_write_spec(1) [OF _ _ n, of content] sd_write_spec(3) [OF _ _ n, of content] by simp
next
  case (4 s p ok s')
  then obtain r where r: "sd_seek s (Seek_Start p) = (r, s')" "ok = (\<not> isl r)"
    by (auto simp: sd_seek_start_def split: prod.splits)
  show ?case
    using 4 r sd_seek_spec(1,2) [OF _ r(1)]
    by (auto simp: sd_seek_def Let_def split: if_splits)
qed

subsection \<open>A device in memory\<close>

text \<open>A concrete block device of \<open>count\<close> blocks that meets the contract.\<close>

definition ram_content :: "(nat \<Rightarrow> bytes) \<Rightarrow> nat \<Rightarrow> bytes" where
  "ram_content d i = take block_len (d i @ replicate block_len 0)"

definition ram_ops :: "nat \<Rightarrow> (nat \<Rightarrow> bytes) device_ops" where
  "ram_ops count =
    \<lparr>dev_read = (\<lambda>d i n. (Some (map (ram_content d) [i..<i + n]), d)),
     dev_write = (\<lambda>d i bs. (True, \<lambda>j. if i \<le> j \<and> j < i + length bs then bs ! (j - i) else d j)),
     dev_num_blocks = (\<lambda>d. if count \<le> u32_max then Some count else None)\<rparr>"

lemma ram_contract: "device_contract (ram_ops count) ram_content"
  by (auto simp: device_contract_def ram_ops_def ram_content_def list_all_length block_len_def
      split: if_splits)

lemma ram_never_fails: "never_fails (ram_ops count)"
  by (simp add: never_fails_def ram_ops_def)

lemma slice_of_4:
  assumes "k + 4 \<le> length xs"
  shows "slice_of k 4 xs = [xs ! k, xs ! (k + 1), xs ! (k + 2), xs ! (k + 3)]"
  using assms by (intro nth_equalityI) (auto simp: less_Suc_eq numeral_eq_Suc)

subsection \<open>Properties\<close>

definition sample_disk :: "nat \<Rightarrow> bytes" where
  "sample_disk i = map (\<lambda>k. if i \<noteq> 0 then of_nat i else if k = 450 then 6 else if k = 454 then 2
     else if k = 458 then 4 else if k = 510 then 0x55 else if k = 511 then 0xAA else 0) [0..<512]"

definition sample_mounted :: "(nat \<Rightarrow> bytes) sd_block_device" where
  "sample_mounted = \<lparr>sb_card = sample_disk, sb_base = 1024, sb_size = 2048, sb_pos = 510\<rparr>"

lemma sample_mounted_wf: "sd_wf (ram_ops 8) sample_mounted"
  by (simp add: sd_wf_def ram_ops_def sample_mounted_def block_len_def)

text \<open>Mounting adopts the first non-empty entry of a signed partition table, starts at
  position 0, changes nothing on the card, and yields a view that lies wholly on the card.\<close>

theorem mount_adopts_first_partition:
  assumes "device_contract ops content" and "sd_mount ops dev = Inr s"
  shows "sd_wf ops s \<and> sb_pos s = 0 \<and> content (sb_card s) = content dev
    \<and> content dev 0 ! 0x1FE = 0x55 \<and> content dev 0 ! 0x1FF = 0xAA
    \<and> (\<exists>k < 4. usable_entry (content dev 0) k \<and> (\<forall>j < k. \<not> usable_entry (content dev 0) j)
         \<and> (sb_base s, sb_size s) = entry_range (content dev 0) k)"
proof -
  have "content dev 0 ! 0x1FE = 0x55 \<and> content dev 0 ! 0x1FF = 0xAA"
    using assms(2) by (auto simp: sd_mount_eq [OF assms(1)] split: prod.splits if_splits)
  with sd_mount_wf [OF assms] show ?thesis by simp
qed

lemma sample_disk_content: "ram_content sample_disk i = sample_disk i"
  by (simp add: ram_content_def sample_disk_def block_len_def)

lemma sample_disk_entry:
  "usable_entry (sample_disk 0) 0" "entry_range (sample_disk 0) 0 = (1024, 2048)"
  by (simp_all add: usable_entry_def entry_range_def mbr_partition_table_def slice_of_4 sample_disk_def
      of_le_def of_be_def block_len_def Let_def)

lemma sample_disk_mounts:
  "sd_mount (ram_ops 8) sample_disk =
    Inr \<lparr>sb_card = sample_disk, sb_base = 1024, sb_size = 2048, sb_pos = 0\<rparr>"
  unfolding sd_mount_eq [OF ram_contract]
  by (simp add: ram_ops_def sample_disk_content sample_disk_entry)
    (simp add: sample_disk_def block_len_def)

theorem mount_adopts_first_partition_witness:
  "sd_wf (ram_ops 8) \<lparr>sb_card = sample_disk, sb_base = 1024, sb_size = 2048, sb_pos = 0\<rparr>"
  using mount_adopts_first_partition [OF ram_contract sample_disk_mounts] by simp

text \<open>C6: A read fills the whole buffer with the partition's bytes at the position and advances, or
  fails and leaves the position; it never changes the medium, it is refused exactly past the
  partition's end, and otherwise fails only when the card does.\<close>

theorem read_is_exact:
  assumes "device_contract ops content" and "sd_wf ops s"
  shows "case sd_read ops s buf of (r, buf', s') \<Rightarrow>
    content (sb_card s') = content (sb_card s) \<and> sd_wf ops s'
    \<and> (case r of
        Inr n \<Rightarrow> n = length buf \<and> sb_pos s' = sb_pos s + n
          \<and> buf' = slice_of (sb_pos s) n (partition_bytes content s)
      | Inl e \<Rightarrow> sb_pos s' = sb_pos s
          \<and> (never_fails ops \<longrightarrow> buf \<noteq> [] \<and> sb_size s < sb_pos s + length buf))"
proof -
  obtain r buf' s' where run: "sd_read ops s buf = (r, buf', s')" by (metis prod.exhaust)
  show ?thesis
    using sd_read_spec [OF assms run] by (simp add: run split: sum.split)
qed

theorem read_is_exact_witness:
  "case sd_read (ram_ops 8) sample_mounted [0, 0, 0, 0] of (r, buf', s') \<Rightarrow>
     sd_wf (ram_ops 8) s'"
  using read_is_exact [OF ram_contract sample_mounted_wf, of "[0, 0, 0, 0]"]
  by (auto split: prod.splits)

text \<open>C5: A write that succeeds overwrites exactly its bytes of the partition and advances; a
  failed one leaves the position.  In both cases every block that the byte range does not meet,
  in the partition and outside, keeps its contents.\<close>

theorem write_is_exact:
  assumes "device_contract ops content" and "sd_wf ops s"
  shows "case sd_write ops s buf of (r, s') \<Rightarrow>
    sd_wf ops s'
    \<and> blocks_kept (content (sb_card s)) (sb_base s + sb_pos s) (length buf) (content (sb_card s'))
    \<and> (case r of
        Inr n \<Rightarrow> n = length buf \<and> sb_pos s' = sb_pos s + n
          \<and> partition_bytes content s' = splice_at (sb_pos s) buf (partition_bytes content s)
      | Inl e \<Rightarrow> sb_pos s' = sb_pos s
          \<and> (never_fails ops \<longrightarrow> buf \<noteq> [] \<and> sb_size s < sb_pos s + length buf))"
proof -
  obtain r s' where run: "sd_write ops s buf = (r, s')" by force
  show ?thesis
    using sd_write_spec [OF assms run] by (simp add: run split: sum.split)
qed

theorem write_is_exact_witness:
  "case sd_write (ram_ops 8) sample_mounted [1, 2, 3, 4] of (r, s') \<Rightarrow> sd_wf (ram_ops 8) s'"
  using write_is_exact [OF ram_contract sample_mounted_wf, of "[1, 2, 3, 4]"]
  by (auto split: prod.splits)

text \<open>What was written is what is read back after seeking to where the write began.\<close>

theorem written_bytes_read_back:
  assumes "device_contract ops content" and "sd_wf ops s"
    and "sd_write ops s bs = (Inr n, s1)" and "sd_seek s1 (Seek_Start (sb_pos s)) = (Inr p, s2)"
    and "sd_read ops s2 (replicate (length bs) 0) = (Inr m, buf, s3)"
  shows "buf = bs"
proof -
  have "sd_write_bytes ops s bs = (True, s1)" "sd_seek_start s1 (sb_pos s) = (True, s2)"
    "sd_read_bytes ops s2 (length bs) = (Some buf, s3)"
    using assms(3-5) by (simp_all add: sd_write_bytes_def sd_seek_start_def sd_read_bytes_def)
  then show ?thesis using sd.write_seek_read assms(1,2) by blast
qed

lemma sample_steps:
  assumes "sd_wf (ram_ops 8) s" and "sb_pos s + length bs \<le> sb_size s"
  obtains s1 s2 buf s3 where "sd_write (ram_ops 8) s bs = (Inr (length bs), s1)"
    "sd_seek s1 (Seek_Start (sb_pos s)) = (Inr (sb_pos s), s2)"
    "sd_read (ram_ops 8) s2 (replicate (length bs) 0) = (Inr (length bs), buf, s3)"
proof -
  obtain r1 s1 where w: "sd_write (ram_ops 8) s bs = (r1, s1)" by force
  note written = sd_write_spec [OF ram_contract assms(1) w]
  have r1: "r1 = Inr (length bs)"
    using written(3,5) assms(2) ram_never_fails by (cases r1) auto
  have k: "sd_seek s1 (Seek_Start (sb_pos s)) = (Inr (sb_pos s), s1\<lparr>sb_pos := sb_pos s\<rparr>)"
    using written(6) assms(2) by (simp add: sd_seek_def)
  note seek = sd_seek_spec(1) [OF written(1) k]
  obtain r3 buf s3 where r: "sd_read (ram_ops 8) (s1\<lparr>sb_pos := sb_pos s\<rparr>) (replicate (length bs) 0)
      = (r3, buf, s3)" by (metis prod.exhaust)
  note read = sd_read_spec [OF ram_contract seek r]
  have "r3 = Inr (length bs)"
    using read(5,7) written(6) assms(2) ram_never_fails by (cases r3) auto
  with that w r1 k r show thesis by blast
qed

theorem written_bytes_read_back_witness:
  "\<exists>s1 s2 s3. sd_write (ram_ops 8) sample_mounted [1, 2, 3, 4] = (Inr 4, s1)
    \<and> sd_seek s1 (Seek_Start 510) = (Inr 510, s2)
    \<and> sd_read (ram_ops 8) s2 (replicate 4 0) = (Inr 4, [1, 2, 3, 4], s3)"
proof -
  have pos: "sb_pos sample_mounted + length [1, 2, 3, 4 :: u8] \<le> sb_size sample_mounted"
    by (simp add: sample_mounted_def)
  obtain s1 s2 buf s3 where
    steps: "sd_write (ram_ops 8) sample_mounted [1, 2, 3, 4] = (Inr (length [1, 2, 3, 4 :: u8]), s1)"
      "sd_seek s1 (Seek_Start (sb_pos sample_mounted)) = (Inr (sb_pos sample_mounted), s2)"
      "sd_read (ram_ops 8) s2 (replicate (length [1, 2, 3, 4 :: u8]) 0)
        = (Inr (length [1, 2, 3, 4 :: u8]), buf, s3)"
    by (rule sample_steps [OF sample_mounted_wf pos])
  then have "buf = [1, 2, 3, 4]"
    by (rule written_bytes_read_back [OF ram_contract sample_mounted_wf])
  moreover have "length [1, 2, 3, 4 :: u8] = 4" "sb_pos sample_mounted = 510"
    by (simp_all add: sample_mounted_def)
  ultimately show ?thesis using steps by metis
qed

text \<open>A seek reaches every position from 0 to the partition's size, refuses all others without
  moving, and preserves the partition.\<close>

theorem seek_stays_inside:
  assumes "sd_wf ops s"
  shows "case sd_seek s p of (r, s') \<Rightarrow> sd_wf ops s' \<and> sb_card s' = sb_card s
    \<and> (let target = (case p of Seek_Start v \<Rightarrow> int v | Seek_End v \<Rightarrow> int (sb_size s) + v
          | Seek_Current v \<Rightarrow> int (sb_pos s) + v) in
       if 0 \<le> target \<and> target \<le> int (sb_size s)
       then r = Inr (sb_pos s') \<and> int (sb_pos s') = target
       else r = Inl Sd_Invalid_Position \<and> s' = s)"
  using assms by (auto simp: sd_seek_def sd_wf_def Let_def)

theorem seek_stays_inside_witness:
  "case sd_seek sample_mounted (Seek_End (-8)) of (r, s') \<Rightarrow> sd_wf (ram_ops 8) s'"
  using seek_stays_inside [OF sample_mounted_wf, of "Seek_End (-8)"] by (auto split: prod.splits)

end
