(* ===== verification/Usb_Msc.thy ===== *)
theory Usb_Msc
  imports Sd_Block
begin

text \<open>
  \<open>src/msc.rs\<close>: the USB mass-storage class.  Bulk-only transport on a pair of endpoints, the
  SCSI commands, and the read cache in front of the card.  The endpoints are driven by scripts: what
  the host sends, and whether it takes each packet, are the environment's choice.  The exported
  device is the \<open>device_ops\<close> record of \<open>Sd_Block\<close>.
\<close>

subsection \<open>Constants\<close>

definition bulk_packet_size :: nat where "bulk_packet_size = 64"
definition cbw_signature :: nat where "cbw_signature = 0x43425355"
definition csw_signature :: nat where "csw_signature = 0x53425355"
definition cbw_len :: nat where "cbw_len = 31"
definition csw_len :: nat where "csw_len = 13"
definition req_get_max_lun :: nat where "req_get_max_lun = 0xFE"
definition req_bulk_only_reset :: nat where "req_bulk_only_reset = 0xFF"

definition sense_not_ready :: nat where "sense_not_ready = 0x02"
definition sense_medium_error :: nat where "sense_medium_error = 0x03"
definition sense_illegal_request :: nat where "sense_illegal_request = 0x05"
definition asc_medium_not_present :: nat where "asc_medium_not_present = 0x3A"
definition asc_unrecovered_read :: nat where "asc_unrecovered_read = 0x11"
definition asc_write_error :: nat where "asc_write_error = 0x0C"
definition asc_invalid_command :: nat where "asc_invalid_command = 0x20"
definition asc_invalid_field :: nat where "asc_invalid_field = 0x24"

definition line_blocks :: nat where "line_blocks = 8"
definition cache_lines :: nat where "cache_lines = 2"
definition stream_line :: nat where "stream_line = cache_lines"

subsection \<open>Shared state\<close>

record sense =
  sense_key :: nat
  sense_asc :: nat
  sense_ascq :: nat

definition sense_default :: sense where
  "sense_default = \<lparr>sense_key = 0, sense_asc = 0, sense_ascq = 0\<rparr>"

record stats =
  read_blocks :: nat
  write_blocks :: nat
  cache_hit_blocks :: nat

definition stats_default :: stats where
  "stats_default = \<lparr>read_blocks = 0, write_blocks = 0, cache_hit_blocks = 0\<rparr>"

text \<open>The backend's function pointers; its context pointer is the \<open>card\<close> of the class below.
  \<open>num_blocks\<close> failing counts as 0.\<close>

definition no_backend :: "'d device_ops" where
  "no_backend = \<lparr>dev_read = (\<lambda>d i n. (None, d)), dev_write = (\<lambda>d i bs. (False, d)),
     dev_num_blocks = (\<lambda>d. None)\<rparr>"

definition backend_count :: "'d device_ops \<Rightarrow> 'd \<Rightarrow> nat" where
  "backend_count ops d = (case dev_num_blocks ops d of Some n \<Rightarrow> n | None \<Rightarrow> 0)"

record 'd shared_state =
  sh_backend :: "'d device_ops"
  sh_blocks :: nat
  sh_generation :: nat
  sh_attached :: bool
  sh_configured :: bool
  sh_ejected :: bool
  sh_sense :: sense
  sh_stats :: stats

definition shared_default :: "'d shared_state" where
  "shared_default = \<lparr>sh_backend = no_backend, sh_blocks = 0, sh_generation = 0, sh_attached = False,
     sh_configured = False, sh_ejected = False, sh_sense = sense_default, sh_stats = stats_default\<rparr>"

definition shared_attach :: "'d device_ops \<Rightarrow> 'd \<Rightarrow> 'd shared_state \<Rightarrow> 'd shared_state" where
  "shared_attach ops d s = s\<lparr>sh_backend := ops, sh_blocks := backend_count ops d,
     sh_generation := wrapping_add 32 (sh_generation s) 1, sh_attached := True, sh_ejected := False,
     sh_sense := sense_default, sh_stats := stats_default\<rparr>"

definition shared_detach :: "'d shared_state \<Rightarrow> 'd shared_state" where
  "shared_detach s = s\<lparr>sh_backend := no_backend, sh_blocks := 0, sh_attached := False,
     sh_configured := False, sh_ejected := False\<rparr>"

definition block_count :: "'d shared_state \<Rightarrow> nat" where
  "block_count s = (if sh_attached s \<and> \<not> sh_ejected s then sh_blocks s else 0)"

definition ready :: "'d shared_state \<Rightarrow> bool" where
  "ready s \<longleftrightarrow> block_count s \<noteq> 0"

definition set_sense :: "nat \<Rightarrow> nat \<Rightarrow> nat \<Rightarrow> 'd shared_state \<Rightarrow> 'd shared_state" where
  "set_sense key asc ascq s = s\<lparr>sh_sense := \<lparr>sense_key = key, sense_asc = asc, sense_ascq = ascq\<rparr>\<rparr>"

subsection \<open>The block cache\<close>

record line =
  ln_valid :: bool
  ln_start :: nat
  ln_len :: nat
  ln_last_used :: nat
  ln_data :: "bytes list"

definition line_contains :: "line \<Rightarrow> nat \<Rightarrow> bool" where
  "line_contains l lba \<longleftrightarrow> ln_valid l \<and> ln_start l \<le> lba \<and> lba - ln_start l < ln_len l"

record block_cache =
  bc_lines :: "line list"
  bc_clock :: nat

text \<open>The zeroed static the class starts from.\<close>

definition cache_zeroed :: block_cache where
  "cache_zeroed = \<lparr>bc_lines = replicate (cache_lines + 1) \<lparr>ln_valid = False, ln_start = 0, ln_len = 0,
     ln_last_used = 0, ln_data = replicate line_blocks (replicate block_len 0)\<rparr>, bc_clock = 0\<rparr>"

definition cache_invalidate :: "block_cache \<Rightarrow> block_cache" where
  "cache_invalidate c = c\<lparr>bc_lines := map (\<lambda>l. l\<lparr>ln_valid := False\<rparr>) (bc_lines c)\<rparr>"

fun position_from :: "nat \<Rightarrow> (line \<Rightarrow> bool) \<Rightarrow> line list \<Rightarrow> nat option" where
  "position_from i p [] = None"
| "position_from i p (l # ls) = (if p l then Some i else position_from (Suc i) p ls)"

text \<open>Mark line \<open>index\<close> as used now.\<close>

definition cache_touch :: "nat \<Rightarrow> block_cache \<Rightarrow> block_cache" where
  "cache_touch index c =
    (let now = wrapping_add 32 (bc_clock c) 1 in
     c\<lparr>bc_clock := now, bc_lines := (bc_lines c)[index := (bc_lines c ! index)\<lparr>ln_last_used := now\<rparr>]\<rparr>)"

definition cache_find :: "nat \<Rightarrow> block_cache \<Rightarrow> nat option \<times> block_cache" where
  "cache_find lba c =
    (case position_from 0 (\<lambda>l. line_contains l lba) (bc_lines c) of
       None \<Rightarrow> (None, c)
     | Some index \<Rightarrow> (Some index, cache_touch index c))"

fun victim_scan :: "line list \<Rightarrow> nat list \<Rightarrow> nat \<Rightarrow> nat" where
  "victim_scan lines [] index = index"
| "victim_scan lines (candidate # rest) index =
    (if \<not> ln_valid (lines ! candidate) then candidate
     else if ln_last_used (lines ! candidate) < ln_last_used (lines ! index)
     then victim_scan lines rest candidate else victim_scan lines rest index)"

definition cache_victim :: "bool \<Rightarrow> block_cache \<Rightarrow> nat" where
  "cache_victim streaming c =
    (if streaming then stream_line else victim_scan (bc_lines c) [0..<cache_lines] 0)"

text \<open>The blocks just written from the stream line replace their copies in the other lines.\<close>

fun update_line :: "nat \<Rightarrow> bytes list \<Rightarrow> line \<Rightarrow> line" where
  "update_line target [] l = l"
| "update_line target (b # bs) l =
    update_line (target + 1) bs
      (if line_contains l target then l\<lparr>ln_data := (ln_data l)[target - ln_start l := b]\<rparr> else l)"

definition update_from_stream :: "nat \<Rightarrow> nat \<Rightarrow> block_cache \<Rightarrow> block_cache" where
  "update_from_stream lba count c =
    c\<lparr>bc_lines := map (update_line lba (take count (ln_data (bc_lines c ! stream_line))))
        (take stream_line (bc_lines c)) @ drop stream_line (bc_lines c)\<rparr>"

subsection \<open>Endpoints\<close>

datatype endpoint_error = Ep_Buffer_Overflow | Ep_Disabled

datatype out_event = Rx bytes | Rx_Disabled

text \<open>\<open>tx\<close> logs the packets that the IN endpoint took; \<open>in_script\<close> says for each coming
  packet whether it is taken (all are, once the script is used up); \<open>out_script\<close> is what the
  host sends next (the endpoint is disabled once it is used up).\<close>

record bus =
  tx :: "bytes list"
  in_script :: "bool list"
  out_script :: "out_event list"

definition ep_write :: "bytes \<Rightarrow> bus \<Rightarrow> bool \<times> bus" where
  "ep_write packet b =
    (case in_script b of
       [] \<Rightarrow> (True, b\<lparr>tx := tx b @ [packet]\<rparr>)
     | ok # rest \<Rightarrow>
        (if ok then (True, b\<lparr>tx := tx b @ [packet], in_script := rest\<rparr>)
         else (False, b\<lparr>in_script := rest\<rparr>)))"

definition ep_read :: "nat \<Rightarrow> bus \<Rightarrow> (endpoint_error + bytes) \<times> bus" where
  "ep_read n b =
    (case out_script b of
       [] \<Rightarrow> (Inl Ep_Disabled, b)
     | Rx_Disabled # rest \<Rightarrow> (Inl Ep_Disabled, b\<lparr>out_script := rest\<rparr>)
     | Rx bs # rest \<Rightarrow>
        (if n < length bs then (Inl Ep_Buffer_Overflow, b\<lparr>out_script := rest\<rparr>)
         else (Inr bs, b\<lparr>out_script := rest\<rparr>)))"

fun write_chunks :: "bytes list \<Rightarrow> bus \<Rightarrow> bool \<times> bus" where
  "write_chunks [] b = (True, b)"
| "write_chunks (c # cs) b =
    (case ep_write c b of (False, b) \<Rightarrow> (False, b) | (True, b) \<Rightarrow> write_chunks cs b)"

definition write_packets :: "bytes \<Rightarrow> bus \<Rightarrow> bool \<times> bus" where
  "write_packets data b = write_chunks (chunks bulk_packet_size data) b"

text \<open>The caller's buffer comes back with what was received before an error.\<close>

fun read_chunks :: "bytes list \<Rightarrow> bus \<Rightarrow> bool \<times> bytes \<times> bus" where
  "read_chunks [] b = (True, [], b)"
| "read_chunks (c # cs) b =
    (case ep_read (length c) b of
       (Inl e, b) \<Rightarrow> (False, concat (c # cs), b)
     | (Inr bs, b) \<Rightarrow>
        (if length bs \<noteq> length c then (False, splice_at 0 bs c @ concat cs, b)
         else (case read_chunks cs b of (ok, data, b) \<Rightarrow> (ok, bs @ data, b))))"

definition read_packets :: "bytes \<Rightarrow> bus \<Rightarrow> bool \<times> bytes \<times> bus" where
  "read_packets data b = read_chunks (chunks bulk_packet_size data) b"

subsection \<open>Control requests\<close>

datatype request_kind = Class_Interface | Other_Request

record control_request =
  rq_kind :: request_kind
  rq_request :: nat
  rq_value :: nat
  rq_index :: nat
  rq_length :: nat

text \<open>\<open>None\<close>: not for this handler.  \<open>Some None\<close>: rejected.  \<open>Some (Some data)\<close>: accepted.\<close>

definition control_in :: "nat \<Rightarrow> control_request \<Rightarrow> bytes option option" where
  "control_in interface rq =
    (if rq_kind rq \<noteq> Class_Interface \<or> rq_index rq \<noteq> interface then None
     else if rq_request rq = req_get_max_lun \<and> rq_value rq = 0 \<and> rq_length rq = 1
     then Some (Some [0]) else Some None)"

definition control_out :: "nat \<Rightarrow> control_request \<Rightarrow> bytes \<Rightarrow> 'd shared_state
    \<Rightarrow> bool option \<times> 'd shared_state" where
  "control_out interface rq data s =
    (if rq_kind rq \<noteq> Class_Interface \<or> rq_index rq \<noteq> interface then (None, s)
     else if rq_request rq = req_bulk_only_reset \<and> rq_value rq = 0 \<and> rq_length rq = 0 \<and> data = []
     then (Some True, s\<lparr>sh_sense := sense_default\<rparr>) else (Some False, s))"

definition handler_reset :: "'d shared_state \<Rightarrow> 'd shared_state" where
  "handler_reset s = s\<lparr>sh_configured := False\<rparr>"

definition handler_enabled :: "bool \<Rightarrow> 'd shared_state \<Rightarrow> 'd shared_state" where
  "handler_enabled enabled s = (if \<not> enabled then s\<lparr>sh_configured := False\<rparr> else s)"

definition handler_configured :: "bool \<Rightarrow> 'd shared_state \<Rightarrow> 'd shared_state" where
  "handler_configured configured s = s\<lparr>sh_configured := configured\<rparr>"

subsection \<open>Command blocks\<close>

datatype direction = Dir_In | Dir_Out

record cbw =
  cbw_tag :: nat
  cbw_transfer_len :: nat
  cbw_direction :: direction
  cbw_lun :: nat
  cbw_command_len :: nat
  cbw_command :: bytes

definition cbw_parse :: "bytes \<Rightarrow> cbw option" where
  "cbw_parse bs =
    (if length bs \<noteq> cbw_len \<or> of_le (slice_of 0 4 bs) \<noteq> cbw_signature then None
     else
      (let command_len = unat (bs ! 14 AND 0x1F) in
       if command_len = 0 \<or> 16 < command_len \<or> 15 < unat (bs ! 13) \<or> bs ! 12 AND 0x7F \<noteq> 0 then None
       else Some
        \<lparr>cbw_tag = of_le (slice_of 4 4 bs),
         cbw_transfer_len = of_le (slice_of 8 4 bs),
         cbw_direction = (if bs ! 12 AND 0x80 = 0 then Dir_Out else Dir_In),
         cbw_lun = unat (bs ! 13),
         cbw_command_len = command_len,
         cbw_command = slice_of 15 16 bs\<rparr>))"

datatype command_status = Passed | Failed | Phase_Error

definition status_byte :: "command_status \<Rightarrow> u8" where
  "status_byte s = (case s of Passed \<Rightarrow> 0 | Failed \<Rightarrow> 1 | Phase_Error \<Rightarrow> 2)"

subsection \<open>The class\<close>

record 'd msc_class =
  msc_bus :: bus
  msc_shared :: "'d shared_state"
  msc_cache :: block_cache
  msc_cache_generation :: nat
  msc_card :: 'd

definition msc_new :: "'d shared_state \<Rightarrow> block_cache \<Rightarrow> bus \<Rightarrow> 'd \<Rightarrow> 'd msc_class" where
  "msc_new shared cache b dev = \<lparr>msc_bus = b, msc_shared = shared, msc_cache = cache_invalidate cache,
     msc_cache_generation = 0, msc_card = dev\<rparr>"

definition with_sense :: "nat \<Rightarrow> nat \<Rightarrow> nat \<Rightarrow> 'd msc_class \<Rightarrow> 'd msc_class" where
  "with_sense key asc ascq m = m\<lparr>msc_shared := set_sense key asc ascq (msc_shared m)\<rparr>"

definition send_csw :: "nat \<Rightarrow> nat \<Rightarrow> command_status \<Rightarrow> 'd msc_class \<Rightarrow> 'd msc_class" where
  "send_csw tag residue status m =
    (let bs = le_bytes 4 csw_signature @ le_bytes 4 tag @ le_bytes 4 residue @ [status_byte status]
     in m\<lparr>msc_bus := snd (ep_write bs (msc_bus m))\<rparr>)"

type_synonym 'd reply = "(nat \<times> command_status) \<times> 'd msc_class"

definition send_data :: "cbw \<Rightarrow> bytes \<Rightarrow> 'd msc_class \<Rightarrow> 'd reply" where
  "send_data c data m =
    (if cbw_direction c \<noteq> Dir_In \<and> cbw_transfer_len c \<noteq> 0
     then ((cbw_transfer_len c, Phase_Error), m)
     else
      (let count = min (length data) (cbw_transfer_len c) in
       case write_packets (take count data) (msc_bus m) of
         (False, b) \<Rightarrow> ((cbw_transfer_len c, Phase_Error), m\<lparr>msc_bus := b\<rparr>)
       | (True, b) \<Rightarrow>
          (if count < cbw_transfer_len c \<and> count mod bulk_packet_size = 0
           then (case ep_write [] b of
               (False, b) \<Rightarrow> ((cbw_transfer_len c - count, Phase_Error), m\<lparr>msc_bus := b\<rparr>)
             | (True, b) \<Rightarrow> ((cbw_transfer_len c - count, Passed), m\<lparr>msc_bus := b\<rparr>))
           else ((cbw_transfer_len c - count, Passed), m\<lparr>msc_bus := b\<rparr>))))"

function discard_out :: "nat \<Rightarrow> bus \<Rightarrow> bool \<times> bus" where
  "discard_out len b =
    (if len = 0 then (True, b)
     else
      (let wanted = min len bulk_packet_size in
       case ep_read wanted b of
         (Inl e, b) \<Rightarrow> (False, b)
       | (Inr bs, b) \<Rightarrow>
          (if length bs \<noteq> wanted then (False, b) else discard_out (len - length bs) b)))"
  by pat_completeness auto
termination
  by (relation "measure fst") (auto simp: bulk_packet_size_def)

declare discard_out.simps [simp del]

subsection \<open>Commands without bulk data of the medium\<close>

definition no_data :: "cbw \<Rightarrow> 'd msc_class \<Rightarrow> 'd reply" where
  "no_data c m =
    (if cbw_transfer_len c = 0 then ((0, Passed), m)
     else ((cbw_transfer_len c, Phase_Error), with_sense sense_illegal_request asc_invalid_field 0 m))"

definition test_unit_ready :: "cbw \<Rightarrow> 'd msc_class \<Rightarrow> 'd reply" where
  "test_unit_ready c m =
    (if cbw_transfer_len c \<noteq> 0 then ((cbw_transfer_len c, Phase_Error), m)
     else if ready (msc_shared m) then ((0, Passed), m)
     else ((0, Failed), with_sense sense_not_ready asc_medium_not_present 0 m))"

definition start_stop :: "cbw \<Rightarrow> 'd msc_class \<Rightarrow> 'd reply" where
  "start_stop c m =
    (if cbw_transfer_len c \<noteq> 0 then ((cbw_transfer_len c, Phase_Error), m)
     else
      (let load_eject = (cbw_command c ! 4 AND 0x02 \<noteq> 0); start = (cbw_command c ! 4 AND 0x01 \<noteq> 0) in
       ((0, Passed),
        if load_eject then m\<lparr>msc_shared := (msc_shared m)\<lparr>sh_ejected := \<not> start\<rparr>\<rparr> else m)))"

definition request_sense :: "cbw \<Rightarrow> 'd msc_class \<Rightarrow> 'd reply" where
  "request_sense c m =
    (let s = sh_sense (msc_shared m);
         response = [0x70, 0, of_nat (sense_key s), 0, 0, 0, 0, 10, 0, 0, 0, 0,
                     of_nat (sense_asc s), of_nat (sense_ascq s), 0, 0, 0, 0];
         (result, m) = send_data c response m
     in (result, if snd result = Passed
                 then m\<lparr>msc_shared := (msc_shared m)\<lparr>sh_sense := sense_default\<rparr>\<rparr> else m))"

definition inquiry :: "cbw \<Rightarrow> 'd msc_class \<Rightarrow> 'd reply" where
  "inquiry c m =
    (let evpd = (cbw_command c ! 1 AND 0x01 \<noteq> 0); page = cbw_command c ! 2 in
     if \<not> evpd then
       (if page \<noteq> 0
        then ((cbw_transfer_len c, Failed), with_sense sense_illegal_request asc_invalid_field 0 m)
        else send_data c ([0x00, 0x80, 0x05, 0x02, 31, 0, 0, 0] @ to_bytes ''RATPUTER''
               @ to_bytes ''SD CARD         '' @ to_bytes ''1.0 '') m)
     else if page = 0x00 then send_data c [0x00, 0x00, 0x00, 0x03, 0x00, 0x80, 0x83] m
     else if page = 0x80 then send_data c ([0x00, 0x80, 0x00, 12] @ to_bytes ''RATPUTER-ADV'') m
     else if page = 0x83 then send_data c [0x00, 0x83, 0x00, 0x00] m
     else ((cbw_transfer_len c, Failed), with_sense sense_illegal_request asc_invalid_field 0 m))"

definition mode_sense_6 :: "cbw \<Rightarrow> 'd msc_class \<Rightarrow> 'd reply" where
  "mode_sense_6 c m = send_data c [3, 0, 0, 0] m"

definition mode_sense_10 :: "cbw \<Rightarrow> 'd msc_class \<Rightarrow> 'd reply" where
  "mode_sense_10 c m = send_data c [0, 6, 0, 0, 0, 0, 0, 0] m"

definition read_capacity_10 :: "cbw \<Rightarrow> 'd msc_class \<Rightarrow> 'd reply" where
  "read_capacity_10 c m =
    (let count = block_count (msc_shared m) in
     if count = 0
     then ((cbw_transfer_len c, Failed), with_sense sense_not_ready asc_medium_not_present 0 m)
     else send_data c (be_bytes 4 (count - 1) @ be_bytes 4 block_len) m)"

definition read_capacity_16 :: "cbw \<Rightarrow> 'd msc_class \<Rightarrow> 'd reply" where
  "read_capacity_16 c m =
    (let count = block_count (msc_shared m) in
     if count = 0 then ((cbw_transfer_len c, Failed), m)
     else send_data c (be_bytes 8 (count - 1) @ be_bytes 4 block_len @ replicate 20 0) m)"

definition read_format_capacities :: "cbw \<Rightarrow> 'd msc_class \<Rightarrow> 'd reply" where
  "read_format_capacities c m =
    (let count = block_count (msc_shared m) in
     send_data c ([0, 0, 0, 8] @ be_bytes 4 count @ [0x02]
       @ [of_nat (block_len div 65536), of_nat (block_len div 256), of_nat block_len]) m)"

definition report_luns :: "cbw \<Rightarrow> 'd msc_class \<Rightarrow> 'd reply" where
  "report_luns c m = send_data c (be_bytes 4 8 @ replicate 12 0) m"

subsection \<open>READ(10)\<close>

text \<open>A miss: the victim line takes the aligned group of blocks around \<open>current\<close>.  The
  \<open>None\<close> result is the card's read error.\<close>

definition set_line :: "nat \<Rightarrow> line \<Rightarrow> block_cache \<Rightarrow> block_cache" where
  "set_line index l c = c\<lparr>bc_lines := (bc_lines c)[index := l]\<rparr>"

definition fill_line :: "bool \<Rightarrow> nat \<Rightarrow> nat \<Rightarrow> 'd msc_class \<Rightarrow> nat option \<times> 'd msc_class" where
  "fill_line streaming count current m =
    (let c = msc_cache m;
         index = cache_victim streaming c;
         start = current - current mod line_blocks;
         len = min line_blocks (count - start);
         l = (bc_lines c ! index)\<lparr>ln_valid := False\<rparr>
     in case dev_read (sh_backend (msc_shared m)) (msc_card m) start len of
          (None, dev) \<Rightarrow>
            (None, with_sense sense_medium_error asc_unrecovered_read 0
              (m\<lparr>msc_cache := set_line index l c, msc_card := dev\<rparr>))
        | (Some bs, dev) \<Rightarrow>
            (Some index,
             m\<lparr>msc_cache := cache_touch index (set_line index
                 (l\<lparr>ln_valid := True, ln_start := start, ln_len := len,
                    ln_data := splice_at 0 bs (ln_data l)\<rparr>) c),
               msc_card := dev\<rparr>))"

definition lookup_line :: "bool \<Rightarrow> nat \<Rightarrow> nat \<Rightarrow> 'd msc_class \<Rightarrow> (nat \<times> bool) option \<times> 'd msc_class" where
  "lookup_line streaming count current m =
    (case cache_find current (msc_cache m) of
       (Some index, c) \<Rightarrow> (Some (index, True), m\<lparr>msc_cache := c\<rparr>)
     | (None, c) \<Rightarrow>
        (case fill_line streaming count current m of
           (None, m) \<Rightarrow> (None, m)
         | (Some index, m) \<Rightarrow> (Some (index, False), m)))"

fun send_blocks :: "bytes list \<Rightarrow> nat \<Rightarrow> bus \<Rightarrow> bool \<times> nat \<times> bus" where
  "send_blocks [] residue b = (True, residue, b)"
| "send_blocks (d # ds) residue b =
    (case write_packets d b of
       (False, b) \<Rightarrow> (False, residue, b)
     | (True, b) \<Rightarrow> send_blocks ds (residue - block_len) b)"

definition count_read :: "nat \<Rightarrow> bool \<Rightarrow> 'd shared_state \<Rightarrow> 'd shared_state" where
  "count_read moved hit s =
    (let st = sh_stats s;
         st = st\<lparr>read_blocks := wrapping_add 32 (read_blocks st) moved\<rparr>;
         st = (if hit then st\<lparr>cache_hit_blocks := wrapping_add 32 (cache_hit_blocks st) moved\<rparr> else st)
     in s\<lparr>sh_stats := st\<rparr>)"

text \<open>The loop gets the number of rounds as fuel; \<open>None\<close> is running out of it.\<close>

fun read_10_loop ::
  "nat \<Rightarrow> bool \<Rightarrow> nat \<Rightarrow> nat \<Rightarrow> nat \<Rightarrow> nat \<Rightarrow> 'd msc_class \<Rightarrow> 'd reply option" where
  "read_10_loop fuel streaming count end_lba current residue m =
    (if \<not> current < end_lba then Some ((residue, Passed), m)
     else (case fuel of
       0 \<Rightarrow> None
     | Suc fuel' \<Rightarrow>
        (case lookup_line streaming count current m of
           (None, m) \<Rightarrow> Some ((residue, Failed), m)
         | (Some (index, hit), m) \<Rightarrow>
            (let l = bc_lines (msc_cache m) ! index;
                 first = current - ln_start l;
                 last = min (end_lba - ln_start l) (ln_len l);
                 next = ln_start l + last
             in case send_blocks (slice_of first (last - first) (ln_data l)) residue (msc_bus m) of
                  (False, residue, b) \<Rightarrow> Some ((residue, Phase_Error), m\<lparr>msc_bus := b\<rparr>)
                | (True, residue, b) \<Rightarrow>
                    read_10_loop fuel' streaming count end_lba next residue
                      (m\<lparr>msc_bus := b, msc_shared := count_read (last - first) hit (msc_shared m)\<rparr>)))))"

declare read_10_loop.simps [simp del]

definition rw_lba :: "cbw \<Rightarrow> nat" where "rw_lba c = of_be (slice_of 2 4 (cbw_command c))"
definition rw_blocks :: "cbw \<Rightarrow> nat" where "rw_blocks c = of_be (slice_of 7 2 (cbw_command c))"

definition in_range :: "nat \<Rightarrow> nat \<Rightarrow> nat \<Rightarrow> bool" where
  "in_range lba blocks count \<longleftrightarrow>
    (case checked_add 32 lba blocks of None \<Rightarrow> False | Some end_lba \<Rightarrow> end_lba \<le> count)"

definition read_10 :: "cbw \<Rightarrow> 'd msc_class \<Rightarrow> 'd reply option" where
  "read_10 c m =
    (let lba = rw_lba c; blocks = rw_blocks c; expected = blocks * block_len in
     if cbw_direction c \<noteq> Dir_In \<or> cbw_transfer_len c \<noteq> expected
     then Some ((cbw_transfer_len c, Phase_Error), m)
     else if blocks = 0 then Some ((0, Passed), m)
     else
      (let count = block_count (msc_shared m) in
       if \<not> in_range lba blocks count
       then Some ((cbw_transfer_len c, Failed), with_sense sense_illegal_request asc_invalid_field 0 m)
       else read_10_loop blocks (line_blocks < blocks) count (lba + blocks) lba (cbw_transfer_len c) m))"

subsection \<open>WRITE(10)\<close>

fun recv_blocks :: "bytes list \<Rightarrow> bus \<Rightarrow> bool \<times> bytes list \<times> bus" where
  "recv_blocks [] b = (True, [], b)"
| "recv_blocks (d # ds) b =
    (case read_packets d b of
       (False, d', b) \<Rightarrow> (False, d' # ds, b)
     | (True, d', b) \<Rightarrow> (case recv_blocks ds b of (ok, ds', b) \<Rightarrow> (ok, d' # ds', b)))"

definition count_written :: "nat \<Rightarrow> 'd shared_state \<Rightarrow> 'd shared_state" where
  "count_written moved s = s\<lparr>sh_stats := (sh_stats s)\<lparr>write_blocks :=
     wrapping_add 32 (write_blocks (sh_stats s)) moved\<rparr>\<rparr>"

text \<open>Collect up to a line of blocks in the stream line.\<close>

definition recv_line :: "nat \<Rightarrow> 'd msc_class \<Rightarrow> bool \<times> 'd msc_class" where
  "recv_line count m =
    (let c = msc_cache m; l = (bc_lines c ! stream_line)\<lparr>ln_valid := False\<rparr> in
     case recv_blocks (take count (ln_data l)) (msc_bus m) of
       (ok, ds, b) \<Rightarrow>
         (ok, m\<lparr>msc_bus := b,
            msc_cache := set_line stream_line (l\<lparr>ln_data := splice_at 0 ds (ln_data l)\<rparr>) c\<rparr>))"

function write_10_loop :: "nat \<Rightarrow> nat \<Rightarrow> nat \<Rightarrow> 'd msc_class \<Rightarrow> 'd reply" where
  "write_10_loop end_lba current residue m =
    (if \<not> current < end_lba then ((residue, Passed), m)
     else
      (let count = min (end_lba - current) line_blocks in
       case recv_line count m of
         (False, m) \<Rightarrow> ((residue, Phase_Error), m)
       | (True, m) \<Rightarrow>
          (case dev_write (sh_backend (msc_shared m)) (msc_card m) current
                 (take count (ln_data (bc_lines (msc_cache m) ! stream_line))) of
             (False, dev) \<Rightarrow>
               (let m = with_sense sense_medium_error asc_write_error 0 (m\<lparr>msc_card := dev\<rparr>) in
                case discard_out (residue - count * block_len) (msc_bus m) of
                  (False, b) \<Rightarrow> ((residue, Phase_Error), m\<lparr>msc_bus := b\<rparr>)
                | (True, b) \<Rightarrow> ((residue, Failed), m\<lparr>msc_bus := b\<rparr>))
           | (True, dev) \<Rightarrow>
               write_10_loop end_lba (current + count) (residue - count * block_len)
                 (m\<lparr>msc_card := dev, msc_cache := update_from_stream current count (msc_cache m),
                    msc_shared := count_written count (msc_shared m)\<rparr>))))"
  by pat_completeness auto
termination
  by (relation "measure (\<lambda>(end_lba, current, _). end_lba - current)") (simp_all add: line_blocks_def)

declare write_10_loop.simps [simp del]

definition write_10 :: "cbw \<Rightarrow> 'd msc_class \<Rightarrow> 'd reply" where
  "write_10 c m =
    (let lba = rw_lba c; blocks = rw_blocks c; expected = blocks * block_len in
     if cbw_direction c \<noteq> Dir_Out \<or> cbw_transfer_len c \<noteq> expected
     then ((cbw_transfer_len c, Phase_Error), m)
     else if blocks = 0 then ((0, Passed), m)
     else
      (let count = block_count (msc_shared m) in
       if \<not> in_range lba blocks count
       then
        (let m = with_sense sense_illegal_request asc_invalid_field 0 m in
         case discard_out (cbw_transfer_len c) (msc_bus m) of
           (False, b) \<Rightarrow> ((cbw_transfer_len c, Phase_Error), m\<lparr>msc_bus := b\<rparr>)
         | (True, b) \<Rightarrow> ((cbw_transfer_len c, Failed), m\<lparr>msc_bus := b\<rparr>))
       else write_10_loop (lba + blocks) lba (cbw_transfer_len c) m))"

subsection \<open>Dispatch and the service loop\<close>

definition refresh_generation :: "'d msc_class \<Rightarrow> 'd msc_class" where
  "refresh_generation m =
    (let generation = sh_generation (msc_shared m) in
     if generation \<noteq> msc_cache_generation m
     then m\<lparr>msc_cache := cache_invalidate (msc_cache m), msc_cache_generation := generation\<rparr>
     else m)"

definition execute :: "cbw \<Rightarrow> 'd msc_class \<Rightarrow> 'd reply option" where
  "execute c m =
    (let m = refresh_generation m; op = cbw_command c ! 0 in
     if op = 0x00 then Some (test_unit_ready c m)
     else if op = 0x03 then Some (request_sense c m)
     else if op = 0x12 then Some (inquiry c m)
     else if op = 0x1A then Some (mode_sense_6 c m)
     else if op = 0x5A then Some (mode_sense_10 c m)
     else if op = 0x1B then Some (start_stop c m)
     else if op = 0x1E \<or> op = 0x35 then Some (no_data c m)
     else if op = 0x23 then Some (read_format_capacities c m)
     else if op = 0x25 then Some (read_capacity_10 c m)
     else if op = 0x9E \<and> cbw_command c ! 1 AND 0x1F = 0x10 then Some (read_capacity_16 c m)
     else if op = 0xA0 then Some (report_luns c m)
     else if op = 0x28 then read_10 c m
     else if op = 0x2A then Some (write_10 c m)
     else if op = 0x2F \<and> cbw_command c ! 1 AND 0x02 = 0 then Some (no_data c m)
     else Some ((cbw_transfer_len c, Failed), with_sense sense_illegal_request asc_invalid_command 0 m))"

text \<open>One turn of \<open>run\<close>; waiting for the endpoint to come back changes no state.\<close>

definition msc_turn :: "'d msc_class \<Rightarrow> 'd msc_class option" where
  "msc_turn m =
    (case ep_read bulk_packet_size (msc_bus m) of
       (Inl e, b) \<Rightarrow> Some (m\<lparr>msc_bus := b\<rparr>)
     | (Inr received, b) \<Rightarrow>
        (let m = m\<lparr>msc_bus := b\<rparr> in
         case cbw_parse received of
           None \<Rightarrow> Some m
         | Some c \<Rightarrow>
            (if cbw_lun c \<noteq> 0 then Some (send_csw (cbw_tag c) (cbw_transfer_len c) Failed m)
             else (case execute c m of
                None \<Rightarrow> None
              | Some ((residue, status), m) \<Rightarrow> Some (send_csw (cbw_tag c) residue status m)))))"

end
