(* ===== verification/Usb_Msc_Correct.thy ===== *)
theory Usb_Msc_Correct
  imports Usb_Msc
begin

text \<open>
  Correctness of \<open>Usb_Msc\<close>: the cache is always a faithful copy of the card, so READ(10) delivers
  the card's blocks and WRITE(10) stores what the host sent; the residue accounts for what was moved,
  and no command reaches past the card's last block.
\<close>

subsection \<open>Coherent caches\<close>

definition line_shape :: "line \<Rightarrow> bool" where
  "line_shape l \<longleftrightarrow> length (ln_data l) = line_blocks \<and> list_all (\<lambda>b. length b = block_len) (ln_data l)
    \<and> (ln_valid l \<longrightarrow> ln_len l \<le> line_blocks)"

definition line_copy :: "(nat \<Rightarrow> bytes) \<Rightarrow> line \<Rightarrow> bool" where
  "line_copy f l \<longleftrightarrow> (ln_valid l \<longrightarrow> (\<forall>k < ln_len l. ln_data l ! k = f (ln_start l + k)))"

definition coherent :: "(nat \<Rightarrow> bytes) \<Rightarrow> block_cache \<Rightarrow> bool" where
  "coherent f c \<longleftrightarrow> length (bc_lines c) = cache_lines + 1
    \<and> list_all (\<lambda>l. line_shape l \<and> line_copy f l) (bc_lines c)"

lemma coherent_length: "coherent f c \<Longrightarrow> length (bc_lines c) = 3"
  by (simp add: coherent_def cache_lines_def)

lemma coherent_nth:
  "coherent f c \<Longrightarrow> i < 3 \<Longrightarrow> line_shape (bc_lines c ! i) \<and> line_copy f (bc_lines c ! i)"
  by (simp add: coherent_def list_all_length cache_lines_def)

lemma coherent_update:
  assumes "coherent f c" and "line_shape l" and "line_copy f l"
  shows "coherent f (set_line i l c)"
  using assms set_update_subset_insert [of "bc_lines c" i l]
  by (auto simp: coherent_def set_line_def list_all_iff)

lemma coherent_clock: "coherent f (c\<lparr>bc_clock := n\<rparr>) = coherent f c"
  by (simp add: coherent_def)

lemma cache_touch_eq:
  "cache_touch i c = set_line i ((bc_lines c ! i)\<lparr>ln_last_used := wrapping_add 32 (bc_clock c) 1\<rparr>)
     (c\<lparr>bc_clock := wrapping_add 32 (bc_clock c) 1\<rparr>)"
  by (simp add: cache_touch_def set_line_def Let_def)

lemma coherent_touch: "coherent f c \<Longrightarrow> i < 3 \<Longrightarrow> coherent f (cache_touch i c)"
  using coherent_nth [of f c i] unfolding cache_touch_eq
  by (intro coherent_update) (simp_all add: coherent_clock line_shape_def line_copy_def)

definition cache_shaped :: "block_cache \<Rightarrow> bool" where
  "cache_shaped c \<longleftrightarrow> length (bc_lines c) = cache_lines + 1 \<and> list_all line_shape (bc_lines c)"

lemma coherent_shaped: "coherent f c \<Longrightarrow> cache_shaped c"
  by (auto simp: coherent_def cache_shaped_def list_all_iff)

lemma coherent_invalidate: "cache_shaped c \<Longrightarrow> coherent g (cache_invalidate c)"
  by (auto simp: coherent_def cache_shaped_def cache_invalidate_def list_all_iff line_shape_def line_copy_def)

lemma cache_zeroed_shaped: "cache_shaped cache_zeroed"
  by (simp add: cache_shaped_def cache_zeroed_def line_shape_def list_all_iff)

lemma cache_touch_line:
  "i < length (bc_lines c) \<Longrightarrow>
    bc_lines (cache_touch i c) ! i = (bc_lines c ! i)\<lparr>ln_last_used := wrapping_add 32 (bc_clock c) 1\<rparr>"
  by (simp add: cache_touch_def Let_def)

lemma position_from_Some:
  "position_from i p ls = Some j \<Longrightarrow> i \<le> j \<and> j < i + length ls \<and> p (ls ! (j - i))"
proof (induction i p ls arbitrary: j rule: position_from.induct)
  case (2 i p l ls)
  then show ?case
    by (cases "p l") (auto simp: Suc_diff_Suc less_eq_Suc_le nth_Cons' split: if_splits)
qed simp

lemma position_from_None: "position_from i p ls = None \<longleftrightarrow> (\<forall>l \<in> set ls. \<not> p l)"
  by (induction i p ls rule: position_from.induct) auto

lemma cache_find_Some:
  assumes "coherent f c" and "cache_find lba c = (Some i, c')"
  shows "i < 3" "coherent f c'" "line_contains (bc_lines c' ! i) lba"
    "ln_data (bc_lines c' ! i) = ln_data (bc_lines c ! i)"
proof -
  have pos: "position_from 0 (\<lambda>l. line_contains l lba) (bc_lines c) = Some i"
    and c': "c' = cache_touch i c"
    using assms(2) by (auto simp: cache_find_def split: option.splits)
  from position_from_Some [OF pos] show i: "i < 3" using coherent_length [OF assms(1)] by simp
  then show "coherent f c'" using assms(1) by (simp add: c' coherent_touch)
  have "i < length (bc_lines c)" using i coherent_length [OF assms(1)] by simp
  then show "line_contains (bc_lines c' ! i) lba"
    "ln_data (bc_lines c' ! i) = ln_data (bc_lines c ! i)"
    using position_from_Some [OF pos] by (simp_all add: c' cache_touch_line line_contains_def)
qed

lemma victim_in_range: "cache_victim streaming c < 3"
  by (simp add: cache_victim_def stream_line_def cache_lines_def upt_conv_Cons)

text \<open>Streaming never takes one of the lines kept for small reads, and small reads never take the
  stream line.\<close>

lemma victim_streaming: "cache_victim streaming c = stream_line \<longleftrightarrow> streaming"
  by (simp add: cache_victim_def stream_line_def cache_lines_def upt_conv_Cons)

subsection \<open>Looking a block up\<close>

definition msc_ok :: "('d \<Rightarrow> nat \<Rightarrow> bytes) \<Rightarrow> 'd msc_class \<Rightarrow> bool" where
  "msc_ok content m \<longleftrightarrow> device_contract (sh_backend (msc_shared m)) content
    \<and> coherent (content (msc_card m)) (msc_cache m)"

text \<open>What a read leaves alone.\<close>

definition same_session :: "('d \<Rightarrow> nat \<Rightarrow> bytes) \<Rightarrow> 'd msc_class \<Rightarrow> 'd msc_class \<Rightarrow> bool" where
  "same_session content m m' \<longleftrightarrow> content (msc_card m') = content (msc_card m)
    \<and> sh_backend (msc_shared m') = sh_backend (msc_shared m)
    \<and> msc_cache_generation m' = msc_cache_generation m
    \<and> sh_generation (msc_shared m') = sh_generation (msc_shared m)
    \<and> block_count (msc_shared m') = block_count (msc_shared m)"

lemma same_session_refl: "same_session content m m"
  by (simp add: same_session_def)

lemma same_session_trans:
  "same_session content m m1 \<Longrightarrow> same_session content m1 m2 \<Longrightarrow> same_session content m m2"
  by (simp add: same_session_def)

lemma set_sense_fields [frame_simps]:
  "sh_backend (set_sense k a q s) = sh_backend s" "sh_generation (set_sense k a q s) = sh_generation s"
  "block_count (set_sense k a q s) = block_count s" "sh_stats (set_sense k a q s) = sh_stats s"
  by (simp_all add: set_sense_def block_count_def)

lemma count_read_fields [frame_simps]:
  "sh_backend (count_read n h s) = sh_backend s" "sh_generation (count_read n h s) = sh_generation s"
  "block_count (count_read n h s) = block_count s" "sh_sense (count_read n h s) = sh_sense s"
  by (simp_all add: count_read_def block_count_def Let_def)

lemma with_sense_fields [frame_simps]:
  "msc_bus (with_sense k a q m) = msc_bus m" "msc_cache (with_sense k a q m) = msc_cache m"
  "msc_card (with_sense k a q m) = msc_card m"
  "msc_cache_generation (with_sense k a q m) = msc_cache_generation m"
  "msc_shared (with_sense k a q m) = set_sense k a q (msc_shared m)"
  by (simp_all add: with_sense_def)

lemma line_group:
  fixes current count :: nat
  assumes "current < count"
  defines "start \<equiv> current - current mod line_blocks"
  shows "start \<le> current" "current < start + min line_blocks (count - start)"
proof -
  show "start \<le> current" by (simp add: start_def)
  have "current mod line_blocks < line_blocks" by (simp add: line_blocks_def)
  moreover have "start + current mod line_blocks = current" by (simp add: start_def)
  ultimately show "current < start + min line_blocks (count - start)" using assms(1) by linarith
qed

lemma fill_line_spec:
  assumes ok: "msc_ok content m" and range: "current < count"
    and run: "fill_line streaming count current m = (r, m')"
  shows "msc_ok content m'" "same_session content m m'" "msc_bus m' = msc_bus m"
    "r = Some i \<Longrightarrow> i < 3 \<and> line_contains (bc_lines (msc_cache m') ! i) current"
    "r = None \<Longrightarrow> \<not> never_fails (sh_backend (msc_shared m))"
proof -
  define c where "c = msc_cache m"
  define v where "v = cache_victim streaming c"
  define start where "start = current - current mod line_blocks"
  define n where "n = min line_blocks (count - start)"
  define l where "l = (bc_lines c ! v)\<lparr>ln_valid := False\<rparr>"
  have contract: "device_contract (sh_backend (msc_shared m)) content"
    and coh: "coherent (content (msc_card m)) c" using ok by (simp_all add: msc_ok_def c_def)
  have v: "v < 3" by (simp add: v_def victim_in_range)
  have shape: "line_shape (bc_lines c ! v)" using coherent_nth [OF coh v] by simp
  obtain q dev where q: "dev_read (sh_backend (msc_shared m)) (msc_card m) start n = (q, dev)" by force
  note same = contract_read [OF contract q]
  have "msc_ok content m' \<and> same_session content m m' \<and> msc_bus m' = msc_bus m
    \<and> (r = None \<longrightarrow> \<not> never_fails (sh_backend (msc_shared m)))
    \<and> (\<forall>i. r = Some i \<longrightarrow> i < 3 \<and> line_contains (bc_lines (msc_cache m') ! i) current)"
  proof (cases q)
    case None
    with run q have "r = None" and m': "m' = with_sense sense_medium_error asc_unrecovered_read 0
        (m\<lparr>msc_cache := set_line v l c, msc_card := dev\<rparr>)"
      by (auto simp: fill_line_def Let_def c_def v_def l_def start_def n_def)
    moreover have "coherent (content dev) (set_line v l c)"
      using coh shape same by (intro coherent_update) (simp_all add: l_def line_shape_def line_copy_def)
    ultimately show ?thesis
      using contract same never_fails_read [OF q [unfolded None]]
      by (simp add: msc_ok_def same_session_def frame_simps)
  next
    case (Some bs)
    define l' where "l' = l\<lparr>ln_valid := True, ln_start := start, ln_len := n,
      ln_data := splice_at 0 bs (ln_data l)\<rparr>"
    from run q Some have r: "r = Some v" and m': "m' = m\<lparr>msc_cache := cache_touch v (set_line v l' c),
        msc_card := dev\<rparr>"
      by (auto simp: fill_line_def Let_def c_def v_def l_def l'_def start_def n_def)
    have bs: "bs = map (content dev) [start..<start + n]"
      using contract_read_Some [OF contract q [unfolded Some]] same by simp
    have "n \<le> line_blocks" by (simp add: n_def)
    then have "line_shape l'" "line_copy (content dev) l'"
      using shape contract_length [OF contract]
      by (auto simp: line_shape_def line_copy_def l'_def l_def bs splice_at_def list_all_iff nth_append
          dest: in_set_dropD)
    then have "coherent (content dev) (cache_touch v (set_line v l' c))"
      using coh same v by (intro coherent_touch coherent_update) simp_all
    moreover have "line_contains (bc_lines (cache_touch v (set_line v l' c)) ! v) current"
      using v coherent_length [OF coh] line_group [OF range]
      by (auto simp: cache_touch_line set_line_def line_contains_def l'_def n_def start_def)
    ultimately show ?thesis
      using contract same v by (simp add: r m' msc_ok_def same_session_def)
  qed
  then show "msc_ok content m'" "same_session content m m'" "msc_bus m' = msc_bus m"
    "r = Some i \<Longrightarrow> i < 3 \<and> line_contains (bc_lines (msc_cache m') ! i) current"
    "r = None \<Longrightarrow> \<not> never_fails (sh_backend (msc_shared m))" by simp_all
qed

lemma lookup_line_spec:
  assumes ok: "msc_ok content m" and range: "current < count"
    and run: "lookup_line streaming count current m = (r, m')"
  shows "msc_ok content m'" "same_session content m m'" "msc_bus m' = msc_bus m"
    "r = Some (i, hit) \<Longrightarrow> i < 3 \<and> line_contains (bc_lines (msc_cache m') ! i) current"
    "r = None \<Longrightarrow> \<not> never_fails (sh_backend (msc_shared m))"
proof -
  obtain q c where q: "cache_find current (msc_cache m) = (q, c)" by force
  have "msc_ok content m' \<and> same_session content m m' \<and> msc_bus m' = msc_bus m
    \<and> (r = None \<longrightarrow> \<not> never_fails (sh_backend (msc_shared m)))
    \<and> (\<forall>i hit. r = Some (i, hit) \<longrightarrow> i < 3 \<and> line_contains (bc_lines (msc_cache m') ! i) current)"
  proof (cases q)
    case (Some j)
    note found = cache_find_Some [OF _ q [unfolded Some], of "content (msc_card m)"]
    from run q Some have "r = Some (j, True)" "m' = m\<lparr>msc_cache := c\<rparr>"
      by (auto simp: lookup_line_def)
    with ok found show ?thesis by (simp add: msc_ok_def same_session_def)
  next
    case None
    obtain p m1 where p: "fill_line streaming count current m = (p, m1)" by force
    with run q None have "m' = m1" "r = map_option (\<lambda>i. (i, False)) p"
      by (auto simp: lookup_line_def split: option.splits)
    with fill_line_spec [OF ok range p] show ?thesis by auto
  qed
  then show "msc_ok content m'" "same_session content m m'" "msc_bus m' = msc_bus m"
    "r = Some (i, hit) \<Longrightarrow> i < 3 \<and> line_contains (bc_lines (msc_cache m') ! i) current"
    "r = None \<Longrightarrow> \<not> never_fails (sh_backend (msc_shared m))" by auto
qed

subsection \<open>Sending blocks\<close>

lemma write_chunks_spec:
  "write_chunks cs b = (ok, b') \<Longrightarrow>
    \<exists>n \<le> length cs. tx b' = tx b @ take n cs \<and> (ok \<longleftrightarrow> n = length cs) \<and> out_script b' = out_script b
      \<and> (in_script b = [] \<longrightarrow> ok \<and> in_script b' = [])"
proof (induction cs b arbitrary: ok b' rule: write_chunks.induct)
  case (2 c cs b)
  obtain ok1 b1 where w: "ep_write c b = (ok1, b1)" by force
  then have b1: "out_script b1 = out_script b" "tx b1 = tx b @ (if ok1 then [c] else [])"
      "in_script b = [] \<longrightarrow> ok1 \<and> in_script b1 = []"
    by (auto simp: ep_write_def split: list.splits if_splits)
  show ?case
  proof (cases ok1)
    case False
    with 2 w b1 show ?thesis by (intro exI [of _ 0]) auto
  next
    case True
    with 2 w have "write_chunks cs b1 = (ok, b')" by simp
    from 2(1) [OF w [unfolded eqTrueI [OF True], symmetric] refl this] obtain n where
      "n \<le> length cs" "tx b' = tx b1 @ take n cs" "ok \<longleftrightarrow> n = length cs"
      "out_script b' = out_script b1" "in_script b1 = [] \<longrightarrow> ok \<and> in_script b' = []" by auto
    with b1 True show ?thesis by (intro exI [of _ "Suc n"]) auto
  qed
qed simp

definition packets_of :: "bytes list \<Rightarrow> bytes list" where
  "packets_of ds = concat (map (chunks bulk_packet_size) ds)"

lemma packets_of_append [simp]: "packets_of (xs @ ys) = packets_of xs @ packets_of ys"
  by (simp add: packets_of_def)

lemma packets_of_simps [simp]:
  "packets_of [] = []" "packets_of (d # ds) = chunks bulk_packet_size d @ packets_of ds"
  by (simp_all add: packets_of_def)

lemma concat_packets_of: "concat (packets_of ds) = concat ds"
  by (induction ds) (simp_all add: concat_chunks bulk_packet_size_def)

text \<open>The blocks that went out whole are counted off the residue; a failure cuts one block.\<close>

lemma send_blocks_spec:
  "send_blocks ds residue b = (ok, residue', b') \<Longrightarrow>
    \<exists>k part. k \<le> length ds \<and> residue' = residue - k * block_len
      \<and> (in_script b = [] \<longrightarrow> ok \<and> in_script b' = [])
      \<and> tx b' = tx b @ packets_of (take k ds) @ part \<and> out_script b' = out_script b
      \<and> (if ok then k = length ds \<and> part = []
         else k < length ds \<and> (\<exists>n. part = take n (chunks bulk_packet_size (ds ! k))))"
proof (induction ds residue b arbitrary: ok residue' b' rule: send_blocks.induct)
  case (2 d ds residue b)
  obtain ok1 b1 where w: "write_packets d b = (ok1, b1)" by force
  then obtain n where n: "tx b1 = tx b @ take n (chunks bulk_packet_size d)"
    "ok1 \<longleftrightarrow> n = length (chunks bulk_packet_size d)" "out_script b1 = out_script b"
    "in_script b = [] \<longrightarrow> ok1 \<and> in_script b1 = []"
    using write_chunks_spec by (metis write_packets_def)
  show ?case
  proof (cases ok1)
    case False
    with 2 w n show ?thesis by (intro exI [of _ 0]) auto
  next
    case True
    with 2 w have "send_blocks ds (residue - block_len) b1 = (ok, residue', b')" by simp
    from 2(1) [OF w [unfolded eqTrueI [OF True], symmetric] refl this] obtain k part where
      k: "k \<le> length ds" "residue' = residue - block_len - k * block_len"
        "tx b' = tx b1 @ packets_of (take k ds) @ part" "out_script b' = out_script b1"
        "in_script b1 = [] \<longrightarrow> ok \<and> in_script b' = []"
        "if ok then k = length ds \<and> part = []
         else k < length ds \<and> (\<exists>n. part = take n (chunks bulk_packet_size (ds ! k)))" by auto
    with n True show ?thesis
      by (intro exI [of _ "Suc k"] exI [of _ part]) (auto split: if_splits)
  qed
qed simp

subsection \<open>READ(10)\<close>

definition medium_blocks :: "(nat \<Rightarrow> bytes) \<Rightarrow> nat \<Rightarrow> nat \<Rightarrow> bytes list" where
  "medium_blocks f a n = map f [a..<a + n]"

lemma medium_blocks_append: "medium_blocks f a (m + n) = medium_blocks f a m @ medium_blocks f (a + m) n"
  by (simp add: medium_blocks_def upt_add_eq_append [of a "a + m" n] add.assoc [symmetric])

lemma length_medium_blocks [simp, length_simps]: "length (medium_blocks f a n) = n"
  by (simp add: medium_blocks_def)

lemma take_medium_blocks: "k \<le> n \<Longrightarrow> take k (medium_blocks f a n) = medium_blocks f a k"
  by (simp add: medium_blocks_def take_map)

text \<open>The blocks that a hit contributes are the medium's.\<close>

lemma line_slice:
  assumes "line_shape l" "line_copy f l" "line_contains l current" "current < end_lba"
  defines "stop \<equiv> min (end_lba - ln_start l) (ln_len l)"
  shows "current < ln_start l + stop" "ln_start l + stop \<le> end_lba"
    "slice_of (current - ln_start l) (stop - (current - ln_start l)) (ln_data l)
      = medium_blocks f current (ln_start l + stop - current)"
proof -
  have c: "ln_start l \<le> current" "current - ln_start l < ln_len l" "ln_valid l"
    using assms(3) by (auto simp: line_contains_def)
  have len: "length (ln_data l) = line_blocks" "ln_len l \<le> line_blocks"
    using assms(1) c by (auto simp: line_shape_def)
  show n: "current < ln_start l + stop" "ln_start l + stop \<le> end_lba"
    using c assms(4) unfolding stop_def by linarith+
  have "stop \<le> length (ln_data l)" using len by (simp add: stop_def)
  then have fits: "current - ln_start l + (stop - (current - ln_start l)) \<le> length (ln_data l)"
    using n c by linarith
  show "slice_of (current - ln_start l) (stop - (current - ln_start l)) (ln_data l)
      = medium_blocks f current (ln_start l + stop - current)"
  proof (rule nth_equalityI)
    fix k
    assume "k < length (slice_of (current - ln_start l) (stop - (current - ln_start l)) (ln_data l))"
    then have k: "k < stop - (current - ln_start l)" using fits by simp
    moreover from k have "current - ln_start l + k < ln_len l" unfolding stop_def by linarith
    then have "ln_data l ! (current - ln_start l + k) = f (current + k)"
      using assms(2) c by (simp add: line_copy_def)
    moreover have "k < ln_start l + stop - current" using k by linarith
    ultimately show "slice_of (current - ln_start l) (stop - (current - ln_start l)) (ln_data l) ! k
        = medium_blocks f current (ln_start l + stop - current) ! k"
      using fits by (simp add: medium_blocks_def)
  qed (use fits c n in simp)
qed

text \<open>What the data phase of a read puts on the bus: \<open>k\<close> whole blocks, and after a failure the
  first packets of the next one.\<close>

definition read_phase ::
  "(nat \<Rightarrow> bytes) \<Rightarrow> nat \<Rightarrow> nat \<Rightarrow> nat \<Rightarrow> bus \<Rightarrow> (nat \<times> command_status) \<Rightarrow> bus \<Rightarrow> bool" where
  "read_phase f current n residue b res b' \<longleftrightarrow>
    (\<exists>k part. k \<le> n \<and> fst res = residue - k * block_len
      \<and> tx b' = tx b @ packets_of (medium_blocks f current k) @ part \<and> out_script b' = out_script b
      \<and> (if snd res = Passed then k = n \<and> part = []
         else k < n \<and> (\<exists>j. part = take j (chunks bulk_packet_size (f (current + k))))))"

lemma read_phase_extend:
  assumes "read_phase f (current + n1) n2 (residue - n1 * block_len) b1 res b'"
    and "tx b1 = tx b @ packets_of (medium_blocks f current n1)" "out_script b1 = out_script b"
  shows "read_phase f current (n1 + n2) residue b res b'"
proof -
  from assms(1) obtain k part where k: "k \<le> n2" "fst res = residue - n1 * block_len - k * block_len"
    "tx b' = tx b1 @ packets_of (medium_blocks f (current + n1) k) @ part" "out_script b' = out_script b1"
    "if snd res = Passed then k = n2 \<and> part = []
     else k < n2 \<and> (\<exists>j. part = take j (chunks bulk_packet_size (f (current + n1 + k))))"
    unfolding read_phase_def by blast
  show ?thesis
    unfolding read_phase_def using k assms(2,3)
    by (intro exI [of _ "n1 + k"] exI [of _ part])
      (auto simp: medium_blocks_append add_mult_distrib add.assoc split: if_splits)
qed

text \<open>One round of the loop: the blocks of the found line that are asked for go out, all of them or up to an
  error.\<close>

lemma found_line_sends:
  assumes l: "line_shape l" "line_copy f l" "line_contains l current" "current < end_lba"
    and stop: "stop = min (end_lba - ln_start l) (ln_len l)" and n: "n = ln_start l + stop - current"
    and s: "send_blocks (slice_of (current - ln_start l) (stop - (current - ln_start l)) (ln_data l)) residue b
      = (ok, residue', b')"
  shows "current + n = ln_start l + stop" "0 < n" "n \<le> end_lba - current"
    and "in_script b = [] \<Longrightarrow> ok \<and> in_script b' = []"
    and "\<not> ok \<Longrightarrow> read_phase f current (end_lba - current) residue b (residue', Phase_Error) b'"
    and "ok \<Longrightarrow> read_phase f (current + n) left residue' b' res b'' \<Longrightarrow>
      read_phase f current (n + left) residue b res b''"
proof -
  note slice = line_slice [OF l, folded stop]
  from send_blocks_spec [OF s, unfolded slice(3) n [symmetric] length_medium_blocks]
  obtain k part where k0: "k \<le> n" "residue' = residue - k * block_len"
      "tx b' = tx b @ packets_of (take k (medium_blocks f current n)) @ part"
      "out_script b' = out_script b" "in_script b = [] \<longrightarrow> ok \<and> in_script b' = []"
      "if ok then k = n \<and> part = []
       else k < n \<and> (\<exists>j. part = take j (chunks bulk_packet_size (medium_blocks f current n ! k)))"
    by blast
  note k = k0(1,2,4,6) k0(3) [unfolded take_medium_blocks [OF k0(1)]]
  show len: "current + n = ln_start l + stop" "0 < n" "n \<le> end_lba - current"
    using slice(1,2) unfolding n by linarith+
  show "in_script b = [] \<Longrightarrow> ok \<and> in_script b' = []" using k0(5) by simp
  show "read_phase f current (end_lba - current) residue b (residue', Phase_Error) b'" if "\<not> ok"
    unfolding read_phase_def using k len that
    by (intro exI [of _ k] exI [of _ part]) (auto simp: medium_blocks_def)
  show "read_phase f current (n + left) residue b res b''"
    if "ok" "read_phase f (current + n) left residue' b' res b''"
    using that k by (intro read_phase_extend [of _ _ _ _ _ b']) simp_all
qed

lemma read_10_loop_correct:
  assumes "msc_ok content m" "current \<le> end_lba" "end_lba \<le> count" "end_lba - current \<le> fuel"
  shows "\<exists>res m'. read_10_loop fuel streaming count end_lba current residue m = Some (res, m')
    \<and> msc_ok content m' \<and> same_session content m m'
    \<and> read_phase (content (msc_card m)) current (end_lba - current) residue (msc_bus m) res (msc_bus m')
    \<and> (in_script (msc_bus m) = [] \<longrightarrow> never_fails (sh_backend (msc_shared m)) \<longrightarrow> snd res = Passed)"
  using assms
proof (induction fuel arbitrary: current residue m)
  case 0
  then show ?case
    by (subst read_10_loop.simps) (auto simp: read_phase_def same_session_refl medium_blocks_def)
next
  case (Suc fuel)
  let ?f = "content (msc_card m)"
  show ?case
  proof (cases "current < end_lba")
    case False
    with Suc.prems show ?thesis
      by (subst read_10_loop.simps) (auto simp: read_phase_def same_session_refl medium_blocks_def)
  next
    case True
    obtain q m1 where q: "lookup_line streaming count current m = (q, m1)" by force
    have range: "current < count" using True Suc.prems by simp
    note spec = lookup_line_spec [OF Suc.prems(1) range q]
    have f: "content (msc_card m1) = ?f" using spec(2) by (simp add: same_session_def)
    show ?thesis
    proof (cases q)
      case None
      have "read_phase ?f current (end_lba - current) residue (msc_bus m) (residue, Failed) (msc_bus m1)"
        unfolding read_phase_def using True spec(3)
        by (intro exI [of _ 0] exI [of _ "[]"]) (auto simp: medium_blocks_def)
      with None True q spec show ?thesis by (subst read_10_loop.simps) auto
    next
      case (Some found)
      obtain i hit where found: "found = (i, hit)" by (cases found)
      define l where "l = bc_lines (msc_cache m1) ! i"
      define stop where "stop = min (end_lba - ln_start l) (ln_len l)"
      define n where "n = ln_start l + stop - current"
      have hit: "i < 3" "line_contains l current"
        using spec(4) [of i hit] Some found by (simp_all add: l_def)
      have l: "line_shape l" "line_copy ?f l"
        using coherent_nth [OF _ hit(1), of ?f "msc_cache m1"] spec(1) f by (simp_all add: msc_ok_def l_def)
      obtain ok r' b' where s: "send_blocks (slice_of (current - ln_start l)
          (stop - (current - ln_start l)) (ln_data l)) residue (msc_bus m1) = (ok, r', b')"
        by (metis prod.exhaust)
      note sends = found_line_sends [OF l hit(2) True stop_def n_def s, unfolded spec(3)]
      show ?thesis
      proof (cases ok)
        case False
        have "read_10_loop (Suc fuel) streaming count end_lba current residue m
            = Some ((r', Phase_Error), m1\<lparr>msc_bus := b'\<rparr>)"
          using True q Some found s False
          by (subst read_10_loop.simps) (simp add: Let_def l_def [symmetric] stop_def [symmetric])
        then show ?thesis
          using spec sends(4,5) False by (auto simp: msc_ok_def same_session_def)
      next
        case sent: True
        define m2 where "m2 = m1\<lparr>msc_bus := b',
          msc_shared := count_read (stop - (current - ln_start l)) hit (msc_shared m1)\<rparr>"
        have m2: "msc_ok content m2" "same_session content m m2" "content (msc_card m2) = ?f"
          "msc_bus m2 = b'"
          using spec f by (simp_all add: m2_def msc_ok_def same_session_def frame_simps)
        have bounds: "current + n \<le> end_lba" "end_lba - (current + n) \<le> fuel"
          using sends(2,3) Suc.prems by linarith+
        obtain res m' where rest:
          "read_10_loop fuel streaming count end_lba (current + n) r' m2 = Some (res, m')"
          "msc_ok content m'" "same_session content m2 m'"
          "read_phase ?f (current + n) (end_lba - (current + n)) r' b' res (msc_bus m')"
          "in_script b' = [] \<longrightarrow> never_fails (sh_backend (msc_shared m2)) \<longrightarrow> snd res = Passed"
          using Suc.IH [OF m2(1) bounds(1) Suc.prems(3) bounds(2), of r'] m2(3,4) by auto
        have "read_10_loop (Suc fuel) streaming count end_lba current residue m = Some (res, m')"
          using True q Some found s sent rest(1)
          by (subst read_10_loop.simps)
            (simp add: Let_def l_def [symmetric] stop_def [symmetric] m2_def sends(1))
        moreover have "n + (end_lba - (current + n)) = end_lba - current" using sends(3) by linarith
        ultimately show ?thesis
          using rest(2,5) sends(4) sends(6) [OF sent rest(4)] m2(2) same_session_trans [OF m2(2) rest(3)]
          by (intro exI conjI) (auto simp: same_session_def)
      qed
    qed
  qed
qed

subsection \<open>Receiving blocks\<close>

lemma ep_read_spec:
  "ep_read n b = (r, b') \<Longrightarrow> tx b' = tx b \<and> in_script b' = in_script b
    \<and> (\<forall>bs. r = Inr bs \<longrightarrow> out_script b = Rx bs # out_script b' \<and> length bs \<le> n)"
  by (auto simp: ep_read_def split: list.splits out_event.splits if_splits)

definition received :: "bus \<Rightarrow> bytes \<Rightarrow> bus \<Rightarrow> bool" where
  "received b data b' \<longleftrightarrow> (\<exists>pkts. out_script b = map Rx pkts @ out_script b' \<and> concat pkts = data)"

lemma received_Nil: "received b [] b"
  by (auto simp: received_def)

lemma received_append: "received b xs b1 \<Longrightarrow> received b1 ys b2 \<Longrightarrow> received b (xs @ ys) b2"
  unfolding received_def by (metis append.assoc concat_append map_append)

lemma received_one: "out_script b = Rx bs # out_script b' \<Longrightarrow> received b bs b'"
  unfolding received_def by (intro exI [of _ "[bs]"]) simp

lemma read_chunks_spec:
  "read_chunks cs b = (ok, data, b') \<Longrightarrow>
    tx b' = tx b \<and> length data = length (concat cs) \<and> (ok \<longrightarrow> received b data b')"
proof (induction cs b arbitrary: ok data b' rule: read_chunks.induct)
  case (1 b)
  then show ?case by (simp add: received_Nil)
next
  case (2 c cs b)
  obtain r b1 where r: "ep_read (length c) b = (r, b1)" by force
  note step = ep_read_spec [OF r]
  show ?case
  proof (cases "\<exists>bs. r = Inr bs \<and> length bs = length c")
    case False
    have "length (splice_at 0 bs c) = length c" if "length bs \<le> length c" for bs :: bytes
      using that by simp
    with False 2(2) r step show ?thesis by (cases r) auto
  next
    case True
    then obtain bs where bs: "r = Inr bs" "length bs = length c" by blast
    obtain ok1 data1 b2 where rest: "read_chunks cs b1 = (ok1, data1, b2)" by (metis prod.exhaust)
    with 2(2) r bs have res: "ok = ok1" "data = bs @ data1" "b' = b2" by auto
    from 2(1) [OF r [unfolded bs(1), symmetric] refl _ rest] bs(2)
    have "tx b2 = tx b1 \<and> length data1 = length (concat cs) \<and> (ok1 \<longrightarrow> received b1 data1 b2)"
      by simp
    with res bs step received_append [OF received_one, of b bs b1 data1 b2] show ?thesis by auto
  qed
qed

lemma read_packets_spec:
  "read_packets d b = (ok, d', b') \<Longrightarrow>
    tx b' = tx b \<and> length d' = length d \<and> (ok \<longrightarrow> received b d' b')"
  unfolding read_packets_def
  by (drule read_chunks_spec) (simp add: concat_chunks bulk_packet_size_def)

lemma recv_blocks_spec:
  "recv_blocks ds b = (ok, ds', b') \<Longrightarrow>
    tx b' = tx b \<and> map length ds' = map length ds \<and> (ok \<longrightarrow> received b (concat ds') b')"
proof (induction ds b arbitrary: ok ds' b' rule: recv_blocks.induct)
  case (1 b)
  then show ?case by (simp add: received_Nil)
next
  case (2 d ds b)
  obtain ok1 d1 b1 where r: "read_packets d b = (ok1, d1, b1)" by (metis prod.exhaust)
  note step = read_packets_spec [OF r]
  show ?case
  proof (cases ok1)
    case False
    with 2(2) r step show ?thesis by auto
  next
    case True
    obtain ok2 ds2 b2 where rest: "recv_blocks ds b1 = (ok2, ds2, b2)" by (metis prod.exhaust)
    with 2(2) r True have res: "ok = ok2" "ds' = d1 # ds2" "b' = b2" by auto
    from 2(1) [OF r [symmetric] eqTrueI [OF True] refl rest]
    have "tx b2 = tx b1 \<and> map length ds2 = map length ds \<and> (ok2 \<longrightarrow> received b1 (concat ds2) b2)" .
    with res step True received_append [of b d1 b1 "concat ds2" b2] show ?thesis by auto
  qed
qed

text \<open>A host that sends the packets of \<open>n\<close> full reads.\<close>

definition host_sends :: "nat \<Rightarrow> bus \<Rightarrow> bool" where
  "host_sends n b \<longleftrightarrow> (\<exists>pkts rest. out_script b = map Rx pkts @ rest \<and> length pkts = n
    \<and> list_all (\<lambda>p. length p = bulk_packet_size) pkts)"

lemma host_sends_read:
  assumes "host_sends (Suc n) b"
  shows "\<exists>bs b1. ep_read bulk_packet_size b = (Inr bs, b1) \<and> length bs = bulk_packet_size \<and> host_sends n b1"
proof -
  from assms obtain p pkts rest where "out_script b = Rx p # map Rx pkts @ rest" "length pkts = n"
    "length p = bulk_packet_size" "list_all (\<lambda>p. length p = bulk_packet_size) pkts"
    by (auto simp: host_sends_def length_Suc_conv)
  then show ?thesis by (auto simp: ep_read_def host_sends_def)
qed

lemma read_chunks_sent:
  "list_all (\<lambda>c. length c = bulk_packet_size) cs \<Longrightarrow> host_sends (length cs + k) b \<Longrightarrow>
    \<exists>data b'. read_chunks cs b = (True, data, b') \<and> host_sends k b'"
proof (induction cs arbitrary: b)
  case (Cons c cs)
  then obtain bs b1 where r: "ep_read bulk_packet_size b = (Inr bs, b1)"
    "length bs = bulk_packet_size" "host_sends (length cs + k) b1"
    using host_sends_read [of "length cs + k" b] by auto
  have "list_all (\<lambda>c. length c = bulk_packet_size) cs" using Cons.prems by simp
  from Cons.IH [OF this r(3)] obtain data b' where "read_chunks cs b1 = (True, data, b')" "host_sends k b'"
    by blast
  with Cons.prems r show ?case by simp
qed simp

definition packets_per_block :: nat where "packets_per_block = 8"

lemma recv_blocks_sent:
  "list_all (\<lambda>d. length d = block_len) ds \<Longrightarrow> host_sends (length ds * packets_per_block + k) b \<Longrightarrow>
    \<exists>ds' b'. recv_blocks ds b = (True, ds', b') \<and> host_sends k b'"
proof (induction ds arbitrary: b)
  case (Cons d ds)
  have "length d = packets_per_block * bulk_packet_size"
    using Cons.prems by (simp add: block_len_def packets_per_block_def bulk_packet_size_def)
  then have cs: "list_all (\<lambda>c. length c = bulk_packet_size) (chunks bulk_packet_size d)"
    "length (chunks bulk_packet_size d) = packets_per_block"
    using chunks_uniform [of bulk_packet_size d packets_per_block] by (auto simp: bulk_packet_size_def)
  have "length (d # ds) * packets_per_block + k
      = length (chunks bulk_packet_size d) + (length ds * packets_per_block + k)"
    using cs(2) by simp
  then obtain data b1 where "read_chunks (chunks bulk_packet_size d) b = (True, data, b1)"
    "host_sends (length ds * packets_per_block + k) b1"
    using read_chunks_sent [OF cs(1)] Cons.prems(2) by metis
  moreover from this Cons.prems obtain ds' b' where "recv_blocks ds b1 = (True, ds', b')" "host_sends k b'"
    using Cons.IH [of b1] by auto
  ultimately show ?case by (simp add: read_packets_def)
qed simp

subsection \<open>Keeping the cache in step with a write\<close>

fun put_blocks :: "(nat \<Rightarrow> bytes) \<Rightarrow> nat \<Rightarrow> bytes list \<Rightarrow> nat \<Rightarrow> bytes" where
  "put_blocks f t [] = f"
| "put_blocks f t (b # bs) = put_blocks (f(t := b)) (t + 1) bs"

lemma put_blocks_apply:
  "put_blocks f t bs j = (if t \<le> j \<and> j < t + length bs then bs ! (j - t) else f j)"
proof (induction bs arbitrary: f t)
  case (Cons b bs)
  then show ?case by (cases "j = t") (auto simp: nth_Cons' Suc_diff_Suc)
qed auto

lemma update_line_ok:
  assumes "line_shape l" "line_copy f l" "list_all (\<lambda>b. length b = block_len) bs"
  shows "line_shape (update_line t bs l) \<and> line_copy (put_blocks f t bs) (update_line t bs l)"
  using assms
proof (induction bs arbitrary: t f l)
  case (Cons b bs)
  define l1 where "l1 = (if line_contains l t then l\<lparr>ln_data := (ln_data l)[t - ln_start l := b]\<rparr> else l)"
  have "line_shape l1"
    using Cons.prems by (auto simp: l1_def line_shape_def list_all_iff dest: set_update_subset_insert [THEN subsetD])
  moreover have "line_copy (f(t := b)) l1"
    using Cons.prems(1,2) unfolding line_copy_def
    by (auto simp: l1_def line_contains_def line_shape_def nth_list_update)
  moreover have "update_line t (b # bs) l = update_line (t + 1) bs l1"
    "put_blocks f t (b # bs) = put_blocks (f(t := b)) (t + 1) bs" by (simp_all add: l1_def)
  ultimately show ?case using Cons.IH [of l1 "f(t := b)" "t + 1"] Cons.prems(3)
    by (simp only: list.pred_inject)
qed simp

lemma update_from_stream_coherent:
  assumes coh: "coherent f c" and invalid: "\<not> ln_valid (bc_lines c ! stream_line)"
    and bs: "take n (ln_data (bc_lines c ! stream_line)) = bs"
  shows "coherent (put_blocks f lba bs) (update_from_stream lba n c)"
proof -
  have len: "length (bc_lines c) = 3" using coh by (rule coherent_length)
  have "line_shape (bc_lines c ! 2)" using coherent_nth [OF coh, of 2] by simp
  then have all: "list_all (\<lambda>b. length b = block_len) bs"
    using bs by (auto simp: line_shape_def list_all_iff stream_line_def cache_lines_def dest: in_set_takeD)
  have low: "line_shape (update_line lba bs l) \<and> line_copy (put_blocks f lba bs) (update_line lba bs l)"
    if "l \<in> set (take stream_line (bc_lines c))" for l
  proof -
    have "line_shape l \<and> line_copy f l"
      using in_set_takeD [OF that] coh by (simp add: coherent_def list_all_iff)
    then show ?thesis by (intro update_line_ok [OF _ _ all]) simp_all
  qed
  have "drop stream_line (bc_lines c) = [bc_lines c ! stream_line]"
    using len by (intro nth_equalityI) (simp_all add: stream_line_def cache_lines_def)
  moreover have "line_shape (bc_lines c ! stream_line)"
    using coherent_nth [OF coh, of 2] by (simp add: stream_line_def cache_lines_def)
  ultimately show ?thesis
    using low len invalid unfolding update_from_stream_def bs
    by (auto simp: coherent_def list_all_iff cache_lines_def stream_line_def line_copy_def)
qed

lemma dev_write_put:
  assumes "device_contract ops content" "dev_write ops d t bs = (True, d')"
    and "list_all (\<lambda>b. length b = block_len) bs"
  shows "content d' = put_blocks (content d) t bs"
proof
  fix j
  show "content d' j = put_blocks (content d) t bs j"
  proof (cases "t \<le> j \<and> j < t + length bs")
    case True
    then have "j - t < length bs" by linarith
    with contract_write_inside [OF assms this] True show ?thesis by (simp add: put_blocks_apply)
  next
    case False
    then show ?thesis
      using contract_write_outside [OF assms, of j] by (auto simp: put_blocks_apply)
  qed
qed

subsection \<open>WRITE(10)\<close>

lemma recv_line_spec:
  assumes ok: "msc_ok content m" and small: "n \<le> line_blocks" and run: "recv_line n m = (r, m')"
  shows "msc_ok content m'" "same_session content m m'" "msc_card m' = msc_card m"
    "msc_shared m' = msc_shared m"
    "tx (msc_bus m') = tx (msc_bus m)" "\<not> ln_valid (bc_lines (msc_cache m') ! stream_line)"
    "length (take n (ln_data (bc_lines (msc_cache m') ! stream_line))) = n
     \<and> list_all (\<lambda>b. length b = block_len) (take n (ln_data (bc_lines (msc_cache m') ! stream_line)))
     \<and> (r \<longrightarrow> received (msc_bus m) (concat (take n (ln_data (bc_lines (msc_cache m') ! stream_line)))) (msc_bus m'))"
    "host_sends (n * packets_per_block + k) (msc_bus m) \<Longrightarrow> r \<and> host_sends k (msc_bus m')"
proof -
  define c where "c = msc_cache m"
  define l where "l = (bc_lines c ! stream_line)\<lparr>ln_valid := False\<rparr>"
  have coh: "coherent (content (msc_card m)) c" using ok by (simp add: msc_ok_def c_def)
  have index: "stream_line < length (bc_lines c)"
    using coherent_length [OF coh] by (simp add: stream_line_def cache_lines_def)
  have "line_shape (bc_lines c ! stream_line)"
    using coherent_nth [OF coh, of stream_line] by (simp add: stream_line_def cache_lines_def)
  then have l: "line_shape l" "\<not> ln_valid l" by (simp_all add: l_def line_shape_def)
  obtain q ds b where q: "recv_blocks (take n (ln_data l)) (msc_bus m) = (q, ds, b)" by (metis prod.exhaust)
  note spec = recv_blocks_spec [OF q]
  define l' where "l' = l\<lparr>ln_data := splice_at 0 ds (ln_data l)\<rparr>"
  from run q have r: "r = q" and m': "m' = m\<lparr>msc_bus := b, msc_cache := set_line stream_line l' c\<rparr>"
    by (auto simp: recv_line_def Let_def c_def l_def l'_def)
  have "length ds = length (take n (ln_data l))" using spec by (metis length_map)
  then have len: "length ds = n" using small l(1) by (simp add: line_shape_def)
  have "list_all (\<lambda>k. k = block_len) (map length ds)"
    using spec l(1) by (auto simp: line_shape_def list_all_iff dest: in_set_takeD)
  then have all: "list_all (\<lambda>b. length b = block_len) ds" by (simp add: list_all_iff)
  have stream: "bc_lines (set_line stream_line l' c) ! stream_line = l'"
    using index by (simp add: set_line_def)
  have data: "take n (ln_data l') = ds" by (simp add: l'_def splice_at_def len)
  have "line_shape l'" "line_copy (content (msc_card m)) l'"
    using l all small len
    by (auto simp: line_shape_def line_copy_def l'_def splice_at_def list_all_iff dest: in_set_dropD)
  then have "coherent (content (msc_card m)) (set_line stream_line l' c)"
    by (intro coherent_update [OF coh])
  then show "msc_ok content m'" "same_session content m m'" "msc_card m' = msc_card m"
    "msc_shared m' = msc_shared m" "tx (msc_bus m') = tx (msc_bus m)"
    using ok spec by (simp_all add: m' msc_ok_def same_session_def)
  have "list_all (\<lambda>b. length b = block_len) (take n (ln_data l))" "length (take n (ln_data l)) = n"
    using l(1) small by (auto simp: line_shape_def list_all_iff dest: in_set_takeD)
  then show "host_sends (n * packets_per_block + k) (msc_bus m) \<Longrightarrow> r \<and> host_sends k (msc_bus m')"
    using recv_blocks_sent [of "take n (ln_data l)" k "msc_bus m"] q by (simp add: m' r)
  show "\<not> ln_valid (bc_lines (msc_cache m') ! stream_line)"
    using l by (simp add: m' stream) (simp add: l'_def)
  show "length (take n (ln_data (bc_lines (msc_cache m') ! stream_line))) = n
     \<and> list_all (\<lambda>b. length b = block_len) (take n (ln_data (bc_lines (msc_cache m') ! stream_line)))
     \<and> (r \<longrightarrow> received (msc_bus m) (concat (take n (ln_data (bc_lines (msc_cache m') ! stream_line)))) (msc_bus m'))"
    using spec all len by (simp add: m' stream data r)
qed

lemma discard_out_tx: "discard_out n b = (r, b') \<Longrightarrow> tx b' = tx b"
proof (induction n b rule: discard_out.induct)
  case (1 n b)
  obtain q b1 where q: "ep_read (min n bulk_packet_size) b = (q, b1)" by force
  from 1 q ep_read_spec [OF q] show ?case
    by (subst (asm) (2) discard_out.simps) (auto split: sum.splits if_splits)
qed

text \<open>The data phase of a write: the first \<open>k\<close> blocks of the range hold what the host sent, no block
  outside the range is touched, nothing is sent to the host.\<close>

definition write_phase ::
  "(nat \<Rightarrow> bytes) \<Rightarrow> (nat \<Rightarrow> bytes) \<Rightarrow> nat \<Rightarrow> nat \<Rightarrow> nat \<Rightarrow> bus \<Rightarrow> (nat \<times> command_status) \<Rightarrow> bus \<Rightarrow> bool" where
  "write_phase f f' current n residue b res b' \<longleftrightarrow>
    tx b' = tx b \<and> (\<forall>j. j < current \<or> current + n \<le> j \<longrightarrow> f' j = f j)
    \<and> (\<exists>k b1. k \<le> n \<and> fst res = residue - k * block_len
         \<and> received b (concat (medium_blocks f' current k)) b1
         \<and> (snd res = Passed \<longrightarrow> k = n \<and> b1 = b'))"

lemma write_phase_extend:
  assumes "write_phase f1 f' (current + n1) n2 (residue - n1 * block_len) b1 res b'"
    and "tx b1 = tx b" and "received b (concat (medium_blocks f1 current n1)) b1"
    and "\<forall>j. j < current \<or> current + n1 \<le> j \<longrightarrow> f1 j = f j"
  shows "write_phase f f' current (n1 + n2) residue b res b'"
proof -
  from assms(1) obtain k b2 where k: "k \<le> n2" "fst res = residue - n1 * block_len - k * block_len"
    "received b1 (concat (medium_blocks f' (current + n1) k)) b2" "snd res = Passed \<longrightarrow> k = n2 \<and> b2 = b'"
    and frame: "tx b' = tx b1" "\<forall>j. j < current + n1 \<or> current + n1 + n2 \<le> j \<longrightarrow> f' j = f1 j"
    unfolding write_phase_def by blast
  have "medium_blocks f' current n1 = medium_blocks f1 current n1"
    using frame(2) by (auto simp: medium_blocks_def)
  then have "received b (concat (medium_blocks f' current (n1 + k))) b2"
    using received_append [OF assms(3) k(3)] by (simp add: medium_blocks_append)
  then show ?thesis
    unfolding write_phase_def using k frame assms(2,4)
    by (intro conjI exI [of _ "n1 + k"] exI [of _ b2]) (auto simp: add_mult_distrib add.assoc)
qed

definition write_failed :: "'d msc_class \<Rightarrow> bool" where
  "write_failed m \<longleftrightarrow> sh_sense (msc_shared m)
    = \<lparr>sense_key = sense_medium_error, sense_asc = asc_write_error, sense_ascq = 0\<rparr>"

lemma write_phase_stops:
  "tx b' = tx b \<Longrightarrow> \<forall>j. j < current \<or> current + n \<le> j \<longrightarrow> f' j = f j \<Longrightarrow> status \<noteq> Passed \<Longrightarrow>
    write_phase f f' current n residue b (residue, status) b'"
  unfolding write_phase_def
  by (intro conjI exI [of _ 0] exI [of _ b]) (auto simp: medium_blocks_def received_Nil)

text \<open>What the loop leaves behind: the blocks that were received are written; the cache is coherent
  unless the card refused them; and a host that sends everything to a sound card is served.\<close>

definition write_ends ::
  "('d \<Rightarrow> nat \<Rightarrow> bytes) \<Rightarrow> 'd msc_class \<Rightarrow> nat \<Rightarrow> nat \<Rightarrow> nat \<Rightarrow> (nat \<times> command_status) \<Rightarrow> 'd msc_class \<Rightarrow> bool" where
  "write_ends content m current n residue res m' \<longleftrightarrow>
     write_phase (content (msc_card m)) (content (msc_card m')) current n residue (msc_bus m) res (msc_bus m')
     \<and> device_contract (sh_backend (msc_shared m')) content
     \<and> msc_cache_generation m' = msc_cache_generation m
     \<and> (msc_ok content m' \<or> write_failed m' \<and> snd res \<noteq> Passed)
     \<and> (host_sends (n * packets_per_block) (msc_bus m)
         \<longrightarrow> never_fails (sh_backend (msc_shared m)) \<longrightarrow> snd res = Passed)"

text \<open>One round of the loop, with the \<open>n\<close> received blocks in the streaming line.\<close>

lemma write_refused:
  assumes ok: "msc_ok content m" and n: "n \<le> line_blocks" "n \<le> left" and r: "recv_line n m = (r, m1)"
    and w: "dev_write (sh_backend (msc_shared m)) (msc_card m) current
      (take n (ln_data (bc_lines (msc_cache m1) ! stream_line))) = (False, dev)"
    and x: "discard_out k (msc_bus m1) = (x, b)"
  shows "write_ends content m current left residue (residue, if x then Failed else Phase_Error)
    ((with_sense sense_medium_error asc_write_error 0 (m1\<lparr>msc_card := dev\<rparr>))\<lparr>msc_bus := b\<rparr>)"
    (is "write_ends _ _ _ _ _ ?res ?m'")
proof -
  note recv = recv_line_spec [OF ok n(1) r]
  have contract: "device_contract (sh_backend (msc_shared m)) content" using ok by (simp add: msc_ok_def)
  have "content dev j = content (msc_card m) j" if "j < current \<or> current + left \<le> j" for j
    using contract_write_outside [OF contract w] recv(7) that n(2) by auto
  then have "write_phase (content (msc_card m)) (content dev) current left residue (msc_bus m) ?res b"
    using discard_out_tx [OF x] recv(5) by (intro write_phase_stops) (simp_all split: if_splits)
  moreover have "write_failed ?m'" by (simp add: write_failed_def frame_simps set_sense_def)
  moreover have "\<not> never_fails (sh_backend (msc_shared m))" using w by (rule never_fails_write)
  ultimately show ?thesis
    using contract recv(2,4) by (simp add: write_ends_def frame_simps same_session_def)
qed

definition block_stored :: "nat \<Rightarrow> nat \<Rightarrow> 'd \<Rightarrow> 'd msc_class \<Rightarrow> 'd msc_class" where
  "block_stored current n dev m = m\<lparr>msc_card := dev, msc_cache := update_from_stream current n (msc_cache m),
     msc_shared := count_written n (msc_shared m)\<rparr>"

lemma write_stored:
  assumes ok: "msc_ok content m" and n: "n \<le> line_blocks" and r: "recv_line n m = (True, m1)"
    and w: "dev_write (sh_backend (msc_shared m)) (msc_card m) current
      (take n (ln_data (bc_lines (msc_cache m1) ! stream_line))) = (True, dev)"
  shows "msc_ok content (block_stored current n dev m1)"
    and "write_ends content (block_stored current n dev m1) (current + n) left (residue - n * block_len) res m' \<Longrightarrow>
      write_ends content m current (n + left) residue res m'"
proof -
  define bs where "bs = take n (ln_data (bc_lines (msc_cache m1) ! stream_line))"
  note recv = recv_line_spec [OF ok n r, folded bs_def]
  have contract: "device_contract (sh_backend (msc_shared m)) content" using ok by (simp add: msc_ok_def)
  have put: "content dev = put_blocks (content (msc_card m)) current bs"
    using dev_write_put [OF contract _ conjunct1 [OF conjunct2 [OF recv(7)]]] w by (simp add: bs_def)
  have "coherent (content (msc_card m)) (msc_cache m1)" using recv(1,3) by (simp add: msc_ok_def)
  from update_from_stream_coherent [OF this recv(6), of n bs current]
  show "msc_ok content (block_stored current n dev m1)"
    using contract recv(4,7) by (simp add: msc_ok_def block_stored_def put bs_def count_written_def)
  assume "write_ends content (block_stored current n dev m1) (current + n) left (residue - n * block_len) res m'"
  note rest = this [unfolded write_ends_def]
  have "medium_blocks (content dev) current n = bs"
    using recv(7) by (auto simp: medium_blocks_def put put_blocks_apply intro: nth_equalityI)
  then have "write_phase (content (msc_card m)) (content (msc_card m')) current (n + left) residue
      (msc_bus m) res (msc_bus m')"
    using rest recv(5,7) by (intro write_phase_extend [of "content dev" _ _ _ _ _ "msc_bus m1"])
      (auto simp: block_stored_def put put_blocks_apply)
  with rest recv(2,4,8) show "write_ends content m current (n + left) residue res m'"
    by (auto simp: write_ends_def block_stored_def same_session_def count_written_def add_mult_distrib)
qed

lemma write_10_loop_correct:
  assumes "msc_ok content m" "current \<le> end_lba" "write_10_loop end_lba current residue m = (res, m')"
  shows "write_ends content m current (end_lba - current) residue res m'"
  using assms
proof (induction "end_lba - current" arbitrary: current residue m rule: less_induct)
  case less
  show ?case
  proof (cases "current < end_lba")
    case False
    with less.prems have "res = (residue, Passed)" "m' = m"
      by (subst (asm) write_10_loop.simps, simp)+
    with False less.prems show ?thesis
      by (auto simp: write_ends_def msc_ok_def write_phase_def medium_blocks_def received_Nil)
  next
    case True
    define n where "n = min (end_lba - current) line_blocks"
    have n: "n \<le> line_blocks" "n \<le> end_lba - current" "0 < n" "end_lba - current = n + (end_lba - (current + n))"
      using True by (simp_all add: n_def line_blocks_def)
    obtain r m1 where r: "recv_line n m = (r, m1)" by force
    note recv = recv_line_spec [OF less.prems(1) n(1) r]
    obtain w dev where w: "dev_write (sh_backend (msc_shared m)) (msc_card m) current
        (take n (ln_data (bc_lines (msc_cache m1) ! stream_line))) = (w, dev)" by force
    obtain x b where x: "discard_out (residue - n * block_len) (msc_bus m1) = (x, b)" by force
    note loop = less.prems(3) [unfolded write_10_loop.simps [of end_lba current]]
    consider (lost) "\<not> r" | (refused) r "\<not> w" | (stored) r w by blast
    then show ?thesis
    proof cases
      case lost
      have "res = (residue, Phase_Error)" "m' = m1"
        using loop True r lost by (simp_all add: Let_def n_def [symmetric])
      moreover have "\<not> host_sends ((end_lba - current) * packets_per_block) (msc_bus m)"
        using recv(8) [of "(end_lba - (current + n)) * packets_per_block"] lost
        by (subst n(4)) (auto simp: add_mult_distrib)
      ultimately show ?thesis
        using recv(1-5) less.prems(1) by (simp add: write_ends_def write_phase_stops same_session_def msc_ok_def)
    next
      case refused
      have "res = (residue, if x then Failed else Phase_Error)"
        "m' = (with_sense sense_medium_error asc_write_error 0 (m1\<lparr>msc_card := dev\<rparr>))\<lparr>msc_bus := b\<rparr>"
        using loop True r w refused recv(3,4) x by (auto simp: Let_def n_def [symmetric] frame_simps split: bool.splits)
      with write_refused [OF less.prems(1) n(1,2) r _ x] w refused show ?thesis by simp
    next
      case stored
      have "write_10_loop end_lba (current + n) (residue - n * block_len) (block_stored current n dev m1) = (res, m')"
        using loop True r w stored recv(3,4) by (simp add: Let_def n_def [symmetric] block_stored_def)
      note rest = less.hyps [OF _ _ _ this]
      have "msc_ok content (block_stored current n dev m1)"
        using write_stored(1) [OF less.prems(1) n(1)] r w stored by simp
      then have "write_ends content (block_stored current n dev m1) (current + n) (end_lba - (current + n))
          (residue - n * block_len) res m'"
        using n(2,3) by (intro rest) linarith+
      with write_stored(2) [OF less.prems(1) n(1)] r w stored show ?thesis by (subst n(4)) simp
    qed
  qed
qed

subsection \<open>Whole commands\<close>

text \<open>The invariant between commands: the cache copies the card whenever its generation is the
  shared one.\<close>

definition msc_inv :: "('d \<Rightarrow> nat \<Rightarrow> bytes) \<Rightarrow> 'd msc_class \<Rightarrow> bool" where
  "msc_inv content m \<longleftrightarrow> device_contract (sh_backend (msc_shared m)) content
    \<and> cache_shaped (msc_cache m)
    \<and> (msc_cache_generation m = sh_generation (msc_shared m)
       \<longrightarrow> coherent (content (msc_card m)) (msc_cache m))"

lemma msc_inv_refresh:
  "msc_inv content m \<Longrightarrow> msc_ok content (refresh_generation m)"
  by (auto simp: msc_inv_def msc_ok_def refresh_generation_def Let_def coherent_invalidate)

lemma refresh_fields [frame_simps]:
  "msc_bus (refresh_generation m) = msc_bus m" "msc_shared (refresh_generation m) = msc_shared m"
  "msc_card (refresh_generation m) = msc_card m"
  "msc_cache_generation (refresh_generation m) = sh_generation (msc_shared m)"
  by (simp_all add: refresh_generation_def Let_def)

lemma msc_ok_inv: "msc_ok content m \<Longrightarrow> msc_inv content m"
  by (auto simp: msc_ok_def msc_inv_def coherent_shaped)

text \<open>A command that leaves card and cache alone.\<close>

definition quiet :: "'d msc_class \<Rightarrow> 'd msc_class \<Rightarrow> bool" where
  "quiet m m' \<longleftrightarrow> msc_card m' = msc_card m \<and> msc_cache m' = msc_cache m
    \<and> msc_cache_generation m' = msc_cache_generation m
    \<and> sh_backend (msc_shared m') = sh_backend (msc_shared m)
    \<and> sh_generation (msc_shared m') = sh_generation (msc_shared m)"

lemma quiet_refl: "quiet m m"
  by (simp add: quiet_def)

lemma quiet_with_sense: "quiet m (with_sense k a q m)"
  by (simp add: quiet_def frame_simps)

lemma quiet_bus: "quiet m (m\<lparr>msc_bus := b\<rparr>)"
  by (simp add: quiet_def)

lemma quiet_msc_ok: "quiet m m' \<Longrightarrow> msc_ok content m \<Longrightarrow> msc_ok content m'"
  by (simp add: quiet_def msc_ok_def)

text \<open>\<open>send_data\<close> sends a prefix of the response, then a zero-length packet when a short
  response fills its last packet, and counts the rest as residue.\<close>

lemma send_data_quiet:
  "send_data c data m = (res, m') \<Longrightarrow> quiet m m' \<and> msc_shared m' = msc_shared m
    \<and> fst res \<le> cbw_transfer_len c"
  by (auto simp: send_data_def quiet_def Let_def split: if_splits prod.splits bool.splits)

lemma write_packets_all:
  assumes "write_packets data b = (ok, b')"
  shows "\<exists>n. tx b' = tx b @ take n (chunks bulk_packet_size data)
    \<and> (ok \<longrightarrow> tx b' = tx b @ chunks bulk_packet_size data)"
  using write_chunks_spec [of "chunks bulk_packet_size data" b ok b'] assms
  by (auto simp: write_packets_def)

lemma ep_write_tx: "ep_write p b = (ok, b') \<Longrightarrow> tx b' = (if ok then tx b @ [p] else tx b)
    \<and> out_script b' = out_script b"
  by (auto simp: ep_write_def split: list.splits if_splits)

lemma send_data_Passed:
  assumes "send_data c data m = ((residue, Passed), m')"
  shows "residue = cbw_transfer_len c - min (length data) (cbw_transfer_len c)"
    "concat (drop (length (tx (msc_bus m))) (tx (msc_bus m'))) = take (cbw_transfer_len c) data"
proof -
  define n where "n = min (length data) (cbw_transfer_len c)"
  obtain ok b where w: "write_packets (take n data) (msc_bus m) = (ok, b)" by force
  from assms w have ok: "ok" and residue: "residue = cbw_transfer_len c - n"
    by (auto simp: send_data_def n_def Let_def split: if_splits bool.splits prod.splits)
  then have b: "tx b = tx (msc_bus m) @ chunks bulk_packet_size (take n data)"
    using write_packets_all [OF w] by simp
  have "tx (msc_bus m') = tx b \<or> tx (msc_bus m') = tx b @ [[]]"
    using assms w ok
    by (auto simp: send_data_def n_def Let_def dest: ep_write_tx split: if_splits bool.splits prod.splits)
  moreover
  have "concat (chunks bulk_packet_size (take n data)) = take n data"
    by (simp add: concat_chunks bulk_packet_size_def)
  ultimately show "concat (drop (length (tx (msc_bus m))) (tx (msc_bus m'))) = take (cbw_transfer_len c) data"
    using b by (auto simp: n_def min_def)
  show "residue = cbw_transfer_len c - min (length data) (cbw_transfer_len c)"
    using residue by (simp add: n_def)
qed

lemmas simple_command_defs = no_data_def test_unit_ready_def start_stop_def inquiry_def mode_sense_6_def
  mode_sense_10_def read_capacity_10_def read_capacity_16_def read_format_capacities_def report_luns_def

text \<open>All commands but the two transfers.\<close>

definition simple_reply :: "cbw \<Rightarrow> 'd msc_class \<Rightarrow> 'd reply \<Rightarrow> bool" where
  "simple_reply c m r \<longleftrightarrow> quiet m (snd r) \<and> fst (fst r) \<le> cbw_transfer_len c
    \<and> (\<exists>data. tx (msc_bus (snd r)) = tx (msc_bus m) @ data)"

lemma send_data_tx: "send_data c data m = (res, m') \<Longrightarrow> \<exists>sent. tx (msc_bus m') = tx (msc_bus m) @ sent"
  by (auto simp: send_data_def Let_def dest!: ep_write_tx write_packets_all
      split: if_splits prod.splits bool.splits)

lemma simple_reply_send_data: "simple_reply c m (send_data c data m)"
  using send_data_quiet [of c data m] send_data_tx [of c data m]
  by (cases "send_data c data m") (auto simp: simple_reply_def)

lemma simple_replies:
  "simple_reply c m (no_data c m)" "simple_reply c m (test_unit_ready c m)"
  "simple_reply c m (inquiry c m)" "simple_reply c m (mode_sense_6 c m)"
  "simple_reply c m (mode_sense_10 c m)" "simple_reply c m (read_capacity_10 c m)"
  "simple_reply c m (read_capacity_16 c m)" "simple_reply c m (read_format_capacities c m)"
  "simple_reply c m (report_luns c m)"
  by (simp_all add: simple_command_defs Let_def simple_reply_send_data)
    (simp_all add: simple_reply_def quiet_refl quiet_with_sense frame_simps)

lemma simple_reply_start_stop: "simple_reply c m (start_stop c m)"
  by (simp add: start_stop_def Let_def simple_reply_def quiet_def)

lemma simple_reply_request_sense: "simple_reply c m (request_sense c m)"
  using send_data_quiet [of c _ m] send_data_tx [of c _ m]
  by (auto simp: request_sense_def Let_def simple_reply_def quiet_def split: prod.splits)

subsection \<open>Out of range\<close>

lemma in_range_iff: "count \<le> u32_max \<Longrightarrow> in_range lba blocks count \<longleftrightarrow> lba + blocks \<le> count"
  by (auto simp: in_range_def checked_add_def)

lemma in_rangeD: "in_range lba blocks count \<Longrightarrow> lba + blocks \<le> count"
  by (auto simp: in_range_def checked_add_def split: if_splits)

text \<open>Outcomes of the two transfer commands, whatever the command block says.\<close>

lemma read_10_cases:
  assumes ok: "msc_ok content m"
  obtains (refused) res m' where "read_10 c m = Some (res, m')" "quiet m m'" "msc_bus m' = msc_bus m"
      "fst res \<le> cbw_transfer_len c"
      "snd res = Passed \<Longrightarrow> rw_blocks c = 0"
  | (served) res m' where "read_10 c m = Some (res, m')" "msc_ok content m'" "same_session content m m'"
      "rw_lba c + rw_blocks c \<le> block_count (msc_shared m)" "cbw_direction c = Dir_In"
      "cbw_transfer_len c = rw_blocks c * block_len"
      "read_phase (content (msc_card m)) (rw_lba c) (rw_blocks c) (cbw_transfer_len c) (msc_bus m) res (msc_bus m')"
      "in_script (msc_bus m) = [] \<longrightarrow> never_fails (sh_backend (msc_shared m)) \<longrightarrow> snd res = Passed"
proof (cases "cbw_direction c \<noteq> Dir_In \<or> cbw_transfer_len c \<noteq> rw_blocks c * block_len \<or> rw_blocks c = 0
    \<or> \<not> in_range (rw_lba c) (rw_blocks c) (block_count (msc_shared m))")
  case True
  then have "\<exists>res m'. read_10 c m = Some (res, m') \<and> quiet m m' \<and> msc_bus m' = msc_bus m
      \<and> fst res \<le> cbw_transfer_len c \<and> (snd res = Passed \<longrightarrow> rw_blocks c = 0)"
    unfolding read_10_def Let_def
    by (auto simp: frame_simps quiet_refl quiet_with_sense split del: if_split split: if_splits)
  then show thesis using refused by blast
next
  case False
  then have range: "rw_lba c + rw_blocks c \<le> block_count (msc_shared m)" using in_rangeD by blast
  obtain res m' where loop: "read_10_loop (rw_blocks c) (line_blocks < rw_blocks c) (block_count (msc_shared m))
      (rw_lba c + rw_blocks c) (rw_lba c) (cbw_transfer_len c) m = Some (res, m')"
    "msc_ok content m'" "same_session content m m'"
    "read_phase (content (msc_card m)) (rw_lba c) (rw_blocks c) (cbw_transfer_len c) (msc_bus m) res (msc_bus m')"
    "in_script (msc_bus m) = [] \<longrightarrow> never_fails (sh_backend (msc_shared m)) \<longrightarrow> snd res = Passed"
    using read_10_loop_correct [OF ok _ range, of "rw_lba c" "rw_blocks c" "line_blocks < rw_blocks c"
        "cbw_transfer_len c"] by auto
  with False range served show thesis by (simp add: read_10_def Let_def)
qed

lemma write_10_cases:
  assumes ok: "msc_ok content m" and run: "write_10 c m = (res, m')"
  obtains (refused) "quiet m m'" "tx (msc_bus m') = tx (msc_bus m)" "fst res \<le> cbw_transfer_len c"
      "snd res = Passed \<Longrightarrow> rw_blocks c = 0"
  | (served) "rw_lba c + rw_blocks c \<le> block_count (msc_shared m)" "cbw_direction c = Dir_Out"
      "cbw_transfer_len c = rw_blocks c * block_len"
      "write_phase (content (msc_card m)) (content (msc_card m')) (rw_lba c) (rw_blocks c)
        (cbw_transfer_len c) (msc_bus m) res (msc_bus m')"
      "device_contract (sh_backend (msc_shared m')) content"
      "msc_cache_generation m' = msc_cache_generation m"
      "msc_ok content m' \<or> write_failed m' \<and> snd res \<noteq> Passed"
      "host_sends (rw_blocks c * packets_per_block) (msc_bus m)
        \<longrightarrow> never_fails (sh_backend (msc_shared m)) \<longrightarrow> snd res = Passed"
proof (cases "cbw_direction c \<noteq> Dir_Out \<or> cbw_transfer_len c \<noteq> rw_blocks c * block_len \<or> rw_blocks c = 0")
  case True
  with run have "m' = m" "fst res \<le> cbw_transfer_len c" "snd res = Passed \<Longrightarrow> rw_blocks c = 0"
    by (auto simp: write_10_def Let_def split: if_splits)
  then show thesis using refused by (simp add: quiet_refl)
next
  case data: False
  show thesis
  proof (cases "in_range (rw_lba c) (rw_blocks c) (block_count (msc_shared m))")
    case False
    define m1 where "m1 = with_sense sense_illegal_request asc_invalid_field 0 m"
    obtain x b where x: "discard_out (cbw_transfer_len c) (msc_bus m1) = (x, b)" by force
    have "m' = m1\<lparr>msc_bus := b\<rparr>" "res = (cbw_transfer_len c, if x then Failed else Phase_Error)"
      using run data False x
      by (auto simp: write_10_def Let_def m1_def split: bool.splits)
    then show thesis
      using refused discard_out_tx [OF x] by (simp add: quiet_def m1_def frame_simps split: if_splits)
  next
    case True
    then have "write_10_loop (rw_lba c + rw_blocks c) (rw_lba c) (cbw_transfer_len c) m = (res, m')"
      using run data by (simp add: write_10_def Let_def)
    from write_10_loop_correct [OF ok _ this, unfolded write_ends_def] in_rangeD [OF True] data served show thesis by simp
  qed
qed

subsection \<open>Dispatch\<close>

lemma execute_read: "cbw_command c ! 0 = 0x28 \<Longrightarrow> execute c m = read_10 c (refresh_generation m)"
  by (simp add: execute_def Let_def)

lemma execute_write: "cbw_command c ! 0 = 0x2A \<Longrightarrow> execute c m = Some (write_10 c (refresh_generation m))"
  by (simp add: execute_def Let_def)

lemma execute_other:
  assumes "cbw_command c ! 0 \<noteq> 0x28" "cbw_command c ! 0 \<noteq> 0x2A"
  obtains r where "execute c m = Some r" "simple_reply c (refresh_generation m) r"
proof -
  have "simple_reply c m1 ((cbw_transfer_len c, Failed), with_sense k a q m1)" for m1 :: "'a msc_class" and k a q
    by (simp add: simple_reply_def quiet_with_sense frame_simps)
  then have "case execute c m of None \<Rightarrow> False | Some r \<Rightarrow> simple_reply c (refresh_generation m) r"
    using assms
    by (simp add: execute_def Let_def simple_replies simple_reply_start_stop simple_reply_request_sense)
  with that show thesis by (auto split: option.splits)
qed

definition transfer_command :: "cbw \<Rightarrow> bool" where
  "transfer_command c \<longleftrightarrow> cbw_command c ! 0 = 0x28 \<or> cbw_command c ! 0 = 0x2A"

text \<open>Every command ends with a result, keeps the contract, and only extends the packet log.\<close>

lemma execute_spec:
  assumes inv: "msc_inv content m"
  obtains res m' data where "execute c m = Some (res, m')" "fst res \<le> cbw_transfer_len c"
    "msc_inv content m' \<or> write_failed m'"
    "msc_cache_generation m' = sh_generation (msc_shared m)"
    "tx (msc_bus m') = tx (msc_bus m) @ data"
    "block_count (msc_shared m) = 0 \<Longrightarrow> msc_card m' = msc_card m"
proof -
  let ?m = "refresh_generation m"
  have ok: "msc_ok content ?m" using inv by (rule msc_inv_refresh)
  note done1 = quiet_msc_ok [OF _ ok, THEN msc_ok_inv]
  consider "cbw_command c ! 0 = 0x28" | "cbw_command c ! 0 = 0x2A" |
    "cbw_command c ! 0 \<noteq> 0x28" "cbw_command c ! 0 \<noteq> 0x2A" by blast
  then show thesis
  proof cases
    case 1
    from ok show thesis
    proof (cases rule: read_10_cases [of content ?m c])
      case (refused res m')
      with 1 done1 that show thesis by (simp add: execute_read quiet_def frame_simps)
    next
      case (served res m')
      obtain data where "tx (msc_bus m') = tx (msc_bus m) @ data" "fst res \<le> cbw_transfer_len c"
        using served(7) by (auto simp: read_phase_def frame_simps)
      moreover have "msc_card m' = msc_card m" if "block_count (msc_shared m) = 0"
      proof -
        have "rw_blocks c = 0" using served(4) that by (simp add: frame_simps)
        then have "read_10 c ?m = Some ((0, Passed), ?m)"
          using served(5,6) by (simp add: read_10_def)
        then show ?thesis using served(1) by (simp add: frame_simps)
      qed
      ultimately show thesis
        using served(1,3) 1 msc_ok_inv [OF served(2)] that [of res m' data]
        by (simp add: execute_read same_session_def frame_simps)
    qed
  next
    case 2
    obtain res m' where w: "write_10 c ?m = (res, m')" by (metis prod.exhaust)
    from ok w show thesis
    proof (cases rule: write_10_cases [of content ?m c res m'])
      case refused
      with 2 w done1 that [of res m' "[]"] show thesis by (simp add: execute_write quiet_def frame_simps)
    next
      case served
      have "tx (msc_bus m') = tx (msc_bus m) @ []" "fst res \<le> cbw_transfer_len c"
        using served(4) by (auto simp: write_phase_def frame_simps)
      moreover have "msc_card m' = msc_card m" if "block_count (msc_shared m) = 0"
      proof -
        have "rw_blocks c = 0" using served(1) that by (simp add: frame_simps)
        then have "write_10 c ?m = ((0, Passed), ?m)" using served(2,3) by (simp add: write_10_def)
        then show ?thesis using w by (simp add: frame_simps)
      qed
      ultimately show thesis
        using served 2 w msc_ok_inv that [of res m' "[]"] by (auto simp: execute_write frame_simps)
    qed
  next
    case 3
    then obtain r where r: "execute c m = Some r" "simple_reply c ?m r" by (rule execute_other)
    then obtain data where "tx (msc_bus (snd r)) = tx (msc_bus m) @ data"
      by (auto simp: simple_reply_def frame_simps)
    with r done1 that [of "fst r" "snd r" data] show thesis
      by (simp add: simple_reply_def quiet_def frame_simps)
  qed
qed

subsection \<open>Command block round trip\<close>

definition cbw_valid :: "cbw \<Rightarrow> bool" where
  "cbw_valid c \<longleftrightarrow> cbw_tag c < 2 ^ 32 \<and> cbw_transfer_len c < 2 ^ 32 \<and> cbw_lun c \<le> 15
    \<and> 1 \<le> cbw_command_len c \<and> cbw_command_len c \<le> 16 \<and> length (cbw_command c) = 16"

definition cbw_encode :: "cbw \<Rightarrow> bytes" where
  "cbw_encode c = le_bytes 4 cbw_signature @ le_bytes 4 (cbw_tag c) @ le_bytes 4 (cbw_transfer_len c)
     @ [if cbw_direction c = Dir_In then 0x80 else 0, of_nat (cbw_lun c), of_nat (cbw_command_len c)]
     @ cbw_command c"

lemma slice_of_append_left:
  "length xs = k \<Longrightarrow> slice_of 0 k (xs @ ys) = xs" "length xs = k \<Longrightarrow> slice_of (k + j) n (xs @ ys) = slice_of j n ys"
  by (simp_all add: slice_of_def)

lemma cbw_encode_parts:
  fixes c :: cbw
  defines "bs \<equiv> cbw_encode c"
  assumes "cbw_valid c"
  shows "length bs = cbw_len" "of_le (slice_of 0 4 bs) = cbw_signature"
    "of_le (slice_of 4 4 bs) = cbw_tag c" "of_le (slice_of 8 4 bs) = cbw_transfer_len c"
    "bs ! 12 = (if cbw_direction c = Dir_In then 0x80 else 0)" "bs ! 13 = of_nat (cbw_lun c)"
    "bs ! 14 = of_nat (cbw_command_len c)" "slice_of 15 16 bs = cbw_command c"
proof -
  let ?sig = "le_bytes 4 cbw_signature" and ?tag = "le_bytes 4 (cbw_tag c)"
    and ?len = "le_bytes 4 (cbw_transfer_len c)"
  have valid: "length (cbw_command c) = 16" "cbw_tag c < 2 ^ 32" "cbw_transfer_len c < 2 ^ 32"
    using assms(2) by (auto simp: cbw_valid_def)
  show "length bs = cbw_len" using valid by (simp add: bs_def cbw_encode_def cbw_len_def)
  have "slice_of 0 4 bs = ?sig" by (simp add: bs_def cbw_encode_def slice_of_append_left)
  then show "of_le (slice_of 0 4 bs) = cbw_signature" by (simp add: cbw_signature_def)
  have "slice_of 4 4 bs = ?tag"
    using slice_of_append_left(2) [of ?sig 4 0] by (simp add: bs_def cbw_encode_def slice_of_append_left)
  then show "of_le (slice_of 4 4 bs) = cbw_tag c" using valid by simp
  have "slice_of 8 4 bs = ?len"
    using slice_of_append_left(2) [of "?sig @ ?tag" 8 0]
    by (simp add: bs_def cbw_encode_def slice_of_append_left)
  then show "of_le (slice_of 8 4 bs) = cbw_transfer_len c" using valid by simp
  show "bs ! 12 = (if cbw_direction c = Dir_In then 0x80 else 0)" "bs ! 13 = of_nat (cbw_lun c)"
    "bs ! 14 = of_nat (cbw_command_len c)"
    by (simp_all add: bs_def cbw_encode_def nth_append)
  have "bs = (?sig @ ?tag @ ?len @ [if cbw_direction c = Dir_In then 0x80 else 0, of_nat (cbw_lun c),
      of_nat (cbw_command_len c)]) @ cbw_command c" by (simp add: bs_def cbw_encode_def)
  then show "slice_of 15 16 bs = cbw_command c"
    using slice_of_append_left(2) [of "?sig @ ?tag @ ?len @ [if cbw_direction c = Dir_In then 0x80 else 0,
      of_nat (cbw_lun c), of_nat (cbw_command_len c)]" 15 0 16 "cbw_command c"] valid
    by (simp add: slice_of_def)
qed

lemma small_and_0x1F: "n \<le> 16 \<Longrightarrow> unat ((of_nat n :: u8) AND 0x1F) = n"
  by (simp add: unsigned_and_eq unat_of_nat and_mask_nat)

lemma cbw_parse_encode: "cbw_valid c \<Longrightarrow> cbw_parse (cbw_encode c) = Some c"
proof -
  assume valid: "cbw_valid c"
  then have "cbw_lun c \<le> 15" "1 \<le> cbw_command_len c" "cbw_command_len c \<le> 16"
    by (auto simp: cbw_valid_def)
  then have "unat (of_nat (cbw_lun c) :: u8) = cbw_lun c"
    "unat ((of_nat (cbw_command_len c) :: u8) AND 0x1F) = cbw_command_len c"
    by (simp_all add: unat_of_nat small_and_0x1F)
  with cbw_encode_parts [OF valid] \<open>cbw_lun c \<le> 15\<close> \<open>1 \<le> cbw_command_len c\<close> \<open>cbw_command_len c \<le> 16\<close>
  show ?thesis
    by (simp add: cbw_parse_def Let_def) (cases c; cases "cbw_direction c"; simp)
qed

lemma of_le_slice_less: "of_le (slice_of k 4 bs) < 2 ^ 32"
proof -
  have "length (slice_of k 4 bs) \<le> 4" by (simp add: slice_of_def)
  then have "256 ^ length (slice_of k 4 bs) \<le> (256 :: nat) ^ 4" by (intro power_increasing) auto
  with of_le_less [of "slice_of k 4 bs"] show ?thesis by simp
qed

lemma cbw_parse_valid: "cbw_parse bs = Some c \<Longrightarrow> cbw_valid c \<and> length bs = cbw_len"
  using of_le_slice_less [of 4 bs] of_le_slice_less [of 8 bs]
  by (auto simp: cbw_parse_def cbw_valid_def cbw_len_def Let_def not_less Suc_le_eq split: if_splits)

subsection \<open>Streaming\<close>

text \<open>What a line holds, apart from when it was last used.\<close>

definition line_core :: "line \<Rightarrow> bool \<times> nat \<times> nat \<times> bytes list" where
  "line_core l = (ln_valid l, ln_start l, ln_len l, ln_data l)"

definition small_lines :: "block_cache \<Rightarrow> (bool \<times> nat \<times> nat \<times> bytes list) list" where
  "small_lines c = map line_core (take cache_lines (bc_lines c))"

lemma small_lines_touch: "i < length (bc_lines c) \<Longrightarrow> small_lines (cache_touch i c) = small_lines c"
  by (intro nth_equalityI)
    (auto simp: small_lines_def cache_touch_def Let_def line_core_def nth_list_update)

lemma small_lines_stream: "small_lines (set_line stream_line l c) = small_lines c"
  by (simp add: small_lines_def set_line_def stream_line_def)

lemma lookup_line_streaming:
  assumes coh: "coherent f (msc_cache m)" and run: "lookup_line True count current m = (r, m')"
  shows "small_lines (msc_cache m') = small_lines (msc_cache m)"
proof (cases "cache_find current (msc_cache m)")
  case (Pair q c)
  show ?thesis
  proof (cases q)
    case (Some i)
    with Pair have "c = cache_touch i (msc_cache m)" "i < 3"
      using cache_find_Some(1) [OF coh] by (auto simp: cache_find_def split: option.splits)
    with run Pair Some coherent_length [OF coh] show ?thesis
      by (auto simp: lookup_line_def small_lines_touch)
  next
    case None
    have victim: "cache_victim True (msc_cache m) = stream_line" by (simp add: victim_streaming)
    have "stream_line < length (bc_lines (set_line stream_line l (msc_cache m)))" for l
      using coherent_length [OF coh] by (simp add: set_line_def stream_line_def cache_lines_def)
    with run Pair None show ?thesis
      by (auto simp: lookup_line_def fill_line_def victim Let_def small_lines_touch small_lines_stream frame_simps
          split: prod.splits option.splits)
  qed
qed

lemma read_10_loop_streaming:
  assumes "msc_ok content m" "end_lba \<le> count"
    and "read_10_loop fuel True count end_lba current residue m = Some (res, m')"
  shows "small_lines (msc_cache m') = small_lines (msc_cache m)"
  using assms
proof (induction fuel arbitrary: current residue m)
  case 0
  then show ?case by (subst (asm) read_10_loop.simps) (simp split: if_splits)
next
  case (Suc fuel)
  show ?case
  proof (cases "current < end_lba")
    case False
    with Suc.prems show ?thesis by (subst (asm) read_10_loop.simps) simp
  next
    case True
    obtain q m1 where q: "lookup_line True count current m = (q, m1)" by force
    have "current < count" using True Suc.prems by simp
    note spec = lookup_line_spec [OF Suc.prems(1) this q]
    have same: "small_lines (msc_cache m1) = small_lines (msc_cache m)"
      using Suc.prems(1) lookup_line_streaming [OF _ q] by (auto simp: msc_ok_def)
    show ?thesis
    proof (cases q)
      case None
      with Suc.prems(3) True q same show ?thesis by (subst (asm) read_10_loop.simps) simp
    next
      case (Some found)
      obtain i hit where found: "found = (i, hit)" by (cases found)
      define l where "l = bc_lines (msc_cache m1) ! i"
      define stop where "stop = min (end_lba - ln_start l) (ln_len l)"
      obtain ok r' b' where s: "send_blocks (slice_of (current - ln_start l)
          (stop - (current - ln_start l)) (ln_data l)) residue (msc_bus m1) = (ok, r', b')"
        by (metis prod.exhaust)
      show ?thesis
      proof (cases ok)
        case False
        with Suc.prems(3) True q same Some found s show ?thesis
          by (subst (asm) read_10_loop.simps) (auto simp: Let_def l_def [symmetric] stop_def [symmetric])
      next
        case sent: True
        define m2 where "m2 = m1\<lparr>msc_bus := b',
          msc_shared := count_read (stop - (current - ln_start l)) hit (msc_shared m1)\<rparr>"
        have "read_10_loop fuel True count end_lba (ln_start l + stop) r' m2 = Some (res, m')"
          using Suc.prems(3) True q Some found s sent
          by (subst (asm) read_10_loop.simps)
            (simp add: Let_def l_def [symmetric] stop_def [symmetric] m2_def)
        moreover have "msc_ok content m2" using spec(1) by (simp add: msc_ok_def m2_def frame_simps)
        ultimately show ?thesis using Suc.IH [of m2] Suc.prems(2) same by (simp add: m2_def)
      qed
    qed
  qed
qed

subsection \<open>Attaching\<close>

lemma attach_generation:
  "sh_generation s < 2 ^ 32 \<Longrightarrow>
    sh_generation ((shared_attach ops d ^^ n) s) = (sh_generation s + n) mod 2 ^ 32"
  by (induction n) (simp_all add: shared_attach_def wrapping_add_def mod_simps add.commute)

lemma attach_backend: "0 < n \<Longrightarrow> sh_backend ((shared_attach ops d ^^ n) s) = ops"
  by (cases n) (simp_all add: shared_attach_def)

lemma mod_add_distinct:
  fixes g n :: nat
  assumes "0 < n" "n < M" "g < M"
  shows "(g + n) mod M \<noteq> g"
proof (cases "g + n < M")
  case False
  then have "(g + n) mod M = g + n - M" using assms by (simp add: mod_if)
  with assms False show ?thesis by linarith
qed (use assms in simp)

subsection \<open>A sample session\<close>

text \<open>The class attached to a small device in memory, for the witnesses.\<close>

definition sample_msc :: "out_event list \<Rightarrow> (nat \<Rightarrow> bytes) msc_class" where
  "sample_msc script = msc_new (shared_attach (ram_ops 8) sample_disk shared_default) cache_zeroed
     \<lparr>tx = [], in_script = [], out_script = script\<rparr> sample_disk"

definition sample_cbw :: "u8 \<Rightarrow> direction \<Rightarrow> cbw" where
  "sample_cbw op dir = \<lparr>cbw_tag = 7, cbw_transfer_len = 1024, cbw_direction = dir, cbw_lun = 0,
     cbw_command_len = 10, cbw_command = [op, 0, 0, 0, 0, 3, 0, 0, 2, 0, 0, 0, 0, 0, 0, 0]\<rparr>"

lemma sample_cbw_blocks [simp]:
  "rw_lba (sample_cbw op dir) = 3" "rw_blocks (sample_cbw op dir) = 2"
  by (simp_all add: rw_lba_def rw_blocks_def sample_cbw_def slice_of_def of_be_def)

lemma sample_cbw_fields [simp]:
  "cbw_command (sample_cbw op dir) ! 0 = op" "cbw_direction (sample_cbw op dir) = dir"
  "cbw_transfer_len (sample_cbw op dir) = 1024" "cbw_lun (sample_cbw op dir) = 0"
  by (simp_all add: sample_cbw_def)

lemma sample_msc_inv: "msc_inv ram_content (sample_msc script)"
  by (simp add: msc_inv_def sample_msc_def msc_new_def shared_attach_def ram_contract shared_default_def
      wrapping_add_def coherent_shaped [OF coherent_invalidate [OF cache_zeroed_shaped, of "\<lambda>i. []"]])

lemma sample_msc_count: "block_count (msc_shared (sample_msc script)) = 8"
  by (simp add: sample_msc_def msc_new_def shared_attach_def shared_default_def block_count_def
      backend_count_def ram_ops_def)

lemma sample_msc_fields:
  "sh_backend (msc_shared (sample_msc script)) = ram_ops 8" "msc_card (sample_msc script) = sample_disk"
  "msc_bus (sample_msc script) = \<lparr>tx = [], in_script = [], out_script = script\<rparr>"
  by (simp_all add: sample_msc_def msc_new_def shared_attach_def)

subsection \<open>Properties\<close>

text \<open>C4: READ(10) inside the card.  The command ends; what it sends is, packet by packet, the blocks of
  the card from the requested address on, and the residue is the request less the whole blocks
  sent.  It passes exactly when all of them were sent, which it does when neither the card nor
  the host fails.  The card is unchanged, and the cache stays a copy of it.\<close>

theorem read_10_delivers_the_card:
  assumes "msc_inv content m" and "cbw_command c ! 0 = 0x28" and "cbw_direction c = Dir_In"
    and "cbw_transfer_len c = rw_blocks c * block_len"
    and "rw_lba c + rw_blocks c \<le> block_count (msc_shared m)" and "block_count (msc_shared m) \<le> u32_max"
  shows "\<exists>res m'. execute c m = Some (res, m') \<and> msc_inv content m'
    \<and> content (msc_card m') = content (msc_card m)
    \<and> read_phase (content (msc_card m)) (rw_lba c) (rw_blocks c) (cbw_transfer_len c) (msc_bus m) res (msc_bus m')
    \<and> (in_script (msc_bus m) = [] \<longrightarrow> never_fails (sh_backend (msc_shared m)) \<longrightarrow> snd res = Passed)"
proof -
  let ?m = "refresh_generation m"
  have ok: "msc_ok content ?m" using assms(1) by (rule msc_inv_refresh)
  show ?thesis
  proof (cases "rw_blocks c = 0")
    case True
    then have "execute c m = Some ((0, Passed), ?m)"
      using assms by (simp add: execute_read read_10_def)
    with msc_ok_inv [OF ok] True assms(4) show ?thesis
      by (simp add: read_phase_def medium_blocks_def frame_simps)
  next
    case False
    have range: "rw_lba c + rw_blocks c \<le> block_count (msc_shared ?m)"
      using assms(5) by (simp add: frame_simps)
    with assms False have run: "execute c m = read_10_loop (rw_blocks c) (line_blocks < rw_blocks c)
        (block_count (msc_shared ?m)) (rw_lba c + rw_blocks c) (rw_lba c) (cbw_transfer_len c) ?m"
      by (simp add: execute_read read_10_def Let_def in_range_iff frame_simps)
    show ?thesis
      unfolding run
      using read_10_loop_correct [OF ok le_add1 [of "rw_lba c" "rw_blocks c"] range,
          of "rw_blocks c" "line_blocks < rw_blocks c" "cbw_transfer_len c"] msc_ok_inv
      by (fastforce simp: same_session_def frame_simps)
  qed
qed

theorem read_10_delivers_the_card_witness:
  "\<exists>m'. execute (sample_cbw 0x28 Dir_In) (sample_msc []) = Some ((0, Passed), m')
    \<and> tx (msc_bus m') = packets_of [sample_disk 3, sample_disk 4]"
  using read_10_delivers_the_card [OF sample_msc_inv, of "sample_cbw 0x28 Dir_In" "[]"]
  by (auto simp: sample_msc_count sample_msc_fields block_len_def
      ram_never_fails read_phase_def medium_blocks_def upt_rec sample_disk_content)

text \<open>C3: WRITE(10) inside the card.  No block outside the requested range changes and nothing is
  sent to the host before the status.  The residue is the request less \<open>k\<close> blocks, and the
  first \<open>k\<close> blocks of the range hold exactly what the host sent first; the command passes only
  with all of them stored, and does so when the host sends its data and the card does not fail.
  Unless the card refused a write, the cache stays a copy of the card.\<close>

theorem write_10_stores_the_data:
  assumes "msc_inv content m" and "cbw_command c ! 0 = 0x2A" and "cbw_direction c = Dir_Out"
    and "cbw_transfer_len c = rw_blocks c * block_len"
    and "rw_lba c + rw_blocks c \<le> block_count (msc_shared m)" and "block_count (msc_shared m) \<le> u32_max"
  shows "\<exists>res m'. execute c m = Some (res, m')
    \<and> write_phase (content (msc_card m)) (content (msc_card m')) (rw_lba c) (rw_blocks c)
        (cbw_transfer_len c) (msc_bus m) res (msc_bus m')
    \<and> (msc_inv content m' \<or> write_failed m' \<and> snd res \<noteq> Passed)
    \<and> (host_sends (rw_blocks c * packets_per_block) (msc_bus m)
        \<longrightarrow> never_fails (sh_backend (msc_shared m)) \<longrightarrow> snd res = Passed)"
proof -
  let ?m = "refresh_generation m"
  have ok: "msc_ok content ?m" using assms(1) by (rule msc_inv_refresh)
  show ?thesis
  proof (cases "rw_blocks c = 0")
    case True
    then have "execute c m = Some ((0, Passed), ?m)"
      using assms by (simp add: execute_write write_10_def)
    with msc_ok_inv [OF ok] True assms(4) show ?thesis
      by (auto simp: write_phase_def medium_blocks_def received_Nil frame_simps)
  next
    case False
    obtain res m' where loop: "write_10_loop (rw_lba c + rw_blocks c) (rw_lba c) (cbw_transfer_len c) ?m
        = (res, m')" by (metis prod.exhaust)
    have run: "execute c m = Some (res, m')"
      using assms False loop by (simp add: execute_write write_10_def Let_def in_range_iff frame_simps)
    show ?thesis
      unfolding run
      using write_10_loop_correct [OF ok _ loop, unfolded write_ends_def] msc_ok_inv
      by (fastforce simp: frame_simps)
  qed
qed

theorem write_10_stores_the_data_witness:
  "\<exists>m'. execute (sample_cbw 0x2A Dir_Out) (sample_msc (replicate 16 (Rx (replicate 64 9))))
      = Some ((0, Passed), m')"
proof -
  let ?m = "sample_msc (replicate 16 (Rx (replicate 64 9)))"
  have "host_sends (2 * packets_per_block) (msc_bus ?m)"
    unfolding host_sends_def sample_msc_fields
    by (intro exI [of _ "replicate 16 (replicate 64 9)"] exI [of _ "[]"])
      (simp add: packets_per_block_def bulk_packet_size_def list_all_iff)
  with write_10_stores_the_data [OF sample_msc_inv, of "sample_cbw 0x2A Dir_Out"
      "replicate 16 (Rx (replicate 64 9))"]
  show ?thesis
    by (auto simp: sample_msc_count sample_msc_fields block_len_def ram_never_fails write_phase_def)
qed

text \<open>A transfer that is not wholly on the card reaches neither card nor cache.  A read sends
  nothing, the sense data name the illegal field, the residue is the whole request, and the
  status is never a success.\<close>

theorem out_of_range_is_refused:
  assumes "transfer_command c" and "cbw_transfer_len c = rw_blocks c * block_len" and "0 < rw_blocks c"
    and "cbw_direction c = (if cbw_command c ! 0 = 0x28 then Dir_In else Dir_Out)"
    and "block_count (msc_shared m) < rw_lba c + rw_blocks c"
  shows "\<exists>status m'. execute c m = Some ((cbw_transfer_len c, status), m') \<and> status \<noteq> Passed
    \<and> msc_card m' = msc_card m \<and> msc_cache m' = msc_cache (refresh_generation m)
    \<and> tx (msc_bus m') = tx (msc_bus m)
    \<and> sh_sense (msc_shared m')
      = \<lparr>sense_key = sense_illegal_request, sense_asc = asc_invalid_field, sense_ascq = 0\<rparr>"
proof -
  let ?m = "with_sense sense_illegal_request asc_invalid_field 0 (refresh_generation m)"
  have range: "\<not> in_range (rw_lba c) (rw_blocks c) (block_count (msc_shared m))"
    using assms(5) in_rangeD by force
  obtain x b where x: "discard_out (cbw_transfer_len c) (msc_bus ?m) = (x, b)" by force
  show ?thesis
  proof (cases "cbw_command c ! 0 = 0x28")
    case True
    then have "execute c m = Some ((cbw_transfer_len c, Failed), ?m)"
      using assms range by (simp add: execute_read read_10_def Let_def frame_simps)
    then show ?thesis by (simp add: frame_simps set_sense_def)
  next
    case False
    then have "execute c m = Some ((cbw_transfer_len c, if x then Failed else Phase_Error), ?m\<lparr>msc_bus := b\<rparr>)"
      using assms range x
      by (cases x) (simp_all add: transfer_command_def execute_write write_10_def Let_def frame_simps)
    then show ?thesis using discard_out_tx [OF x] by (simp add: frame_simps set_sense_def)
  qed
qed

definition far_cbw :: cbw where
  "far_cbw = (sample_cbw 0x28 Dir_In)\<lparr>cbw_command := [0x28, 0, 0, 0, 0, 7, 0, 0, 2, 0, 0, 0, 0, 0, 0, 0]\<rparr>"

theorem out_of_range_is_refused_witness:
  "\<exists>status m'. execute far_cbw (sample_msc []) = Some ((1024, status), m') \<and> status \<noteq> Passed"
  using out_of_range_is_refused [of far_cbw "sample_msc []"]
  by (auto simp: transfer_command_def far_cbw_def rw_blocks_def rw_lba_def slice_of_def of_be_def
      block_len_def sample_msc_count sample_cbw_def)

text \<open>C17: Every command ends with a residue of at most the request, keeps the cache a copy of the card
  (unless the card refused a write), and while no medium is there, detached or ejected, no command
  touches the device.\<close>

theorem every_command_is_safe:
  assumes "msc_inv content m"
  shows "\<exists>residue status m'. execute c m = Some ((residue, status), m') \<and> residue \<le> cbw_transfer_len c
    \<and> (msc_inv content m' \<or> write_failed m')
    \<and> (\<not> sh_attached (msc_shared m) \<or> sh_ejected (msc_shared m) \<longrightarrow> msc_card m' = msc_card m)"
proof -
  obtain res m' where "execute c m = Some (res, m')" "fst res \<le> cbw_transfer_len c"
    "msc_inv content m' \<or> write_failed m'" "block_count (msc_shared m) = 0 \<Longrightarrow> msc_card m' = msc_card m"
    using execute_spec [OF assms, of c] by metis
  then show ?thesis
    by (intro exI [of _ "fst res"] exI [of _ "snd res"] exI [of _ m']) (auto simp: block_count_def)
qed

theorem every_command_is_safe_witness:
  "\<exists>residue status m'. execute (sample_cbw 0x12 Dir_In) (sample_msc []) = Some ((residue, status), m')
    \<and> residue \<le> 1024"
  using every_command_is_safe [OF sample_msc_inv, of "sample_cbw 0x12 Dir_In" "[]"] by auto

text \<open>The cache never outlives a session.  After a command, attach the device again, or another
  one, with any contents, up to \<open>2 ^ 32 - 1\<close> times: the invariant holds, because the next command
  finds a new generation and drops every cached block.\<close>

theorem attach_drops_cached_blocks:
  assumes "msc_inv content m" and "msc_cache_generation m = sh_generation (msc_shared m)"
    and "sh_generation (msc_shared m) < 2 ^ 32" and "0 < n" and "n < 2 ^ 32"
    and "device_contract ops content"
  shows "msc_inv content (m\<lparr>msc_shared := (shared_attach ops d ^^ n) (msc_shared m), msc_card := d'\<rparr>)"
proof -
  have "sh_generation ((shared_attach ops d ^^ n) (msc_shared m)) \<noteq> sh_generation (msc_shared m)"
    unfolding attach_generation [OF assms(3)] using assms(3-5) by (intro mod_add_distinct)
  with assms show ?thesis by (simp add: msc_inv_def attach_backend)
qed

theorem attach_drops_cached_blocks_witness:
  "msc_inv ram_content ((refresh_generation (sample_msc []))
     \<lparr>msc_shared := (shared_attach (ram_ops 8) sample_disk ^^ 1) (msc_shared (refresh_generation (sample_msc []))),
      msc_card := (\<lambda>i. [])\<rparr>)"
  by (intro attach_drops_cached_blocks msc_ok_inv msc_inv_refresh sample_msc_inv ram_contract)
    (simp_all add: frame_simps, simp_all add: sample_msc_def msc_new_def shared_attach_def wrapping_add_def)

text \<open>A long read, one that does not fit a cache line, leaves the blocks kept for small reads
  where they are.\<close>

theorem long_reads_keep_small_lines:
  assumes "msc_inv content m" and "cbw_command c ! 0 = 0x28" and "line_blocks < rw_blocks c"
    and "execute c m = Some (res, m')"
  shows "small_lines (msc_cache m') = small_lines (msc_cache (refresh_generation m))"
proof -
  let ?m = "refresh_generation m"
  have ok: "msc_ok content ?m" using assms(1) by (rule msc_inv_refresh)
  have run: "read_10 c ?m = Some (res, m')" using assms(2,4) by (simp add: execute_read)
  show ?thesis
  proof (cases "in_range (rw_lba c) (rw_blocks c) (block_count (msc_shared ?m))
      \<and> cbw_direction c = Dir_In \<and> cbw_transfer_len c = rw_blocks c * block_len")
    case True
    with run assms(3) have "read_10_loop (rw_blocks c) True (block_count (msc_shared ?m))
        (rw_lba c + rw_blocks c) (rw_lba c) (cbw_transfer_len c) ?m = Some (res, m')"
      by (auto simp: read_10_def Let_def)
    with True show ?thesis using read_10_loop_streaming [OF ok in_rangeD] by blast
  next
    case False
    with run assms(3) show ?thesis by (auto simp: read_10_def Let_def frame_simps split: if_splits)
  qed
qed

text \<open>A command block is accepted exactly when it is the 31-byte encoding of a valid one: every
  valid command block is read back, and nothing is ever accepted that is not valid.\<close>

theorem cbw_round_trip:
  "(cbw_parse (cbw_encode c) = Some c \<longleftrightarrow> cbw_valid c)
    \<and> (case cbw_parse bs of None \<Rightarrow> True | Some c' \<Rightarrow> cbw_valid c' \<and> length bs = cbw_len)"
  using cbw_parse_encode cbw_parse_valid by (auto split: option.splits)



theorem long_reads_keep_small_lines_witness:
  "\<exists>res m'. execute ((sample_cbw 0x28 Dir_In)\<lparr>cbw_command := [0x28, 0, 0, 0, 0, 0, 0, 0, 9, 0, 0, 0, 0, 0, 0, 0]\<rparr>)
      (sample_msc []) = Some (res, m')
    \<and> small_lines (msc_cache m') = small_lines (msc_cache (refresh_generation (sample_msc [])))"
proof -
  let ?c = "(sample_cbw 0x28 Dir_In)\<lparr>cbw_command := [0x28, 0, 0, 0, 0, 0, 0, 0, 9, 0, 0, 0, 0, 0, 0, 0]\<rparr>"
  obtain res m' where "execute ?c (sample_msc []) = Some (res, m')"
    using execute_spec [OF sample_msc_inv] by metis
  then show ?thesis
    using long_reads_keep_small_lines [OF sample_msc_inv, of ?c]
    by (auto simp: rw_blocks_def slice_of_def of_be_def line_blocks_def)
qed

end
