(* ===== verification/Fat_Volume.thy ===== *)
theory Fat_Volume
  imports Rat_Prelude
begin

text \<open>
  The FAT volume as the firmware uses it.  \<open>hadris-fat\<close> is a vendored library and is not
  modelled: a record of its operations is a parameter of every definition that calls it.  The type
  \<open>'v\<close> is the mounted volume (with the card behind it), \<open>'h\<close> stands for all of the
  library's opaque handles (directories, entry locations, readers, writers and their cursors).
  Queries read the volume; an operation that writes returns the volume it leaves, also when it
  fails.  An error whose kind the firmware does not inspect is \<open>None\<close> or \<open>False\<close>.

  The packed FAT timestamp, which the firmware builds and unpacks itself, is translated from
  \<open>vendor/hadris-fat/src/time.rs\<close>.
\<close>

subsection \<open>FAT timestamps\<close>

record fat_date_time =
  fdt_date :: nat
  fdt_time :: nat
  fdt_tenth :: nat

definition fat_date_time_new :: "nat \<Rightarrow> nat \<Rightarrow> nat \<Rightarrow> nat \<Rightarrow> nat \<Rightarrow> nat \<Rightarrow> fat_date_time" where
  "fat_date_time_new year month day hour minute second =
    (let year_offset = min (year - 1980) 127 in
     \<lparr>fdt_date = push_bit 9 year_offset OR push_bit 5 (month AND 0x0F) OR (day AND 0x1F),
      fdt_time = push_bit 11 (hour AND 0x1F) OR push_bit 5 (minute AND 0x3F)
                 OR ((second div 2) AND 0x1F),
      fdt_tenth = 0\<rparr>)"

text \<open>The fields of the packed words, as \<open>drop_bit\<close> and \<open>AND\<close> take them apart.\<close>

lemma push_bit_or_eq_add:
  fixes a b :: nat
  assumes "b < 2 ^ k"
  shows "push_bit k a OR b = a * 2 ^ k + b"
proof -
  have "push_bit k a + b = push_bit k a OR b"
  proof (rule disjunctive_add)
    fix n
    show "\<not> bit (push_bit k a) n \<or> \<not> bit b n"
    proof (cases "n < k")
      case False
      then have "b < 2 ^ n"
        using assms by (meson le_trans less_le_trans not_less one_le_numeral power_increasing)
      then have "\<not> bit b n" by (simp add: bit_iff_odd)
      then show ?thesis by simp
    qed (simp add: bit_push_bit_iff)
  qed
  then show ?thesis by (simp add: push_bit_eq_mult)
qed

lemma fdt_date_new:
  "fdt_date (fat_date_time_new y mo d h mi s)
    = min (y - 1980) 127 * 512 + mo mod 16 * 32 + d mod 32"
proof -
  have "push_bit 5 (mo mod 16) OR d mod 32 = mo mod 16 * 32 + d mod 32"
    using push_bit_or_eq_add [of "d mod 32" 5 "mo mod 16"] by simp
  moreover have "mo mod 16 * 32 + d mod 32 < 2 ^ 9" by simp
  ultimately show ?thesis
    using push_bit_or_eq_add [of "mo mod 16 * 32 + d mod 32" 9]
    by (simp add: fat_date_time_new_def and_mask_nat or.assoc)
qed

lemma fdt_time_new:
  "fdt_time (fat_date_time_new y mo d h mi s)
    = h mod 32 * 2048 + mi mod 64 * 32 + s div 2 mod 32"
proof -
  have "push_bit 5 (mi mod 64) OR s div 2 mod 32 = mi mod 64 * 32 + s div 2 mod 32"
    using push_bit_or_eq_add [of "s div 2 mod 32" 5 "mi mod 64"] by simp
  moreover have "mi mod 64 * 32 + s div 2 mod 32 < 2 ^ 11" by simp
  ultimately show ?thesis
    using push_bit_or_eq_add [of "mi mod 64 * 32 + s div 2 mod 32" 11]
    by (simp add: fat_date_time_new_def and_mask_nat or.assoc)
qed

lemma pack3_fields:
  fixes a b c :: nat
  assumes "b < B" and "c < C"
  shows "(a * (B * C) + b * C + c) div (B * C) = a"
    and "(a * (B * C) + b * C + c) div C mod B = b"
    and "(a * (B * C) + b * C + c) mod C = c"
proof -
  have "(b + 1) * C \<le> B * C" using assms by (intro mult_le_mono1) simp
  then have less: "b * C + c < B * C" using assms by simp
  have "(a * M + r) div M = a" if "r < M" for M r :: nat
    using that by simp
  from this [OF less] show "(a * (B * C) + b * C + c) div (B * C) = a"
    by (simp only: add.assoc)
  have C: "0 < C" using assms by simp
  have eq: "a * (B * C) + b * C + c = (a * B + b) * C + c" by (simp add: algebra_simps)
  show "(a * (B * C) + b * C + c) div C mod B = b"
    unfolding eq using assms C by simp
  show "(a * (B * C) + b * C + c) mod C = c"
    unfolding eq using assms C by simp
qed

subsection \<open>Directory entries and the volume's operations\<close>

datatype fat_error = Already_Exists | Directory_Not_Empty | Other_Fat_Error

record 'h file_entry =
  fe_name :: string
  fe_is_directory :: bool
  fe_len :: nat
  fe_attributes :: nat
  fe_modified :: fat_date_time
  fe_accessed :: nat
  fe_location :: 'h

definition attr_read_only :: nat where
  "attr_read_only = 1"

definition is_read_only :: "'h file_entry \<Rightarrow> bool" where
  "is_read_only e \<longleftrightarrow> fe_attributes e AND attr_read_only \<noteq> 0"

record ('v, 'h) fat_ops =
  vol_root_dir :: "'v \<Rightarrow> 'h"
  dir_open :: "'v \<Rightarrow> 'h \<Rightarrow> string \<Rightarrow> 'h option"
  dir_find :: "'v \<Rightarrow> 'h \<Rightarrow> string \<Rightarrow> 'h file_entry option option"
  dir_entries :: "'v \<Rightarrow> 'h \<Rightarrow> 'h file_entry option list"
  vol_create_file :: "'v \<Rightarrow> 'h \<Rightarrow> string \<Rightarrow> 'h file_entry option \<times> 'v"
  vol_create_dir :: "'v \<Rightarrow> 'h \<Rightarrow> string \<Rightarrow> (fat_error + 'h) \<times> 'v"
  vol_truncate :: "'v \<Rightarrow> 'h file_entry \<Rightarrow> nat \<Rightarrow> bool \<times> 'v"
  vol_delete :: "'v \<Rightarrow> 'h file_entry \<Rightarrow> fat_error option \<times> 'v"
  vol_rename :: "'v \<Rightarrow> 'h file_entry \<Rightarrow> 'h \<Rightarrow> string \<Rightarrow> fat_error option \<times> 'v"
  vol_repair_dir :: "'v \<Rightarrow> 'h file_entry \<Rightarrow> bool \<times> 'v"
  vol_set_times :: "'v \<Rightarrow> 'h file_entry \<Rightarrow> fat_date_time \<Rightarrow> nat \<Rightarrow> bool \<times> 'v"
  vol_set_attributes :: "'v \<Rightarrow> 'h file_entry \<Rightarrow> nat \<Rightarrow> bool \<times> 'v"
  vol_sync :: "'v \<Rightarrow> bool \<times> 'v"
  vol_free_clusters :: "'v \<Rightarrow> nat option"
  vol_max_cluster :: "'v \<Rightarrow> nat"
  vol_cluster_size :: "'v \<Rightarrow> nat"
  vol_volume_id :: "'v \<Rightarrow> nat"
  reader_new :: "'v \<Rightarrow> 'h file_entry \<Rightarrow> 'h option"
  reader_from_cursor :: "'v \<Rightarrow> 'h file_entry \<Rightarrow> 'h \<Rightarrow> 'h option"
  reader_seek :: "'v \<Rightarrow> 'h \<Rightarrow> nat \<Rightarrow> 'h option"
  reader_read :: "'v \<Rightarrow> 'h \<Rightarrow> nat \<Rightarrow> (bytes \<times> 'h) option"
  reader_cursor :: "'h \<Rightarrow> 'h"
  writer_new :: "'v \<Rightarrow> 'h file_entry \<Rightarrow> 'h option \<times> 'v"
  writer_append :: "'v \<Rightarrow> 'h file_entry \<Rightarrow> 'h option \<times> 'v"
  writer_append_from_cursor :: "'v \<Rightarrow> 'h file_entry \<Rightarrow> 'h \<Rightarrow> 'h option \<times> 'v"
  writer_at :: "'v \<Rightarrow> 'h file_entry \<Rightarrow> nat \<Rightarrow> 'h option \<times> 'v"
  writer_write :: "'v \<Rightarrow> 'h \<Rightarrow> bytes \<Rightarrow> (nat \<times> 'h) option \<times> 'v"
  writer_append_cursor :: "'h \<Rightarrow> 'h"
  writer_finish :: "'v \<Rightarrow> 'h \<Rightarrow> bool \<times> 'v"
  writer_drop :: "'v \<Rightarrow> 'h \<Rightarrow> 'v"

text \<open>What the streaming code relies on: a read returns at most the bytes asked for
  (documented on \<open>FileReader::read\<close>), and a directory name is at most 255 UTF-16 units,
  that is 765 bytes of UTF-8.\<close>

definition reads_bounded :: "('v, 'h) fat_ops \<Rightarrow> bool" where
  "reads_bounded ops \<longleftrightarrow>
    (\<forall>v r n bs r'. reader_read ops v r n = Some (bs, r') \<longrightarrow> length bs \<le> n)"

definition names_bounded :: "('v, 'h) fat_ops \<Rightarrow> bool" where
  "names_bounded ops \<longleftrightarrow>
    (\<forall>v d e. Some e \<in> set (dir_entries ops v d) \<longrightarrow> length (fe_name e) \<le> 765)"

end
