(* ===== verification/Wifi_Config.thy ===== *)
theory Wifi_Config
  imports Fat_Volume
begin

text \<open>
  The configuration half of \<open>src/storage.rs\<close>: the saved networks, clock and login settings
  kept in \<open>RATPUTER/WIFI.CFG\<close>, their validation, the bounded file read and the
  create-or-overwrite write.  The TOML library is a parameter (\<open>toml_parse\<close>,
  \<open>toml_print\<close>), as is the FAT volume.
\<close>

subsection \<open>Definitions\<close>

datatype auth_kind = Auth_Open | Auth_Wep | Auth_Wpa | Auth_Wpa2 | Auth_Wpa_Wpa2

record saved_network =
  net_ssid :: string
  net_password :: string
  net_auth :: auth_kind

datatype dst_rule = Dst_None | Dst_Eu

record clock_config =
  utc_offset_minutes :: int
  dst :: dst_rule
  ntp_server :: string

definition default_utc_offset_minutes :: int where
  "default_utc_offset_minutes = 60"

definition default_ntp_server :: string where
  "default_ntp_server = ''pool.ntp.org''"

definition default_clock_config :: clock_config where
  "default_clock_config =
    \<lparr>utc_offset_minutes = default_utc_offset_minutes, dst = Dst_Eu, ntp_server = default_ntp_server\<rparr>"

record server_config =
  srv_user :: string
  srv_password :: string

definition default_server_user :: string where
  "default_server_user = ''rat''"

definition default_server_password :: string where
  "default_server_password = ''cheese''"

definition default_server_config :: server_config where
  "default_server_config = \<lparr>srv_user = default_server_user, srv_password = default_server_password\<rparr>"

definition valid_server_credential :: "string \<Rightarrow> bool" where
  "valid_server_credential value \<longleftrightarrow>
    1 \<le> length value \<and> length value \<le> 32 \<and> list_all is_ascii_graphic value"

record wifi_config =
  cfg_version :: nat
  cfg_clock :: clock_config
  cfg_server :: server_config
  cfg_networks :: "saved_network list"

definition config_version :: nat where "config_version = 1"
definition max_config_bytes :: nat where "max_config_bytes = 4096"
definition max_saved_networks :: nat where "max_saved_networks = 12"
definition config_dir :: string where "config_dir = ''RATPUTER''"
definition config_file :: string where "config_file = ''WIFI.CFG''"

definition default_wifi_config :: wifi_config where
  "default_wifi_config = \<lparr>cfg_version = config_version, cfg_clock = default_clock_config,
     cfg_server = default_server_config, cfg_networks = []\<rparr>"

text \<open>\<open>iter_mut().find\<close>: the first entry with the SSID is replaced in place.\<close>

fun replace_ssid :: "saved_network \<Rightarrow> saved_network list \<Rightarrow> saved_network list option" where
  "replace_ssid n [] = None"
| "replace_ssid n (e # es) =
    (if net_ssid e = net_ssid n then Some (n # es) else map_option (Cons e) (replace_ssid n es))"

definition upsert :: "saved_network \<Rightarrow> wifi_config \<Rightarrow> wifi_config" where
  "upsert n cfg =
    (case replace_ssid n (cfg_networks cfg) of
       Some ns \<Rightarrow> cfg\<lparr>cfg_networks := ns\<rparr>
     | None \<Rightarrow>
        (let ns = cfg_networks cfg;
             ns = (if length ns = max_saved_networks then tl ns else ns)
         in cfg\<lparr>cfg_networks := ns @ [n]\<rparr>))"

definition remove_network :: "nat \<Rightarrow> wifi_config \<Rightarrow> bool \<times> wifi_config" where
  "remove_network i cfg =
    (if length (cfg_networks cfg) \<le> i then (False, cfg)
     else (True, cfg\<lparr>cfg_networks := take i (cfg_networks cfg) @ drop (Suc i) (cfg_networks cfg)\<rparr>))"

datatype storage_error = Se_Sd | Se_Missing | Se_Too_Large | Se_Invalid_Toml | Se_Unsupported_Version

definition acceptable_network :: "saved_network \<Rightarrow> bool" where
  "acceptable_network e \<longleftrightarrow>
    net_ssid e \<noteq> [] \<and> length (net_ssid e) \<le> 32 \<and> length (net_password e) \<le> 64"

definition validate :: "wifi_config \<Rightarrow> storage_error + wifi_config" where
  "validate cfg =
    (if cfg_version cfg \<noteq> config_version then Inl Se_Unsupported_Version
     else
      (let ns = take max_saved_networks (filter acceptable_network (cfg_networks cfg));
           ck = cfg_clock cfg;
           ck = (if -720 \<le> utc_offset_minutes ck \<and> utc_offset_minutes ck \<le> 840 then ck
                 else ck\<lparr>utc_offset_minutes := default_utc_offset_minutes\<rparr>);
           ck = (if ntp_server ck = [] \<or> 64 < length (ntp_server ck)
                 then ck\<lparr>ntp_server := default_ntp_server\<rparr> else ck);
           sv = cfg_server cfg;
           sv = (if valid_server_credential (srv_user sv) then sv
                 else sv\<lparr>srv_user := default_server_user\<rparr>);
           sv = (if valid_server_credential (srv_password sv) then sv
                 else sv\<lparr>srv_password := default_server_password\<rparr>)
       in Inr (cfg\<lparr>cfg_clock := ck, cfg_server := sv, cfg_networks := ns\<rparr>)))"

text \<open>The read loop of \<open>read_config_file\<close>: 256 bytes at a time, refused past \<open>max\<close>.\<close>

function read_config_loop ::
  "('v, 'h) fat_ops \<Rightarrow> 'v \<Rightarrow> nat \<Rightarrow> 'h \<Rightarrow> bytes \<Rightarrow> storage_error + bytes" where
  "read_config_loop ops vol mx reader acc =
    (case reader_read ops vol reader 256 of
       None \<Rightarrow> Inl Se_Sd
     | Some (chunk, reader') \<Rightarrow>
        (if length chunk = 0 then Inr acc
         else if mx < length acc + length chunk then Inl Se_Too_Large
         else read_config_loop ops vol mx reader' (acc @ chunk)))"
  by pat_completeness auto
termination
proof (relation "measure (\<lambda>(ops, vol, mx, reader, acc). mx - length acc)", goal_cases)
  case (2 ops vol mx reader acc x chunk reader')
  then have "0 < length chunk" and "length acc + length chunk \<le> mx" by auto
  then have "mx - (length acc + length chunk) < mx - length acc" by linarith
  then show ?case by simp
qed simp

declare read_config_loop.simps [simp del]

definition read_config_file ::
  "('v, 'h) fat_ops \<Rightarrow> 'v \<Rightarrow> string \<Rightarrow> nat \<Rightarrow> storage_error + bytes" where
  "read_config_file ops vol name mx =
    (case dir_open ops vol (vol_root_dir ops vol) config_dir of
       None \<Rightarrow> Inl Se_Missing
     | Some directory \<Rightarrow>
        (case dir_find ops vol directory name of
           Some (Some entry) \<Rightarrow>
             (case reader_new ops vol entry of
                None \<Rightarrow> Inl Se_Missing
              | Some reader \<Rightarrow> read_config_loop ops vol mx reader [])
         | _ \<Rightarrow> Inl Se_Missing))"

text \<open>\<open>write_config_file\<close> after the entry is known: write everything, then commit.  The
  writer is dropped on the error path.\<close>

definition write_entry ::
  "('v, 'h) fat_ops \<Rightarrow> 'v \<Rightarrow> 'h file_entry \<Rightarrow> bytes \<Rightarrow> (storage_error + unit) \<times> 'v" where
  "write_entry ops vol entry bs =
    (case writer_new ops vol entry of
       (None, vol) \<Rightarrow> (Inl Se_Sd, vol)
     | (Some w, vol) \<Rightarrow>
        (case writer_write ops vol w bs of
           (None, vol) \<Rightarrow> (Inl Se_Sd, writer_drop ops vol w)
         | (Some (written, w), vol) \<Rightarrow>
            (case writer_finish ops vol w of
               (True, vol) \<Rightarrow> (Inr (), vol)
             | (False, vol) \<Rightarrow> (Inl Se_Sd, vol))))"

definition write_into ::
  "('v, 'h) fat_ops \<Rightarrow> 'v \<Rightarrow> 'h \<Rightarrow> string \<Rightarrow> bytes \<Rightarrow> (storage_error + unit) \<times> 'v" where
  "write_into ops vol directory name bs =
    (case dir_find ops vol directory name of
       None \<Rightarrow> (Inl Se_Sd, vol)
     | Some found \<Rightarrow>
        (case found of
           Some entry \<Rightarrow>
             (if \<not> fe_is_directory entry then write_entry ops vol entry bs
              else (case vol_create_file ops vol directory name of
                 (None, vol) \<Rightarrow> (Inl Se_Sd, vol)
               | (Some entry, vol) \<Rightarrow> write_entry ops vol entry bs))
         | None \<Rightarrow>
             (case vol_create_file ops vol directory name of
                (None, vol) \<Rightarrow> (Inl Se_Sd, vol)
              | (Some entry, vol) \<Rightarrow> write_entry ops vol entry bs)))"

definition write_config_file ::
  "('v, 'h) fat_ops \<Rightarrow> 'v \<Rightarrow> string \<Rightarrow> bytes \<Rightarrow> (storage_error + unit) \<times> 'v" where
  "write_config_file ops vol name bs =
    (case dir_open ops vol (vol_root_dir ops vol) config_dir of
       Some directory \<Rightarrow> write_into ops vol directory name bs
     | None \<Rightarrow>
        (case vol_create_dir ops vol (vol_root_dir ops vol) config_dir of
           (Inl e, vol) \<Rightarrow> (Inl Se_Sd, vol)
         | (Inr directory, vol) \<Rightarrow> write_into ops vol directory name bs))"

definition load ::
  "(string \<Rightarrow> wifi_config option) \<Rightarrow> ('v, 'h) fat_ops \<Rightarrow> 'v \<Rightarrow> storage_error + wifi_config" where
  "load toml_parse ops vol =
    (case read_config_file ops vol config_file max_config_bytes of
       Inl e \<Rightarrow> Inl e
     | Inr bs \<Rightarrow>
        (if \<not> utf8_valid bs then Inl Se_Invalid_Toml
         else (case toml_parse (of_bytes bs) of
            None \<Rightarrow> Inl Se_Invalid_Toml
          | Some cfg \<Rightarrow> validate cfg)))"

definition save ::
  "(wifi_config \<Rightarrow> string option) \<Rightarrow> ('v, 'h) fat_ops \<Rightarrow> 'v \<Rightarrow> wifi_config
    \<Rightarrow> (storage_error + unit) \<times> 'v" where
  "save toml_print ops vol cfg =
    (case toml_print cfg of
       None \<Rightarrow> (Inl Se_Invalid_Toml, vol)
     | Some text \<Rightarrow>
        (if max_config_bytes < length text then (Inl Se_Too_Large, vol)
         else write_config_file ops vol config_file (to_bytes text)))"

subsection \<open>Saved networks\<close>

definition ssids :: "wifi_config \<Rightarrow> string list" where
  "ssids cfg = map net_ssid (cfg_networks cfg)"

lemma replace_ssid_None: "replace_ssid n es = None \<longleftrightarrow> net_ssid n \<notin> net_ssid ` set es"
  by (induction es) auto

lemma replace_ssid_Some:
  "replace_ssid n es = Some ns \<Longrightarrow> map net_ssid ns = map net_ssid es \<and> n \<in> set ns
    \<and> set ns \<subseteq> insert n (set es)"
  by (induction es arbitrary: ns) (auto split: if_splits)

lemma replace_ssid_others:
  "replace_ssid n es = Some ns \<Longrightarrow> e \<in> set es \<Longrightarrow> net_ssid e \<noteq> net_ssid n \<Longrightarrow> e \<in> set ns"
  by (induction es arbitrary: ns) (auto split: if_splits)

lemma upsert_member: "n \<in> set (cfg_networks (upsert n cfg))"
  by (auto simp: upsert_def Let_def replace_ssid_Some split: option.splits)

lemma set_tl_subset: "set (tl xs) \<subseteq> set xs"
  by (cases xs) auto

lemma upsert_set: "set (cfg_networks (upsert n cfg)) \<subseteq> insert n (set (cfg_networks cfg))"
proof (cases "replace_ssid n (cfg_networks cfg)")
  case None
  then show ?thesis using set_tl_subset [of "cfg_networks cfg"] by (auto simp: upsert_def Let_def)
next
  case (Some ns)
  with replace_ssid_Some [OF Some] show ?thesis by (simp add: upsert_def)
qed

lemma upsert_frame [frame_simps]:
  "cfg_version (upsert n cfg) = cfg_version cfg" "cfg_clock (upsert n cfg) = cfg_clock cfg"
  "cfg_server (upsert n cfg) = cfg_server cfg"
  by (simp_all add: upsert_def Let_def split: option.split)

lemma upsert_length:
  "length (cfg_networks cfg) \<le> max_saved_networks \<Longrightarrow>
    length (cfg_networks (upsert n cfg)) \<le> max_saved_networks"
  by (auto simp: upsert_def Let_def max_saved_networks_def
      dest!: replace_ssid_Some map_eq_imp_length_eq split: option.splits)

lemma upsert_distinct:
  assumes "distinct (ssids cfg)"
  shows "distinct (ssids (upsert n cfg))"
proof (cases "replace_ssid n (cfg_networks cfg)")
  case None
  then have "net_ssid n \<notin> net_ssid ` set (cfg_networks cfg)" by (simp add: replace_ssid_None)
  moreover have "net_ssid n \<notin> net_ssid ` set (tl (cfg_networks cfg))"
    using set_tl_subset [of "cfg_networks cfg"] calculation by blast
  moreover have "distinct (map net_ssid (tl (cfg_networks cfg)))"
    using assms distinct_tl [of "ssids cfg"] by (simp add: ssids_def map_tl)
  ultimately show ?thesis
    using None assms by (simp add: upsert_def ssids_def Let_def del: map_tl)
next
  case (Some ns)
  with assms show ?thesis by (auto simp: upsert_def ssids_def dest: replace_ssid_Some)
qed

text \<open>Only the oldest entry can be lost, and only when the list is full.\<close>

lemma upsert_keeps_others:
  assumes "e \<in> set (cfg_networks cfg)" and "net_ssid e \<noteq> net_ssid n"
    and "length (cfg_networks cfg) < max_saved_networks \<or> e \<in> set (tl (cfg_networks cfg))"
  shows "e \<in> set (cfg_networks (upsert n cfg))"
  using assms
  by (auto simp: upsert_def Let_def dest: replace_ssid_others split: option.splits)

subsection \<open>Validation\<close>

definition well_formed_config :: "wifi_config \<Rightarrow> bool" where
  "well_formed_config cfg \<longleftrightarrow> cfg_version cfg = config_version
    \<and> list_all acceptable_network (cfg_networks cfg)
    \<and> length (cfg_networks cfg) \<le> max_saved_networks
    \<and> -720 \<le> utc_offset_minutes (cfg_clock cfg) \<and> utc_offset_minutes (cfg_clock cfg) \<le> 840
    \<and> ntp_server (cfg_clock cfg) \<noteq> [] \<and> length (ntp_server (cfg_clock cfg)) \<le> 64
    \<and> valid_server_credential (srv_user (cfg_server cfg))
    \<and> valid_server_credential (srv_password (cfg_server cfg))"

lemma default_credentials_valid [simp]:
  "valid_server_credential default_server_user" "valid_server_credential default_server_password"
  by (simp_all add: valid_server_credential_def default_server_user_def
      default_server_password_def is_ascii_graphic_def)

lemma list_all_take_filter: "list_all P (take n (filter P xs))"
  by (auto simp: list_all_iff dest: in_set_takeD)

lemma validate_well_formed: "validate cfg = Inr cfg' \<Longrightarrow> well_formed_config cfg'"
  unfolding validate_def Let_def
  by (cases "cfg_version cfg = config_version"; simp; drule sym)
    (simp add: well_formed_config_def default_utc_offset_minutes_def default_ntp_server_def
      list_all_take_filter)

lemma validate_fixpoint:
  assumes "well_formed_config cfg"
  shows "validate cfg = Inr cfg"
proof -
  have "filter acceptable_network (cfg_networks cfg) = cfg_networks cfg"
    using assms by (simp add: well_formed_config_def list_all_iff)
  with assms show ?thesis by (auto simp: validate_def well_formed_config_def Let_def)
qed

lemma validate_version: "(\<exists>cfg'. validate cfg = Inr cfg') \<longleftrightarrow> cfg_version cfg = config_version"
  by (simp add: validate_def Let_def)

lemma default_well_formed: "well_formed_config default_wifi_config"
  by (simp add: well_formed_config_def default_wifi_config_def default_clock_config_def
      default_server_config_def default_utc_offset_minutes_def default_ntp_server_def)

lemma list_all_take: "list_all P xs \<Longrightarrow> list_all P (take n xs)"
  by (auto simp: list_all_iff dest: in_set_takeD)

lemma upsert_well_formed:
  assumes "well_formed_config cfg" and "acceptable_network n"
  shows "well_formed_config (upsert n cfg)"
proof -
  have "set (cfg_networks (upsert n cfg)) \<subseteq> insert n (set (cfg_networks cfg))"
    by (rule upsert_set)
  with assms upsert_length [of cfg n] show ?thesis
    by (auto simp: well_formed_config_def list_all_iff upsert_frame)
qed

lemma remove_network_well_formed:
  "well_formed_config cfg \<Longrightarrow> well_formed_config (snd (remove_network i cfg))"
  by (auto simp: well_formed_config_def remove_network_def list_all_iff
      dest: in_set_takeD in_set_dropD)

subsection \<open>File access\<close>

lemma read_config_loop_bound:
  "read_config_loop ops vol mx reader acc = Inr bs \<Longrightarrow> length acc \<le> mx \<Longrightarrow> length bs \<le> mx"
proof (induction ops vol mx reader acc rule: read_config_loop.induct)
  case (1 ops vol mx reader acc)
  then show ?case
    by (subst (asm) (2) read_config_loop.simps) (auto split: option.splits prod.splits if_splits)
qed

lemma read_config_file_bound: "read_config_file ops vol name mx = Inr bs \<Longrightarrow> length bs \<le> mx"
  by (auto simp: read_config_file_def dest: read_config_loop_bound split: option.splits)

lemma load_well_formed: "load toml_parse ops vol = Inr cfg \<Longrightarrow> well_formed_config cfg"
  by (auto simp: load_def dest: validate_well_formed split: sum.splits option.splits if_splits)

subsection \<open>Properties\<close>

text \<open>C27: Whatever is on the card, a configuration that loads is well formed: right version, at most
  twelve networks with usable names, an offset between UTC-12 and UTC+14, a non-empty time server
  and printable login names of 1 to 32 characters; validating it again changes nothing.\<close>

theorem loaded_configuration_is_well_formed:
  assumes "load toml_parse ops vol = Inr cfg"
  shows "well_formed_config cfg \<and> validate cfg = Inr cfg"
  using load_well_formed [OF assms] validate_fixpoint by blast

definition sample_ops :: "(unit, unit) fat_ops" where
  "sample_ops = \<lparr>vol_root_dir = \<lambda>v. (), dir_open = \<lambda>v d n. Some (),
     dir_find = \<lambda>v d n. Some (Some \<lparr>fe_name = n, fe_is_directory = False, fe_len = 0, fe_attributes = 0,
       fe_modified = fat_date_time_new 2026 1 1 0 0 0, fe_accessed = 0, fe_location = ()\<rparr>),
     dir_entries = \<lambda>v d. [], vol_create_file = \<lambda>v d n. (None, v), vol_create_dir = \<lambda>v d n. (Inr (), v),
     vol_truncate = \<lambda>v e n. (True, v), vol_delete = \<lambda>v e. (None, v), vol_rename = \<lambda>v e d n. (None, v),
     vol_repair_dir = \<lambda>v e. (True, v), vol_set_times = \<lambda>v e m a. (True, v),
     vol_set_attributes = \<lambda>v e a. (True, v), vol_sync = \<lambda>v. (True, v), vol_free_clusters = \<lambda>v. Some 0,
     vol_max_cluster = \<lambda>v. 2, vol_cluster_size = \<lambda>v. 512, vol_volume_id = \<lambda>v. 0,
     reader_new = \<lambda>v e. Some (), reader_from_cursor = \<lambda>v e c. Some (), reader_seek = \<lambda>v r n. Some (),
     reader_read = \<lambda>v r n. Some ([], ()), reader_cursor = \<lambda>r. (), writer_new = \<lambda>v e. (Some (), v),
     writer_append = \<lambda>v e. (Some (), v), writer_append_from_cursor = \<lambda>v e c. (Some (), v),
     writer_at = \<lambda>v e n. (Some (), v), writer_write = \<lambda>v w b. (Some (length b, w), v),
     writer_append_cursor = \<lambda>w. (), writer_finish = \<lambda>v w. (True, v), writer_drop = \<lambda>v w. v\<rparr>"

theorem loaded_configuration_is_well_formed_witness:
  "\<exists>cfg. load (\<lambda>text. Some default_wifi_config) sample_ops () = Inr cfg \<and> well_formed_config cfg"
proof -
  have "load (\<lambda>text. Some default_wifi_config) sample_ops () = Inr default_wifi_config"
    using validate_fixpoint [OF default_well_formed]
    by (simp add: load_def read_config_file_def sample_ops_def read_config_loop.simps)
  from this loaded_configuration_is_well_formed [OF this] show ?thesis by simp
qed

text \<open>Saving a network keeps a well-formed configuration well formed, makes the network one of
  its entries, keeps names unique, and loses no other network unless the list is full, when only
  the oldest can go.\<close>

theorem upsert_keeps_the_list_sound:
  assumes "well_formed_config cfg" and "acceptable_network n" and "distinct (ssids cfg)"
  shows "well_formed_config (upsert n cfg) \<and> n \<in> set (cfg_networks (upsert n cfg))
    \<and> distinct (ssids (upsert n cfg))
    \<and> (\<forall>e. e \<in> set (cfg_networks cfg) \<and> net_ssid e \<noteq> net_ssid n
         \<and> (length (cfg_networks cfg) < max_saved_networks \<or> e \<in> set (tl (cfg_networks cfg)))
         \<longrightarrow> e \<in> set (cfg_networks (upsert n cfg)))"
  using upsert_well_formed [OF assms(1,2)] upsert_member upsert_distinct [OF assms(3)]
    upsert_keeps_others by blast

theorem upsert_keeps_the_list_sound_witness:
  "well_formed_config (upsert \<lparr>net_ssid = ''home'', net_password = ''secret'', net_auth = Auth_Wpa2\<rparr>
     default_wifi_config)"
  using upsert_keeps_the_list_sound [OF default_well_formed,
      of "\<lparr>net_ssid = ''home'', net_password = ''secret'', net_auth = Auth_Wpa2\<rparr>"]
  by (simp add: acceptable_network_def ssids_def default_wifi_config_def)

text \<open>Reading a configuration file ends with at most the allowed number of bytes, or an error,
  however large the file is.\<close>

theorem config_reads_are_bounded:
  "case read_config_file ops vol name mx of Inl e \<Rightarrow> True | Inr bs \<Rightarrow> length bs \<le> mx"
  using read_config_file_bound [of ops vol name mx] by (auto split: sum.split)

end
