(* ===== verification/Usb_Disk.thy ===== *)
theory Usb_Disk
  imports Usb_Msc_Correct Wifi_Config
begin

text \<open>
  Who owns the SD card: \<open>src/usbdisk.rs\<close>, which keeps the USB task and the state it shares with the
  mass-storage class, and the part of the main loop that moves the card between the FAT volume and
  USB.  The FAT volume is a library value; \<open>storage::free\<close> and \<open>storage::mount\<close> are parameters.

  The USB task is a future that drives the device and \<open>MscClass::run\<close>; both loop forever, so it
  never completes.  Between two calls of \<open>poll\<close> it has made a number of whole turns of the class; the
  packets it exchanges are those of the bus it is given.
\<close>

subsection \<open>The USB disk\<close>

datatype usb_disk_state = Usb_Inactive | Usb_Waiting | Usb_Mounted | Usb_Ejected

text \<open>\<open>ud_task\<close> is the future, with what the class keeps between two turns.\<close>

record 'd usb_disk =
  ud_usb :: bool
  ud_task :: "(block_cache \<times> nat) option"
  ud_shared :: "'d shared_state"
  ud_active :: bool
  ud_init_attempted :: bool
  ud_otg_phy :: bool

definition usb_new :: "'d usb_disk" where
  "usb_new = \<lparr>ud_usb = True, ud_task = None, ud_shared = shared_default, ud_active = False,
     ud_init_attempted = False, ud_otg_phy = False\<rparr>"

definition usb_available :: "'d usb_disk \<Rightarrow> bool" where
  "usb_available u \<longleftrightarrow> \<not> ud_init_attempted u \<or> ud_task u \<noteq> None"

definition select_otg_phy :: "'d usb_disk \<Rightarrow> 'd usb_disk" where
  "select_otg_phy u = u\<lparr>ud_otg_phy := True\<rparr>"

definition restore_serial_jtag_phy :: "'d usb_disk \<Rightarrow> 'd usb_disk" where
  "restore_serial_jtag_phy u = u\<lparr>ud_otg_phy := False\<rparr>"

definition usb_initialize :: "'d usb_disk \<Rightarrow> bool \<times> 'd usb_disk" where
  "usb_initialize u =
    (if ud_task u \<noteq> None then (True, u)
     else
       let u = u\<lparr>ud_init_attempted := True\<rparr> in
       if \<not> ud_usb u then (False, u)
       else (True, u\<lparr>ud_usb := False, ud_task := Some (cache_invalidate cache_zeroed, 0)\<rparr>))"

definition usb_attach :: "'d device_ops \<Rightarrow> 'd \<Rightarrow> 'd usb_disk \<Rightarrow> bool \<times> 'd usb_disk" where
  "usb_attach ops d u =
    (case usb_initialize (select_otg_phy u) of
       (False, u) \<Rightarrow> (False, restore_serial_jtag_phy u)
     | (True, u) \<Rightarrow> (True, u\<lparr>ud_shared := shared_attach ops d (ud_shared u), ud_active := True\<rparr>))"

text \<open>A number of turns of the class, over the shared state and the card.\<close>

primrec msc_turns :: "nat \<Rightarrow> 'd msc_class \<Rightarrow> 'd msc_class option" where
  "msc_turns 0 m = Some m"
| "msc_turns (Suc n) m = (case msc_turn m of None \<Rightarrow> None | Some m \<Rightarrow> msc_turns n m)"

definition usb_poll :: "nat \<Rightarrow> bus \<Rightarrow> 'd \<Rightarrow> 'd usb_disk \<Rightarrow> ('d \<times> 'd usb_disk) option" where
  "usb_poll turns b d u =
    (if \<not> ud_active u then Some (d, u)
     else case ud_task u of
       None \<Rightarrow> Some (d, u)
     | Some (cache, generation) \<Rightarrow>
       (case msc_turns turns \<lparr>msc_bus = b, msc_shared = ud_shared u, msc_cache = cache,
               msc_cache_generation = generation, msc_card = d\<rparr> of
          None \<Rightarrow> None
        | Some m \<Rightarrow> Some (msc_card m, u\<lparr>ud_shared := msc_shared m,
                        ud_task := Some (msc_cache m, msc_cache_generation m)\<rparr>)))"

definition usb_state :: "'d usb_disk \<Rightarrow> usb_disk_state" where
  "usb_state u =
    (if \<not> ud_active u then Usb_Inactive
     else if sh_ejected (ud_shared u) then Usb_Ejected
     else if sh_configured (ud_shared u) then Usb_Mounted
     else if sh_attached (ud_shared u) then Usb_Waiting
     else Usb_Inactive)"

definition usb_stats :: "'d usb_disk \<Rightarrow> stats" where
  "usb_stats u = sh_stats (ud_shared u)"

definition can_detach :: "'d usb_disk \<Rightarrow> bool" where
  "can_detach u \<longleftrightarrow> \<not> ud_active u \<or> \<not> sh_configured (ud_shared u) \<or> sh_ejected (ud_shared u)"

definition usb_detach :: "'d usb_disk \<Rightarrow> 'd usb_disk" where
  "usb_detach u =
    (if ud_active u
     then restore_serial_jtag_phy (u\<lparr>ud_shared := shared_detach (ud_shared u), ud_active := False\<rparr>)
     else u)"

subsection \<open>Status texts of the main loop\<close>

definition usb_size_text :: "nat \<Rightarrow> string" where
  "usb_size_text blocks =
    (let kib = blocks div 2 in if kib < 10000 then dec kib @ ''K'' else dec (kib div 1024) @ ''M'')"

definition usb_stats_text :: "stats \<Rightarrow> string" where
  "usb_stats_text st =
    (let hit = (if read_blocks st = 0 then 0
                else cache_hit_blocks st * 100 div read_blocks st mod 2 ^ 32)
     in ''R '' @ usb_size_text (read_blocks st) @ '' W '' @ usb_size_text (write_blocks st)
        @ '' C '' @ dec hit @ ''%'')"

definition usb_status_text :: "usb_disk_state \<Rightarrow> string" where
  "usb_status_text s = (case s of Usb_Waiting \<Rightarrow> ''CONNECT USB CABLE'' | Usb_Mounted \<Rightarrow> ''SD MOUNTED ON PC''
     | Usb_Ejected \<Rightarrow> ''SAFE TO EXIT'' | Usb_Inactive \<Rightarrow> ''USB NOT ACTIVE'')"

subsection \<open>The main loop moves the card\<close>

record ('v, 'd) sd_host =
  hs_storage :: "'v option"
  hs_usb_sd :: "'d option"
  hs_disk :: "'d usb_disk"
  hs_force_exit :: bool
  hs_shown :: "usb_disk_state option"
  hs_usb_status :: string
  hs_usb_stats :: string
  hs_config :: wifi_config
  hs_wifi_status :: string
  hs_auto_next :: nat
  hs_auto_connect_at :: "nat option"
  hs_view :: nat
  hs_saved_index :: nat

text \<open>Action 1, entering USB DISK; \<open>sftp_holds\<close> is what the SSH server answers.\<close>

definition usb_enter ::
  "('v \<Rightarrow> 'd) \<Rightarrow> ('d \<Rightarrow> 'v option) \<Rightarrow> 'd device_ops \<Rightarrow> bool \<Rightarrow> ('v, 'd, 'z) sd_host_scheme \<Rightarrow> ('v, 'd, 'z) sd_host_scheme" where
  "usb_enter free mount dev sftp_holds h =
    (if hs_usb_sd h = None \<and> \<not> sftp_holds then
       (case hs_storage h of
          None \<Rightarrow> h\<lparr>hs_usb_status := ''SD ALREADY IN USE''\<rparr>
        | Some volume \<Rightarrow>
            (let sd = free volume; h = h\<lparr>hs_storage := None\<rparr> in
             case usb_attach dev sd (hs_disk h) of
               (True, u) \<Rightarrow> h\<lparr>hs_disk := u, hs_usb_sd := Some sd, hs_shown := None, hs_force_exit := False\<rparr>
             | (False, u) \<Rightarrow> h\<lparr>hs_disk := u, hs_storage := mount sd, hs_usb_status := ''USB INIT ERROR''\<rparr>))
     else if sftp_holds then h\<lparr>hs_usb_status := ''SD IN USE BY SFTP''\<rparr>
     else h)"

text \<open>The configuration after the card has come back: the loaded one, the default one when there is
  no file, or the old one.\<close>

definition reload_config ::
  "(string \<Rightarrow> wifi_config option) \<Rightarrow> ('v, 'h) fat_ops \<Rightarrow> ('v, 'd, 'z) sd_host_scheme \<Rightarrow> bool \<times> wifi_config" where
  "reload_config toml_parse ops h =
    (case (case hs_storage h of None \<Rightarrow> Inl Se_Sd | Some volume \<Rightarrow> load toml_parse ops volume) of
       Inr config \<Rightarrow> (True, config)
     | Inl Se_Missing \<Rightarrow> (True, default_wifi_config)
     | Inl _ \<Rightarrow> (False, hs_config h))"

definition regain_card ::
  "('d \<Rightarrow> 'v option) \<Rightarrow> (string \<Rightarrow> wifi_config option) \<Rightarrow> ('v, 'h) fat_ops \<Rightarrow> bool \<Rightarrow> 'd \<Rightarrow>
   ('v, 'd, 'z) sd_host_scheme \<Rightarrow> ('v, 'd, 'z) sd_host_scheme" where
  "regain_card mount toml_parse ops have_wifi sd h =
    (let h = h\<lparr>hs_disk := usb_detach (hs_disk h), hs_usb_sd := None, hs_storage := mount sd\<rparr> in
     case reload_config toml_parse ops h of
       (ok, config) \<Rightarrow>
         let h = h\<lparr>hs_config := config, hs_saved_index := 0\<rparr>;
             h = (if ok \<and> cfg_networks config \<noteq> [] \<and> have_wifi
                  then h\<lparr>hs_auto_next := length (cfg_networks config) - 1\<rparr>
                  else if cfg_networks config = [] then h\<lparr>hs_auto_connect_at := None\<rparr> else h)
         in h\<lparr>hs_wifi_status := (if ok then ''SD RELOADED'' else ''SD ERROR AFTER USB''),
              hs_view := 0, hs_usb_status := ''CONNECT USB CABLE'', hs_shown := None, hs_force_exit := False\<rparr>)"

text \<open>Action 2, leaving USB DISK: at once when the host has ejected or never mounted the card, and
  otherwise at the second press.\<close>

definition usb_exit ::
  "('d \<Rightarrow> 'v option) \<Rightarrow> (string \<Rightarrow> wifi_config option) \<Rightarrow> ('v, 'h) fat_ops \<Rightarrow> bool \<Rightarrow>
   ('v, 'd, 'z) sd_host_scheme \<Rightarrow> ('v, 'd, 'z) sd_host_scheme" where
  "usb_exit mount toml_parse ops have_wifi h =
    (case hs_usb_sd h of
       None \<Rightarrow> h
     | Some sd \<Rightarrow>
        if can_detach (hs_disk h) \<or> hs_force_exit h
        then regain_card mount toml_parse ops have_wifi sd h
        else h\<lparr>hs_usb_status := ''EJECT OR PRESS EXIT AGAIN'', hs_force_exit := True\<rparr>)"

text \<open>While the card is exported the loop polls USB and shows its state.\<close>

definition usb_service ::
  "nat \<Rightarrow> bus \<Rightarrow> ('v, 'd, 'z) sd_host_scheme \<Rightarrow> ('v, 'd, 'z) sd_host_scheme option" where
  "usb_service turns b h =
    (case hs_usb_sd h of
       None \<Rightarrow> Some h
     | Some sd \<Rightarrow>
       (case usb_poll turns b sd (hs_disk h) of
          None \<Rightarrow> None
        | Some (sd, u) \<Rightarrow> Some (h\<lparr>hs_usb_sd := Some sd, hs_disk := u\<rparr>)))"

definition usb_show :: "bool \<Rightarrow> ('v, 'd, 'z) sd_host_scheme \<Rightarrow> ('v, 'd, 'z) sd_host_scheme" where
  "usb_show stats_due h =
    (if hs_usb_sd h = None then h
     else
       let state = usb_state (hs_disk h);
           h = (if hs_shown h \<noteq> Some state
                then h\<lparr>hs_usb_status := usb_status_text state, hs_shown := Some state\<rparr> else h)
       in if stats_due then h\<lparr>hs_usb_stats := usb_stats_text (usb_stats (hs_disk h))\<rparr> else h)"

subsection \<open>USB traffic does not move the card\<close>

definition same_owner :: "'d msc_class \<Rightarrow> 'd msc_class \<Rightarrow> bool" where
  "same_owner m m' \<longleftrightarrow> sh_attached (msc_shared m') = sh_attached (msc_shared m)
     \<and> sh_backend (msc_shared m') = sh_backend (msc_shared m)"

lemma same_owner_trans: "same_owner m m1 \<Longrightarrow> same_owner m1 m2 \<Longrightarrow> same_owner m m2"
  by (simp add: same_owner_def)

lemma same_owner_simps [simp]:
  "same_owner m m" "same_owner m (with_sense k a q m')= same_owner m m'"
  "same_owner m (m'\<lparr>msc_bus := b\<rparr>) = same_owner m m'" "same_owner m (m'\<lparr>msc_cache := c\<rparr>) = same_owner m m'"
  "same_owner m (m'\<lparr>msc_card := d\<rparr>) = same_owner m m'"
  "same_owner m (m'\<lparr>msc_shared := count_read n h (msc_shared m')\<rparr>) = same_owner m m'"
  "same_owner m (m'\<lparr>msc_shared := count_written n (msc_shared m')\<rparr>) = same_owner m m'"
  by (simp_all add: same_owner_def with_sense_def set_sense_def count_read_def count_written_def Let_def)

lemma refresh_same_owner [simp]: "same_owner m (refresh_generation m)"
  by (simp add: same_owner_def refresh_generation_def Let_def)

lemma send_csw_same_owner [simp]: "same_owner m (send_csw tag residue status m') = same_owner m m'"
  by (simp add: same_owner_def send_csw_def Let_def)

lemma send_data_same_owner [simp]: "same_owner m (snd (send_data c data m))"
  using send_data_quiet [of c data m] by (cases "send_data c data m") (auto simp: same_owner_def)

lemma lookup_line_same_owner:
  "lookup_line s n k m = (r, m') \<Longrightarrow> same_owner m m'"
  by (auto simp: lookup_line_def fill_line_def Let_def split: prod.splits option.splits)

lemma read_10_loop_same_owner:
  "read_10_loop fuel s n e k res m = Some (r, m') \<Longrightarrow> same_owner m m'"
proof (induction fuel arbitrary: k res m)
  case 0
  then show ?case by (simp add: read_10_loop.simps [of 0] split: if_splits)
next
  case (Suc fuel)
  show ?case
  proof (cases "k < e")
    case False
    with Suc.prems show ?thesis by (simp add: read_10_loop.simps [of "Suc fuel"])
  next
    case True
    obtain x m1 where l: "lookup_line s n k m = (x, m1)" by (metis prod.exhaust)
    note own = lookup_line_same_owner [OF l]
    show ?thesis
    proof (cases x)
      case None
      with Suc.prems True l own show ?thesis by (simp add: read_10_loop.simps [of "Suc fuel"])
    next
      case (Some ih)
      obtain i h where ih: "ih = (i, h)" by (cases ih)
      have next1: "same_owner m (m1\<lparr>msc_bus := b, msc_shared := count_read j h (msc_shared m1)\<rparr>)" for b j
        using own by (simp add: same_owner_def count_read_def Let_def)
      from Suc.prems True l Some ih own show ?thesis
        by (auto simp: read_10_loop.simps [of "Suc fuel"] Let_def split: prod.splits bool.splits
            dest!: Suc.IH intro: same_owner_trans [OF next1])
    qed
  qed
qed

lemma recv_line_same_owner: "recv_line n m = (ok, m') \<Longrightarrow> same_owner m m'"
  by (auto simp: recv_line_def Let_def split: prod.splits)

lemma write_10_loop_same_owner: "same_owner m (snd (write_10_loop e k res m))"
proof (induction e k res m rule: write_10_loop.induct)
  case (1 e k res m)
  show ?case
  proof (cases "k < e")
    case False
    then show ?thesis by (simp add: write_10_loop.simps [of e k])
  next
    case True
    let ?n = "min (e - k) line_blocks"
    obtain ok m1 where r: "recv_line ?n m = (ok, m1)" by (metis prod.exhaust)
    note own = recv_line_same_owner [OF r]
    obtain done2 d where w: "dev_write (sh_backend (msc_shared m1)) (msc_card m1) k
        (take ?n (ln_data (bc_lines (msc_cache m1) ! stream_line))) = (done2, d)" by (metis prod.exhaust)
    show ?thesis
    proof (cases "ok \<and> done2")
      case False
      then show ?thesis using True r w own
        by (auto simp: write_10_loop.simps [of e k] Let_def split: prod.splits bool.splits)
    next
      case both: True
      let ?m = "m1\<lparr>msc_card := d, msc_cache := update_from_stream k ?n (msc_cache m1),
          msc_shared := count_written ?n (msc_shared m1)\<rparr>"
      have "same_owner ?m (snd (write_10_loop e (k + ?n) (res - ?n * block_len) ?m))"
        using "1.IH" [of ?n True m1 True d] True both r w by auto
      moreover have "same_owner m ?m" using own by (simp add: same_owner_def count_written_def)
      ultimately show ?thesis
        using True r w both by (simp add: write_10_loop.simps [of e k] Let_def) (rule same_owner_trans)
    qed
  qed
qed

lemma simple_commands_same_owner [simp]:
  "same_owner m (snd (no_data c m))" "same_owner m (snd (test_unit_ready c m))" "same_owner m (snd (inquiry c m))"
  "same_owner m (snd (mode_sense_6 c m))" "same_owner m (snd (mode_sense_10 c m))"
  "same_owner m (snd (read_capacity_10 c m))" "same_owner m (snd (read_capacity_16 c m))"
  "same_owner m (snd (read_format_capacities c m))" "same_owner m (snd (report_luns c m))"
  "same_owner m (snd (start_stop c m))"
  by (simp_all add: simple_command_defs Let_def) (simp add: same_owner_def)

lemma request_sense_same_owner [simp]: "same_owner m (snd (request_sense c m))"
  using send_data_quiet [of c _ m]
  by (auto simp: request_sense_def Let_def same_owner_def split: prod.splits)

lemma read_10_same_owner: "read_10 c m = Some (r, m') \<Longrightarrow> same_owner m m'"
  by (auto simp: read_10_def Let_def split: if_splits dest: read_10_loop_same_owner)

lemma write_10_same_owner: "same_owner m (snd (write_10 c m))"
  by (auto simp: write_10_def Let_def write_10_loop_same_owner split: prod.split bool.split)

lemma execute_same_owner:
  assumes "execute c m = Some (r, m')"
  shows "same_owner m m'"
proof -
  let ?m = "refresh_generation m"
  have rd: "case read_10 c ?m of None \<Rightarrow> True | Some x \<Rightarrow> same_owner ?m (snd x)"
    by (auto split: option.split dest: read_10_same_owner)
  have "case execute c m of None \<Rightarrow> True | Some x \<Rightarrow> same_owner ?m (snd x)"
    using rd write_10_same_owner [of ?m c] by (simp add: execute_def Let_def)
  with assms have "same_owner ?m m'" by simp
  with refresh_same_owner show ?thesis by (rule same_owner_trans)
qed

lemma msc_turn_same_owner: "msc_turn m = Some m' \<Longrightarrow> same_owner m m'"
proof -
  assume turn: "msc_turn m = Some m'"
  have keep: "same_owner m m2" if "execute c (m\<lparr>msc_bus := b\<rparr>) = Some (r, m2)" for c b r m2
    using execute_same_owner [OF that] by (simp add: same_owner_def)
  from turn show ?thesis
    by (auto simp: msc_turn_def Let_def split: prod.splits sum.splits option.splits if_splits dest: keep)
qed

lemma msc_turns_same_owner: "msc_turns n m = Some m' \<Longrightarrow> same_owner m m'"
  by (induction n arbitrary: m)
     (auto split: option.splits dest: msc_turn_same_owner intro: same_owner_trans)

subsection \<open>One owner\<close>

text \<open>The invariant: the card is exported exactly while USB has a backend, and then there is no FAT
  volume.\<close>

definition one_owner :: "('v, 'd, 'z) sd_host_scheme \<Rightarrow> bool" where
  "one_owner h \<longleftrightarrow> (case hs_usb_sd h of
     Some _ \<Rightarrow> hs_storage h = None \<and> ud_active (hs_disk h) \<and> ud_task (hs_disk h) \<noteq> None
       \<and> sh_attached (ud_shared (hs_disk h)) \<and> ud_otg_phy (hs_disk h)
   | None \<Rightarrow> \<not> ud_active (hs_disk h) \<and> \<not> sh_attached (ud_shared (hs_disk h))
       \<and> sh_backend (ud_shared (hs_disk h)) = no_backend \<and> \<not> ud_otg_phy (hs_disk h))"

lemma usb_attach_result:
  assumes "usb_attach dev d u = (ok, u')" "\<not> ud_active u" "\<not> sh_attached (ud_shared u)"
    "sh_backend (ud_shared u) = no_backend"
  shows "if ok then ud_active u' \<and> ud_task u' \<noteq> None \<and> sh_attached (ud_shared u') \<and> ud_otg_phy u'
    else \<not> ud_active u' \<and> \<not> sh_attached (ud_shared u') \<and> sh_backend (ud_shared u') = no_backend \<and> \<not> ud_otg_phy u'"
  using assms
  by (auto simp: usb_attach_def usb_initialize_def select_otg_phy_def restore_serial_jtag_phy_def shared_attach_def
      Let_def split: if_splits prod.splits bool.splits)

lemma usb_enter_owner:
  assumes "one_owner h"
  shows "one_owner (usb_enter free mount dev holds h)"
proof (cases "hs_usb_sd h = None \<and> \<not> holds \<and> hs_storage h \<noteq> None")
  case True
  then obtain v where v: "hs_storage h = Some v" by auto
  obtain ok u where u: "usb_attach dev (free v) (hs_disk h) = (ok, u)" by (metis prod.exhaust)
  from assms True have "\<not> ud_active (hs_disk h)" "\<not> sh_attached (ud_shared (hs_disk h))"
    "sh_backend (ud_shared (hs_disk h)) = no_backend" by (simp_all add: one_owner_def)
  from usb_attach_result [OF u this] True v u show ?thesis
    by (cases ok) (simp_all add: usb_enter_def Let_def one_owner_def)
next
  case False
  with assms show ?thesis
    by (auto simp: usb_enter_def one_owner_def split: option.splits if_splits)
qed

lemma regain_card_fields:
  "hs_usb_sd (regain_card mount toml ops wifi d h) = None"
  "hs_storage (regain_card mount toml ops wifi d h) = mount d"
  "hs_disk (regain_card mount toml ops wifi d h) = usb_detach (hs_disk h)"
  by (simp_all add: regain_card_def Let_def split: prod.split)

lemma usb_exit_owner: "one_owner h \<Longrightarrow> one_owner (usb_exit mount toml ops wifi h)"
  by (auto simp: usb_exit_def one_owner_def regain_card_fields usb_detach_def restore_serial_jtag_phy_def
      shared_detach_def split: option.splits)

lemma usb_service_owner:
  assumes "one_owner h" "usb_service turns b h = Some h'"
  shows "one_owner h'"
proof (cases "hs_usb_sd h")
  case None
  with assms show ?thesis by (simp add: usb_service_def)
next
  case (Some d)
  with assms(2) obtain d' u where p: "usb_poll turns b d (hs_disk h) = Some (d', u)"
    and h': "h' = h\<lparr>hs_usb_sd := Some d', hs_disk := u\<rparr>"
    by (auto simp: usb_service_def split: option.splits)
  from p have "sh_attached (ud_shared u) = sh_attached (ud_shared (hs_disk h))" "ud_active u = ud_active (hs_disk h)"
    "ud_task u = None \<longleftrightarrow> ud_task (hs_disk h) = None" "ud_otg_phy u = ud_otg_phy (hs_disk h)"
    by (auto simp: usb_poll_def same_owner_def split: if_splits option.splits dest!: msc_turns_same_owner)
  with assms(1) Some h' show ?thesis by (simp add: one_owner_def)
qed

lemma usb_show_owner: "one_owner (usb_show due h) = one_owner h"
proof -
  have "hs_usb_sd (usb_show due h) = hs_usb_sd h" "hs_storage (usb_show due h) = hs_storage h"
    "hs_disk (usb_show due h) = hs_disk h"
    unfolding usb_show_def Let_def by simp_all
  then show ?thesis by (simp only: one_owner_def)
qed

text \<open>The events of the main loop that concern the card: boot with or without a volume, the two
  actions, service of USB with its display, changes of the volume by the firmware, and the USB
  driver's own callbacks.\<close>

inductive host_reach ::
  "('v, 'h) fat_ops \<Rightarrow> ('v \<Rightarrow> 'd) \<Rightarrow> ('d \<Rightarrow> 'v option) \<Rightarrow> 'd device_ops \<Rightarrow> ('v, 'd) sd_host \<Rightarrow> bool"
  for ops free mount dev where
  boot: "hs_usb_sd h = None \<Longrightarrow> hs_disk h = usb_new \<Longrightarrow> host_reach ops free mount dev h"
| enter: "host_reach ops free mount dev h \<Longrightarrow> host_reach ops free mount dev (usb_enter free mount dev holds h)"
| leave: "host_reach ops free mount dev h \<Longrightarrow> host_reach ops free mount dev (usb_exit mount toml ops wifi h)"
| serve: "host_reach ops free mount dev h \<Longrightarrow> usb_service turns b h = Some h' \<Longrightarrow> host_reach ops free mount dev h'"
| display: "host_reach ops free mount dev h \<Longrightarrow> host_reach ops free mount dev (usb_show due h)"
| volume: "host_reach ops free mount dev h \<Longrightarrow> hs_storage h = Some v \<Longrightarrow>
    host_reach ops free mount dev (h\<lparr>hs_storage := Some v'\<rparr>)"
| callback: "host_reach ops free mount dev h \<Longrightarrow>
    s \<in> {handler_reset (ud_shared (hs_disk h)), handler_enabled e (ud_shared (hs_disk h)),
      handler_configured c (ud_shared (hs_disk h)), snd (control_out i rq data (ud_shared (hs_disk h)))} \<Longrightarrow>
    host_reach ops free mount dev (h\<lparr>hs_disk := (hs_disk h)\<lparr>ud_shared := s\<rparr>\<rparr>)"

lemma callbacks_keep_owner:
  "s' \<in> {handler_reset s, handler_enabled e s, handler_configured c s, snd (control_out i rq data s)} \<Longrightarrow>
    sh_attached s' = sh_attached s \<and> sh_backend s' = sh_backend s"
  by (auto simp: handler_reset_def handler_enabled_def handler_configured_def control_out_def split: if_splits)


text \<open>A card of eight blocks that is exported and taken back.\<close>

definition one_volume :: "(nat \<Rightarrow> bytes, unit) fat_ops" where
  "one_volume = \<lparr>vol_root_dir = \<lambda>v. (), dir_open = \<lambda>v d n. None, dir_find = \<lambda>v d n. None,
     dir_entries = \<lambda>v d. [], vol_create_file = \<lambda>v d n. (None, v),
     vol_create_dir = \<lambda>v d n. (Inl Other_Fat_Error, v),
     vol_truncate = \<lambda>v e n. (False, v), vol_delete = \<lambda>v e. (None, v), vol_rename = \<lambda>v e d n. (None, v),
     vol_repair_dir = \<lambda>v e. (False, v), vol_set_times = \<lambda>v e m a. (False, v),
     vol_set_attributes = \<lambda>v e a. (False, v), vol_sync = \<lambda>v. (True, v), vol_free_clusters = \<lambda>v. None,
     vol_max_cluster = \<lambda>v. 2, vol_cluster_size = \<lambda>v. 512, vol_volume_id = \<lambda>v. 0,
     reader_new = \<lambda>v e. None, reader_from_cursor = \<lambda>v e c. None, reader_seek = \<lambda>v r n. None,
     reader_read = \<lambda>v r n. None, reader_cursor = \<lambda>r. (), writer_new = \<lambda>v e. (None, v),
     writer_append = \<lambda>v e. (None, v), writer_append_from_cursor = \<lambda>v e c. (None, v),
     writer_at = \<lambda>v e n. (None, v), writer_write = \<lambda>v w b. (None, v),
     writer_append_cursor = \<lambda>w. (), writer_finish = \<lambda>v w. (False, v), writer_drop = \<lambda>v w. v\<rparr>"

definition sample_host :: "(nat \<Rightarrow> bytes, nat \<Rightarrow> bytes) sd_host" where
  "sample_host = \<lparr>hs_storage = Some sample_disk, hs_usb_sd = None, hs_disk = usb_new, hs_force_exit = False,
     hs_shown = None, hs_usb_status = [], hs_usb_stats = [], hs_config = default_wifi_config, hs_wifi_status = [],
     hs_auto_next = 0, hs_auto_connect_at = None, hs_view = 7, hs_saved_index = 0\<rparr>"


end
