(* ===== verification/Wifi_Scan.thy ===== *)
theory Wifi_Scan
  imports Wifi_Config "HOL-Library.Multiset"
begin

text \<open>
  The Wi-Fi manager of \<open>src/wifi.rs\<close>: scan passes and their merged list, credentials, and attempts to
  associate.  The radio driver is the record \<open>radio_ops\<close>; a driver call that does not end within its
  timeout is one of its answers.  \<open>sort_unstable_by\<close> is the parameter \<open>sorter\<close>, of which only the
  documented contract is used: it permutes the list into the given order, in no stated order among
  equals.
\<close>

subsection \<open>Scanning\<close>

definition max_scan_results :: nat where "max_scan_results = 8"
definition scan_passes :: nat where "scan_passes = 2"
definition connect_attempts :: nat where "connect_attempts = 3"

text \<open>The driver's authentication methods; \<open>Am_Other\<close> stands for those the firmware does not name.\<close>

datatype auth_method = Am_None | Am_Wep | Am_Wpa | Am_Wpa2_Personal | Am_Wpa_Wpa2_Personal | Am_Other nat

record access_point =
  ap_ssid :: string
  ap_signal :: int
  ap_auth :: "auth_method option"

record scan_network =
  sn_ssid :: string
  sn_signal :: int
  sn_auth :: auth_kind
  sn_supported :: bool

definition map_scanned_auth :: "auth_method option \<Rightarrow> auth_kind \<times> bool" where
  "map_scanned_auth m = (case m of
     Some Am_None \<Rightarrow> (Auth_Open, True)
   | Some Am_Wep \<Rightarrow> (Auth_Wep, True)
   | Some Am_Wpa \<Rightarrow> (Auth_Wpa, True)
   | Some Am_Wpa2_Personal \<Rightarrow> (Auth_Wpa2, True)
   | Some Am_Wpa_Wpa2_Personal \<Rightarrow> (Auth_Wpa_Wpa2, True)
   | _ \<Rightarrow> (Auth_Wpa2, False))"

definition seen_network :: "access_point \<Rightarrow> scan_network option" where
  "seen_network ap =
    (if ap_ssid ap = [] then None
     else case map_scanned_auth (ap_auth ap) of (auth, supported) \<Rightarrow>
       Some \<lparr>sn_ssid = ap_ssid ap, sn_signal = ap_signal ap, sn_auth = auth, sn_supported = supported\<rparr>)"

definition seen_networks :: "access_point list \<Rightarrow> scan_network list" where
  "seen_networks aps = List.map_filter seen_network aps"

text \<open>\<open>iter_mut().find\<close>: the first entry of the SSID takes the stronger signal.\<close>

fun strengthen :: "scan_network \<Rightarrow> scan_network list \<Rightarrow> scan_network list option" where
  "strengthen n [] = None"
| "strengthen n (e # es) =
    (if sn_ssid e = sn_ssid n then Some (e\<lparr>sn_signal := max (sn_signal e) (sn_signal n)\<rparr> # es)
     else map_option (Cons e) (strengthen n es))"

definition merge_one :: "scan_network list \<Rightarrow> scan_network \<Rightarrow> scan_network list" where
  "merge_one networks n = (case strengthen n networks of Some ns \<Rightarrow> ns | None \<Rightarrow> networks @ [n])"

definition merge_scan_results ::
  "(scan_network list \<Rightarrow> scan_network list) \<Rightarrow> scan_network list \<Rightarrow> scan_network list \<Rightarrow> scan_network list" where
  "merge_scan_results sorter networks results = take max_scan_results (sorter (foldl merge_one networks results))"

subsection \<open>The radio\<close>

datatype connect_error = Invalid_Credentials | Radio_Failed | Connection_Failed

datatype scan_outcome = Scan_Done "access_point list" | Scan_Error | Scan_Timeout
datatype connect_outcome = Connect_Done | Connect_Error | Connect_Timeout

record 'w radio_ops =
  ro_scan :: "'w \<Rightarrow> scan_outcome \<times> 'w"
  ro_ssid_ok :: "string \<Rightarrow> bool"
  ro_password_ok :: "string \<Rightarrow> bool"
  ro_disconnect :: "'w \<Rightarrow> 'w"
  ro_set_config :: "'w \<Rightarrow> saved_network \<Rightarrow> bool \<times> 'w"
  ro_connect :: "'w \<Rightarrow> connect_outcome \<times> 'w"

definition scan_pass :: "'w radio_ops \<Rightarrow> 'w \<Rightarrow> scan_network list option \<times> 'w" where
  "scan_pass ro w = (case ro_scan ro w of
     (Scan_Done aps, w) \<Rightarrow> (Some (seen_networks aps), w)
   | (_, w) \<Rightarrow> (None, w))"

definition parse_password :: "'w radio_ops \<Rightarrow> string \<Rightarrow> bool" where
  "parse_password ro password = ro_password_ok ro password"

text \<open>The station is configured with the SSID and, unless the network is open, the password.\<close>

definition configure :: "'w radio_ops \<Rightarrow> saved_network \<Rightarrow> 'w \<Rightarrow> (connect_error + unit) \<times> 'w" where
  "configure ro n w =
    (if \<not> ro_ssid_ok ro (net_ssid n) then (Inl Invalid_Credentials, w)
     else if net_auth n \<noteq> Auth_Open \<and> \<not> parse_password ro (net_password n) then (Inl Invalid_Credentials, w)
     else
       (let station = (if net_auth n = Auth_Open then n\<lparr>net_password := []\<rparr> else n) in
        case ro_set_config ro (ro_disconnect ro w) station of
          (True, w) \<Rightarrow> (Inr (), w)
        | (False, w) \<Rightarrow> (Inl Radio_Failed, w)))"

definition connect_attempt :: "'w radio_ops \<Rightarrow> 'w \<Rightarrow> (connect_error + unit) \<times> 'w" where
  "connect_attempt ro w = (case ro_connect ro w of
     (Connect_Done, w) \<Rightarrow> (Inr (), w)
   | (_, w) \<Rightarrow> (Inl Connection_Failed, ro_disconnect ro w))"

primrec attempt_loop ::
  "'w radio_ops \<Rightarrow> nat \<Rightarrow> (connect_error + unit) \<Rightarrow> 'w \<Rightarrow> (connect_error + unit) \<times> 'w" where
  "attempt_loop ro 0 result w = (result, w)"
| "attempt_loop ro (Suc n) result w = (case connect_attempt ro w of
     (Inr u, w) \<Rightarrow> (Inr u, w)
   | (Inl e, w) \<Rightarrow> attempt_loop ro n (Inl e) w)"

definition connect_automatically :: "'w radio_ops \<Rightarrow> saved_network \<Rightarrow> 'w \<Rightarrow> 'w \<times> (connect_error + unit)" where
  "connect_automatically ro n w = (case configure ro n w of
     (Inl e, w) \<Rightarrow> (w, Inl e)
   | (Inr u, w) \<Rightarrow> (case attempt_loop ro connect_attempts (Inr u) w of (result, w) \<Rightarrow> (w, result)))"

subsection \<open>The merged list\<close>

definition sorts_by_signal :: "(scan_network list \<Rightarrow> scan_network list) \<Rightarrow> bool" where
  "sorts_by_signal sorter \<longleftrightarrow>
    (\<forall>xs. mset (sorter xs) = mset xs \<and> sorted_wrt (\<lambda>a b. sn_signal b \<le> sn_signal a) (sorter xs))"

text \<open>The strongest reading of an SSID.\<close>

definition readings :: "string \<Rightarrow> scan_network list \<Rightarrow> int set" where
  "readings ssid ns = sn_signal ` {n \<in> set ns. sn_ssid n = ssid}"

lemma readings_simps [simp]:
  "readings s [] = {}"
  "readings s (n # ns) = (if sn_ssid n = s then insert (sn_signal n) (readings s ns) else readings s ns)"
  "readings s (ns @ ms) = readings s ns \<union> readings s ms"
  "finite (readings s ns)"
  by (auto simp: readings_def)

lemma readings_empty: "readings s ns = {} \<longleftrightarrow> s \<notin> sn_ssid ` set ns"
  by (auto simp: readings_def)

lemma single_reading:
  "x \<in> set ns \<Longrightarrow> distinct (map sn_ssid ns) \<Longrightarrow> readings (sn_ssid x) ns = {sn_signal x}"
proof (induction ns)
  case (Cons a ns)
  show ?case
  proof (cases "x \<in> set ns")
    case True
    with Cons.prems(2) have "sn_ssid a \<noteq> sn_ssid x" by auto
    with Cons True show ?thesis by simp
  next
    case False
    with Cons.prems have "x = a" "sn_ssid a \<notin> sn_ssid ` set ns" by auto
    moreover from this have "readings (sn_ssid a) ns = {}" by (simp only: readings_empty) simp
    ultimately show ?thesis by simp
  qed
qed simp

lemma strengthen_None: "strengthen n ns = None \<longleftrightarrow> sn_ssid n \<notin> sn_ssid ` set ns"
  by (induction ns) auto

lemma strengthen_ssids: "strengthen n ns = Some ms \<Longrightarrow> map sn_ssid ms = map sn_ssid ns"
  by (induction ns arbitrary: ms) (auto split: if_splits)

lemma merge_one_ssids:
  "map sn_ssid (merge_one ns n) = (if sn_ssid n \<in> sn_ssid ` set ns then map sn_ssid ns else map sn_ssid ns @ [sn_ssid n])"
  using strengthen_None [of n ns] by (auto simp: merge_one_def dest: strengthen_ssids split: option.split)

lemma merge_one_distinct: "distinct (map sn_ssid ns) \<Longrightarrow> distinct (map sn_ssid (merge_one ns n))"
  by (simp add: merge_one_ssids)

lemma strengthen_best:
  "strengthen n ns = Some ms \<Longrightarrow> distinct (map sn_ssid ns) \<Longrightarrow> e \<in> set ms \<Longrightarrow>
    sn_signal e = Max (readings (sn_ssid e) (ns @ [n]))"
proof (induction ns arbitrary: ms)
  case (Cons a ns)
  have single: "readings (sn_ssid a) ns = {}"
    using Cons.prems(2) by (simp add: readings_empty)
  show ?case
  proof (cases "sn_ssid a = sn_ssid n")
    case True
    with Cons.prems(1) have ms: "ms = a\<lparr>sn_signal := max (sn_signal a) (sn_signal n)\<rparr> # ns" by simp
    show ?thesis
    proof (cases "e \<in> set ns")
      case e: True
      then have "sn_ssid e \<in> sn_ssid ` set ns" by simp
      with Cons.prems(2) have "sn_ssid e \<noteq> sn_ssid a" by (metis distinct.simps(2) image_set list.simps(9))
      with e True Cons.prems(2) single_reading [OF e] show ?thesis by simp
    next
      case False
      with Cons.prems(3) ms True single show ?thesis by (auto simp: max.commute)
    qed
  next
    case False
    with Cons.prems(1) obtain rest where rest: "strengthen n ns = Some rest" "ms = a # rest" by auto
    show ?thesis
    proof (cases "e \<in> set rest")
      case True
      have "sn_ssid e \<in> sn_ssid ` set ns"
        using strengthen_ssids [OF rest(1)] True by (metis image_eqI image_set)
      with Cons.prems(2) have "sn_ssid e \<noteq> sn_ssid a" by auto
      with Cons.IH [OF rest(1) _ True] Cons.prems(2) show ?thesis by simp
    next
      case e: False
      with Cons.prems(3) rest(2) False single show ?thesis by auto
    qed
  qed
qed simp

lemma merge_one_best:
  assumes "distinct (map sn_ssid ns)" "e \<in> set (merge_one ns n)"
  shows "sn_signal e = Max (readings (sn_ssid e) (ns @ [n]))"
proof (cases "strengthen n ns")
  case None
  from None have new: "sn_ssid n \<notin> sn_ssid ` set ns" by (simp add: strengthen_None)
  from assms(2) None consider "e \<in> set ns" | "e = n" by (auto simp: merge_one_def)
  then show ?thesis
  proof cases
    case 1
    with new have "sn_ssid n \<noteq> sn_ssid e" by auto
    with single_reading [OF 1 assms(1)] show ?thesis by simp
  next
    case 2
    with new show ?thesis by (simp add: readings_empty [THEN iffD2])
  qed
next
  case (Some ms)
  with assms strengthen_best [OF Some assms(1)] show ?thesis by (simp add: merge_one_def)
qed

lemma known_readings:
  assumes "distinct (map sn_ssid ms)" "sn_ssid ` set ms = sn_ssid ` set all"
    and "\<And>e. e \<in> set ms \<Longrightarrow> sn_signal e = Max (readings (sn_ssid e) all)"
  shows "readings s ms = (if s \<in> sn_ssid ` set all then {Max (readings s all)} else {})"
proof (cases "s \<in> sn_ssid ` set ms")
  case True
  then obtain x where "x \<in> set ms" "sn_ssid x = s" by auto
  with single_reading [OF this(1) assms(1)] assms(2,3) True show ?thesis by auto
next
  case False
  with assms(2) show ?thesis by (simp add: readings_empty)
qed

lemma merge_all:
  assumes "distinct (map sn_ssid ns)"
  shows "distinct (map sn_ssid (foldl merge_one ns rs))
    \<and> sn_ssid ` set (foldl merge_one ns rs) = sn_ssid ` set (ns @ rs)
    \<and> (\<forall>e \<in> set (foldl merge_one ns rs). sn_signal e = Max (readings (sn_ssid e) (ns @ rs)))"
proof (induction rs rule: rev_induct)
  case Nil
  with assms show ?case by (simp add: single_reading)
next
  case (snoc r rs)
  let ?ms = "foldl merge_one ns rs"
  from snoc.IH have IH: "distinct (map sn_ssid ?ms)" "sn_ssid ` set ?ms = sn_ssid ` set (ns @ rs)"
    "\<And>e. e \<in> set ?ms \<Longrightarrow> sn_signal e = Max (readings (sn_ssid e) (ns @ rs))" by blast+
  note known = known_readings [OF IH]
  have "sn_signal e = Max (readings (sn_ssid e) ((ns @ rs) @ [r]))" if "e \<in> set (merge_one ?ms r)" for e
  proof -
    have "sn_signal e = Max (readings (sn_ssid e) (?ms @ [r]))" by (rule merge_one_best [OF IH(1) that])
    also have "\<dots> = Max (readings (sn_ssid e) ((ns @ rs) @ [r]))"
    proof (cases "sn_ssid e \<in> sn_ssid ` set (ns @ rs)")
      case True
      then have "readings (sn_ssid e) (ns @ rs) \<noteq> {}" by (simp only: readings_empty) simp
      with True known [of "sn_ssid e"] show ?thesis by (simp add: max.commute)
    next
      case False
      then have "readings (sn_ssid e) (ns @ rs) = {}" by (simp only: readings_empty) simp
      with False known [of "sn_ssid e"] show ?thesis by simp
    qed
    finally show ?thesis .
  qed
  moreover have "sn_ssid ` set (merge_one ?ms r) = sn_ssid ` set (ns @ rs @ [r])"
    using arg_cong [OF merge_one_ssids [of ?ms r], of set] IH(2) by auto
  ultimately show ?case using merge_one_distinct [OF IH(1)] by simp
qed

text \<open>C36: Merging a scan pass keeps the list sound: at most eight networks, no SSID twice, strongest
  first, each with the strongest of all its readings; and a network is left out only when eight others
  are listed that are all at least as strong.\<close>

theorem scan_list_shows_the_strongest:
  fixes sorter networks results
  defines "out \<equiv> merge_scan_results sorter networks results" and "all \<equiv> networks @ results"
  assumes "sorts_by_signal sorter" "distinct (map sn_ssid networks)"
  shows "length out \<le> max_scan_results \<and> distinct (map sn_ssid out)
    \<and> sorted_wrt (\<lambda>a b. sn_signal b \<le> sn_signal a) out
    \<and> (\<forall>e \<in> set out. sn_signal e = Max (readings (sn_ssid e) all))
    \<and> (\<forall>s \<in> sn_ssid ` set all. s \<notin> sn_ssid ` set out \<longrightarrow>
         length out = max_scan_results \<and> (\<forall>e \<in> set out. Max (readings s all) \<le> sn_signal e))"
proof -
  let ?ms = "foldl merge_one networks results"
  let ?xs = "sorter ?ms"
  from merge_all [OF assms(4), of results] have ms: "distinct (map sn_ssid ?ms)"
    "sn_ssid ` set ?ms = sn_ssid ` set all" "\<And>e. e \<in> set ?ms \<Longrightarrow> sn_signal e = Max (readings (sn_ssid e) all)"
    by (simp_all add: all_def)
  from assms(3) have perm: "mset ?xs = mset ?ms" and sorted: "sorted_wrt (\<lambda>a b. sn_signal b \<le> sn_signal a) ?xs"
    by (simp_all add: sorts_by_signal_def)
  have set: "set ?xs = set ?ms" using perm by (rule mset_eq_setD)
  have "mset (map sn_ssid ?xs) = mset (map sn_ssid ?ms)" using perm by simp
  then have dist: "distinct (map sn_ssid ?xs)" using ms(1) by (metis mset_eq_imp_distinct_iff)
  have out: "out = take max_scan_results ?xs" by (simp add: out_def merge_scan_results_def)
  have best: "sn_signal e = Max (readings (sn_ssid e) all)" if "e \<in> set ?xs" for e using that ms(3) set by simp
  have dropped: "length out = max_scan_results \<and> (\<forall>e \<in> set out. Max (readings s all) \<le> sn_signal e)"
    if s: "s \<in> sn_ssid ` set all" "s \<notin> sn_ssid ` set out" for s
  proof -
    from s(1) ms(2) set obtain d where d: "d \<in> set ?xs" "sn_ssid d = s" by (metis imageE)
    have "set ?xs = set out \<union> set (drop max_scan_results ?xs)"
      unfolding out by (metis append_take_drop_id set_append)
    with d s(2) have rest: "d \<in> set (drop max_scan_results ?xs)" by auto
    then have "length out = max_scan_results" by (cases "length ?xs \<le> max_scan_results") (auto simp: out)
    moreover have "sn_signal d \<le> sn_signal e" if "e \<in> set out" for e
    proof -
      have "sorted_wrt (\<lambda>a b. sn_signal b \<le> sn_signal a) (out @ drop max_scan_results ?xs)"
        using sorted by (simp add: out)
      with that rest show ?thesis by (simp add: sorted_wrt_append)
    qed
    ultimately show ?thesis using best [OF d(1)] d(2) by simp
  qed
  have "distinct (map sn_ssid out)" using dist by (simp add: out take_map [symmetric])
  moreover have "\<forall>e \<in> set out. sn_signal e = Max (readings (sn_ssid e) all)"
    using best by (auto simp: out dest: in_set_takeD)
  moreover have "sorted_wrt (\<lambda>a b. sn_signal b \<le> sn_signal a) out"
    using sorted by (simp add: out sorted_wrt_take)
  ultimately show ?thesis using dropped by (simp add: out)
qed

definition sort_example :: "scan_network list \<Rightarrow> scan_network list" where
  "sort_example = sort_key (\<lambda>n. - sn_signal n)"

lemma sort_example_sorts: "sorts_by_signal sort_example"
proof -
  have "sorted_wrt (\<lambda>a b. sn_signal b \<le> sn_signal a) (sort_example xs)" for xs
  proof -
    have "sorted_wrt (\<le>) (map (\<lambda>n. - sn_signal n) (sort_example xs))"
      unfolding sort_example_def by (rule sorted_sort_key)
    then show ?thesis by (simp add: sorted_wrt_map)
  qed
  then show ?thesis by (simp add: sorts_by_signal_def sort_example_def)
qed

definition heard :: "string \<Rightarrow> int \<Rightarrow> scan_network" where
  "heard ssid signal = \<lparr>sn_ssid = ssid, sn_signal = signal, sn_auth = Auth_Wpa2, sn_supported = True\<rparr>"

theorem scan_list_shows_the_strongest_witness:
  "\<exists>out. out = merge_scan_results sort_example [heard ''A'' (-70)] [heard ''B'' (-50), heard ''A'' (-60)]
    \<and> sorted_wrt (\<lambda>a b. sn_signal b \<le> sn_signal a) out \<and> distinct (map sn_ssid out)"
  using scan_list_shows_the_strongest [OF sort_example_sorts, of "[heard ''A'' (-70)]" "[heard ''B'' (-50), heard ''A'' (-60)]"]
  by (simp add: heard_def)

end
