(* ===== verification/Rat_Text.thy ===== *)
theory Rat_Text
  imports Rat_Prelude
begin

text \<open>
  The text functions of the standard library that the two command shells use: \<open>str::trim\<close>
  over the white space of Unicode, \<open>str::split_once\<close> and \<open>to_ascii_lowercase\<close>.  A string
  is the list of its UTF-8 bytes, so a white-space character is a short byte string.
\<close>

subsection \<open>White space\<close>

text \<open>The characters with the property \<open>White_Space\<close>, as their UTF-8 encodings.\<close>

definition white_space :: "string \<Rightarrow> bool" where
  "white_space s = (case map of_char s :: nat list of
     [a] \<Rightarrow> (9 \<le> a \<and> a \<le> 13) \<or> a = 32
   | [a, b] \<Rightarrow> a = 0xC2 \<and> (b = 0x85 \<or> b = 0xA0)
   | [a, b, c] \<Rightarrow>
       (a = 0xE1 \<and> b = 0x9A \<and> c = 0x80)
       \<or> (a = 0xE2 \<and> b = 0x80 \<and> ((0x80 \<le> c \<and> c \<le> 0x8A) \<or> c = 0xA8 \<or> c = 0xA9 \<or> c = 0xAF))
       \<or> (a = 0xE2 \<and> b = 0x81 \<and> c = 0x9F)
       \<or> (a = 0xE3 \<and> b = 0x80 \<and> c = 0x80)
   | _ \<Rightarrow> False)"

lemma white_space_Nil [simp]: "\<not> white_space []"
  by (simp add: white_space_def)

lemma white_space_nonempty: "white_space (f s) \<Longrightarrow> f [] = [] \<Longrightarrow> s \<noteq> []"
  by auto

function trim_start :: "string \<Rightarrow> string" where
  "trim_start s =
    (if white_space (take 1 s) then trim_start (drop 1 s)
     else if white_space (take 2 s) then trim_start (drop 2 s)
     else if white_space (take 3 s) then trim_start (drop 3 s)
     else s)"
  by pat_completeness auto
termination
  by (relation "measure length") (auto dest!: white_space_nonempty [of "take _"])

definition take_end :: "nat \<Rightarrow> 'a list \<Rightarrow> 'a list" where
  "take_end n s = drop (length s - n) s"

definition drop_end :: "nat \<Rightarrow> 'a list \<Rightarrow> 'a list" where
  "drop_end n s = take (length s - n) s"

lemma length_drop_end [simp, length_simps]: "length (drop_end n s) = length s - n"
  by (simp add: drop_end_def)

lemma take_end_Nil [simp]: "take_end n [] = []"
  by (simp add: take_end_def)

function trim_end :: "string \<Rightarrow> string" where
  "trim_end s =
    (if white_space (take_end 1 s) then trim_end (drop_end 1 s)
     else if white_space (take_end 2 s) then trim_end (drop_end 2 s)
     else if white_space (take_end 3 s) then trim_end (drop_end 3 s)
     else s)"
  by pat_completeness auto
termination
  by (relation "measure length") (auto dest!: white_space_nonempty [of "take_end _"])

declare trim_start.simps [simp del] trim_end.simps [simp del]

definition trim :: "string \<Rightarrow> string" where
  "trim s = trim_end (trim_start s)"

text \<open>Graphic ASCII is never white space, alone or at the edge of a longer string.\<close>

lemma white_space_graphic:
  assumes "s \<noteq> []" "is_ascii_graphic (hd s) \<or> is_ascii_graphic (List.last s)"
  shows "\<not> white_space s"
proof (cases s)
  case (Cons a t)
  show ?thesis
  proof (cases t)
    case Nil
    with Cons assms show ?thesis by (auto simp: white_space_def is_ascii_graphic_def Let_def)
  next
    case (Cons b u)
    note t = this
    show ?thesis
    proof (cases u)
      case Nil
      with \<open>s = a # t\<close> t assms show ?thesis by (auto simp: white_space_def is_ascii_graphic_def Let_def)
    next
      case (Cons c v)
      with \<open>s = a # t\<close> t assms show ?thesis
        by (cases v) (auto simp: white_space_def is_ascii_graphic_def Let_def)
    qed
  qed
qed (use assms in simp)

lemma trim_start_graphic: "is_ascii_graphic c \<Longrightarrow> trim_start (c # s) = c # s"
  by (subst trim_start.simps) (simp add: white_space_graphic)

lemma last_take_end: "take_end n xs \<noteq> [] \<Longrightarrow> List.last (take_end n xs) = List.last xs"
  using last_drop [of "length xs - n" xs] by (fastforce simp: take_end_def)

lemma trim_end_graphic:
  assumes "is_ascii_graphic c"
  shows "trim_end (s @ [c]) = s @ [c]"
proof -
  have "\<not> white_space (take_end n (s @ [c]))" for n
  proof (cases "take_end n (s @ [c]) = []")
    case False
    then have "List.last (take_end n (s @ [c])) = c" using last_take_end [of n "s @ [c]"] by simp
    with assms show ?thesis by (intro white_space_graphic [OF False]) (simp only: simp_thms)
  next
    case True
    then show ?thesis by (simp only: white_space_Nil simp_thms)
  qed
  then show ?thesis by (subst trim_end.simps) (simp only: if_False)
qed

lemma trim_graphic:
  assumes "s \<noteq> []" "is_ascii_graphic (hd s)" "is_ascii_graphic (List.last s)"
  shows "trim s = s"
proof -
  obtain c t where s: "s = c # t" using assms(1) by (cases s) auto
  obtain u d where e: "s = u @ [d]" using assms(1) by (cases s rule: rev_cases) auto
  from s assms(2) have "trim_start s = s" by (simp add: trim_start_graphic)
  moreover have "trim_end s = s" using e assms(3) trim_end_graphic [of d u] by simp
  ultimately show ?thesis by (simp add: trim_def)
qed

subsection \<open>Splitting and case\<close>

primrec split_once :: "char \<Rightarrow> string \<Rightarrow> (string \<times> string) option" where
  "split_once c [] = None"
| "split_once c (x # xs) =
    (if x = c then Some ([], xs) else map_option (\<lambda>(a, b). (x # a, b)) (split_once c xs))"

lemma split_once_Some: "split_once c s = Some (a, b) \<Longrightarrow> s = a @ c # b \<and> c \<notin> set a"
  by (induction s arbitrary: a) (auto split: if_splits)

lemma split_once_None: "split_once c s = None \<longleftrightarrow> c \<notin> set s"
  by (induction s) auto

lemma split_once_append: "c \<notin> set a \<Longrightarrow> split_once c (a @ c # b) = Some (a, b)"
  by (induction a) auto

definition to_ascii_lowercase :: "string \<Rightarrow> string" where
  "to_ascii_lowercase s = map ascii_lower s"

text \<open>\<open>truncate_ascii\<close> of \<open>main.rs\<close>: at most \<open>n\<close> characters.  A character starts at every
  byte that is no continuation byte.\<close>

definition char_start :: "char \<Rightarrow> bool" where
  "char_start c = (let n = of_char c :: nat in n < 0x80 \<or> 0xC0 \<le> n)"

definition truncate_ascii :: "string \<Rightarrow> nat \<Rightarrow> string" where
  "truncate_ascii s n =
    map (\<lambda>c. if (of_char c :: nat) < 0x80 then c else CHR ''?'') (take n (filter char_start s))"

lemma length_truncate_ascii [length_simps]: "length (truncate_ascii s n) \<le> n"
  by (simp add: truncate_ascii_def)

text \<open>\<open>is_char_boundary\<close>, and \<open>String::truncate\<close>, which panics (\<open>None\<close>) inside a character;
  \<open>String::pop\<close>; \<open>join\<close>.\<close>

definition char_boundary :: "string \<Rightarrow> nat \<Rightarrow> bool" where
  "char_boundary s n \<longleftrightarrow> n = length s \<or> (n < length s \<and> char_start (s ! n))"

definition truncate_string :: "string \<Rightarrow> nat \<Rightarrow> string option" where
  "truncate_string s n =
    (if length s < n then Some s else if char_boundary s n then Some (take n s) else None)"

definition pop_char :: "string \<Rightarrow> string" where
  "pop_char s = rev (tl (dropWhile (\<lambda>c. \<not> char_start c) (rev s)))"

fun join_with :: "string \<Rightarrow> string list \<Rightarrow> string" where
  "join_with sep [] = []"
| "join_with sep [x] = x"
| "join_with sep (x # y # xs) = x @ sep @ join_with sep (y # xs)"

end
