(* ===== verification/Wifi_Radio.thy ===== *)
theory Wifi_Radio
  imports Usb_Disk Wifi_Scan Rat_Text
begin

text \<open>
  The part of the main loop (\<open>src/main.rs\<close>) that drives the radio: manual scans and connections as
  steps of which each pass of the loop runs one, the automatic connection to the saved networks with
  its retries, and the commands of the Wi-Fi screens.  The state extends \<open>sd_host\<close>, with which it
  shares the configuration, the mounted volume and the current screen.

  While an automatic connection runs, its future owns the Wi-Fi manager; \<open>completed\<close> says whether a
  poll of the future completes it, and its work on the radio is done in that poll.  Times are milliseconds.
\<close>

subsection \<open>Retries\<close>

definition auto_next_network_ms :: nat where "auto_next_network_ms = 5 * 1000"
definition auto_retry_cycle_ms :: nat where "auto_retry_cycle_ms = 60 * 1000"
definition auto_reconnect_after_drop_ms :: nat where "auto_reconnect_after_drop_ms = 5 * 1000"
definition max_auto_passes :: nat where "max_auto_passes = 3"
definition top_bar_ssid_chars :: nat where "top_bar_ssid_chars = 15"

text \<open>Index, pass and due time after a failed attempt.\<close>

definition retry_saved_network ::
  "nat \<Rightarrow> nat \<Rightarrow> nat \<times> nat \<times> nat option \<Rightarrow> nat \<times> nat \<times> nat option" where
  "retry_saved_network now saved r = (case r of (index, pass, due) \<Rightarrow>
     if saved = 0 then (index, pass, None)
     else if 0 < index then (index - 1, pass, Some (now + auto_next_network_ms))
     else if pass < max_auto_passes then (saved - 1, pass + 1, Some (now + auto_retry_cycle_ms))
     else (index, pass, None))"

subsection \<open>State\<close>

datatype radio_step = Scan_Step nat | Connect_Step saved_network nat

record ('v, 'd, 'w) radio_host = "('v, 'd) sd_host" +
  rh_wifi :: "'w option"
  rh_pending :: "radio_step option"
  rh_job :: "(saved_network \<times> 'w) option"
  rh_pass :: nat
  rh_scan :: "scan_network list"
  rh_frame :: nat
  rh_action :: nat
  rh_action_index :: nat
  rh_connecting :: bool
  rh_password :: string
  rh_selected :: string
  rh_scan_index :: nat
  rh_link_ssid :: string
  rh_saved_labels :: "string list"
  rh_scan_labels :: "string list"

text \<open>Labels.\<close>

definition display_ssid :: "string \<Rightarrow> string" where
  "display_ssid ssid = truncate_ascii ssid 18"

definition int_text :: "int \<Rightarrow> string" where
  "int_text i = (if i < 0 then ''-'' @ dec (nat (- i)) else dec (nat i))"

definition saved_network_model :: "wifi_config \<Rightarrow> string list" where
  "saved_network_model cfg = map (\<lambda>n. display_ssid (net_ssid n)) (cfg_networks cfg)"

definition scan_network_model :: "scan_network list \<Rightarrow> string list" where
  "scan_network_model ns =
    map (\<lambda>n. display_ssid (sn_ssid n) @ '' '' @ int_text (sn_signal n) @ '' ''
           @ (if \<not> sn_supported n then ''!'' else if sn_auth n = Auth_Open then '' '' else ''*'')) ns"

definition busy_status :: "radio_step \<Rightarrow> nat \<Rightarrow> string" where
  "busy_status step frame =
    (let spinner = [''|'', ''/'', ''-'', ''+''] ! (frame mod 4) in
     case step of
       Scan_Step pass \<Rightarrow> ''SCANNING '' @ dec pass @ ''/'' @ dec scan_passes @ '' '' @ spinner
     | Connect_Step n attempt \<Rightarrow> ''CONNECTING '' @ dec attempt @ ''/'' @ dec connect_attempts @ '' '' @ spinner)"

definition say_wifi :: "string \<Rightarrow> ('v, 'd, 'w, 'z) radio_host_scheme \<Rightarrow> ('v, 'd, 'w, 'z) radio_host_scheme" where
  "say_wifi text h = h\<lparr>hs_wifi_status := text\<rparr>"

subsection \<open>Manual steps\<close>

definition begin_connect ::
  "'w radio_ops \<Rightarrow> saved_network \<Rightarrow> ('v, 'd, 'w, 'z) radio_host_scheme \<Rightarrow> ('v, 'd, 'w, 'z) radio_host_scheme" where
  "begin_connect ro n h =
    (case rh_wifi h of
       None \<Rightarrow> say_wifi ''WI-FI NOT AVAILABLE'' (h\<lparr>rh_pending := None\<rparr>)
     | Some w \<Rightarrow>
       (case configure ro n w of
          (Inr _, w) \<Rightarrow>
            (let step = Connect_Step n 1 in
             say_wifi (busy_status step (rh_frame h))
               (h\<lparr>rh_wifi := Some w, rh_selected := net_ssid n, rh_connecting := True, rh_pending := Some step\<rparr>))
        | (Inl _, w) \<Rightarrow> say_wifi ''CONNECTION FAILED'' (h\<lparr>rh_wifi := Some w, rh_pending := None\<rparr>)))"

definition after_scan ::
  "(scan_network list \<Rightarrow> scan_network list) \<Rightarrow> nat \<Rightarrow> scan_network list option \<Rightarrow>
   ('v, 'd, 'w, 'z) radio_host_scheme \<Rightarrow> ('v, 'd, 'w, 'z) radio_host_scheme" where
  "after_scan sorter pass results h = (case results of
     Some ns \<Rightarrow>
       (let scan = merge_scan_results sorter (rh_scan h) ns;
            h = h\<lparr>rh_scan := scan, rh_scan_labels := scan_network_model scan\<rparr>
        in if pass < scan_passes then h\<lparr>rh_pending := Some (Scan_Step (pass + 1))\<rparr>
           else say_wifi (if scan = [] then ''NO NETWORKS FOUND'' else ''* = PASSWORD  ! = UNSUPPORTED'')
                  (h\<lparr>rh_connecting := False\<rparr>))
   | None \<Rightarrow>
       say_wifi (if rh_scan h = [] then ''SCAN FAILED'' else ''SCAN PARTIAL - SHOWING WHAT WE HAVE'')
         (h\<lparr>rh_connecting := False\<rparr>))"

primrec position_of_ssid :: "string \<Rightarrow> saved_network list \<Rightarrow> nat option" where
  "position_of_ssid s [] = None"
| "position_of_ssid s (n # ns) = (if net_ssid n = s then Some 0 else map_option Suc (position_of_ssid s ns))"

text \<open>Saving after a change of the networks; \<open>True\<close> when it failed or there is no volume.\<close>

definition save_networks ::
  "(wifi_config \<Rightarrow> string option) \<Rightarrow> ('v, 'f) fat_ops \<Rightarrow> ('v, 'd, 'z) sd_host_scheme \<Rightarrow>
   bool \<times> ('v, 'd, 'z) sd_host_scheme" where
  "save_networks toml_print ops h = (case hs_storage h of
     None \<Rightarrow> (True, h)
   | Some vol \<Rightarrow> (case save toml_print ops vol (hs_config h) of
       (Inl _, vol) \<Rightarrow> (True, h\<lparr>hs_storage := Some vol\<rparr>)
     | (Inr _, vol) \<Rightarrow> (False, h\<lparr>hs_storage := Some vol\<rparr>)))"

definition after_connected ::
  "(wifi_config \<Rightarrow> string option) \<Rightarrow> ('v, 'f) fat_ops \<Rightarrow> saved_network \<Rightarrow>
   ('v, 'd, 'w, 'z) radio_host_scheme \<Rightarrow> ('v, 'd, 'w, 'z) radio_host_scheme" where
  "after_connected toml_print ops n h =
    (let ssid = net_ssid n;
         cfg = upsert n (hs_config h);
         networks = cfg_networks cfg;
         h = h\<lparr>rh_link_ssid := truncate_ascii ssid top_bar_ssid_chars, hs_config := cfg,
               rh_saved_labels := saved_network_model cfg,
               hs_auto_next := (case position_of_ssid ssid networks of Some i \<Rightarrow> i | None \<Rightarrow> length networks - 1),
               hs_auto_connect_at := None\<rparr>
     in case save_networks toml_print ops h of
          (save_failed, h) \<Rightarrow>
            let h = say_wifi (if save_failed then ''CONNECTED - SD SAVE FAILED'' else ''CONNECTED: '' @ display_ssid ssid) h;
                h = (if hs_view h = 5 then h\<lparr>rh_password := [], hs_view := 2\<rparr> else h)
            in h\<lparr>rh_connecting := False\<rparr>)"

definition radio_step_pass ::
  "'w radio_ops \<Rightarrow> (scan_network list \<Rightarrow> scan_network list) \<Rightarrow> (wifi_config \<Rightarrow> string option) \<Rightarrow>
   ('v, 'f) fat_ops \<Rightarrow> ('v, 'd, 'w, 'z) radio_host_scheme \<Rightarrow> ('v, 'd, 'w, 'z) radio_host_scheme" where
  "radio_step_pass ro sorter toml_print ops h =
    (case rh_pending h of
       None \<Rightarrow> h
     | Some step \<Rightarrow>
       (let h = say_wifi (busy_status step (rh_frame h)) (h\<lparr>rh_pending := None\<rparr>) in
        case step of
          Scan_Step pass \<Rightarrow>
            (case rh_wifi h of
               None \<Rightarrow> say_wifi ''WI-FI NOT AVAILABLE'' h
             | Some w \<Rightarrow> (case scan_pass ro w of
                 (results, w) \<Rightarrow> after_scan sorter pass results (h\<lparr>rh_wifi := Some w\<rparr>)))
        | Connect_Step n attempt \<Rightarrow>
            (case rh_wifi h of
               None \<Rightarrow> say_wifi ''WI-FI NOT AVAILABLE'' (h\<lparr>rh_connecting := False, hs_auto_connect_at := None\<rparr>)
             | Some w \<Rightarrow> (case connect_attempt ro w of
                 (Inr _, w) \<Rightarrow> after_connected toml_print ops n (h\<lparr>rh_wifi := Some w\<rparr>)
               | (Inl _, w) \<Rightarrow>
                   if attempt < connect_attempts
                   then h\<lparr>rh_wifi := Some w, rh_pending := Some (Connect_Step n (attempt + 1))\<rparr>
                   else say_wifi ''CONNECTION FAILED'' (h\<lparr>rh_wifi := Some w, rh_connecting := False\<rparr>)))))"

subsection \<open>The automatic connection\<close>

definition retry_host :: "nat \<Rightarrow> ('v, 'd, 'w, 'z) radio_host_scheme \<Rightarrow> ('v, 'd, 'w, 'z) radio_host_scheme" where
  "retry_host now h =
    (case retry_saved_network now (length (cfg_networks (hs_config h)))
            (hs_auto_next h, rh_pass h, hs_auto_connect_at h) of
       (index, pass, due) \<Rightarrow> h\<lparr>hs_auto_next := index, rh_pass := pass, hs_auto_connect_at := due\<rparr>)"

definition poll_job ::
  "'w radio_ops \<Rightarrow> nat \<Rightarrow> bool \<Rightarrow> ('v, 'd, 'w, 'z) radio_host_scheme \<Rightarrow> ('v, 'd, 'w, 'z) radio_host_scheme" where
  "poll_job ro now completed h =
    (case rh_job h of
       None \<Rightarrow> h
     | Some (n, w) \<Rightarrow>
        if \<not> completed then h
        else (case connect_automatically ro n w of
           (w, result) \<Rightarrow>
             let h = h\<lparr>rh_job := None, rh_wifi := Some w\<rparr> in
             (case result of
                Inr _ \<Rightarrow>
                  say_wifi (''CONNECTED: '' @ display_ssid (net_ssid n))
                    (h\<lparr>rh_link_ssid := truncate_ascii (net_ssid n) top_bar_ssid_chars,
                       hs_auto_connect_at := None, rh_pass := 1\<rparr>)
              | Inl _ \<Rightarrow> retry_host now (say_wifi ''AUTO CONNECT FAILED'' h))))"

definition start_job ::
  "nat \<Rightarrow> bool \<Rightarrow> bool \<Rightarrow> ('v, 'd, 'w, 'z) radio_host_scheme \<Rightarrow> ('v, 'd, 'w, 'z) radio_host_scheme" where
  "start_job now link_up no_action h =
    (if rh_pending h = None \<and> rh_job h = None \<and> no_action \<and> \<not> link_up
        \<and> (case hs_auto_connect_at h of Some due \<Rightarrow> due \<le> now | None \<Rightarrow> False)
        \<and> (hs_view h = 0 \<or> hs_view h = 1 \<or> hs_view h = 6) \<and> hs_usb_sd h = None
     then
       (if hs_auto_next h < length (cfg_networks (hs_config h)) then
          (case rh_wifi h of
             Some w \<Rightarrow>
               say_wifi (''AUTO CONNECT '' @ dec (rh_pass h) @ ''/'' @ dec max_auto_passes)
                 (h\<lparr>rh_wifi := None, rh_job := Some (cfg_networks (hs_config h) ! hs_auto_next h, w),
                    hs_auto_connect_at := None, rh_connecting := False\<rparr>)
           | None \<Rightarrow> h\<lparr>hs_auto_connect_at := None\<rparr>)
        else h\<lparr>hs_auto_connect_at := None\<rparr>)
     else h)"

text \<open>A lost link begins a new cycle of retries, unless a manual step is running.\<close>

definition link_lost :: "nat \<Rightarrow> ('v, 'd, 'w, 'z) radio_host_scheme \<Rightarrow> ('v, 'd, 'w, 'z) radio_host_scheme" where
  "link_lost now h =
    (if rh_pending h \<noteq> None then h
     else
       let h = say_wifi ''CONNECTION LOST'' h; networks = cfg_networks (hs_config h) in
       if networks = [] then h
       else h\<lparr>hs_auto_next := length networks - 1, rh_pass := 1,
              hs_auto_connect_at := Some (now + auto_reconnect_after_drop_ms)\<rparr>)"

subsection \<open>Commands of the Wi-Fi screens\<close>

definition queueable :: "nat \<Rightarrow> nat \<Rightarrow> bool" where
  "queueable action view \<longleftrightarrow>
    (action, view) \<in> {(1, 4), (2, 3), (3, 4), (4, 5), (5, 3)}"

text \<open>While the automatic future owns the radio, a command waits, or is dropped once its screen was
  left.\<close>

definition defer_command :: "('v, 'd, 'w, 'z) radio_host_scheme \<Rightarrow> ('v, 'd, 'w, 'z) radio_host_scheme" where
  "defer_command h =
    (let h = h\<lparr>hs_auto_connect_at := None\<rparr> in
     if \<not> queueable (rh_action h) (hs_view h) then h\<lparr>rh_action := 0, rh_connecting := False\<rparr>
     else say_wifi ''WAIT FOR RADIO'' (h\<lparr>rh_connecting := False\<rparr>))"

definition open_network :: "scan_network \<Rightarrow> string \<Rightarrow> saved_network" where
  "open_network n password = \<lparr>net_ssid = sn_ssid n, net_password = password, net_auth = sn_auth n\<rparr>"

definition start_scan :: "('v, 'd, 'w, 'z) radio_host_scheme \<Rightarrow> ('v, 'd, 'w, 'z) radio_host_scheme" where
  "start_scan h =
    (if rh_wifi h = None then say_wifi ''WI-FI NOT AVAILABLE'' h
     else say_wifi (busy_status (Scan_Step 1) (rh_frame h))
            (h\<lparr>rh_scan := [], rh_scan_labels := [], rh_scan_index := 0, rh_connecting := True,
               rh_pending := Some (Scan_Step 1)\<rparr>))"

definition choose_scanned ::
  "'w radio_ops \<Rightarrow> ('v, 'd, 'w, 'z) radio_host_scheme \<Rightarrow> ('v, 'd, 'w, 'z) radio_host_scheme" where
  "choose_scanned ro h =
    (if rh_action_index h < length (rh_scan h) then
       (let n = rh_scan h ! rh_action_index h in
        if \<not> sn_supported n then say_wifi ''SECURITY NOT SUPPORTED'' h
        else if sn_auth n = Auth_Open then begin_connect ro (open_network n []) h
        else say_wifi ''TYPE PASSWORD'' (h\<lparr>rh_selected := sn_ssid n, rh_password := [], hs_view := 5\<rparr>))
     else h)"

definition connect_typed ::
  "'w radio_ops \<Rightarrow> ('v, 'd, 'w, 'z) radio_host_scheme \<Rightarrow> ('v, 'd, 'w, 'z) radio_host_scheme" where
  "connect_typed ro h =
    (case List.find (\<lambda>n. sn_ssid n = rh_selected h) (rh_scan h) of
       Some n \<Rightarrow> begin_connect ro (open_network n (rh_password h)) h
     | None \<Rightarrow> h)"

definition forget_saved ::
  "(wifi_config \<Rightarrow> string option) \<Rightarrow> ('v, 'f) fat_ops \<Rightarrow> ('v, 'd, 'w, 'z) radio_host_scheme \<Rightarrow>
   ('v, 'd, 'w, 'z) radio_host_scheme" where
  "forget_saved toml_print ops h =
    (case remove_network (rh_action_index h) (hs_config h) of
       (False, _) \<Rightarrow> h
     | (True, cfg) \<Rightarrow>
       (let h = h\<lparr>hs_config := cfg, hs_saved_index := 0, rh_saved_labels := saved_network_model cfg,
                  hs_auto_next := length (cfg_networks cfg) - 1\<rparr>;
            h = (if cfg_networks cfg = [] then h\<lparr>hs_auto_connect_at := None\<rparr> else h)
        in case save_networks toml_print ops h of
             (failed, h) \<Rightarrow> say_wifi (if failed then ''SD SAVE FAILED'' else ''NETWORK FORGOTTEN'') h))"

definition wifi_command ::
  "'w radio_ops \<Rightarrow> (wifi_config \<Rightarrow> string option) \<Rightarrow> ('v, 'f) fat_ops \<Rightarrow>
   ('v, 'd, 'w, 'z) radio_host_scheme \<Rightarrow> ('v, 'd, 'w, 'z) radio_host_scheme" where
  "wifi_command ro toml_print ops h =
    (let action = rh_action h in
     if action = 0 then h
     else if rh_job h \<noteq> None then defer_command h
     else
       let h = h\<lparr>hs_auto_connect_at := None, rh_action := 0, rh_connecting := False\<rparr>;
           free = (rh_pending h = None) in
       if action = 1 \<and> free then start_scan h
       else if action = 2 \<and> free then
         (if rh_action_index h < length (cfg_networks (hs_config h))
          then begin_connect ro (cfg_networks (hs_config h) ! rh_action_index h) h else h)
       else if action = 3 \<and> free then choose_scanned ro h
       else if action = 4 \<and> free then connect_typed ro h
       else if action = 5 then forget_saved toml_print ops h
       else h)"

text \<open>The radio's share of one pass of the main loop.\<close>

definition radio_pass ::
  "'w radio_ops \<Rightarrow> (scan_network list \<Rightarrow> scan_network list) \<Rightarrow> (wifi_config \<Rightarrow> string option) \<Rightarrow>
   ('v, 'f) fat_ops \<Rightarrow> nat \<Rightarrow> bool \<Rightarrow> bool \<Rightarrow> ('v, 'd, 'w, 'z) radio_host_scheme \<Rightarrow>
   ('v, 'd, 'w, 'z) radio_host_scheme" where
  "radio_pass ro sorter toml_print ops now completed link_up h =
    (let h = radio_step_pass ro sorter toml_print ops h;
         h = poll_job ro now completed h;
         no_action = (rh_action h = 0)
     in start_job now link_up no_action (wifi_command ro toml_print ops h))"

subsection \<open>Retries end\<close>

text \<open>The indices that are tried when every attempt fails, at most \<open>n\<close> of them; \<open>now k\<close> is the time
  of the failure with \<open>k\<close> to go.\<close>

primrec tried :: "(nat \<Rightarrow> nat) \<Rightarrow> nat \<Rightarrow> nat \<Rightarrow> nat \<times> nat \<times> nat option \<Rightarrow> nat list" where
  "tried now saved 0 r = []"
| "tried now saved (Suc n) r =
    fst r # (case retry_saved_network (now n) saved r of
       (index, pass, None) \<Rightarrow> []
     | (index, pass, Some due) \<Rightarrow> tried now saved n (index, pass, Some due))"

lemma tried_pass:
  "0 < saved \<Longrightarrow> tried now saved (Suc i + n) (i, pass, due)
    = rev [0..<Suc i] @ (if pass < max_auto_passes
        then tried now saved n (saved - 1, pass + 1, Some (now n + auto_retry_cycle_ms)) else [])"
proof (induction i arbitrary: due)
  case 0
  then show ?case by (simp add: retry_saved_network_def)
next
  case (Suc i)
  then show ?case by (simp add: retry_saved_network_def)
qed

text \<open>When every attempt fails, the automatic connection tries each saved network once in each of
  three passes, the newest first, and then stops.\<close>

theorem retries_visit_and_stop:
  assumes "0 < saved" "3 * saved \<le> n"
  shows "tried now saved n (saved - 1, 1, due) = concat (replicate 3 (rev [0..<saved]))"
proof -
  obtain i where i: "saved = Suc i" using assms(1) by (cases saved) auto
  define m where "m = n - 3 * saved"
  have n: "n = Suc i + (Suc i + (Suc i + m))" using assms(2) i by (simp add: m_def)
  show ?thesis
    unfolding n using i assms(1)
    by (simp add: tried_pass max_auto_passes_def numeral_3_eq_3 del: upt_Suc tried.simps add_Suc add_Suc_right)
qed

theorem retries_visit_and_stop_witness:
  "tried (\<lambda>k. 1000) 2 9 (1, 1, None) = [1, 0, 1, 0, 1, 0]"
  using retries_visit_and_stop [of 2 9 "\<lambda>k. 1000" None] by (simp add: numeral_3_eq_3 upt_rec)

subsection \<open>The radio has one owner\<close>

definition step_ok :: "radio_step option \<Rightarrow> bool" where
  "step_ok s = (case s of
     None \<Rightarrow> True
   | Some (Scan_Step p) \<Rightarrow> 1 \<le> p \<and> p \<le> scan_passes
   | Some (Connect_Step n a) \<Rightarrow> 1 \<le> a \<and> a \<le> connect_attempts)"

definition radio_owned :: "('v, 'd, 'w, 'z) radio_host_scheme \<Rightarrow> bool" where
  "radio_owned h \<longleftrightarrow>
     (rh_job h \<noteq> None \<longrightarrow> rh_pending h = None) \<and> (rh_job h = None \<longleftrightarrow> rh_wifi h \<noteq> None)
   \<and> step_ok (rh_pending h) \<and> 1 \<le> rh_pass h \<and> rh_pass h \<le> max_auto_passes
   \<and> length (rh_scan h) \<le> max_scan_results \<and> distinct (map sn_ssid (rh_scan h))"

text \<open>Between passes keys may have left a command, and then the busy overlay may already be shown.\<close>

definition overlay_right :: "('v, 'd, 'w, 'z) radio_host_scheme \<Rightarrow> bool" where
  "overlay_right h \<longleftrightarrow> (rh_pending h \<noteq> None \<longrightarrow> rh_action h = 0)
     \<and> (rh_action h = 0 \<longrightarrow> (rh_connecting h \<longleftrightarrow> rh_pending h \<noteq> None))"

lemmas radio_inv = radio_owned_def overlay_right_def step_ok_def scan_passes_def connect_attempts_def

lemma say_wifi_fields [simp]:
  "rh_wifi (say_wifi t h) = rh_wifi h" "rh_pending (say_wifi t h) = rh_pending h" "rh_job (say_wifi t h) = rh_job h"
  "rh_pass (say_wifi t h) = rh_pass h" "rh_scan (say_wifi t h) = rh_scan h" "rh_action (say_wifi t h) = rh_action h"
  "rh_connecting (say_wifi t h) = rh_connecting h" "hs_view (say_wifi t h) = hs_view h"
  by (simp_all add: say_wifi_def)

lemma save_networks_fields:
  "save_networks tp ops h = (f, h') \<Longrightarrow> h' = h \<or> (\<exists>v. h' = h\<lparr>hs_storage := Some v\<rparr>)"
  by (auto simp: save_networks_def split: option.splits prod.splits sum.splits)

lemma merge_bounded:
  assumes "sorts_by_signal sorter" "distinct (map sn_ssid ns)"
  shows "length (merge_scan_results sorter ns rs) \<le> max_scan_results" "distinct (map sn_ssid (merge_scan_results sorter ns rs))"
proof -
  have "mset (sorter (foldl merge_one ns rs)) = mset (foldl merge_one ns rs)" using assms(1) by (simp add: sorts_by_signal_def)
  then have "mset (map sn_ssid (sorter (foldl merge_one ns rs))) = mset (map sn_ssid (foldl merge_one ns rs))" by simp
  moreover have "distinct (map sn_ssid (foldl merge_one ns rs))" using merge_all [OF assms(2)] by blast
  ultimately have "distinct (map sn_ssid (sorter (foldl merge_one ns rs)))" by (metis mset_eq_imp_distinct_iff)
  then show "distinct (map sn_ssid (merge_scan_results sorter ns rs))"
    by (simp add: merge_scan_results_def take_map [symmetric])
qed (simp add: merge_scan_results_def)

lemma begin_connect_owned:
  "radio_owned h \<Longrightarrow> rh_job h = None \<Longrightarrow> radio_owned (begin_connect ro n h)"
  by (auto simp: begin_connect_def radio_inv Let_def split: option.splits prod.splits sum.splits)

lemma begin_connect_overlay:
  "rh_action h = 0 \<Longrightarrow> \<not> rh_connecting h \<Longrightarrow> overlay_right (begin_connect ro n h)"
  by (auto simp: begin_connect_def overlay_right_def Let_def split: option.splits prod.splits sum.splits)

lemma after_scan_owned:
  assumes "sorts_by_signal sorter" "radio_owned h" "rh_job h = None" "rh_pending h = None" "1 \<le> pass" "pass \<le> scan_passes"
  shows "radio_owned (after_scan sorter pass results h)"
  using assms merge_bounded [OF assms(1), of "rh_scan h"]
  by (auto simp: after_scan_def radio_inv Let_def split: option.splits)

lemma after_scan_overlay:
  "rh_action h = 0 \<Longrightarrow> rh_connecting h \<Longrightarrow> rh_pending h = None \<Longrightarrow> overlay_right (after_scan sorter pass results h)"
  by (auto simp: after_scan_def overlay_right_def Let_def split: option.splits)

lemma after_connected_fields:
  "rh_wifi (after_connected tp ops n h) = rh_wifi h" "rh_pending (after_connected tp ops n h) = rh_pending h"
  "rh_job (after_connected tp ops n h) = rh_job h" "rh_pass (after_connected tp ops n h) = rh_pass h"
  "rh_scan (after_connected tp ops n h) = rh_scan h" "rh_action (after_connected tp ops n h) = rh_action h"
  "rh_connecting (after_connected tp ops n h) = False"
  unfolding after_connected_def Let_def
  by (auto split: prod.split dest!: save_networks_fields)

text \<open>The four parts of a pass.  The first leaves no step running while the future owns the radio.\<close>

lemma radio_step_pass_owned:
  assumes "sorts_by_signal sorter" "radio_owned h" "overlay_right h"
  shows "radio_owned (radio_step_pass ro sorter tp ops h)
    \<and> overlay_right (radio_step_pass ro sorter tp ops h)
    \<and> rh_action (radio_step_pass ro sorter tp ops h) = rh_action h"
proof (cases "rh_pending h")
  case None
  with assms(2,3) show ?thesis by (simp add: radio_step_pass_def)
next
  case (Some step)
  with assms(2,3) have h: "rh_job h = None" "rh_action h = 0" "rh_connecting h"
    by (auto simp: radio_owned_def overlay_right_def)
  with assms(2) obtain w where w: "rh_wifi h = Some w" by (auto simp: radio_owned_def)
  let ?h = "say_wifi (busy_status step (rh_frame h)) (h\<lparr>rh_pending := None\<rparr>)"
  show ?thesis
  proof (cases step)
    case (Scan_Step pass)
    obtain results w' where sp: "scan_pass ro w = (results, w')" by (metis prod.exhaust)
    have "radio_owned (?h\<lparr>rh_wifi := Some w'\<rparr>)" "1 \<le> pass" "pass \<le> scan_passes"
      using assms(2) Some Scan_Step h(1) by (simp_all add: radio_owned_def step_ok_def)
    with after_scan_owned [OF assms(1) this(1) _ _ this(2,3), of results]
      after_scan_overlay [of "?h\<lparr>rh_wifi := Some w'\<rparr>" sorter pass results]
    have "radio_owned (after_scan sorter pass results (?h\<lparr>rh_wifi := Some w'\<rparr>))"
      "overlay_right (after_scan sorter pass results (?h\<lparr>rh_wifi := Some w'\<rparr>))"
      using h by simp_all
    moreover have "rh_action (after_scan sorter pass results (?h\<lparr>rh_wifi := Some w'\<rparr>)) = rh_action h"
      by (simp add: after_scan_def Let_def split: option.split)
    ultimately show ?thesis using Some Scan_Step w sp by (simp add: radio_step_pass_def Let_def)
  next
    case (Connect_Step n attempt)
    obtain r w' where ca: "connect_attempt ro w = (r, w')" by (metis prod.exhaust)
    show ?thesis
    proof (cases r)
      case (Inr u)
      with assms(2) Some Connect_Step w ca h show ?thesis
        by (simp add: radio_step_pass_def Let_def radio_owned_def overlay_right_def step_ok_def after_connected_fields)
    next
      case (Inl e)
      with assms(2) Some Connect_Step w ca h show ?thesis
        by (simp add: radio_step_pass_def Let_def radio_owned_def overlay_right_def step_ok_def connect_attempts_def)
    qed
  qed
qed

lemma retry_host_fields:
  "rh_wifi (retry_host now h) = rh_wifi h" "rh_pending (retry_host now h) = rh_pending h"
  "rh_job (retry_host now h) = rh_job h" "rh_scan (retry_host now h) = rh_scan h"
  "rh_action (retry_host now h) = rh_action h" "rh_connecting (retry_host now h) = rh_connecting h"
  "1 \<le> rh_pass h \<Longrightarrow> rh_pass h \<le> max_auto_passes \<Longrightarrow>
    1 \<le> rh_pass (retry_host now h) \<and> rh_pass (retry_host now h) \<le> max_auto_passes"
  by (auto simp: retry_host_def retry_saved_network_def split: prod.splits if_splits)

lemma poll_job_owned:
  assumes "radio_owned h" "overlay_right h"
  shows "radio_owned (poll_job ro now completed h) \<and> overlay_right (poll_job ro now completed h)
    \<and> rh_action (poll_job ro now completed h) = rh_action h"
proof (cases "rh_job h = None \<or> \<not> completed")
  case True
  with assms show ?thesis by (auto simp: poll_job_def split: option.split)
next
  case False
  then obtain n w where j: "rh_job h = Some (n, w)" "completed" by auto
  obtain w' r where c: "connect_automatically ro n w = (w', r)" by (metis prod.exhaust)
  from j assms(1) have p: "1 \<le> rh_pass h" "rh_pass h \<le> max_auto_passes" "rh_pending h = None"
    by (simp_all add: radio_owned_def)
  let ?h = "say_wifi ''AUTO CONNECT FAILED'' (h\<lparr>rh_job := None, rh_wifi := Some w'\<rparr>)"
  note pass = retry_host_fields(7) [of ?h now]
  show ?thesis
  proof (cases r)
    case (Inl e)
    with j c assms p pass show ?thesis
      by (simp add: poll_job_def Let_def radio_owned_def overlay_right_def retry_host_fields(1-6))
  next
    case (Inr u)
    with j c assms p show ?thesis
      by (simp add: poll_job_def Let_def radio_owned_def overlay_right_def max_auto_passes_def)
  qed
qed

lemma forget_saved_fields:
  "rh_wifi (forget_saved tp ops h) = rh_wifi h" "rh_pending (forget_saved tp ops h) = rh_pending h"
  "rh_job (forget_saved tp ops h) = rh_job h" "rh_pass (forget_saved tp ops h) = rh_pass h"
  "rh_scan (forget_saved tp ops h) = rh_scan h" "rh_action (forget_saved tp ops h) = rh_action h"
  "rh_connecting (forget_saved tp ops h) = rh_connecting h"
  unfolding forget_saved_def Let_def
  by (auto split: prod.split bool.split dest!: save_networks_fields)

lemma idle_command_owned:
  assumes "radio_owned h" "rh_job h = None" "rh_pending h = None" "rh_action h = 0" "\<not> rh_connecting h"
  shows "radio_owned (start_scan h) \<and> overlay_right (start_scan h)"
    "radio_owned (choose_scanned ro h) \<and> overlay_right (choose_scanned ro h)"
    "radio_owned (connect_typed ro h) \<and> overlay_right (connect_typed ro h)"
    "radio_owned (forget_saved tp ops h) \<and> overlay_right (forget_saved tp ops h)"
    "radio_owned h \<and> overlay_right h"
proof -
  note b = begin_connect_owned [OF assms(1,2)] begin_connect_overlay [OF assms(4,5)]
  show "radio_owned (start_scan h) \<and> overlay_right (start_scan h)"
    using assms by (auto simp: start_scan_def radio_inv max_scan_results_def)
  show h: "radio_owned h \<and> overlay_right h" using assms by (simp add: overlay_right_def)
  show "radio_owned (choose_scanned ro h) \<and> overlay_right (choose_scanned ro h)"
    using assms b by (auto simp: choose_scanned_def Let_def radio_owned_def overlay_right_def)
  show "radio_owned (connect_typed ro h) \<and> overlay_right (connect_typed ro h)"
    using h b by (auto simp: connect_typed_def split: option.split)
  show "radio_owned (forget_saved tp ops h) \<and> overlay_right (forget_saved tp ops h)"
    using assms by (simp add: radio_owned_def overlay_right_def forget_saved_fields)
qed

lemma wifi_command_owned:
  assumes "radio_owned h" "overlay_right h"
  shows "radio_owned (wifi_command ro tp ops h) \<and> overlay_right (wifi_command ro tp ops h)"
proof (cases "rh_action h = 0")
  case True
  with assms show ?thesis by (simp add: wifi_command_def)
next
  case action: False
  with assms(2) have idle: "rh_pending h = None" by (auto simp: overlay_right_def)
  show ?thesis
  proof (cases "rh_job h = None")
    case False
    with assms action show ?thesis
      by (auto simp: wifi_command_def defer_command_def Let_def radio_owned_def overlay_right_def)
  next
    case True
    let ?h = "h\<lparr>hs_auto_connect_at := None, rh_action := 0, rh_connecting := False\<rparr>"
    have h: "radio_owned ?h" "rh_job ?h = None" "rh_pending ?h = None" "rh_action ?h = 0" "\<not> rh_connecting ?h"
      using assms(1) True idle by (simp_all add: radio_owned_def)
    note idle_command_owned(1,2,3,5) [OF h] idle_command_owned(4) [OF h, of tp ops]
      begin_connect_owned [OF h(1,2)] begin_connect_overlay [OF h(4,5)]
    with action True show ?thesis unfolding wifi_command_def Let_def by simp
  qed
qed

lemma start_job_owned:
  assumes "radio_owned h" "overlay_right h" "no_action \<Longrightarrow> rh_action h = 0"
  shows "radio_owned (start_job now up no_action h) \<and> overlay_right (start_job now up no_action h)"
  using assms by (auto simp: start_job_def radio_owned_def overlay_right_def split: option.split)

lemma radio_pass_owned:
  assumes "sorts_by_signal sorter" "radio_owned h" "overlay_right h"
  shows "radio_owned (radio_pass ro sorter tp ops now completed up h)
    \<and> overlay_right (radio_pass ro sorter tp ops now completed up h)"
proof -
  let ?h1 = "radio_step_pass ro sorter tp ops h"
  let ?h2 = "poll_job ro now completed ?h1"
  have 2: "radio_owned ?h2" "overlay_right ?h2"
    using radio_step_pass_owned [OF assms, of ro tp ops] poll_job_owned [of ?h1 ro now completed] by blast+
  have "rh_action ?h2 = 0 \<Longrightarrow> rh_action (wifi_command ro tp ops ?h2) = 0" by (simp add: wifi_command_def)
  with wifi_command_owned [OF 2, of ro tp ops] show ?thesis
    unfolding radio_pass_def Let_def by (intro start_job_owned) blast+
qed

text \<open>The runs of the main loop as the radio sees them: a boot with a working radio, keys that leave a
  command while no step is running (then the overlay may be shown already), passes, lost links, and
  changes that other parts make to the shared state.\<close>

inductive radio_reach ::
  "'w radio_ops \<Rightarrow> (scan_network list \<Rightarrow> scan_network list) \<Rightarrow> (wifi_config \<Rightarrow> string option) \<Rightarrow> ('v, 'f) fat_ops \<Rightarrow>
   ('v, 'd, 'w) radio_host \<Rightarrow> bool"
  for ro sorter toml_print ops where
  boot: "rh_wifi h \<noteq> None \<Longrightarrow> rh_job h = None \<Longrightarrow> rh_pending h = None \<Longrightarrow> rh_pass h = 1 \<Longrightarrow> rh_scan h = [] \<Longrightarrow>
    rh_action h = 0 \<Longrightarrow> \<not> rh_connecting h \<Longrightarrow> radio_reach ro sorter toml_print ops h"
| keys: "radio_reach ro sorter toml_print ops h \<Longrightarrow> rh_pending h = None \<Longrightarrow> action \<noteq> 0 \<Longrightarrow>
    radio_reach ro sorter toml_print ops (h\<lparr>rh_action := action, rh_action_index := i, rh_connecting := shown,
      rh_password := password, hs_view := view\<rparr>)"
| pass: "radio_reach ro sorter toml_print ops h \<Longrightarrow>
    radio_reach ro sorter toml_print ops (radio_pass ro sorter toml_print ops now completed link_up h)"
| lost: "radio_reach ro sorter toml_print ops h \<Longrightarrow> radio_reach ro sorter toml_print ops (link_lost now h)"
| others: "radio_reach ro sorter toml_print ops h \<Longrightarrow>
    radio_reach ro sorter toml_print ops (h\<lparr>hs_storage := storage, hs_usb_sd := usb, hs_disk := disk, hs_view := view,
      hs_config := config, hs_auto_next := index, hs_auto_connect_at := due, rh_frame := frame, rh_saved_labels := labels\<rparr>)"

lemma radio_reach_owned:
  "radio_reach ro sorter tp ops h \<Longrightarrow> sorts_by_signal sorter \<Longrightarrow> radio_owned h \<and> overlay_right h"
proof (induction rule: radio_reach.induct)
  case (pass h now completed up)
  then show ?case using radio_pass_owned by blast
next
  case (lost h now)
  then show ?case by (auto simp: link_lost_def Let_def radio_owned_def overlay_right_def max_auto_passes_def)
qed (auto simp: radio_owned_def overlay_right_def step_ok_def max_auto_passes_def max_scan_results_def)

text \<open>C18: The radio has one owner: in every reachable state a manual step and the automatic connection
  never run together, the manager is with the loop exactly when no future holds it, steps and passes
  stay within their limits, and, unless a command is waiting, the busy overlay is shown exactly while
  a manual step is running, so it never stays on the screen.\<close>

theorem radio_has_one_owner:
  assumes "radio_reach ro sorter toml_print ops h" "sorts_by_signal sorter"
  shows "\<not> (rh_pending h \<noteq> None \<and> rh_job h \<noteq> None)
    \<and> (rh_wifi h \<noteq> None \<longleftrightarrow> rh_job h = None)
    \<and> step_ok (rh_pending h) \<and> rh_pass h \<le> max_auto_passes \<and> length (rh_scan h) \<le> max_scan_results
    \<and> (rh_action h = 0 \<longrightarrow> (rh_connecting h \<longleftrightarrow> rh_pending h \<noteq> None))"
  using radio_reach_owned [OF assms] by (auto simp: radio_owned_def overlay_right_def)

text \<open>A radio that finds nothing, and a scan started from the menu.\<close>

definition silent_radio :: "unit radio_ops" where
  "silent_radio = \<lparr>ro_scan = \<lambda>w. (Scan_Done [], w), ro_ssid_ok = \<lambda>s. length s \<le> 32, ro_password_ok = \<lambda>s. length s \<le> 64,
     ro_disconnect = id, ro_set_config = \<lambda>w n. (True, w), ro_connect = \<lambda>w. (Connect_Timeout, w)\<rparr>"

definition sample_radio :: "(nat \<Rightarrow> bytes, nat \<Rightarrow> bytes, unit) radio_host" where
  "sample_radio = sd_host.extend sample_host
     \<lparr>rh_wifi = Some (), rh_pending = None, rh_job = None, rh_pass = 1, rh_scan = [], rh_frame = 0, rh_action = 0,
      rh_action_index = 0, rh_connecting = False, rh_password = [], rh_selected = [], rh_scan_index = 0,
      rh_link_ssid = [], rh_saved_labels = [], rh_scan_labels = []\<rparr>"

theorem radio_has_one_owner_witness:
  "rh_connecting (radio_pass silent_radio sort_example (\<lambda>c. None) one_volume 0 False False
       (sample_radio\<lparr>rh_action := 1, rh_action_index := 0, rh_connecting := True, rh_password := [], hs_view := 4\<rparr>))"
proof -
  let ?h = "sample_radio\<lparr>rh_action := 1, rh_action_index := 0, rh_connecting := True, rh_password := [], hs_view := 4\<rparr>"
  let ?p = "radio_pass silent_radio sort_example (\<lambda>c. None) one_volume 0 False False ?h"
  have "radio_reach silent_radio sort_example (\<lambda>c. None) one_volume sample_radio"
    by (rule radio_reach.boot) (simp_all add: sample_radio_def sd_host.extend_def)
  then have "radio_reach silent_radio sort_example (\<lambda>c. None) one_volume ?p"
    by (intro radio_reach.pass radio_reach.keys) (simp_all add: sample_radio_def sd_host.extend_def)
  from radio_has_one_owner [OF this sort_example_sorts]
  have right: "rh_action ?p = 0 \<longrightarrow> (rh_connecting ?p \<longleftrightarrow> rh_pending ?p \<noteq> None)" by blast
  have "rh_action ?p = 0" "rh_pending ?p \<noteq> None"
    by (simp_all add: radio_pass_def radio_step_pass_def poll_job_def wifi_command_def start_scan_def start_job_def
        sample_radio_def sd_host.extend_def Let_def)
  with right show ?thesis by (simp only: simp_thms)
qed

end
