(* ===== verification/Fs_Path.thy ===== *)
theory Fs_Path
  imports Fat_Volume
begin

text \<open>
  \<open>src/fspath.rs\<close>: component lists and the walk along them through the FAT volume.
  The canonical form of a path is a list of plain components; \<open>resolve\<close> always produces one
  and inverts \<open>display\<close>, so \<open>REALPATH\<close> answers are fixed points.
\<close>

subsection \<open>Definitions\<close>

text \<open>\<open>str::split\<close> on one character: always at least one (possibly empty) piece.\<close>

fun split_on :: "char \<Rightarrow> string \<Rightarrow> string list" where
  "split_on c [] = [[]]"
| "split_on c (x # xs) =
    (if x = c then [] # split_on c xs
     else (case split_on c xs of [] \<Rightarrow> [[x]] | y # ys \<Rightarrow> (x # y) # ys))"

definition resolve_step :: "string list \<Rightarrow> string \<Rightarrow> string list" where
  "resolve_step result component =
    (if component = [] \<or> component = ''.'' then result
     else if component = ''..'' then butlast result
     else result @ [component])"

definition resolve :: "string list \<Rightarrow> string \<Rightarrow> string list" where
  "resolve base path =
    foldl resolve_step (if take 1 path = ''/'' then [] else base) (split_on (CHR ''/'') path)"

definition display :: "string list \<Rightarrow> string" where
  "display components =
    (if components = [] then ''/'' else concat (map (\<lambda>c. CHR ''/'' # c) components))"

fun walk_dirs :: "('v, 'h) fat_ops \<Rightarrow> 'v \<Rightarrow> 'h \<Rightarrow> string list \<Rightarrow> 'h option" where
  "walk_dirs ops vol current [] = Some current"
| "walk_dirs ops vol current (c # cs) =
    (case dir_open ops vol current c of
       None \<Rightarrow> None
     | Some d \<Rightarrow> walk_dirs ops vol d cs)"

definition open_dir_path :: "('v, 'h) fat_ops \<Rightarrow> 'v \<Rightarrow> string list \<Rightarrow> 'h option" where
  "open_dir_path ops vol components = walk_dirs ops vol (vol_root_dir ops vol) components"

definition find_in ::
  "('v, 'h) fat_ops \<Rightarrow> 'v \<Rightarrow> string list \<Rightarrow> string \<Rightarrow> ('h file_entry \<times> 'h) option" where
  "find_in ops vol parent leaf =
    (case open_dir_path ops vol parent of
       None \<Rightarrow> None
     | Some dir \<Rightarrow>
        (case dir_find ops vol dir leaf of
           Some (Some entry) \<Rightarrow> Some (entry, dir)
         | _ \<Rightarrow> None))"

definition months :: "string list" where
  "months = [''Jan'', ''Feb'', ''Mar'', ''Apr'', ''May'', ''Jun'',
             ''Jul'', ''Aug'', ''Sep'', ''Oct'', ''Nov'', ''Dec'']"

definition unpack_fat :: "fat_date_time \<Rightarrow> nat \<times> nat \<times> nat \<times> nat \<times> nat" where
  "unpack_fat dt =
    (let date = fdt_date dt; time = fdt_time dt in
     ((drop_bit 9 date AND 0x7F) + 1980, drop_bit 5 date AND 0x0F, date AND 0x1F,
      drop_bit 11 time AND 0x1F, drop_bit 5 time AND 0x3F))"

text \<open>\<open>now_text\<close> is the result of \<open>storage::now_ymdhms\<close>.\<close>

definition long_listing_line :: "string \<Rightarrow> 'h file_entry \<Rightarrow> string" where
  "long_listing_line now_text entry =
    (let (year, month, day, hour, minute) = unpack_fat (fe_modified entry);
         permissions = (if fe_is_directory entry
           then (if is_read_only entry then ''dr-xr-xr-x'' else ''drwxr-xr-x'')
           else (if is_read_only entry then ''-r--r--r--'' else ''-rw-r--r--''));
         month_name = months ! min (month - 1) 11;
         year_text = pad_left 4 (CHR ''0'') (dec year);
         same_year = (take (length year_text) now_text = year_text);
         when_text = (if same_year
           then pad_left 2 (CHR ''0'') (dec hour) @ '':'' @ pad_left 2 (CHR ''0'') (dec minute)
           else pad_left 5 (CHR '' '') (dec year))
     in permissions @ '' 1 rat rat '' @ pad_left 13 (CHR '' '') (dec (fe_len entry)) @ '' ''
        @ month_name @ '' '' @ pad_left 2 (CHR '' '') (dec day) @ '' '' @ when_text @ '' ''
        @ fe_name entry)"

subsection \<open>Splitting\<close>

lemma split_on_nonempty [simp]: "split_on c xs \<noteq> []"
  by (induction xs) (auto split: list.splits)

lemma split_on_append:
  "c \<notin> set xs \<Longrightarrow> split_on c (xs @ c # ys) = xs # split_on c ys"
  by (induction xs) auto

lemma split_on_no_sep: "c \<notin> set xs \<Longrightarrow> split_on c xs = [xs]"
  by (induction xs) auto

lemma split_on_pieces: "p \<in> set (split_on c xs) \<Longrightarrow> c \<notin> set p"
proof (induction xs arbitrary: p)
  case (Cons x xs)
  then show ?case by (cases "split_on c xs") (auto split: if_splits)
qed simp

subsection \<open>Canonical components\<close>

definition plain_component :: "string \<Rightarrow> bool" where
  "plain_component c \<longleftrightarrow> c \<noteq> [] \<and> c \<noteq> ''.'' \<and> c \<noteq> ''..'' \<and> CHR ''/'' \<notin> set c"

lemma resolve_step_plain:
  "list_all plain_component r \<Longrightarrow> CHR ''/'' \<notin> set c \<Longrightarrow> list_all plain_component (resolve_step r c)"
  by (auto simp: resolve_step_def plain_component_def list_all_iff dest: in_set_butlastD)

lemma foldl_resolve_plain:
  "list_all plain_component r \<Longrightarrow> \<forall>c \<in> set cs. CHR ''/'' \<notin> set c
    \<Longrightarrow> list_all plain_component (foldl resolve_step r cs)"
  by (induction cs arbitrary: r) (auto simp: resolve_step_plain)

lemma resolve_plain: "list_all plain_component base \<Longrightarrow> list_all plain_component (resolve base path)"
  by (auto simp: resolve_def intro!: foldl_resolve_plain dest: split_on_pieces)

lemma foldl_resolve_components:
  "list_all plain_component cs \<Longrightarrow> foldl resolve_step r cs = r @ cs"
  by (induction cs arbitrary: r) (auto simp: resolve_step_def plain_component_def)

lemma split_display:
  "cs \<noteq> [] \<Longrightarrow> list_all plain_component cs \<Longrightarrow>
    split_on (CHR ''/'') (concat (map (\<lambda>c. CHR ''/'' # c) cs)) = [] # cs"
proof (induction cs)
  case (Cons c cs)
  then have c: "CHR ''/'' \<notin> set c" by (simp add: plain_component_def)
  show ?case
  proof (cases cs)
    case Nil
    with c show ?thesis by (simp add: split_on_no_sep)
  next
    case (Cons d ds)
    with Cons.IH Cons.prems
    have "split_on (CHR ''/'') (concat (map (\<lambda>c. CHR ''/'' # c) cs)) = [] # cs" by simp
    then have "split_on (CHR ''/'') (d @ concat (map (\<lambda>c. CHR ''/'' # c) ds)) = cs"
      by (simp add: Cons)
    with c show ?thesis
      by (simp add: Cons split_on_append)
  qed
qed simp

lemma resolve_display: "list_all plain_component cs \<Longrightarrow> resolve base (display cs) = cs"
proof (cases cs)
  case Nil
  then show ?thesis by (simp add: resolve_def display_def resolve_step_def)
next
  case (Cons c ds)
  assume "list_all plain_component cs"
  then have "split_on (CHR ''/'') (display cs) = [] # cs"
    using Cons split_display [of cs] by (simp only: display_def) simp
  then have "foldl resolve_step [] (split_on (CHR ''/'') (display cs)) = cs"
    using \<open>list_all plain_component cs\<close>
    by (simp add: resolve_step_def [of "[]" "[]"] foldl_resolve_components)
  moreover have "take 1 (display cs) = ''/''" by (simp add: display_def Cons)
  ultimately show ?thesis by (simp add: resolve_def)
qed

lemma resolve_child_parent:
  assumes "plain_component c"
  shows "resolve base (c @ ''/..'') = base"
proof -
  from assms obtain x xs where c: "c = x # xs" and x: "x \<noteq> CHR ''/''"
    by (cases c) (auto simp: plain_component_def)
  from assms have "split_on (CHR ''/'') (c @ CHR ''/'' # ''..'') = [c, ''..'']"
    by (simp add: plain_component_def split_on_append)
  moreover have "take 1 (c @ ''/..'') \<noteq> ''/''" using x by (simp add: c)
  ultimately have "resolve base (c @ ''/..'') = foldl resolve_step base [c, ''..'']"
    by (simp add: resolve_def)
  with assms show ?thesis
    by (simp add: resolve_step_def plain_component_def)
qed

subsection \<open>Directory walks\<close>

lemma walk_dirs_append:
  "walk_dirs ops vol d (xs @ ys) =
    (case walk_dirs ops vol d xs of None \<Rightarrow> None | Some e \<Rightarrow> walk_dirs ops vol e ys)"
  by (induction xs arbitrary: d) (auto split: option.splits)

lemma open_dir_path_snoc:
  "open_dir_path ops vol (cs @ [c]) =
    (case open_dir_path ops vol cs of None \<Rightarrow> None | Some d \<Rightarrow> dir_open ops vol d c)"
  by (simp add: open_dir_path_def walk_dirs_append split: option.splits)

lemma find_in_SomeD:
  "find_in ops vol parent leaf = Some (entry, dir) \<Longrightarrow>
    open_dir_path ops vol parent = Some dir \<and> dir_find ops vol dir leaf = Some (Some entry)"
  by (auto simp: find_in_def split: option.splits)

subsection \<open>Unpacking timestamps\<close>

lemma unpack_fat_eq:
  "unpack_fat dt = (fdt_date dt div 512 mod 128 + 1980, fdt_date dt div 32 mod 16,
     fdt_date dt mod 32, fdt_time dt div 2048 mod 32, fdt_time dt div 32 mod 64)"
  by (simp add: unpack_fat_def and_mask_nat drop_bit_eq_div Let_def)

lemma unpack_fat_new:
  assumes "1980 \<le> y" "y \<le> 2107" "mo < 16" "d < 32" "h < 32" "mi < 64"
  shows "unpack_fat (fat_date_time_new y mo d h mi s) = (y, mo, d, h, mi)"
proof -
  define a where "a = y - 1980"
  have y: "y = a + 1980" and a: "a < 128" "min a 127 = a" using assms by (auto simp: a_def)
  have date: "fdt_date (fat_date_time_new y mo d h mi s) = a * (16 * 32) + mo * 32 + d"
    using a(2) assms(3,4) by (simp only: fdt_date_new y) simp
  have time: "fdt_time (fat_date_time_new y mo d h mi s) = h * (64 * 32) + mi * 32 + s div 2 mod 32"
    using assms(5,6) by (simp only: fdt_time_new) simp
  note dates = pack3_fields [OF assms(3,4), of a, folded date, simplified]
  note times = pack3_fields [OF assms(6), of "s div 2 mod 32" 32 h, folded time, simplified]
  show ?thesis
    unfolding unpack_fat_eq dates times using a(1) assms(5) by (simp add: y)
qed

subsection \<open>Properties\<close>

text \<open>C30: Resolving any path from a canonical base gives a canonical path, one without empty, dot,
  dot-dot or slashed components, and showing and resolving a canonical path gives it back.\<close>

theorem paths_are_canonical:
  assumes "list_all plain_component base"
  shows "list_all plain_component (resolve base path)
    \<and> resolve any_base (display (resolve base path)) = resolve base path"
  using resolve_plain [OF assms, of path] resolve_display by blast

theorem paths_are_canonical_witness:
  "list_all plain_component (resolve [''music''] ''../docs/./a//b'')"
  using paths_are_canonical [of "[''music'']" "''../docs/./a//b''" "[]"]
  by (simp add: plain_component_def)

lemma split_on_join: "split_on c (xs @ c # ys) = split_on c xs @ split_on c ys"
proof (induction xs)
  case (Cons x xs)
  then show ?case by (cases "split_on c xs") auto
qed simp

text \<open>Resolving in two steps is resolving the joined path.\<close>

theorem resolve_in_steps:
  assumes "take 1 q \<noteq> ''/''" and "p \<noteq> []"
  shows "resolve base (p @ ''/'' @ q) = resolve (resolve base p) q"
proof -
  have "take 1 (p @ ''/'' @ q) = take 1 p" using assms(2) by (cases p) simp_all
  with assms(1) show ?thesis by (simp add: resolve_def split_on_join)
qed

theorem resolve_in_steps_witness:
  "resolve [] (''a/..'' @ ''/'' @ ''b'') = resolve (resolve [] ''a/..'') ''b''"
  by (rule resolve_in_steps) simp_all

end
