(* ===== verification/Wall_Clock.thy ===== *)
theory Wall_Clock
  imports Wifi_Config Fs_Path
begin

text \<open>
  \<open>src/clock.rs\<close>, and the clock half of \<open>src/storage.rs\<close>: the civil calendar, the local
  time with the European summer-time rule, and the FAT timestamps made from them.  The code's
  \<open>i64\<close> values are integers here.  The only cast that can change a value, \<open>unix_seconds as
  i64\<close>, is written out; the sums stay far inside the type for every value that a 64-bit clock
  in seconds can reach before the year 2^40.  Casts to \<open>u32\<close> are of non-negative values.
\<close>

subsection \<open>Definitions\<close>

definition seconds_per_day :: int where "seconds_per_day = 86400"

type_synonym instant = nat

text \<open>\<open>Instant\<close> counts microseconds of the monotonic timer; \<open>now\<close> is an argument.\<close>

record wall_clock =
  synced :: "(nat \<times> instant) option"

definition wall_clock_default :: wall_clock where
  "wall_clock_default = \<lparr>synced = None\<rparr>"

definition wall_clock_set :: "nat \<Rightarrow> instant \<Rightarrow> wall_clock \<Rightarrow> wall_clock" where
  "wall_clock_set unix_seconds at wc = wc\<lparr>synced := Some (unix_seconds, at)\<rparr>"

definition is_synced :: "wall_clock \<Rightarrow> bool" where
  "is_synced wc \<longleftrightarrow> synced wc \<noteq> None"

definition unix_now :: "instant \<Rightarrow> wall_clock \<Rightarrow> nat option" where
  "unix_now now wc =
    (case synced wc of
       None \<Rightarrow> None
     | Some (unix_seconds, at) \<Rightarrow> Some (unix_seconds + (now - at) div 1000000))"

definition as_i64 :: "nat \<Rightarrow> int" where
  "as_i64 n = (if n mod 2 ^ 64 < 2 ^ 63 then int (n mod 2 ^ 64) else int (n mod 2 ^ 64) - 2 ^ 64)"

definition days_from_civil :: "int \<Rightarrow> nat \<Rightarrow> nat \<Rightarrow> int" where
  "days_from_civil year month day =
    (let year = (if month \<le> 2 then year - 1 else year);
         era = year div 400;
         year_of_era = year mod 400;
         shifted_month = (if month > 2 then int month - 3 else int month + 9);
         day_of_year = (153 * shifted_month + 2) div 5 + int day - 1;
         day_of_era = year_of_era * 365 + year_of_era div 4 - year_of_era div 100 + day_of_year
     in era * 146097 + day_of_era - 719468)"

definition civil_from_days :: "int \<Rightarrow> int \<times> nat \<times> nat" where
  "civil_from_days days =
    (let days = days + 719468;
         era = days div 146097;
         day_of_era = days mod 146097;
         year_of_era =
           (day_of_era - day_of_era div 1460 + day_of_era div 36524 - day_of_era div 146096) div 365;
         day_of_year = day_of_era - (365 * year_of_era + year_of_era div 4 - year_of_era div 100);
         shifted_month = (5 * day_of_year + 2) div 153;
         day = nat (day_of_year - (153 * shifted_month + 2) div 5 + 1);
         month = nat (if shifted_month < 10 then shifted_month + 3 else shifted_month - 9);
         year = year_of_era + era * 400 + (if month \<le> 2 then 1 else 0)
     in (year, month, day))"

definition last_sunday :: "int \<Rightarrow> nat \<Rightarrow> int" where
  "last_sunday year month =
    (let (next_year, next_month) = (if month = 12 then (year + 1, 1) else (year, month + 1));
         last_day = days_from_civil next_year next_month 1 - 1
     in last_day - (last_day + 4) mod 7)"

definition eu_summer_time :: "int \<Rightarrow> bool" where
  "eu_summer_time utc \<longleftrightarrow>
    (let (year, _, _) = civil_from_days (utc div seconds_per_day);
         start = last_sunday year 3 * seconds_per_day + 3600;
         finish = last_sunday year 10 * seconds_per_day + 3600
     in start \<le> utc \<and> utc < finish)"

definition local_seconds :: "nat \<Rightarrow> clock_config \<Rightarrow> int" where
  "local_seconds unix_seconds config =
    (let utc = as_i64 unix_seconds;
         loc = utc + utc_offset_minutes config * 60
     in if dst config = Dst_Eu \<and> eu_summer_time utc then loc + 3600 else loc)"

definition local_hh_mm :: "nat \<Rightarrow> clock_config \<Rightarrow> nat \<times> nat" where
  "local_hh_mm unix_seconds config =
    (let seconds_of_day = local_seconds unix_seconds config mod seconds_per_day
     in (nat (seconds_of_day div 3600), nat ((seconds_of_day mod 3600) div 60)))"

definition unix_from_local :: "int \<Rightarrow> clock_config \<Rightarrow> int" where
  "unix_from_local loc config =
    (let standard = loc - utc_offset_minutes config * 60
     in if dst config = Dst_Eu \<and> eu_summer_time (standard - 3600) then standard - 3600
        else standard)"

definition seconds_from_civil :: "int \<Rightarrow> nat \<Rightarrow> nat \<Rightarrow> nat \<Rightarrow> nat \<Rightarrow> nat \<Rightarrow> int" where
  "seconds_from_civil year month day hour minute second =
    days_from_civil year month day * seconds_per_day + int hour * 3600 + int minute * 60
    + int second"

record date_time_fields =
  dt_year :: int
  dt_month :: nat
  dt_day :: nat
  dt_hour :: nat
  dt_minute :: nat
  dt_second :: nat

definition date_time :: "int \<Rightarrow> date_time_fields" where
  "date_time seconds =
    (let (year, month, day) = civil_from_days (seconds div seconds_per_day);
         seconds_of_day = nat (seconds mod seconds_per_day)
     in \<lparr>dt_year = year, dt_month = month, dt_day = day, dt_hour = seconds_of_day div 3600,
         dt_minute = seconds_of_day mod 3600 div 60, dt_second = seconds_of_day mod 60\<rparr>)"

text \<open>The published local time \<open>LOCAL_TIME\<close> (0 = not synced) and the FAT clock.\<close>

definition set_local_time :: "int \<Rightarrow> nat" where
  "set_local_time seconds = nat (max 0 (min seconds (int u32_max)))"

definition local_now_seconds :: "nat \<Rightarrow> int option" where
  "local_now_seconds local_time = (if local_time \<noteq> 0 then Some (int local_time) else None)"

definition fat_clock_now :: "nat \<Rightarrow> fat_date_time" where
  "fat_clock_now local_time =
    (if local_time = 0 then fat_date_time_new 2026 1 1 0 0 0
     else (let time = date_time (int local_time) in
       fat_date_time_new (nat (dt_year time mod 65536)) (dt_month time mod 256)
         (dt_day time mod 256) (dt_hour time mod 256) (dt_minute time mod 256)
         (dt_second time mod 256)))"

definition now_ymdhms :: "nat \<Rightarrow> string" where
  "now_ymdhms local_time =
    (case local_now_seconds local_time of
       Some now \<Rightarrow>
        (let time = date_time now; two = (\<lambda>n. pad_left 2 (CHR ''0'') (dec n)) in
         pad_left 4 (CHR ''0'') (dec (nat (dt_year time))) @ two (dt_month time)
         @ two (dt_day time) @ two (dt_hour time) @ two (dt_minute time) @ two (dt_second time))
     | None \<Rightarrow> ''19800101000000'')"

subsection \<open>Years of an era\<close>

text \<open>The approximation of the year of the era is a monotone function of the day, so it is
  exact on a whole year when it is exact on the first and on the last day.\<close>

definition year_guess :: "int \<Rightarrow> int" where
  "year_guess doe = doe - doe div 1460 + doe div 36524 - doe div 146096"

definition year_start :: "int \<Rightarrow> int" where
  "year_start y = 365 * y + y div 4 - y div 100"

definition year_end :: "int \<Rightarrow> int" where
  "year_end y = (if y = 399 then 146096 else year_start (y + 1) - 1)"

lemma year_guess_mono:
  assumes "0 \<le> a" "a \<le> b" "b \<le> 146096"
  shows "year_guess a \<le> year_guess b"
proof -
  have one: "x div 36524 - x div 146096 = (if x = 146096 then 3 else x div 36524)"
    if "0 \<le> x" "x \<le> 146096" for x :: int
    using that by (auto simp: div_pos_pos_trivial)
  have "a div 36524 \<le> b div 36524" using assms by (simp add: zdiv_mono1)
  moreover have "a div 36524 \<le> 3" if "a \<noteq> 146096" using assms that by linarith
  ultimately have "a div 36524 - a div 146096 \<le> b div 36524 - b div 146096"
    using assms one [of a] one [of b] by (auto split: if_splits)
  moreover have "a - a div 1460 \<le> b - b div 1460" using assms by linarith
  ultimately show ?thesis unfolding year_guess_def by linarith
qed

lemma year_start_mono: "a \<le> b \<Longrightarrow> year_start a \<le> year_start b"
proof (cases "a = b")
  case False
  assume "a \<le> b"
  with False have "a div 4 \<le> b div 4" "a < b" by (simp_all add: zdiv_mono1)
  then show ?thesis unfolding year_start_def by linarith
qed simp

lemma year_start_Suc:
  "year_start y + 364 \<le> year_start (y + 1) - 1" "year_start (y + 1) - 1 \<le> year_start y + 365"
proof -
  have "y div 4 \<le> (y + 1) div 4" "y div 100 \<le> (y + 1) div 100" by (simp_all add: zdiv_mono1)
  moreover have "(y + 1) div 4 \<le> y div 4 + 1" by linarith
  moreover have "x div 100 = x div 4 div 25" for x :: int by (simp add: zdiv_zmult2_eq [symmetric])
  then have "(y + 1) div 4 \<noteq> y div 4 \<or> (y + 1) div 100 = y div 100" by metis
  moreover have "(y + 1) div 100 \<le> y div 100 + 1" by linarith
  ultimately show "year_start y + 364 \<le> year_start (y + 1) - 1"
    "year_start (y + 1) - 1 \<le> year_start y + 365" unfolding year_start_def by auto
qed

lemma year_start_values: "year_start 0 = 0" "year_start 399 = 145731" "year_start 400 = 146096"
  by (simp_all add: year_start_def)

lemma year_length: "year_end y \<le> year_start y + 365"
  using year_start_Suc [of y] by (cases "y = 399") (simp_all add: year_end_def year_start_values)

lemma year_bounds:
  assumes "0 \<le> y" "y < 400"
  shows "0 \<le> year_start y" "year_end y \<le> 146096"
  using year_start_mono [of 0 y] year_start_mono [of "y + 1" 400] assms
  by (simp_all add: year_end_def year_start_values)

definition year_check :: "int \<Rightarrow> bool" where
  "year_check y \<longleftrightarrow> 365 * y \<le> year_guess (year_start y) \<and> year_guess (year_end y) < 365 * y + 365"

lemma year_check_all: "list_all year_check [0..399]"
  by code_simp

lemma year_of_day:
  assumes "0 \<le> y" "y < 400" "year_start y \<le> doe" "doe \<le> year_end y"
  shows "year_guess doe div 365 = y"
proof -
  have y: "year_check y" using year_check_all assms(1,2) by (simp add: list_all_iff)
  note year_bounds [OF assms(1,2)]
  then have "year_guess (year_start y) \<le> year_guess doe"
    "year_guess doe \<le> year_guess (year_end y)"
    using assms by (auto intro!: year_guess_mono)
  with y have "365 * y \<le> year_guess doe" "year_guess doe < 365 * y + 365"
    by (auto simp: year_check_def)
  then show ?thesis by linarith
qed

text \<open>Every day of an era lies in exactly one of its 400 years.\<close>

lemma year_exists:
  assumes "0 \<le> doe" "doe \<le> 146096"
  obtains y where "0 \<le> y" "y < 400" "year_start y \<le> doe" "doe \<le> year_end y"
proof -
  have "\<exists>y. 0 \<le> y \<and> y < 400 \<and> year_start y \<le> doe \<and> doe \<le> year_end y"
    if "doe < year_start (int n) \<or> 399 < n" "n \<le> 400" for n
    using that
  proof (induction n)
    case 0
    then show ?case using assms by (simp add: year_start_def)
  next
    case (Suc n)
    show ?case
    proof (cases "doe < year_start (int n)")
      case True
      with Suc show ?thesis by simp
    next
      case False
      have "doe \<le> year_end (int n)"
        using Suc.prems assms by (auto simp: year_end_def add.commute)
      with False Suc.prems show ?thesis by (intro exI [of _ "int n"]) simp
    qed
  qed
  from this [of 400] that show ?thesis by auto
qed

subsection \<open>Months of a shifted year\<close>

lemma div5_bounds: "5 * (n div 5) \<le> n" "n \<le> 5 * (n div 5) + 4" for n :: int
  by linarith+

lemma div153_bounds: "153 * (n div 153) \<le> n" "n \<le> 153 * (n div 153) + 152" for n :: int
  by linarith+

lemma month_of_day:
  fixes doy :: int
  assumes "0 \<le> doy" "doy \<le> 365"
  defines "mp \<equiv> (5 * doy + 2) div 153"
  shows "0 \<le> mp" "mp \<le> 11" "(153 * mp + 2) div 5 \<le> doy" "doy < (153 * (mp + 1) + 2) div 5"
proof -
  show "0 \<le> mp" "mp \<le> 11" using assms unfolding mp_def by linarith+
  have "153 * mp \<le> 5 * doy + 2" "5 * doy + 3 \<le> 153 * (mp + 1)" 
    using div153_bounds [of "5 * doy + 2", folded mp_def] by auto
  then have "153 * mp + 2 < 5 * (doy + 1)" "5 * (doy + 1) \<le> 153 * (mp + 1) + 2" by auto
  then show "(153 * mp + 2) div 5 \<le> doy" "doy < (153 * (mp + 1) + 2) div 5"
    using zdiv_mono1 [of "153 * mp + 2" "5 * (doy + 1) - 1" 5]
      zdiv_mono1 [of "5 * (doy + 1)" "153 * (mp + 1) + 2" 5] by auto
qed

lemma day_of_month:
  fixes mp :: int
  assumes "(153 * mp + 2) div 5 \<le> doy" "doy < (153 * (mp + 1) + 2) div 5"
  shows "(5 * doy + 2) div 153 = mp"
proof -
  have "153 * mp \<le> 5 * doy + 2" "5 * doy + 2 < 153 * mp + 153"
    using assms div5_bounds(2) [of "153 * mp + 2"] div5_bounds(1) [of "153 * (mp + 1) + 2"] by auto
  then show ?thesis by (intro int_div_pos_eq [of _ 153 mp "5 * doy + 2 - 153 * mp"]) auto
qed

definition month_of :: "int \<Rightarrow> nat" where
  "month_of mp = nat (if mp < 10 then mp + 3 else mp - 9)"

definition shifted :: "nat \<Rightarrow> int" where
  "shifted m = (if 2 < m then int m - 3 else int m + 9)"

lemma shifted_month_of: "0 \<le> mp \<Longrightarrow> mp \<le> 11 \<Longrightarrow> shifted (month_of mp) = mp"
  by (auto simp: shifted_def month_of_def)

lemma month_of_shifted: "1 \<le> m \<Longrightarrow> m \<le> 12 \<Longrightarrow> month_of (shifted m) = m"
  by (auto simp: shifted_def month_of_def)

lemma month_of_range: "0 \<le> mp \<Longrightarrow> mp \<le> 11 \<Longrightarrow> 1 \<le> month_of mp \<and> month_of mp \<le> 12"
  by (auto simp: month_of_def)

subsection \<open>The calendar functions in these terms\<close>

lemma days_from_civil_eq:
  "days_from_civil y m d =
    (let y' = (if m \<le> 2 then y - 1 else y) in
     y' div 400 * 146097 + year_start (y' mod 400) + (153 * shifted m + 2) div 5 + int d - 1 - 719468)"
  unfolding days_from_civil_def year_start_def shifted_def Let_def by simp

lemma civil_from_days_steps:
  assumes "0 \<le> doe" "doe < 146097" "year_guess doe div 365 = y" "doe - year_start y = doy"
    and "(5 * doy + 2) div 153 = mp"
  shows "civil_from_days (era * 146097 + doe - 719468) =
     (y + era * 400 + (if month_of mp \<le> 2 then 1 else 0), month_of mp,
      nat (doy - (153 * mp + 2) div 5 + 1))"
proof -
  have doy: "doe - (365 * y + y div 4 - y div 100) = doy" using assms(4) by (simp add: year_start_def)
  have days: "era * 146097 + doe - 719468 + 719468 = era * 146097 + doe" by simp
  have era: "(era * 146097 + doe) div 146097 = era" "(era * 146097 + doe) mod 146097 = doe"
    using assms(1,2) by auto
  show ?thesis
    unfolding civil_from_days_def days Let_def era
      assms(3) [unfolded year_guess_def] doy assms(5) month_of_def by (rule refl)
qed

lemma civil_from_days_eq:
  assumes "0 \<le> y" "y < 400" "year_start y + doy \<le> year_end y" "0 \<le> doy"
    and "(5 * doy + 2) div 153 = mp"
  shows "civil_from_days (era * 146097 + (year_start y + doy) - 719468) =
     (y + era * 400 + (if month_of mp \<le> 2 then 1 else 0), month_of mp,
      nat (doy - (153 * mp + 2) div 5 + 1))"
  using assms year_bounds [OF assms(1,2)]
  by (intro civil_from_days_steps year_of_day) auto

lemma days_civil_inverse:
  "(case civil_from_days z of (y, m, d) \<Rightarrow>
     1 \<le> m \<and> m \<le> 12 \<and> 1 \<le> d \<and> d \<le> 31 \<and> days_from_civil y m d = z)"
proof -
  define era where "era = (z + 719468) div 146097"
  define doe where "doe = (z + 719468) mod 146097"
  have doe: "0 \<le> doe" "doe \<le> 146096" by (auto simp: doe_def)
  obtain y where y: "0 \<le> y" "y < 400" "year_start y \<le> doe" "doe \<le> year_end y"
    using year_exists [OF doe] .
  define doy where "doy = doe - year_start y"
  have z: "z = era * 146097 + (year_start y + doy) - 719468"
    using div_mult_mod_eq [of "z + 719468" 146097] by (simp add: era_def doe_def doy_def)
  have doy: "0 \<le> doy" "doy \<le> 365" using y year_length [of y] by (auto simp: doy_def)
  define mp where "mp = (5 * doy + 2) div 153"
  note mp = month_of_day [OF doy, folded mp_def]
  have civil: "civil_from_days z =
    (y + era * 400 + (if month_of mp \<le> 2 then 1 else 0), month_of mp,
      nat (doy - (153 * mp + 2) div 5 + 1))"
    unfolding z using y doy by (intro civil_from_days_eq) (auto simp: mp_def doy_def)
  have "(153 * (mp + 1) + 2) div 5 \<le> (153 * mp + 2) div 5 + 31"
    using div5_bounds(1) [of "153 * (mp + 1) + 2"] div5_bounds(2) [of "153 * mp + 2"] by auto
  then have "1 \<le> nat (doy - (153 * mp + 2) div 5 + 1)" "nat (doy - (153 * mp + 2) div 5 + 1) \<le> 31"
    using mp by linarith+
  moreover have "(y + era * 400) div 400 = era" "(y + era * 400) mod 400 = y" using y by auto
  ultimately show ?thesis
    unfolding civil days_from_civil_eq Let_def
    using mp month_of_range [OF mp(1,2)] by (simp add: shifted_month_of z)
qed

subsection \<open>Valid dates\<close>

definition leap_year :: "int \<Rightarrow> bool" where
  "leap_year y \<longleftrightarrow> y mod 4 = 0 \<and> y mod 100 \<noteq> 0 \<or> y mod 400 = 0"

definition days_in_month :: "int \<Rightarrow> nat \<Rightarrow> nat" where
  "days_in_month y m =
    (if m = 2 then (if leap_year y then 29 else 28)
     else if m \<in> {4, 6, 9, 11} then 30 else 31)"

definition valid_date :: "int \<Rightarrow> nat \<Rightarrow> nat \<Rightarrow> bool" where
  "valid_date y m d \<longleftrightarrow> 1 \<le> m \<and> m \<le> 12 \<and> 1 \<le> d \<and> d \<le> days_in_month y m"

lemma month_cases:
  fixes m :: nat
  assumes "1 \<le> m" "m \<le> 12"
  shows "m = 1 \<or> m = 2 \<or> m = 3 \<or> m = 4 \<or> m = 5 \<or> m = 6 \<or> m = 7 \<or> m = 8 \<or> m = 9
    \<or> m = 10 \<or> m = 11 \<or> m = 12"
  using assms by (auto simp: numeral_eq_Suc le_Suc_eq)

lemma month_starts:
  assumes "1 \<le> m" "m \<le> 12" "m \<noteq> 2"
  shows "(153 * shifted m + 2) div 5 + int (days_in_month (y :: int) m) = (153 * (shifted m + 1) + 2) div 5"
    and "(153 * (shifted m + 1) + 2) div 5 \<le> 337"
  using month_cases [OF assms(1,2)] assms(3)
  by (auto simp: shifted_def days_in_month_def)

lemma div_4_carry:
  fixes z :: int
  assumes "(z + 1) mod 4 = 0"
  shows "(z + 1) div 4 = z div 4 + 1"
proof -
  obtain k where "z + 1 = 4 * k" using assms by auto
  then have "z = (k - 1) * 4 + 3" by simp
  then show ?thesis by simp
qed

lemma div_100_no_carry:
  fixes z :: int
  assumes "(z + 1) mod 100 \<noteq> 0"
  shows "(z + 1) div 100 = z div 100"
proof -
  define q r where "q = (z + 1) div 100" and "r = (z + 1) mod 100"
  have "0 \<le> r" "r < 100" "r \<noteq> 0" using assms by (auto simp: r_def)
  moreover have "z + 1 = q * 100 + r" by (simp add: q_def r_def)
  ultimately have "z = q * 100 + (r - 1)" "0 \<le> r - 1" "r - 1 < 100" by auto
  then have "z div 100 = q" by (intro int_div_pos_eq [of z 100 q "r - 1"]) auto
  then show ?thesis by (simp add: q_def)
qed

lemma leap_year_length:
  assumes "leap_year (y + 1)"
  shows "year_start (y mod 400) + 365 \<le> year_end (y mod 400)"
proof (cases "y mod 400 = 399")
  case True
  then show ?thesis by (simp add: year_end_def year_start_values)
next
  case False
  define z where "z = y mod 400"
  have z: "0 \<le> z" "z < 399" using False pos_mod_bound [of 400 y] by (auto simp: z_def)
  have "(y + 1) mod 400 = (z + 1) mod 400" unfolding z_def by (rule mod_add_left_eq [symmetric])
  then have year: "(y + 1) mod 400 = z + 1" using z by simp
  have "(y + 1) mod 4 = (y + 1) mod 400 mod 4" "(y + 1) mod 100 = (y + 1) mod 400 mod 100"
    by (rule mod_mod_cancel [symmetric], simp)+
  then have "(y + 1) mod 4 = (z + 1) mod 4" "(y + 1) mod 100 = (z + 1) mod 100"
    by (simp_all only: year)
  then have "(z + 1) mod 4 = 0" "(z + 1) mod 100 \<noteq> 0"
    using assms z year unfolding leap_year_def by auto
  then have "(z + 1) div 4 = z div 4 + 1" "(z + 1) div 100 = z div 100"
    by (auto simp: div_4_carry div_100_no_carry)
  with False show ?thesis unfolding z_def [symmetric] year_end_def
    by (simp add: z_def [symmetric] year_start_def [of z] year_start_def [of "z + 1"])
qed

lemma civil_days_inverse:
  assumes "valid_date y m d"
  shows "civil_from_days (days_from_civil y m d) = (y, m, d)"
proof -
  have m: "1 \<le> m" "m \<le> 12" and d: "1 \<le> d" "d \<le> days_in_month y m"
    using assms by (auto simp: valid_date_def)
  define y' where "y' = (if m \<le> 2 then y - 1 else y)"
  define mp where "mp = shifted m"
  define doy where "doy = (153 * mp + 2) div 5 + int d - 1"
  have mp: "0 \<le> mp" "mp \<le> 11" using m by (auto simp: mp_def shifted_def)
  have doy: "0 \<le> doy" "doy < (153 * (mp + 1) + 2) div 5
      \<and> year_start (y' mod 400) + doy \<le> year_end (y' mod 400)"
  proof -
    show "0 \<le> doy" using d mp by (simp add: doy_def)
    have len: "year_start (y' mod 400) + 364 \<le> year_end (y' mod 400)"
      using year_start_Suc(1) [of "y' mod 400"]
      by (cases "y' mod 400 = 399") (simp_all add: year_end_def year_start_values)
    show "doy < (153 * (mp + 1) + 2) div 5
      \<and> year_start (y' mod 400) + doy \<le> year_end (y' mod 400)"
    proof (cases "m = 2")
      case True
      then have feb: "mp = 11" "y = y' + 1" by (simp_all add: mp_def shifted_def y'_def)
      then have "doy = 336 + int d" by (simp add: doy_def)
      with True d len leap_year_length [of y'] feb show ?thesis
        by (auto simp: days_in_month_def split: if_splits)
    next
      case False
      with month_starts(1) [OF m False, of y] month_starts(2) [OF m False] d
      have "doy < (153 * (mp + 1) + 2) div 5" "doy < 337"
        by (auto simp: doy_def mp_def dest: spec)
      with len show ?thesis by simp
    qed
  qed
  have "(5 * doy + 2) div 153 = mp"
    using doy d by (intro day_of_month) (auto simp: doy_def)
  then have "civil_from_days (y' div 400 * 146097 + (year_start (y' mod 400) + doy) - 719468) =
     (y' mod 400 + y' div 400 * 400 + (if month_of mp \<le> 2 then 1 else 0), month_of mp,
      nat (doy - (153 * mp + 2) div 5 + 1))"
    using doy by (intro civil_from_days_eq) auto
  moreover have "month_of mp = m" using m by (simp add: mp_def month_of_shifted)
  moreover have "y' div 400 * 146097 + (year_start (y' mod 400) + doy) - 719468 = days_from_civil y m d"
    by (simp add: days_from_civil_eq y'_def doy_def mp_def Let_def)
  ultimately show ?thesis by (simp add: y'_def doy_def)
qed

lemma civil_valid:
  "(case civil_from_days z of (y, m, d) \<Rightarrow> 1 \<le> m \<and> m \<le> 12 \<and> 1 \<le> d \<and> d \<le> 31)"
  using days_civil_inverse [of z] by (auto split: prod.splits)

subsection \<open>Times of day\<close>

lemma date_time_eq:
  assumes "civil_from_days (s div 86400) = (y, m, d)"
  shows "date_time s = \<lparr>dt_year = y, dt_month = m, dt_day = d, dt_hour = nat (s mod 86400) div 3600,
     dt_minute = nat (s mod 86400) mod 3600 div 60, dt_second = nat (s mod 86400) mod 60\<rparr>"
  using assms by (simp add: date_time_def seconds_per_day_def Let_def)

lemma date_time_fields:
  fixes s :: int
  defines "t \<equiv> date_time s"
  shows "1 \<le> dt_month t \<and> dt_month t \<le> 12 \<and> 1 \<le> dt_day t \<and> dt_day t \<le> 31
    \<and> dt_hour t < 24 \<and> dt_minute t < 60 \<and> dt_second t < 60"
proof -
  obtain y m d where civil: "civil_from_days (s div 86400) = (y, m, d)"
    by (cases "civil_from_days (s div 86400)") auto
  have "nat (s mod 86400) < 86400" by (simp add: nat_less_iff)
  then have "nat (s mod 86400) div 3600 < 24" by linarith
  moreover have "nat (s mod 86400) mod 3600 div 60 < 60"
    using mod_less_divisor [of 3600 "nat (s mod 86400)"] by linarith
  ultimately show ?thesis
    using civil_valid [of "s div 86400"]
    by (simp add: t_def date_time_eq [OF civil] civil)
qed

lemma hms_recombine:
  fixes n :: nat
  shows "n div 3600 * 3600 + n mod 3600 div 60 * 60 + n mod 60 = n"
proof -
  have "n mod 3600 mod 60 = n mod 60" by (rule mod_mod_cancel) simp
  then have "n mod 3600 div 60 * 60 + n mod 60 = n mod 3600"
    using div_mult_mod_eq [of "n mod 3600" 60] by simp
  then show ?thesis using div_mult_mod_eq [of n 3600] by (simp only: add.assoc)
qed

lemma seconds_date_time:
  "(let t = date_time s in
    seconds_from_civil (dt_year t) (dt_month t) (dt_day t) (dt_hour t) (dt_minute t) (dt_second t)) = s"
proof -
  obtain y m d where civil: "civil_from_days (s div 86400) = (y, m, d)"
    by (cases "civil_from_days (s div 86400)") auto
  then have days: "days_from_civil y m d = s div 86400"
    using days_civil_inverse [of "s div 86400"] by simp
  define n where "n = nat (s mod 86400)"
  have "int n = s mod 86400" by (simp add: n_def)
  then have s: "s = s div 86400 * 86400 + int n" by simp
  have "int (n div 3600) * 3600 + int (n mod 3600 div 60) * 60 + int (n mod 60) = int n"
    using arg_cong [OF hms_recombine [of n], of int] by (simp only: of_nat_mult of_nat_add of_nat_numeral)
  then have hms: "s div 86400 * 86400 + (int (n div 3600) * 3600 + int (n mod 3600 div 60) * 60
      + int (n mod 60)) = s"
    by (rule trans [OF arg_cong [of _ _ "(+) (s div 86400 * 86400)"] s [symmetric]])
  show ?thesis
    unfolding Let_def date_time_eq [OF civil] seconds_from_civil_def seconds_per_day_def
      n_def [symmetric] date_time_fields.simps days
    using hms by (simp only: add.assoc)
qed

lemma date_time_seconds:
  assumes "valid_date y m d" "h < 24" "mi < 60" "s < 60"
  shows "date_time (seconds_from_civil y m d h mi s) =
    \<lparr>dt_year = y, dt_month = m, dt_day = d, dt_hour = h, dt_minute = mi, dt_second = s\<rparr>"
proof -
  define n where "n = h * 3600 + mi * 60 + s"
  have n: "int n < 86400" using assms by (simp add: n_def)
  have sec: "seconds_from_civil y m d h mi s = days_from_civil y m d * 86400 + int n"
    by (simp add: seconds_from_civil_def seconds_per_day_def n_def)
  define r where "r = mi * 60 + s"
  have "n = h * 3600 + r" "r < 3600" using assms by (simp_all add: n_def r_def)
  then have "n div 3600 = h" "n mod 3600 = r" by simp_all
  then have "n div 3600 = h" "n mod 3600 = mi * 60 + s" by (simp_all only: r_def)
  moreover have "(mi * 60 + s) div 60 = mi" using assms by simp
  moreover have "n mod 60 = s"
  proof -
    have "n = (h * 60 + mi) * 60 + s" by (simp add: n_def)
    then have "n mod 60 = s mod 60" by (simp only: mod_mult_self3)
    then show ?thesis using assms by simp
  qed
  ultimately show ?thesis
    using n by (simp add: date_time_eq sec civil_days_inverse [OF assms(1)])
qed

subsection \<open>Summer time\<close>

lemma last_sunday_props:
  fixes y :: int and m :: nat
  defines "next_start \<equiv> (if m = 12 then days_from_civil (y + 1) 1 1 else days_from_civil y (m + 1) 1)"
  shows "(last_sunday y m + 4) mod 7 = 0"
    and "next_start - 7 \<le> last_sunday y m" "last_sunday y m < next_start"
proof -
  have ls: "last_sunday y m = (next_start - 1) - (next_start - 1 + 4) mod 7"
    by (simp add: last_sunday_def next_start_def Let_def)
  have "(x - (x + 4) mod 7 + 4) mod 7 = 0" for x :: int
  proof -
    have "x - (x + 4) mod 7 + 4 = 7 * ((x + 4) div 7)" by (simp add: minus_mod_eq_mult_div [symmetric])
    then show ?thesis by simp
  qed
  then show "(last_sunday y m + 4) mod 7 = 0" unfolding ls .
  have "0 \<le> (next_start - 1 + 4) mod 7" "(next_start - 1 + 4) mod 7 < 7" by simp_all
  then show "next_start - 7 \<le> last_sunday y m" "last_sunday y m < next_start"
    unfolding ls by linarith+
qed

lemma unix_from_local_seconds:
  assumes "u < 2 ^ 63"
  shows "unix_from_local (local_seconds u cfg) cfg =
    (if dst cfg = Dst_Eu \<and> eu_summer_time (int u - 3600) \<and> \<not> eu_summer_time (int u)
     then int u - 3600 else int u)"
  using assms by (simp add: unix_from_local_def local_seconds_def Let_def as_i64_def)

lemma local_hh_mm_range: "fst (local_hh_mm u cfg) < 24 \<and> snd (local_hh_mm u cfg) < 60"
proof -
  define n where "n = local_seconds u cfg mod 86400"
  have "0 \<le> n" "n < 86400" by (simp_all add: n_def)
  then have "n div 3600 < 24" "n mod 3600 div 60 < 60" "0 \<le> n div 3600" "0 \<le> n mod 3600 div 60"
    using pos_mod_bound [of 3600 n] pos_mod_sign [of 3600 n] by linarith+
  then show ?thesis by (simp add: local_hh_mm_def Let_def seconds_per_day_def n_def [symmetric] nat_less_iff)
qed

subsection \<open>Year boundaries\<close>

lemma days_before_year:
  "y div 400 * 146097 + year_start (y mod 400) = 365 * y + y div 4 - y div 100 + y div 400"
proof -
  define e r where "e = y div 400" and "r = y mod 400"
  have y: "y = r + e * 400" by (simp add: e_def r_def)
  have "y div 4 = r div 4 + e * 100" "y div 100 = r div 100 + e * 4"
    using div_mult_self1 [of 4 r "e * 100"] div_mult_self1 [of 100 r "e * 4"]
    by (simp_all add: y mult.assoc mult.commute)
  then have "365 * y + y div 4 - y div 100 + e = e * 146097 + year_start r"
    by (simp add: year_start_def y)
  then show ?thesis by (simp add: e_def r_def)
qed

definition new_year :: "int \<Rightarrow> int" where
  "new_year y = days_from_civil y 1 1"

lemma new_year_eq:
  "new_year y = 365 * (y - 1) + (y - 1) div 4 - (y - 1) div 100 + (y - 1) div 400 + 306 - 719468"
proof -
  have "new_year y = (y - 1) div 400 * 146097 + year_start ((y - 1) mod 400)
      + (153 * shifted 1 + 2) div 5 + int 1 - 1 - 719468"
    by (simp add: new_year_def days_from_civil_eq Let_def)
  then show ?thesis unfolding days_before_year by (simp add: shifted_def)
qed

lemma new_year_Suc: "new_year y + 365 \<le> new_year (y + 1)"
proof -
  have "(y - 1) div 4 \<le> y div 4" "(y - 1) div 400 \<le> y div 400" by (simp_all add: zdiv_mono1)
  moreover have "y div 100 - (y - 1) div 100 \<le> y div 4 - (y - 1) div 4"
  proof -
    have "x div 100 = x div 4 div 25" for x :: int by (simp add: zdiv_zmult2_eq [symmetric])
    moreover have "y div 4 = (y - 1) div 4 \<or> y div 4 = (y - 1) div 4 + 1" by linarith
    moreover have "(z + 1) div 25 \<le> z div 25 + 1" for z :: int by linarith
    ultimately show ?thesis by fastforce
  qed
  ultimately show ?thesis unfolding new_year_eq by simp
qed

lemma new_year_mono: "a \<le> b \<Longrightarrow> new_year a \<le> new_year b"
proof (induction "nat (b - a)" arbitrary: b)
  case (Suc n)
  then have "new_year a \<le> new_year (b - 1)" by (intro Suc.hyps(1)) auto
  also have "\<dots> \<le> new_year b" using new_year_Suc [of "b - 1"] by simp
  finally show ?case .
qed simp

lemma date_in_year:
  assumes "1 \<le> m" "m \<le> 12" "1 \<le> d" "d \<le> 31"
  shows "new_year y \<le> days_from_civil y m d" "days_from_civil y m d < new_year (y + 1)"
proof -
  define before :: "int \<Rightarrow> int" where "before = (\<lambda>z. z div 400 * 146097 + year_start (z mod 400))"
  have J: "new_year z = before (z - 1) + 306 - 719468" for z
    by (simp add: new_year_eq before_def days_before_year)
  have D: "days_from_civil y m d = before (if m \<le> 2 then y - 1 else y) + (153 * shifted m + 2) div 5
      + int d - 1 - 719468"
    by (simp add: days_from_civil_eq before_def Let_def)
  have grow: "before (y - 1) + 365 \<le> before y" using new_year_Suc [of y] by (simp add: J)
  have "(m \<le> 2 \<longrightarrow> (153 * shifted m + 2) div 5 \<in> {306, 337})
      \<and> (\<not> m \<le> 2 \<longrightarrow> 0 \<le> (153 * shifted m + 2) div 5 \<and> (153 * shifted m + 2) div 5 \<le> 275)"
    using month_cases [OF assms(1,2)] by (auto simp: shifted_def)
  with assms grow show "new_year y \<le> days_from_civil y m d" "days_from_civil y m d < new_year (y + 1)"
    unfolding J D by (auto split: if_splits)
qed

lemma civil_year_bounds:
  assumes "civil_from_days z = (y, m, d)"
  shows "new_year a \<le> z \<Longrightarrow> a \<le> y" "z < new_year (b + 1) \<Longrightarrow> y \<le> b"
proof -
  from days_civil_inverse [of z] assms have md: "1 \<le> m" "m \<le> 12" "1 \<le> d" "d \<le> 31"
    and z: "days_from_civil y m d = z" by auto
  note in_year = date_in_year [OF md, of y, unfolded z]
  show "new_year a \<le> z \<Longrightarrow> a \<le> y"
    using in_year new_year_mono [of "y + 1" a] by (cases "a \<le> y") auto
  show "z < new_year (b + 1) \<Longrightarrow> y \<le> b"
    using in_year new_year_mono [of "b + 1" y] by (cases "y \<le> b") auto
qed

lemma new_years: "new_year 1980 = 3652" "new_year 2107 = 50038"
  by (simp_all add: new_year_eq)

lemma fat_clock_fields:
  assumes "315532800 \<le> t" "t \<le> u32_max"
  defines "dt \<equiv> date_time (int t)"
  shows "1980 \<le> dt_year dt" "dt_year dt \<le> 2106"
    "unpack_fat (fat_clock_now t)
      = (nat (dt_year dt), dt_month dt, dt_day dt, dt_hour dt, dt_minute dt)"
proof -
  obtain y m d where civil: "civil_from_days (int t div 86400) = (y, m, d)"
    by (cases "civil_from_days (int t div 86400)") auto
  have "new_year 1980 \<le> int t div 86400" "int t div 86400 < new_year (2106 + 1)"
    using assms(1,2) by (simp_all add: new_years)
  note year = civil_year_bounds(1) [OF civil this(1)] civil_year_bounds(2) [OF civil this(2)]
  have dt: "dt_year dt = y" "dt_month dt = m" "dt_day dt = d"
    by (simp_all add: dt_def date_time_eq [OF civil])
  note fields = date_time_fields [of "int t", folded dt_def]
  show "1980 \<le> dt_year dt" "dt_year dt \<le> 2106" using year by (simp_all add: dt)
  have "fat_clock_now t = fat_date_time_new (nat (dt_year dt)) (dt_month dt) (dt_day dt)
      (dt_hour dt) (dt_minute dt) (dt_second dt)"
    using fields year assms(1) dt by (simp add: fat_clock_now_def dt_def [symmetric] Let_def)
  also have "unpack_fat \<dots> = (nat (dt_year dt), dt_month dt, dt_day dt, dt_hour dt, dt_minute dt)"
    using fields year dt by (intro unpack_fat_new) auto
  finally show "unpack_fat (fat_clock_now t)
      = (nat (dt_year dt), dt_month dt, dt_day dt, dt_hour dt, dt_minute dt)" .
qed

subsection \<open>Properties\<close>

text \<open>Breaking an instant into calendar fields and putting it together again is the identity, for
  every instant, before or after 1970.\<close>

theorem calendar_round_trip:
  "(let t = date_time s in
    seconds_from_civil (dt_year t) (dt_month t) (dt_day t) (dt_hour t) (dt_minute t) (dt_second t) = s
    \<and> 1 \<le> dt_month t \<and> dt_month t \<le> 12 \<and> 1 \<le> dt_day t \<and> dt_day t \<le> 31
    \<and> dt_hour t < 24 \<and> dt_minute t < 60 \<and> dt_second t < 60)"
  using seconds_date_time [of s] date_time_fields [of s] by (simp add: Let_def)

text \<open>C28: Conversely every valid Gregorian date and time, with the right length of February, is
  recovered from its instant.\<close>

theorem valid_dates_are_recovered:
  assumes "valid_date y m d" "h < 24" "mi < 60" "s < 60"
  shows "date_time (seconds_from_civil y m d h mi s) =
    \<lparr>dt_year = y, dt_month = m, dt_day = d, dt_hour = h, dt_minute = mi, dt_second = s\<rparr>"
  using assms by (rule date_time_seconds)

theorem valid_dates_are_recovered_witness:
  "date_time (seconds_from_civil 2024 2 29 12 30 15) =
    \<lparr>dt_year = 2024, dt_month = 2, dt_day = 29, dt_hour = 12, dt_minute = 30, dt_second = 15\<rparr>"
  by (rule valid_dates_are_recovered) (simp_all add: valid_date_def days_in_month_def leap_year_def)



text \<open>The day on which summer time starts or ends is a Sunday, in the last seven days of its
  month.\<close>

theorem last_sunday_is_the_last_sunday:
  "(last_sunday y m + 4) mod 7 = 0
    \<and> (let next_month = (if m = 12 then days_from_civil (y + 1) 1 1 else days_from_civil y (m + 1) 1)
       in next_month - 7 \<le> last_sunday y m \<and> last_sunday y m < next_month)"
  using last_sunday_props [where y = y and m = m] by (simp add: Let_def)

text \<open>From 1980 to the end of the 32-bit clock in 2106 the FAT timestamp of the published local
  time unpacks to the date, hour and minute of that time.\<close>

theorem fat_timestamps_show_local_time:
  assumes "315532800 \<le> t" "t \<le> u32_max"
  shows "unpack_fat (fat_clock_now t) = (let dt = date_time (int t) in
    (nat (dt_year dt), dt_month dt, dt_day dt, dt_hour dt, dt_minute dt))
    \<and> 1980 \<le> dt_year (date_time (int t)) \<and> dt_year (date_time (int t)) \<le> 2106"
  using fat_clock_fields [OF assms] by (simp add: Let_def)

theorem fat_timestamps_show_local_time_witness:
  "dt_year (date_time (int 315532800)) \<le> 2106"
  using fat_timestamps_show_local_time [of 315532800] by simp

end
