(* ===== verification/Network_Time.thy ===== *)
theory Network_Time
  imports Wall_Clock
begin

text \<open>
  Network time: the one-shot SNTP query of \<open>src/net.rs\<close>, its job slot, and the part of the main loop
  that starts it and sets the wall clock (\<open>src/main.rs\<close>).  The IP stack is the record \<open>sntp_env\<close>: what
  the lookup answers, whether the socket can be bound and written, and the datagrams that arrive before
  the timeout, each with the endpoint it came from.
  \<open>net_pass\<close> is the network section of the loop, less the reconnect schedule after a lost link,
  which is \<open>Wifi_Radio.link_lost\<close>.  An IPv4 address is its 32-bit number.
\<close>

subsection \<open>The query\<close>

definition ntp_port :: nat where "ntp_port = 123"
definition ntp_unix_offset :: nat where "ntp_unix_offset = 2208988800"

definition fallback_ntp_server :: nat where
  "fallback_ntp_server = ((162 * 256 + 159) * 256 + 200) * 256 + 1"

datatype sntp_error = Sntp_Timeout | Sntp_Socket | Sntp_Send | Sntp_Bad_Reply

record sntp_env =
  se_lookup :: "string \<Rightarrow> nat list option"
  se_bind :: bool
  se_send :: "bytes \<Rightarrow> nat \<times> nat \<Rightarrow> bool"
  se_received :: "((nat \<times> nat) \<times> bytes) list"

definition parse_reply :: "bytes \<Rightarrow> sntp_error + nat" where
  "parse_reply data =
    (if length data < 48 then Inl Sntp_Bad_Reply
     else
       let mode = data ! 0 AND 0x07; stratum = data ! 1 in
       if mode \<noteq> 4 \<or> stratum = 0 then Inl Sntp_Bad_Reply
       else
         let seconds = of_be (slice_of 40 4 data) in
         if seconds < ntp_unix_offset then Inl Sntp_Bad_Reply else Inr (seconds - ntp_unix_offset))"

definition server_address :: "sntp_env \<Rightarrow> string \<Rightarrow> nat" where
  "server_address env server = (case se_lookup env server of
     Some (a # _) \<Rightarrow> a
   | _ \<Rightarrow> fallback_ntp_server)"

definition sntp_request :: bytes where
  "sntp_request = 0x1B # replicate 47 0"

text \<open>Datagrams from other endpoints are ignored; \<open>None\<close> is still waiting.\<close>

fun await_reply :: "nat \<times> nat \<Rightarrow> ((nat \<times> nat) \<times> bytes) list \<Rightarrow> (sntp_error + nat) option" where
  "await_reply endpoint [] = None"
| "await_reply endpoint ((origin, data) # rest) =
    (if origin = endpoint then Some (parse_reply data) else await_reply endpoint rest)"

definition sntp_query :: "sntp_env \<Rightarrow> string \<Rightarrow> (sntp_error + nat) option" where
  "sntp_query env server =
    (let endpoint = (server_address env server, ntp_port) in
     if \<not> se_bind env then Some (Inl Sntp_Socket)
     else if \<not> se_send env sntp_request endpoint then Some (Inl Sntp_Send)
     else await_reply endpoint (se_received env))"

definition sntp_job :: "sntp_env \<Rightarrow> string \<Rightarrow> sntp_error + nat" where
  "sntp_job env server = (case sntp_query env server of Some r \<Rightarrow> r | None \<Rightarrow> Inl Sntp_Timeout)"

subsection \<open>The job slot and the main loop\<close>

record net_time =
  nt_job :: "string option"
  nt_next :: instant
  nt_link_was_up :: bool
  nt_clock :: wall_clock

definition sntp_resync_us :: nat where "sntp_resync_us = 3600 * 1000000"
definition sntp_retry_us :: nat where "sntp_retry_us = 30 * 1000000"

definition start_sntp :: "string \<Rightarrow> net_time \<Rightarrow> net_time" where
  "start_sntp server nt = nt\<lparr>nt_job := Some server\<rparr>"

definition net_poll :: "sntp_env \<Rightarrow> bool \<Rightarrow> net_time \<Rightarrow> (sntp_error + nat) option \<times> net_time" where
  "net_poll env completed nt = (case nt_job nt of
     None \<Rightarrow> (None, nt)
   | Some server \<Rightarrow>
      if completed then (Some (sntp_job env server), nt\<lparr>nt_job := None\<rparr>) else (None, nt))"

definition after_sntp :: "instant \<Rightarrow> (sntp_error + nat) option \<Rightarrow> net_time \<Rightarrow> net_time" where
  "after_sntp finished result nt = (case result of
     None \<Rightarrow> nt
   | Some (Inr unix_seconds) \<Rightarrow>
       nt\<lparr>nt_clock := wall_clock_set unix_seconds finished (nt_clock nt), nt_next := finished + sntp_resync_us\<rparr>
   | Some (Inl error) \<Rightarrow> nt\<lparr>nt_next := finished + sntp_retry_us\<rparr>)"

definition net_pass ::
  "sntp_env \<Rightarrow> clock_config \<Rightarrow> instant \<Rightarrow> instant \<Rightarrow> bool \<Rightarrow> bool \<Rightarrow> bool \<Rightarrow> net_time \<Rightarrow> net_time" where
  "net_pass env cfg now finished completed link_up online nt =
    (case net_poll env completed nt of
       (result, nt) \<Rightarrow>
         let nt = after_sntp finished result nt;
             nt = (if link_up \<and> \<not> nt_link_was_up nt then nt\<lparr>nt_next := now\<rparr> else nt);
             nt = nt\<lparr>nt_link_was_up := link_up\<rparr>
         in if online \<and> nt_job nt = None \<and> nt_next nt \<le> now then start_sntp (ntp_server cfg) nt else nt)"

text \<open>The clock of the top bar.\<close>

definition clock_text :: "clock_config \<Rightarrow> instant \<Rightarrow> wall_clock \<Rightarrow> string" where
  "clock_text cfg now wc = (case unix_now now wc of
     None \<Rightarrow> ''--:--''
   | Some u \<Rightarrow> (case local_hh_mm u cfg of
       (hours, minutes) \<Rightarrow> pad_left 2 (CHR ''0'') (dec hours) @ '':'' @ pad_left 2 (CHR ''0'') (dec minutes)))"

subsection \<open>Replies\<close>

text \<open>What a server sends for a Unix time: any header of mode 4 with a stratum, the transmit timestamp
  with its seconds since 1900 modulo 2^32, and a fraction.\<close>

definition server_reply :: "u8 \<Rightarrow> u8 \<Rightarrow> bytes \<Rightarrow> nat \<Rightarrow> bytes \<Rightarrow> bytes" where
  "server_reply header stratum middle t fraction =
    [header, stratum] @ middle @ be_bytes 4 ((t + ntp_unix_offset) mod 2 ^ 32) @ fraction"

lemma parse_server_reply:
  assumes "header AND 7 = 4" "stratum \<noteq> 0" "length middle = 38" "4 \<le> length fraction"
    and "t < 2 ^ 32"
  shows "parse_reply (server_reply header stratum middle t fraction)
    = (if t + ntp_unix_offset < 2 ^ 32 then Inr t else Inl Sntp_Bad_Reply)"
proof -
  let ?s = "(t + ntp_unix_offset) mod 2 ^ 32"
  let ?r = "server_reply header stratum middle t fraction"
  have len: "48 \<le> length ?r" using assms(3,4) by (simp add: server_reply_def)
  have head: "?r ! 0 = header" "?r ! 1 = stratum" by (simp_all add: server_reply_def)
  have pre: "length ([header, stratum] @ middle) = 40" using assms(3) by simp
  have "slice_of 40 4 ?r = be_bytes 4 ?s"
    unfolding slice_of_def server_reply_def append_assoc [symmetric]
    using pre by (simp add: append_assoc [symmetric] del: append_assoc)
  then have s: "of_be (slice_of 40 4 ?r) = ?s" by simp
  have "?s < ntp_unix_offset" if "\<not> t + ntp_unix_offset < 2 ^ 32"
  proof -
    have "?s = t + ntp_unix_offset - 2 ^ 32"
      using that assms(5) by (simp add: ntp_unix_offset_def mod_if)
    with assms(5) that show ?thesis by simp
  qed
  with len head s assms(1,2) show ?thesis by (auto simp: parse_reply_def Let_def)
qed

text \<open>C38: A well-formed reply for a Unix time is read as that time until the seconds since 1900 leave 32
  bits on 7 February 2036; from then on, until the end of 2105, every reply is refused, and the clock
  is not set again.\<close>

theorem sntp_replies_are_read_until_2036:
  assumes "header AND 7 = 4" "stratum \<noteq> 0" "length middle = 38" "4 \<le> length fraction"
    and "t < 2 ^ 32"
  shows "parse_reply (server_reply header stratum middle t fraction)
    = (if t + ntp_unix_offset < 2 ^ 32 then Inr t else Inl Sntp_Bad_Reply)"
  using assms by (rule parse_server_reply)

theorem sntp_replies_are_read_until_2036_witness:
  "parse_reply (server_reply 0x24 2 (replicate 38 0) 1785000000 (replicate 4 0)) = Inr 1785000000
    \<and> parse_reply (server_reply 0x24 2 (replicate 38 0) 2085978496 (replicate 4 0)) = Inl Sntp_Bad_Reply"
  using sntp_replies_are_read_until_2036 [of "0x24" 2 "replicate 38 0" "replicate 4 0" 1785000000]
    sntp_replies_are_read_until_2036 [of "0x24" 2 "replicate 38 0" "replicate 4 0" 2085978496]
  by (simp add: ntp_unix_offset_def)

lemma await_reply_Some:
  "await_reply endpoint ds = Some r \<Longrightarrow>
    \<exists>before data after. ds = before @ (endpoint, data) # after \<and> endpoint \<notin> fst ` set before \<and> r = parse_reply data"
proof (induction ds)
  case (Cons d ds)
  obtain origin data where d: "d = (origin, data)" by (cases d)
  show ?case
  proof (cases "origin = endpoint")
    case True
    then have "d # ds = [] @ (endpoint, data) # ds \<and> endpoint \<notin> fst ` set [] \<and> r = parse_reply data"
      using d Cons.prems by simp
    then show ?thesis by blast
  next
    case False
    then obtain before x after where "ds = before @ (endpoint, x) # after" "endpoint \<notin> fst ` set before"
      "r = parse_reply x"
      using d Cons by auto
    then have "d # ds = (d # before) @ (endpoint, x) # after \<and> endpoint \<notin> fst ` set (d # before)
      \<and> r = parse_reply x"
      using d False by simp
    then show ?thesis by blast
  qed
qed simp

text \<open>C37: The clock changes in a pass only when the running query completes, and then it is set to the
  time in the first datagram that came from the server the query asked, at the address the lookup gave
  or the fallback, on port 123: a server reply with a stratum and a time after 1970.\<close>

theorem clock_is_set_by_the_asked_server:
  assumes "net_pass env cfg now finished completed link_up online nt = nt'"
  shows "nt_clock nt' = nt_clock nt
    \<or> (\<exists>server t before data after.
        completed \<and> nt_job nt = Some server \<and> nt_clock nt' = wall_clock_set t finished (nt_clock nt)
        \<and> se_received env = before @ ((server_address env server, ntp_port), data) # after
        \<and> (server_address env server, ntp_port) \<notin> fst ` set before
        \<and> parse_reply data = Inr t)"
proof -
  obtain result nt1 where p: "net_poll env completed nt = (result, nt1)" by (metis prod.exhaust)
  have same: "nt_clock nt' = nt_clock (after_sntp finished result nt1)"
    using assms p by (auto simp: net_pass_def Let_def start_sntp_def)
  have c1: "nt_clock nt1 = nt_clock nt" using p by (auto simp: net_poll_def split: option.splits if_splits)
  show ?thesis
  proof (cases "\<exists>t. result = Some (Inr t)")
    case False
    then have "nt_clock nt' = nt_clock nt"
      using same c1 by (auto simp: after_sntp_def split: option.split sum.split)
    then show ?thesis ..
  next
    case True
    then obtain t where t: "result = Some (Inr t)" by blast
    with p obtain server where s: "nt_job nt = Some server" "completed" "sntp_job env server = Inr t"
      by (auto simp: net_poll_def split: option.splits if_splits)
    then have "await_reply (server_address env server, ntp_port) (se_received env) = Some (Inr t)"
      by (auto simp: sntp_job_def sntp_query_def Let_def split: option.splits if_splits)
    then obtain before data after where "se_received env = before @ ((server_address env server, ntp_port), data) # after"
      "(server_address env server, ntp_port) \<notin> fst ` set before" "Inr t = parse_reply data"
      using await_reply_Some by blast
    moreover have "nt_clock nt' = wall_clock_set t finished (nt_clock nt)"
      using same c1 t by (simp add: after_sntp_def)
    ultimately show ?thesis using s by (metis (no_types, lifting))
  qed
qed

text \<open>A stray datagram arrives first; the reply of the asked server, the fallback, sets the clock.\<close>

theorem clock_is_set_by_the_asked_server_witness:
  "\<exists>nt'. net_pass
      \<lparr>se_lookup = \<lambda>_. None, se_bind = True, se_send = \<lambda>_ _. True,
       se_received = [((7, 123), []), ((fallback_ntp_server, ntp_port),
         server_reply 0x24 2 (replicate 38 0) 1785000000 (replicate 4 0))]\<rparr>
      default_clock_config 100 200 True True True
      \<lparr>nt_job = Some ''ntp.example'', nt_next = 0, nt_link_was_up = True, nt_clock = wall_clock_default\<rparr> = nt'
    \<and> nt_clock nt' = wall_clock_set 1785000000 200 wall_clock_default"
proof -
  let ?env = "\<lparr>se_lookup = \<lambda>_. None, se_bind = True, se_send = \<lambda>_ _. True,
       se_received = [((7, 123), []), ((fallback_ntp_server, ntp_port),
         server_reply 0x24 2 (replicate 38 0) 1785000000 (replicate 4 0))]\<rparr>"
  let ?nt = "\<lparr>nt_job = Some ''ntp.example'', nt_next = 0, nt_link_was_up = True, nt_clock = wall_clock_default\<rparr>"
  let ?nt' = "net_pass ?env default_clock_config 100 200 True True True ?nt"
  have r: "sntp_job ?env ''ntp.example'' = Inr 1785000000"
    using parse_server_reply [of "0x24" 2 "replicate 38 0" "replicate 4 0" 1785000000]
    by (simp add: sntp_job_def sntp_query_def server_address_def fallback_ntp_server_def ntp_unix_offset_def)
  have set: "nt_clock ?nt' = wall_clock_set 1785000000 200 wall_clock_default"
    using r by (simp add: net_pass_def net_poll_def after_sntp_def start_sntp_def Let_def)
  show ?thesis
    using clock_is_set_by_the_asked_server [OF refl, of ?env default_clock_config 100 200 True True True ?nt] set
    by blast
qed

end
