(* ===== verification/File_Copy.thy ===== *)
theory File_Copy
  imports Rat_Text Fs_Path
begin

text \<open>
  The copy job of the file manager (\<open>CopyJob\<close> and the functions it calls in
  \<open>src/filemanager.rs\<close>): one bounded step per pass of the main loop, with a stack of directory
  frames and at most one file in progress.  No handle of the volume outlives a step; a file is
  continued from the cursors of its reader and its writer.

  An error ends the job: the caller drops it, so a failed step returns only the volume.
\<close>

subsection \<open>State\<close>

definition copy_chunk :: nat where "copy_chunk = 2048"
definition max_copy_depth :: nat where "max_copy_depth = 12"

record item =
  it_name :: string
  it_directory :: bool
  it_size :: nat

record directory_copy =
  dc_source :: "string list"
  dc_target :: "string list"
  dc_next :: nat

record 'h file_copy =
  fc_source :: "string list"
  fc_target :: "string list"
  fc_name :: string
  fc_read_cursor :: "'h option"
  fc_write_cursor :: "'h option"
  fc_started :: bool

record 'h copy_job =
  cj_directories :: "directory_copy list"
  cj_file :: "'h file_copy option"
  cj_copied :: nat
  cj_files :: nat

definition open_path :: "('v, 'h) fat_ops \<Rightarrow> 'v \<Rightarrow> string list \<Rightarrow> 'h option" where
  "open_path ops vol path = walk_dirs ops vol (vol_root_dir ops vol) path"

text \<open>\<open>find(..).map_err(..)?.ok_or(())?\<close>, and \<open>matches!(find(..), Ok(None))\<close>.\<close>

definition present :: "('v, 'h) fat_ops \<Rightarrow> 'v \<Rightarrow> 'h \<Rightarrow> string \<Rightarrow> 'h file_entry option" where
  "present ops vol dir name = (case dir_find ops vol dir name of Some (Some e) \<Rightarrow> Some e | _ \<Rightarrow> None)"

definition absent :: "('v, 'h) fat_ops \<Rightarrow> 'v \<Rightarrow> 'h \<Rightarrow> string \<Rightarrow> bool" where
  "absent ops vol dir name = (case dir_find ops vol dir name of Some None \<Rightarrow> True | _ \<Rightarrow> False)"

definition lookup :: "('v, 'h) fat_ops \<Rightarrow> 'v \<Rightarrow> string list \<Rightarrow> string \<Rightarrow> 'h file_entry option" where
  "lookup ops vol parent name =
    (case open_path ops vol parent of None \<Rightarrow> None | Some dir \<Rightarrow> present ops vol dir name)"

definition item_of :: "'h file_entry \<Rightarrow> item" where
  "item_of e = \<lparr>it_name = fe_name e, it_directory = fe_is_directory e, it_size = fe_len e\<rparr>"

definition dots :: "string \<Rightarrow> bool" where
  "dots name \<longleftrightarrow> name = ''.'' \<or> name = ''..''"

fun nth_item :: "'h file_entry option list \<Rightarrow> nat \<Rightarrow> nat \<Rightarrow> item option option" where
  "nth_item [] position index = Some None"
| "nth_item (None # _) position index = None"
| "nth_item (Some e # records) position index =
    (if dots (fe_name e) then nth_item records position index
     else if position = index then Some (Some (item_of e))
     else nth_item records (position + 1) index)"

definition item_at :: "('v, 'h) fat_ops \<Rightarrow> 'v \<Rightarrow> string list \<Rightarrow> nat \<Rightarrow> item option option" where
  "item_at ops vol path index =
    (case open_path ops vol path of None \<Rightarrow> None | Some dir \<Rightarrow> nth_item (dir_entries ops vol dir) 0 index)"

subsection \<open>One step\<close>

definition copy_target ::
  "('v, 'h) fat_ops \<Rightarrow> 'v \<Rightarrow> 'h \<Rightarrow> 'h file_copy \<Rightarrow> 'h file_entry option \<times> 'v" where
  "copy_target ops vol dest f =
    (if fc_started f then (present ops vol dest (fc_name f), vol)
     else if \<not> absent ops vol dest (fc_name f) then (None, vol)
     else vol_create_file ops vol dest (fc_name f))"

definition copy_reader :: "('v, 'h) fat_ops \<Rightarrow> 'v \<Rightarrow> 'h file_entry \<Rightarrow> 'h file_copy \<Rightarrow> 'h option" where
  "copy_reader ops vol source f =
    (case fc_read_cursor f of
       Some cursor \<Rightarrow> reader_from_cursor ops vol source cursor
     | None \<Rightarrow> reader_new ops vol source)"

definition copy_writer ::
  "('v, 'h) fat_ops \<Rightarrow> 'v \<Rightarrow> 'h file_entry \<Rightarrow> 'h file_copy \<Rightarrow> 'h option \<times> 'v" where
  "copy_writer ops vol target f =
    (if fc_started f then
       (case fc_write_cursor f of
          Some cursor \<Rightarrow> writer_append_from_cursor ops vol target cursor
        | None \<Rightarrow> (None, vol))
     else writer_new ops vol target)"

text \<open>The bytes of one chunk; a short or failed write still commits what was written.\<close>

definition copy_write :: "('v, 'h) fat_ops \<Rightarrow> 'v \<Rightarrow> 'h \<Rightarrow> bytes \<Rightarrow> 'h option \<times> 'v" where
  "copy_write ops vol w buf =
    (if buf = [] then (Some w, vol)
     else (case writer_write ops vol w buf of
        (Some (written, w'), vol) \<Rightarrow>
          if written = length buf then (Some w', vol) else (None, snd (writer_finish ops vol w'))
      | (None, vol) \<Rightarrow> (None, snd (writer_finish ops vol w))))"

definition copy_data ::
  "('v, 'h) fat_ops \<Rightarrow> 'v \<Rightarrow> 'h file_entry \<Rightarrow> 'h file_entry \<Rightarrow> 'h file_copy \<Rightarrow>
   (nat \<times> 'h file_copy) option \<times> 'v" where
  "copy_data ops vol source target f =
    (case copy_reader ops vol source f of
       None \<Rightarrow> (None, vol)
     | Some reader \<Rightarrow>
       (case reader_read ops vol reader copy_chunk of
          None \<Rightarrow> (None, vol)
        | Some (buf, reader) \<Rightarrow>
          (case copy_writer ops vol target f of
             (None, vol) \<Rightarrow> (None, vol)
           | (Some w, vol) \<Rightarrow>
             (case copy_write ops vol w buf of
                (None, vol) \<Rightarrow> (None, vol)
              | (Some w, vol) \<Rightarrow>
                (case writer_finish ops vol w of
                   (False, vol) \<Rightarrow> (None, vol)
                 | (True, vol) \<Rightarrow>
                     (Some (length buf, f\<lparr>fc_read_cursor := Some (reader_cursor ops reader),
                        fc_started := True, fc_write_cursor := Some (writer_append_cursor ops w)\<rparr>), vol))))))"

definition copy_file_step ::
  "('v, 'h) fat_ops \<Rightarrow> 'h file_copy \<Rightarrow> 'h copy_job \<Rightarrow> 'v \<Rightarrow> (bool \<times> 'h copy_job) option \<times> 'v" where
  "copy_file_step ops f job vol =
    (case lookup ops vol (fc_source f) (fc_name f) of
       None \<Rightarrow> (None, vol)
     | Some source \<Rightarrow>
       if fe_is_directory source then (None, vol)
       else (case open_path ops vol (fc_target f) of
          None \<Rightarrow> (None, vol)
        | Some dest \<Rightarrow>
          (case copy_target ops vol dest f of
             (None, vol) \<Rightarrow> (None, vol)
           | (Some target, vol) \<Rightarrow>
             (case copy_data ops vol source target f of
                (None, vol) \<Rightarrow> (None, vol)
              | (Some (count, f), vol) \<Rightarrow>
                  (Some (False, job\<lparr>cj_copied := cj_copied job + count,
                     cj_files := (if count = 0 then cj_files job + 1 else cj_files job),
                     cj_file := (if count = 0 then None else Some f)\<rparr>), vol)))))"

definition begin_file :: "directory_copy \<Rightarrow> string \<Rightarrow> 'h file_copy" where
  "begin_file frame name =
    \<lparr>fc_source = dc_source frame, fc_target = dc_target frame, fc_name = name,
     fc_read_cursor = None, fc_write_cursor = None, fc_started = False\<rparr>"

definition enter_directory ::
  "('v, 'h) fat_ops \<Rightarrow> directory_copy \<Rightarrow> string \<Rightarrow> nat \<Rightarrow> 'v \<Rightarrow> directory_copy option \<times> 'v" where
  "enter_directory ops frame name depth vol =
    (if max_copy_depth \<le> depth then (None, vol)
     else (case open_path ops vol (dc_target frame) of
        None \<Rightarrow> (None, vol)
      | Some target \<Rightarrow>
        if \<not> absent ops vol target name then (None, vol)
        else (case vol_create_dir ops vol target name of
           (Inl _, vol) \<Rightarrow> (None, vol)
         | (Inr _, vol) \<Rightarrow>
             (Some \<lparr>dc_source = dc_source frame @ [name], dc_target = dc_target frame @ [name],
                dc_next = 0\<rparr>, vol))))"

definition copy_directory_step ::
  "('v, 'h) fat_ops \<Rightarrow> 'h copy_job \<Rightarrow> 'v \<Rightarrow> (bool \<times> 'h copy_job) option \<times> 'v" where
  "copy_directory_step ops job vol =
    (if cj_directories job = [] then (Some (True, job), vol)
     else
       let frame = List.last (cj_directories job);
           below = butlast (cj_directories job);
           depth = length (cj_directories job) in
       (case item_at ops vol (dc_source frame) (dc_next frame) of
          None \<Rightarrow> (None, vol)
        | Some None \<Rightarrow> (Some (False, job\<lparr>cj_directories := below\<rparr>), vol)
        | Some (Some item) \<Rightarrow>
          let frame = frame\<lparr>dc_next := dc_next frame + 1\<rparr>;
              job = job\<lparr>cj_directories := below @ [frame]\<rparr> in
          if it_directory item then
            (case enter_directory ops frame (it_name item) depth vol of
               (None, vol) \<Rightarrow> (None, vol)
             | (Some child, vol) \<Rightarrow>
                 (Some (False, job\<lparr>cj_directories := below @ [frame, child]\<rparr>), vol))
          else (Some (False, job\<lparr>cj_file := Some (begin_file frame (it_name item))\<rparr>), vol)))"

definition copy_step ::
  "('v, 'h) fat_ops \<Rightarrow> 'h copy_job \<Rightarrow> 'v \<Rightarrow> (bool \<times> 'h copy_job) option \<times> 'v" where
  "copy_step ops job vol =
    (case cj_file job of
       Some f \<Rightarrow> copy_file_step ops f job vol
     | None \<Rightarrow> copy_directory_step ops job vol)"

text \<open>The jobs that a paste starts.\<close>

definition directory_job :: "string list \<Rightarrow> string list \<Rightarrow> 'h copy_job" where
  "directory_job source target =
    \<lparr>cj_directories = [\<lparr>dc_source = source, dc_target = target, dc_next = 0\<rparr>], cj_file = None,
     cj_copied = 0, cj_files = 0\<rparr>"

definition file_job :: "string list \<Rightarrow> string list \<Rightarrow> string \<Rightarrow> 'h copy_job" where
  "file_job source target name =
    \<lparr>cj_directories = [], cj_file = Some \<lparr>fc_source = source, fc_target = target, fc_name = name,
       fc_read_cursor = None, fc_write_cursor = None, fc_started = False\<rparr>,
     cj_copied = 0, cj_files = 0\<rparr>"

text \<open>Steps until the job is complete or has failed.\<close>

datatype 'h copy_outcome = Copied "'h copy_job" | Failed | Running "'h copy_job"

fun copy_run :: "('v, 'h) fat_ops \<Rightarrow> nat \<Rightarrow> 'h copy_job \<Rightarrow> 'v \<Rightarrow> 'h copy_outcome \<times> 'v" where
  "copy_run ops 0 job vol = (Running job, vol)"
| "copy_run ops (Suc n) job vol =
    (case copy_step ops job vol of
       (None, vol) \<Rightarrow> (Failed, vol)
     | (Some (True, job), vol) \<Rightarrow> (Copied job, vol)
     | (Some (False, job), vol) \<Rightarrow> copy_run ops n job vol)"

subsection \<open>What a step does\<close>

text \<open>A step that copies a chunk: what it read, and what its cursor says.\<close>

lemma copy_file_stepD:
  assumes "copy_file_step ops f job v = (Some (b, job'), v')"
  obtains source target dest count f' v1 where
    "lookup ops v (fc_source f) (fc_name f) = Some source"
    "open_path ops v (fc_target f) = Some dest"
    "copy_target ops v dest f = (Some target, v1)"
    "copy_data ops v1 source target f = (Some (count, f'), v')"
    "\<not> b" "job' = job\<lparr>cj_copied := cj_copied job + count,
       cj_files := (if count = 0 then cj_files job + 1 else cj_files job),
       cj_file := (if count = 0 then None else Some f')\<rparr>"
  using assms by (auto simp: copy_file_step_def split: option.splits prod.splits if_splits)

lemma copy_dataD:
  assumes "copy_data ops v source target f = (Some (count, f'), v')"
  obtains reader buf reader' w v1 w' v2 where
    "copy_reader ops v source f = Some reader" "reader_read ops v reader copy_chunk = Some (buf, reader')"
    "copy_writer ops v target f = (Some w, v1)" "copy_write ops v1 w buf = (Some w', v2)"
    "writer_finish ops v2 w' = (True, v')" "count = length buf"
    "f' = f\<lparr>fc_read_cursor := Some (reader_cursor ops reader'),
       fc_started := True, fc_write_cursor := Some (writer_append_cursor ops w')\<rparr>"
  using assms by (auto simp: copy_data_def split: option.splits prod.splits bool.splits)

text \<open>A card with one file of three bytes in its root and an empty directory \<open>d\<close>; the volume is the
  copy in \<open>d\<close>, when there is one.\<close>

definition entry_named :: "string \<Rightarrow> bool \<Rightarrow> nat \<Rightarrow> nat file_entry" where
  "entry_named name directory len = \<lparr>fe_name = name, fe_is_directory = directory, fe_len = len,
     fe_attributes = 0, fe_modified = fat_date_time_new 2026 1 1 0 0 0, fe_accessed = 0, fe_location = 0\<rparr>"

definition small_card :: "(bytes option, nat) fat_ops" where
  "small_card = \<lparr>vol_root_dir = \<lambda>v. 0, dir_open = \<lambda>v d n. Some 1,
     dir_find = \<lambda>v d n. if d = 0 then Some (Some (entry_named ''a'' False 3))
       else Some (map_option (\<lambda>bs. entry_named ''a'' False (length bs)) v),
     dir_entries = \<lambda>v d. if d = 0 then [Some (entry_named ''a'' False 3)] else [],
     vol_create_file = \<lambda>v d n. (Some (entry_named n False 0), Some []),
     vol_create_dir = \<lambda>v d n. (Inr 1, v),
     vol_truncate = \<lambda>v e n. (True, v), vol_delete = \<lambda>v e. (None, v), vol_rename = \<lambda>v e d n. (None, v),
     vol_repair_dir = \<lambda>v e. (True, v), vol_set_times = \<lambda>v e m a. (True, v),
     vol_set_attributes = \<lambda>v e a. (True, v), vol_sync = \<lambda>v. (True, v), vol_free_clusters = \<lambda>v. Some 0,
     vol_max_cluster = \<lambda>v. 2, vol_cluster_size = \<lambda>v. 512, vol_volume_id = \<lambda>v. 0,
     reader_new = \<lambda>v e. Some 0, reader_from_cursor = \<lambda>v e c. Some c, reader_seek = \<lambda>v r n. Some n,
     reader_read = \<lambda>v r n. Some (take n (drop r [7, 8, 9]), r + length (take n (drop r [7, 8, 9 :: u8]))),
     reader_cursor = \<lambda>r. r, writer_new = \<lambda>v e. (Some 0, v),
     writer_append = \<lambda>v e. (Some 0, v), writer_append_from_cursor = \<lambda>v e c. (Some c, v),
     writer_at = \<lambda>v e n. (Some n, v), writer_write = \<lambda>v w b. (Some (length b, w), map_option (\<lambda>x. x @ b) v),
     writer_append_cursor = \<lambda>w. w, writer_finish = \<lambda>v w. (True, v), writer_drop = \<lambda>v w. v\<rparr>"

subsection \<open>A copy mirrors its source and overwrites nothing\<close>

definition mirrored :: "string list \<Rightarrow> string list \<Rightarrow> 'h copy_job \<Rightarrow> bool" where
  "mirrored source target job \<longleftrightarrow> length (cj_directories job) \<le> max_copy_depth
     \<and> (\<forall>d \<in> set (cj_directories job). \<exists>p. dc_source d = source @ p \<and> dc_target d = target @ p)
     \<and> (\<forall>f. cj_file job = Some f \<longrightarrow> (\<exists>p. fc_source f = source @ p \<and> fc_target f = target @ p))"

lemma copy_data_paths:
  "copy_data ops v s t f = (Some (n, f'), v') \<Longrightarrow>
    fc_source f' = fc_source f \<and> fc_target f' = fc_target f \<and> fc_name f' = fc_name f"
  by (erule copy_dataD) simp

text \<open>Where a step leads: new frames and files have the places of an old frame or file.\<close>

text \<open>The steps of the directory frame at the end of the stack.\<close>

lemma copy_directory_stepE:
  assumes "copy_directory_step ops job v = (Some (b, job'), v')" "cj_directories job = fs @ [f]"
  obtains (finished) "item_at ops v (dc_source f) (dc_next f) = Some None" "\<not> b" "job' = job\<lparr>cj_directories := fs\<rparr>" "v' = v"
  | (file_found) it where "item_at ops v (dc_source f) (dc_next f) = Some (Some it)" "\<not> it_directory it" "\<not> b"
      "job' = job\<lparr>cj_directories := fs @ [f\<lparr>dc_next := dc_next f + 1\<rparr>],
        cj_file := Some (begin_file (f\<lparr>dc_next := dc_next f + 1\<rparr>) (it_name it))\<rparr>" "v' = v"
  | (directory_found) it child where "item_at ops v (dc_source f) (dc_next f) = Some (Some it)" "it_directory it" "\<not> b"
      "enter_directory ops (f\<lparr>dc_next := dc_next f + 1\<rparr>) (it_name it) (length (cj_directories job)) v = (Some child, v')"
      "dc_source child = dc_source f @ [it_name it]" "dc_target child = dc_target f @ [it_name it]" "dc_next child = 0"
      "length (cj_directories job) < max_copy_depth"
      "job' = job\<lparr>cj_directories := fs @ [f\<lparr>dc_next := dc_next f + 1\<rparr>, child]\<rparr>"
proof -
  have child: "dc_source c = dc_source f @ [name] \<and> dc_target c = dc_target f @ [name] \<and> dc_next c = 0
      \<and> length (cj_directories job) < max_copy_depth"
    if "enter_directory ops (f\<lparr>dc_next := dc_next f + 1\<rparr>) name (length (cj_directories job)) v = (Some c, w)" for c name w
    using that by (auto simp: enter_directory_def split: if_splits option.splits prod.splits sum.splits)
  from assms obtain r where r: "item_at ops v (dc_source f) (dc_next f) = Some r"
    by (auto simp: copy_directory_step_def Let_def split: option.splits)
  show thesis
  proof (cases r)
    case None
    with assms r have "\<not> b" "job' = job\<lparr>cj_directories := fs\<rparr>" "v' = v" by (auto simp: copy_directory_step_def Let_def)
    with finished r None show thesis by blast
  next
    case (Some it)
    show thesis
    proof (cases "it_directory it")
      case True
      obtain e v2 where e: "enter_directory ops (f\<lparr>dc_next := dc_next f + 1\<rparr>) (it_name it) (length (cj_directories job)) v
        = (e, v2)" by (metis prod.exhaust)
      with assms r Some True obtain c where c: "e = Some c" "v2 = v'" "\<not> b"
        "job' = job\<lparr>cj_directories := fs @ [f\<lparr>dc_next := dc_next f + 1\<rparr>, c]\<rparr>"
        by (cases e) (simp_all add: copy_directory_step_def Let_def)
      with e have "enter_directory ops (f\<lparr>dc_next := dc_next f + 1\<rparr>) (it_name it) (length (cj_directories job)) v
        = (Some c, v')" by simp
      note directory_found [OF r [unfolded Some] True c(3) this _ _ _ _ c(4)]
      with child [OF \<open>enter_directory _ _ _ _ _ = (Some c, v')\<close>] show thesis by simp
    next
      case False
      with assms r Some have "\<not> b" "v' = v" "job' = job\<lparr>cj_directories := fs @ [f\<lparr>dc_next := dc_next f + 1\<rparr>],
          cj_file := Some (begin_file (f\<lparr>dc_next := dc_next f + 1\<rparr>) (it_name it))\<rparr>"
        by (auto simp: copy_directory_step_def Let_def)
      with file_found [of it] r Some False show thesis by blast
    qed
  qed
qed

lemma copy_step_places:
  assumes "copy_step ops job v = (Some (b, job'), v')"
  shows "(\<forall>d' \<in> set (cj_directories job'). \<exists>d \<in> set (cj_directories job). \<exists>q.
            dc_source d' = dc_source d @ q \<and> dc_target d' = dc_target d @ q)
    \<and> (\<forall>f'. cj_file job' = Some f' \<longrightarrow>
          (\<exists>f. cj_file job = Some f \<and> fc_source f' = fc_source f \<and> fc_target f' = fc_target f \<and> fc_name f' = fc_name f)
        \<or> (\<exists>d \<in> set (cj_directories job). fc_source f' = dc_source d \<and> fc_target f' = dc_target d))
    \<and> length (cj_directories job') \<le> max (length (cj_directories job)) max_copy_depth"
proof (cases "cj_file job")
  case (Some f)
  with assms have "copy_file_step ops f job v = (Some (b, job'), v')" by (simp add: copy_step_def)
  then show ?thesis
    by (rule copy_file_stepD) (use Some in \<open>auto dest!: copy_data_paths\<close>)
next
  case None
  with assms have step: "copy_directory_step ops job v = (Some (b, job'), v')" by (simp add: copy_step_def)
  show ?thesis
  proof (cases "cj_directories job" rule: rev_cases)
    case Nil
    with step None show ?thesis by (simp add: copy_directory_step_def)
  next
    case (snoc fs f)
    let ?f = "f\<lparr>dc_next := dc_next f + 1\<rparr>"
    have same: "\<exists>d \<in> set (fs @ [f]). \<exists>q. dc_source d' = dc_source d @ q \<and> dc_target d' = dc_target d @ q"
      if "d' \<in> set fs \<or> d' = ?f" for d' using that by (auto intro!: exI [of _ "[]"])
    from step snoc show ?thesis
    proof (cases rule: copy_directory_stepE)
      case finished
      with same None snoc show ?thesis by auto
    next
      case (file_found it)
      with same None snoc show ?thesis by (auto simp: begin_file_def)
    next
      case (directory_found it child)
      have "\<exists>d \<in> set (fs @ [f]). \<exists>q. dc_source child = dc_source d @ q \<and> dc_target child = dc_target d @ q"
        using directory_found(5,6) by (intro bexI [of _ f]) auto
      with directory_found(8,9) same None snoc show ?thesis by auto
    qed
  qed
qed

lemma copy_step_mirrors:
  assumes "mirrored source target job" "copy_step ops job v = (Some (b, job'), v')"
  shows "mirrored source target job'"
  using assms(1) copy_step_places [OF assms(2)] unfolding mirrored_def
  by (auto 4 4)

lemma copy_run_mirrors:
  "mirrored source target job \<Longrightarrow> copy_run ops n job v = (Running job', v') \<Longrightarrow> mirrored source target job'"
proof (induction n arbitrary: job v)
  case (Suc n)
  then show ?case by (auto split: prod.splits option.splits bool.splits dest: copy_step_mirrors)
qed simp

text \<open>An entry that is already in the destination.\<close>

definition occupied :: "('v, 'h) fat_ops \<Rightarrow> 'v \<Rightarrow> string list \<Rightarrow> string \<Rightarrow> bool" where
  "occupied ops vol path name = (\<exists>d e. open_path ops vol path = Some d \<and> dir_find ops vol d name = Some (Some e))"

text \<open>The name a step would create next.\<close>

definition about_to_create :: "('v, 'h) fat_ops \<Rightarrow> 'v \<Rightarrow> 'h copy_job \<Rightarrow> (string list \<times> string) option" where
  "about_to_create ops vol job = (case cj_file job of
     Some f \<Rightarrow> if fc_started f then None else Some (fc_target f, fc_name f)
   | None \<Rightarrow>
     if cj_directories job = [] then None
     else let frame = List.last (cj_directories job) in
       (case item_at ops vol (dc_source frame) (dc_next frame) of
          Some (Some it) \<Rightarrow> if it_directory it then Some (dc_target frame, it_name it) else None
        | _ \<Rightarrow> None))"

text \<open>C22: While a directory is copied, every directory and file in progress has the same place
  below the destination as its original has below the source, the nesting stays within twelve
  levels, and a name that is already in the destination makes the copy fail without a write.\<close>

theorem copies_mirror_and_never_overwrite:
  assumes "copy_run ops n (directory_job source target) vol = (Running job, vol')"
  shows "mirrored source target job
    \<and> (case about_to_create ops vol' job of
         Some (path, name) \<Rightarrow> occupied ops vol' path name \<longrightarrow> copy_step ops job vol' = (None, vol')
       | None \<Rightarrow> True)"
proof
  have "mirrored source target (directory_job source target)"
    by (simp add: mirrored_def directory_job_def max_copy_depth_def)
  then show "mirrored source target job" using assms by (rule copy_run_mirrors)
  have started: "copy_file_step ops f job vol' = (None, vol')"
    if "\<not> fc_started f" "occupied ops vol' (fc_target f) (fc_name f)" for f
    using that by (auto simp: copy_file_step_def copy_target_def absent_def occupied_def split: option.splits)
  have dir: "enter_directory ops fr n d vol' = (None, vol')" if "occupied ops vol' (dc_target fr) n" for fr n d
    using that by (auto simp: enter_directory_def absent_def occupied_def)
  show "case about_to_create ops vol' job of
         Some (path, name) \<Rightarrow> occupied ops vol' path name \<longrightarrow> copy_step ops job vol' = (None, vol')
       | None \<Rightarrow> True"
    by (auto simp: about_to_create_def copy_step_def copy_directory_step_def started dir Let_def
        split: option.splits if_splits)
qed

theorem copies_mirror_and_never_overwrite_witness:
  "\<exists>job. copy_run small_card 1 (directory_job [] [''d'']) (Some []) = (Running job, Some [])
    \<and> mirrored [] [''d''] job \<and> copy_step small_card job (Some []) = (None, Some [])"
proof -
  define job where "job = (directory_job [] [''d''] :: nat copy_job)\<lparr>
    cj_directories := [\<lparr>dc_source = [], dc_target = [''d''], dc_next = 1\<rparr>],
    cj_file := Some \<lparr>fc_source = [], fc_target = [''d''], fc_name = ''a'', fc_read_cursor = None,
      fc_write_cursor = None, fc_started = False\<rparr>\<rparr>"
  have run: "copy_run small_card 1 (directory_job [] [''d'']) (Some []) = (Running job, Some [])"
    by (simp add: copy_step_def copy_directory_step_def directory_job_def item_at_def open_path_def
        small_card_def entry_named_def dots_def item_of_def begin_file_def job_def)
  have "occupied small_card (Some []) [''d''] ''a''"
    by (simp add: occupied_def open_path_def small_card_def)
  moreover have "about_to_create small_card (Some []) job = Some ([''d''], ''a'')"
    by (simp add: about_to_create_def job_def)
  ultimately show ?thesis
    using copies_mirror_and_never_overwrite [OF run] run by (auto simp del: copy_run.simps)
qed

end
