(* ===== verification/File_Manager.thy ===== *)
theory File_Manager
  imports File_Copy
begin

text \<open>
  The on-device file browser (\<open>FileManager\<close> in \<open>src/filemanager.rs\<close>): a page of a directory
  with a selection inside a six-row viewport, the clipboard and its actions, name entry, deletion,
  and the copy job behind \<open>poll\<close>.  The properties of the window that the code sets are the record
  \<open>fm_ui\<close>; its \<open>view_state\<close> (10 browse, 11 actions, 12 name entry, 13 confirm) selects what a
  key does.

  A row label is built with \<open>String::truncate\<close>, which panics inside a character, so everything that
  redraws returns an \<open>option\<close>; \<open>None\<close> is the panic.
\<close>

subsection \<open>State\<close>

definition page_len :: nat where "page_len = 24"
definition visible_rows :: nat where "visible_rows = 6"
definition max_name_bytes :: nat where "max_name_bytes = 80"
definition actions_len :: nat where "actions_len = 7"
definition row_width :: nat where "row_width = 28"

datatype fm_key = Up | Down | Left | Right | Enter | Back | Backspace | Delete | Tab | Char nat

record clip =
  cb_parent :: "string list"
  cb_name :: string
  cb_directory :: bool
  cb_moving :: bool

datatype name_action = Rename | New_File | New_Directory

record 'h file_manager =
  fm_cwd :: "string list"
  fm_page :: nat
  fm_selected :: nat
  fm_first :: nat
  fm_entries :: "item list"
  fm_more :: bool
  fm_clipboard :: "clip option"
  fm_action :: nat
  fm_name_action :: name_action
  fm_input :: string
  fm_confirm_name :: "string option"
  fm_status :: string
  fm_shown_kb :: nat
  fm_copy :: "'h copy_job option"

record fm_ui =
  ui_view_state :: nat
  ui_path :: string
  ui_status :: string
  ui_index :: nat
  ui_action_index :: nat
  ui_name :: string
  ui_target :: string
  ui_rows :: "string list"
  ui_count :: nat
  ui_more :: bool
  ui_page :: nat
  ui_clipboard :: string
  ui_prompt :: string

subsection \<open>Labels, names, paths\<close>

text \<open>One row of the viewport.  \<open>None\<close> is the panic of \<open>truncate\<close> inside a character.\<close>

definition row_label :: "item \<Rightarrow> string option" where
  "row_label it =
    (if it_directory it then
       let label = ''['' @ it_name it @ '']'' in
       if row_width < length label
       then map_option (\<lambda>l. l @ ''~'') (truncate_string label (row_width - 1))
       else Some label
     else
       let size = dec (it_size it) @ ''B'';
           budget = row_width - (length size + 1);
           name = truncate_ascii (it_name it) budget;
           name = (if length name < length (it_name it) \<and> 1 < length name
                   then butlast name @ ''~'' else name)
       in Some (name @ '' '' @ size))"

definition inside :: "string list \<Rightarrow> string list \<Rightarrow> bool" where
  "inside path ancestor \<longleftrightarrow> length ancestor \<le> length path
     \<and> list_all (\<lambda>(a, b). eq_ignore_ascii_case a b) (zip path ancestor)"

definition bad_name_byte :: "char \<Rightarrow> bool" where
  "bad_name_byte c \<longleftrightarrow> (let n = of_char c :: nat in
     n < 32 \<or> n = 47 \<or> n = 92 \<or> n = 58 \<or> n = 42 \<or> n = 63 \<or> n = 34 \<or> n = 60 \<or> n = 62 \<or> n = 124)"

definition valid_name :: "string \<Rightarrow> bool" where
  "valid_name name \<longleftrightarrow> name \<noteq> [] \<and> name \<noteq> ''.'' \<and> name \<noteq> ''..'' \<and> length name \<le> max_name_bytes
     \<and> \<not> (List.last name = CHR '' '' \<or> List.last name = CHR ''.'')
     \<and> \<not> list_ex bad_name_byte name"

subsection \<open>Loading and showing a page\<close>

fun reload_loop :: "'h file_entry option list \<Rightarrow> nat \<Rightarrow> nat \<Rightarrow> item list \<Rightarrow> item list option" where
  "reload_loop [] page seen entries = Some entries"
| "reload_loop (None # _) page seen entries = None"
| "reload_loop (Some e # records) page seen entries =
    (if dots (fe_name e) then reload_loop records page seen entries
     else let entries = (if page \<le> seen \<and> length entries \<le> page_len then entries @ [item_of e] else entries) in
       if page_len < length entries then Some entries
       else reload_loop records page (seen + 1) entries)"

definition reload :: "('v, 'h) fat_ops \<Rightarrow> 'v \<Rightarrow> 'h file_manager \<Rightarrow> 'h file_manager" where
  "reload ops vol fm =
    (let result = (case open_path ops vol (fm_cwd fm) of
           None \<Rightarrow> None | Some dir \<Rightarrow> reload_loop (dir_entries ops vol dir) (fm_page fm) 0 []);
         entries = (case result of Some es \<Rightarrow> es | None \<Rightarrow> []);
         fm = (if result = None then fm\<lparr>fm_status := ''DIR UNREADABLE - BS BACK''\<rparr> else fm)
     in fm\<lparr>fm_more := page_len < length entries, fm_entries := take page_len entries,
           fm_selected := min (fm_selected fm) (length (take page_len entries) - 1)\<rparr>)"

text \<open>The viewport follows the selection and scrolls only at its edges.\<close>

definition scroll :: "'h file_manager \<Rightarrow> 'h file_manager" where
  "scroll fm =
    (let first = min (fm_first fm) (fm_selected fm);
         first = (if first + visible_rows \<le> fm_selected fm then fm_selected fm + 1 - visible_rows else first)
     in fm\<lparr>fm_first := min first (length (fm_entries fm) - visible_rows)\<rparr>)"

fun row_labels :: "item list \<Rightarrow> string list option" where
  "row_labels [] = Some []"
| "row_labels (it # items) = (case row_label it of
     None \<Rightarrow> None
   | Some l \<Rightarrow> map_option (\<lambda>ls. l # ls) (row_labels items))"

definition clipboard_text :: "clip option \<Rightarrow> string" where
  "clipboard_text cb = (case cb of
     Some c \<Rightarrow> (if cb_moving c then ''MOVE'' else ''COPY'') @ '': '' @ truncate_ascii (cb_name c) 20
   | None \<Rightarrow> [])"

definition show_path :: "string list \<Rightarrow> string" where
  "show_path cwd = (if cwd = [] then ''/'' else ''/'' @ join_with ''/'' cwd)"

definition show_fm :: "'h file_manager \<times> fm_ui \<Rightarrow> ('h file_manager \<times> fm_ui) option" where
  "show_fm s =
    (let fm = scroll (fst s); ui = snd s in
     case row_labels (take visible_rows (drop (fm_first fm) (fm_entries fm))) of
       None \<Rightarrow> None
     | Some labels \<Rightarrow>
        Some (fm, ui\<lparr>ui_path := truncate_ascii (show_path (fm_cwd fm)) 28,
          ui_status := truncate_ascii (fm_status fm) 29,
          ui_index := fm_selected fm - fm_first fm, ui_action_index := fm_action fm,
          ui_name := fm_input fm,
          ui_target := (case fm_confirm_name fm of Some n \<Rightarrow> n | None \<Rightarrow> []),
          ui_rows := labels @ replicate (visible_rows - length labels) [],
          ui_count := length labels, ui_more := fm_more fm,
          ui_page := fm_page fm div page_len + 1,
          ui_clipboard := clipboard_text (fm_clipboard fm)\<rparr>))"

definition fm_new :: "('v, 'h) fat_ops \<Rightarrow> 'v \<Rightarrow> fm_ui \<Rightarrow> ('h file_manager \<times> fm_ui) option" where
  "fm_new ops vol ui = show_fm (reload ops vol
     \<lparr>fm_cwd = [], fm_page = 0, fm_selected = 0, fm_first = 0, fm_entries = [], fm_more = False,
      fm_clipboard = None, fm_action = 0, fm_name_action = New_File, fm_input = [],
      fm_confirm_name = None, fm_status = [], fm_shown_kb = 0, fm_copy = None\<rparr>, ui)"

definition selected_index :: "'h file_manager \<Rightarrow> nat" where
  "selected_index fm = fm_selected fm"

definition copying :: "'h file_manager \<Rightarrow> bool" where
  "copying fm \<longleftrightarrow> fm_copy fm \<noteq> None"

definition selected_item :: "'h file_manager \<Rightarrow> item option" where
  "selected_item fm = (if fm_selected fm < length (fm_entries fm) then Some (fm_entries fm ! fm_selected fm) else None)"

text \<open>The label of the selected entry: nothing selected, a label, or a panic (outer \<open>None\<close>).\<close>

definition selected_label :: "'h file_manager \<Rightarrow> string option option" where
  "selected_label fm = (case selected_item fm of None \<Rightarrow> Some None | Some it \<Rightarrow> map_option Some (row_label it))"

type_synonym 'h screen = "'h file_manager \<times> fm_ui"

definition set_view :: "nat \<Rightarrow> 'h screen \<Rightarrow> 'h screen" where
  "set_view v s = (fst s, (snd s)\<lparr>ui_view_state := v\<rparr>)"

definition set_status :: "string \<Rightarrow> 'h file_manager \<Rightarrow> 'h file_manager" where
  "set_status text fm = fm\<lparr>fm_status := text\<rparr>"

definition open_actions :: "'h screen \<Rightarrow> 'h screen option" where
  "open_actions s = show_fm (set_view 11 ((fst s)\<lparr>fm_action := 0\<rparr>, snd s))"

definition name_input :: "name_action \<Rightarrow> string \<Rightarrow> 'h screen \<Rightarrow> 'h screen option" where
  "name_input action text s =
    show_fm (set_view 12 ((fst s)\<lparr>fm_name_action := action, fm_input := text\<rparr>,
      (snd s)\<lparr>ui_prompt := (case action of
         Rename \<Rightarrow> ''RENAME TO'' | New_File \<Rightarrow> ''NEW FILE'' | New_Directory \<Rightarrow> ''NEW DIRECTORY'')\<rparr>))"

definition delete_prompt :: "'h screen \<Rightarrow> 'h screen option" where
  "delete_prompt s = (case selected_item (fst s) of
     None \<Rightarrow> Some s
   | Some it \<Rightarrow> show_fm (set_view 13 ((fst s)\<lparr>fm_confirm_name := Some (it_name it)\<rparr>, snd s)))"

subsection \<open>Paste\<close>

text \<open>The outcome of a paste before it starts anything: the status of the refusal, or the directory
  it goes to and the entry it takes.\<close>

definition paste_source ::
  "('v, 'h) fat_ops \<Rightarrow> 'v \<Rightarrow> string list \<Rightarrow> clip \<Rightarrow> string + ('h file_entry \<times> 'h)" where
  "paste_source ops vol cwd cb =
    (if cb_directory cb \<and> inside cwd (cb_parent cb @ [cb_name cb]) then Inl ''CANNOT PASTE INTO SELF''
     else if cwd = cb_parent cb then Inl ''SAME DIRECTORY''
     else case lookup ops vol (cb_parent cb) (cb_name cb) of
       None \<Rightarrow> Inl ''SOURCE NOT FOUND''
     | Some source \<Rightarrow>
        if fe_is_directory source \<noteq> cb_directory cb then Inl ''SOURCE CHANGED''
        else (case open_path ops vol cwd of
          None \<Rightarrow> Inl ''DESTINATION ERROR''
        | Some target \<Rightarrow>
           if absent ops vol target (cb_name cb) then Inr (source, target)
           else Inl ''NAME EXISTS OR SD ERROR''))"

definition paste_directory ::
  "('v, 'h) fat_ops \<Rightarrow> clip \<Rightarrow> 'h \<Rightarrow> 'h file_manager \<Rightarrow> 'v \<Rightarrow> 'h file_manager \<times> 'v" where
  "paste_directory ops cb target fm vol =
    (case vol_create_dir ops vol target (cb_name cb) of
       (Inr _, vol) \<Rightarrow>
         (fm\<lparr>fm_copy := Some (directory_job (cb_parent cb @ [cb_name cb]) (fm_cwd fm @ [cb_name cb])),
             fm_status := ''COPYING DIRECTORY...''\<rparr>, vol)
     | (Inl _, vol) \<Rightarrow> (fm\<lparr>fm_status := ''COPY FAILED''\<rparr>, vol))"

definition paste_move ::
  "('v, 'h) fat_ops \<Rightarrow> clip \<Rightarrow> 'h file_entry \<Rightarrow> 'h \<Rightarrow> 'h file_manager \<Rightarrow> 'v \<Rightarrow> 'h file_manager \<times> 'v" where
  "paste_move ops cb source target fm vol =
    (case vol_rename ops vol source target (cb_name cb) of
       (None, vol) \<Rightarrow> (reload ops vol (fm\<lparr>fm_clipboard := None, fm_status := ''MOVED''\<rparr>), vol)
     | (Some _, vol) \<Rightarrow> (fm\<lparr>fm_status := ''MOVE FAILED''\<rparr>, vol))"

definition paste ::
  "('v, 'h) fat_ops \<Rightarrow> 'h screen \<Rightarrow> 'v \<Rightarrow> ('h screen \<times> 'v) option" where
  "paste ops s vol =
    (let fm = fst s; ui = snd s in
     case fm_clipboard fm of
       None \<Rightarrow> Some ((set_status ''CLIPBOARD EMPTY'' fm, ui), vol)
     | Some cb \<Rightarrow>
       (case paste_source ops vol (fm_cwd fm) cb of
          Inl text \<Rightarrow> Some ((set_status text fm, ui), vol)
        | Inr (source, target) \<Rightarrow>
          (case (if cb_moving cb then paste_move ops cb source target fm vol
                 else if cb_directory cb then paste_directory ops cb target fm vol
                 else (fm\<lparr>fm_copy := Some (file_job (cb_parent cb) (fm_cwd fm) (cb_name cb)),
                          fm_status := ''COPYING FILE...''\<rparr>, vol)) of
             (fm, vol) \<Rightarrow> map_option (\<lambda>s. (s, vol)) (show_fm (fm, ui)))))"

subsection \<open>Actions, names, deletion\<close>

definition take_to_clipboard :: "'h file_manager \<Rightarrow> 'h file_manager" where
  "take_to_clipboard fm = (case selected_item fm of
     Some it \<Rightarrow> fm\<lparr>fm_clipboard := Some \<lparr>cb_parent = fm_cwd fm, cb_name = it_name it,
           cb_directory = it_directory it, cb_moving = (fm_action fm = 1)\<rparr>,
         fm_status := (if fm_action fm = 1 then ''MOVE: NAVIGATE, PASTE'' else ''COPY: NAVIGATE, PASTE'')\<rparr>
   | None \<Rightarrow> set_status ''SELECT A FILE'' fm)"

definition apply_action :: "('v, 'h) fat_ops \<Rightarrow> 'h screen \<Rightarrow> 'v \<Rightarrow> ('h screen \<times> 'v) option" where
  "apply_action ops s vol =
    (let s = set_view 10 s; fm = fst s; ui = snd s; a = fm_action fm in
     case (if a = 0 \<or> a = 1 then Some ((take_to_clipboard fm, ui), vol)
           else if a = 2 then paste ops s vol
           else if a = 3 then (case selected_item fm of
               Some it \<Rightarrow> map_option (\<lambda>s. (s, vol)) (name_input Rename (it_name it) s)
             | None \<Rightarrow> Some ((set_status ''SELECT A FILE'' fm, ui), vol))
           else if a = 4 then map_option (\<lambda>s. (s, vol)) (name_input New_File [] s)
           else if a = 5 then map_option (\<lambda>s. (s, vol)) (name_input New_Directory [] s)
           else if a = 6 then map_option (\<lambda>s. (s, vol)) (delete_prompt s)
           else Some (s, vol)) of
       None \<Rightarrow> None
     | Some (s, vol) \<Rightarrow> map_option (\<lambda>s. (s, vol)) (show_fm s))"

text \<open>The clipboard forgets an entry that is renamed or deleted under it.\<close>

definition forget_clip :: "string \<Rightarrow> 'h file_manager \<Rightarrow> 'h file_manager" where
  "forget_clip name fm = (case fm_clipboard fm of
     Some cb \<Rightarrow> if cb_parent cb = fm_cwd fm \<and> cb_name cb = name then fm\<lparr>fm_clipboard := None\<rparr> else fm
   | None \<Rightarrow> fm)"

definition rename_selected ::
  "('v, 'h) fat_ops \<Rightarrow> 'h \<Rightarrow> 'h file_manager \<Rightarrow> 'v \<Rightarrow> bool \<times> 'h file_manager \<times> 'v" where
  "rename_selected ops dir fm vol =
    (case selected_item fm of
       None \<Rightarrow> (False, fm, vol)
     | Some it \<Rightarrow>
       (case present ops vol dir (it_name it) of
          None \<Rightarrow> (False, fm, vol)
        | Some old \<Rightarrow>
          (case vol_rename ops vol old dir (fm_input fm) of
             (Some _, vol) \<Rightarrow> (False, fm, vol)
           | (None, vol) \<Rightarrow> (True, forget_clip (it_name it) fm, vol))))"

definition name_exists_text :: string where
  "name_exists_text = ''NAME EXISTS OR SD ERROR''"

text \<open>The closure of \<open>submit_name\<close>: whether it succeeded.\<close>

definition submit_named ::
  "('v, 'h) fat_ops \<Rightarrow> 'h file_manager \<Rightarrow> 'v \<Rightarrow> bool \<times> 'h file_manager \<times> 'v" where
  "submit_named ops fm vol =
    (case open_path ops vol (fm_cwd fm) of
       None \<Rightarrow> (False, fm, vol)
     | Some dir \<Rightarrow>
       if \<not> absent ops vol dir (fm_input fm) then (False, set_status name_exists_text fm, vol)
       else (case fm_name_action fm of
          Rename \<Rightarrow> rename_selected ops dir fm vol
        | New_File \<Rightarrow> (case vol_create_file ops vol dir (fm_input fm) of
            (None, vol) \<Rightarrow> (False, fm, vol) | (Some _, vol) \<Rightarrow> (True, fm, vol))
        | New_Directory \<Rightarrow> (case vol_create_dir ops vol dir (fm_input fm) of
            (Inl _, vol) \<Rightarrow> (False, fm, vol) | (Inr _, vol) \<Rightarrow> (True, fm, vol))))"

definition submit_name :: "('v, 'h) fat_ops \<Rightarrow> 'h screen \<Rightarrow> 'v \<Rightarrow> ('h screen \<times> 'v) option" where
  "submit_name ops s vol =
    (let fm = fst s; ui = snd s in
     if \<not> valid_name (fm_input fm)
     then map_option (\<lambda>s. (s, vol)) (show_fm (set_status ''INVALID NAME (MAX 80)'' fm, ui))
     else (case submit_named ops fm vol of
        (True, fm, vol) \<Rightarrow>
          map_option (\<lambda>s. (s, vol)) (show_fm (set_view 10 (reload ops vol (set_status ''SAVED'' fm), ui)))
      | (False, fm, vol) \<Rightarrow>
          map_option (\<lambda>s. (s, vol))
            (show_fm (if fm_status fm \<noteq> name_exists_text then set_status ''SD WRITE FAILED'' fm else fm, ui))))"

text \<open>Deletion; a directory that an interrupted create left unusable is repaired first.  The result
  is whether the entry is gone, and the status.\<close>

definition delete_repaired ::
  "('v, 'h) fat_ops \<Rightarrow> string list \<Rightarrow> string \<Rightarrow> 'v \<Rightarrow> (bool \<times> string) \<times> 'v" where
  "delete_repaired ops cwd name vol =
    (case lookup ops vol cwd name of
       None \<Rightarrow> ((False, ''REPAIRED, DELETE FAILED''), vol)
     | Some entry \<Rightarrow>
       (case vol_delete ops vol entry of
          (None, vol) \<Rightarrow> ((True, ''BROKEN DIR REPAIRED+DELETED''), vol)
        | (Some _, vol) \<Rightarrow> ((False, ''REPAIRED, DELETE FAILED''), vol)))"

definition delete_named ::
  "('v, 'h) fat_ops \<Rightarrow> string list \<Rightarrow> string \<Rightarrow> 'v \<Rightarrow> (bool \<times> string) \<times> 'v" where
  "delete_named ops cwd name vol =
    (case lookup ops vol cwd name of
       None \<Rightarrow> ((False, ''NOT FOUND''), vol)
     | Some entry \<Rightarrow>
       (case vol_delete ops vol entry of
          (None, vol) \<Rightarrow> ((True, ''DELETED''), vol)
        | (Some error, vol) \<Rightarrow>
           if fe_is_directory entry then
             (case vol_repair_dir ops vol entry of
                (True, vol) \<Rightarrow> delete_repaired ops cwd name vol
              | (False, vol) \<Rightarrow>
                  ((False, if error = Directory_Not_Empty then ''DIR NOT EMPTY''
                           else ''DELETE FAILED - SD ERROR''), vol))
           else ((False, ''DELETE FAILED - SD ERROR''), vol)))"

definition confirm_delete :: "('v, 'h) fat_ops \<Rightarrow> 'h screen \<Rightarrow> 'v \<Rightarrow> ('h screen \<times> 'v) option" where
  "confirm_delete ops s vol =
    (let fm = fst s; ui = snd s in
     case (case fm_confirm_name fm of
         None \<Rightarrow> (fm, vol)
       | Some name \<Rightarrow>
          (case delete_named ops (fm_cwd fm) name vol of
             ((gone, text), vol) \<Rightarrow>
               let fm = fm\<lparr>fm_confirm_name := None\<rparr>;
                   fm = (if gone then forget_clip name fm else fm)
               in (set_status text fm, vol))) of
       (fm, vol) \<Rightarrow>
         map_option (\<lambda>s. (s, vol))
           (show_fm (reload ops vol fm, ui\<lparr>ui_view_state := 10\<rparr>)))"

subsection \<open>Keys\<close>

definition go_to_page :: "('v, 'h) fat_ops \<Rightarrow> 'v \<Rightarrow> nat \<Rightarrow> 'h file_manager \<Rightarrow> 'h file_manager" where
  "go_to_page ops vol page fm = reload ops vol (fm\<lparr>fm_page := page, fm_selected := 0\<rparr>)"

definition go_to_directory ::
  "('v, 'h) fat_ops \<Rightarrow> 'v \<Rightarrow> string list \<Rightarrow> 'h file_manager \<Rightarrow> 'h file_manager" where
  "go_to_directory ops vol cwd fm =
    reload ops vol (fm\<lparr>fm_cwd := cwd, fm_page := 0, fm_selected := 0, fm_status := []\<rparr>)"

definition browse_enter :: "('v, 'h) fat_ops \<Rightarrow> 'v \<Rightarrow> 'h file_manager \<Rightarrow> 'h file_manager" where
  "browse_enter ops vol fm = (case selected_item fm of
     None \<Rightarrow> fm
   | Some it \<Rightarrow>
      if it_directory it then go_to_directory ops vol (fm_cwd fm @ [it_name it]) fm
      else set_status (dec (it_size it) @ '' BYTES  TAB: ACTIONS'') fm)"

definition browse_back :: "('v, 'h) fat_ops \<Rightarrow> 'v \<Rightarrow> 'h screen \<Rightarrow> 'h screen" where
  "browse_back ops vol s =
    (if fm_cwd (fst s) = [] then set_view 0 s
     else (go_to_directory ops vol (butlast (fm_cwd (fst s))) (fst s), snd s))"

definition browse_key :: "('v, 'h) fat_ops \<Rightarrow> 'v \<Rightarrow> fm_key \<Rightarrow> 'h screen \<Rightarrow> 'h screen option" where
  "browse_key ops vol key s =
    (let fm = fst s; ui = snd s in
     case key of
       Up \<Rightarrow> Some (if 0 < fm_selected fm then fm\<lparr>fm_selected := fm_selected fm - 1\<rparr> else fm, ui)
     | Down \<Rightarrow> Some (if fm_selected fm + 1 < length (fm_entries fm)
                    then fm\<lparr>fm_selected := fm_selected fm + 1\<rparr> else fm, ui)
     | Left \<Rightarrow> Some (if 0 < fm_page fm then go_to_page ops vol (fm_page fm - page_len) fm else fm, ui)
     | Right \<Rightarrow> Some (if fm_more fm then go_to_page ops vol (fm_page fm + page_len) fm else fm, ui)
     | Enter \<Rightarrow> Some (browse_enter ops vol fm, ui)
     | Back \<Rightarrow> Some (browse_back ops vol s)
     | Backspace \<Rightarrow> Some (browse_back ops vol s)
     | Tab \<Rightarrow> open_actions s
     | Delete \<Rightarrow> delete_prompt s
     | Char _ \<Rightarrow> Some s)"

definition action_key ::
  "('v, 'h) fat_ops \<Rightarrow> fm_key \<Rightarrow> 'h screen \<Rightarrow> 'v \<Rightarrow> ('h screen \<times> 'v) option" where
  "action_key ops key s vol =
    (let fm = fst s in
     if key = Up then Some ((fm\<lparr>fm_action := (fm_action fm + actions_len - 1) mod actions_len\<rparr>, snd s), vol)
     else if key = Down \<or> key = Tab
     then Some ((fm\<lparr>fm_action := (fm_action fm + 1) mod actions_len\<rparr>, snd s), vol)
     else if key = Enter then apply_action ops s vol
     else if key = Back \<or> key = Backspace then Some (set_view 10 s, vol)
     else Some (s, vol))"

definition type_char :: "nat \<Rightarrow> 'h file_manager \<Rightarrow> 'h file_manager" where
  "type_char c fm =
    (if (33 \<le> c \<and> c \<le> 126) \<or> c = 32 then
       (if length (fm_input fm) < max_name_bytes then fm\<lparr>fm_input := fm_input fm @ [char_of c]\<rparr> else fm)
     else fm)"

definition name_key ::
  "('v, 'h) fat_ops \<Rightarrow> fm_key \<Rightarrow> 'h screen \<Rightarrow> 'v \<Rightarrow> ('h screen \<times> 'v) option" where
  "name_key ops key s vol = (case key of
     Char c \<Rightarrow> Some ((type_char c (fst s), snd s), vol)
   | Backspace \<Rightarrow> Some (((fst s)\<lparr>fm_input := pop_char (fm_input (fst s))\<rparr>, snd s), vol)
   | Enter \<Rightarrow> submit_name ops s vol
   | Back \<Rightarrow> Some (set_view 10 s, vol)
   | _ \<Rightarrow> Some (s, vol))"

definition confirm_key ::
  "('v, 'h) fat_ops \<Rightarrow> fm_key \<Rightarrow> 'h screen \<Rightarrow> 'v \<Rightarrow> ('h screen \<times> 'v) option" where
  "confirm_key ops key s vol =
    (if key = Enter then confirm_delete ops s vol
     else if key = Back \<or> key = Backspace
     then Some (set_view 10 ((fst s)\<lparr>fm_confirm_name := None\<rparr>, snd s), vol)
     else Some (s, vol))"

definition press ::
  "('v, 'h) fat_ops \<Rightarrow> fm_key \<Rightarrow> 'h screen \<Rightarrow> 'v \<Rightarrow> ('h screen \<times> 'v) option" where
  "press ops key s vol =
    (if fm_copy (fst s) \<noteq> None then Some (s, vol)
     else case (if ui_view_state (snd s) = 10 then map_option (\<lambda>s. (s, vol)) (browse_key ops vol key s)
                else if ui_view_state (snd s) = 11 then action_key ops key s vol
                else if ui_view_state (snd s) = 12 then name_key ops key s vol
                else if ui_view_state (snd s) = 13 then confirm_key ops key s vol
                else Some (s, vol)) of
       None \<Rightarrow> None
     | Some (s, vol) \<Rightarrow> map_option (\<lambda>s. (s, vol)) (show_fm s))"

text \<open>Text pasted from the debug console: an error, or the screen (\<open>None\<close>: panic).\<close>

definition append_text :: "string \<Rightarrow> 'h screen \<Rightarrow> string + 'h screen option" where
  "append_text text s =
    (if ui_view_state (snd s) \<noteq> 12 then Inl ''text_entry_not_active''
     else if \<not> list_all (\<lambda>c. 32 \<le> (of_char c :: nat) \<and> (of_char c :: nat) \<le> 126) text
             \<or> max_name_bytes < length (fm_input (fst s)) + length text
     then Inl ''invalid_or_long_filename''
     else Inr (show_fm ((fst s)\<lparr>fm_input := fm_input (fst s) @ text\<rparr>, snd s)))"

definition clear_text :: "'h screen \<Rightarrow> 'h screen option" where
  "clear_text s = show_fm ((fst s)\<lparr>fm_input := []\<rparr>, snd s)"

text \<open>One step of the copy job per pass of the main loop.\<close>

definition after_copy_step ::
  "('v, 'h) fat_ops \<Rightarrow> 'h file_manager \<Rightarrow> nat \<Rightarrow> (bool \<times> 'h copy_job) option \<times> 'v \<Rightarrow>
   'h file_manager \<times> 'v" where
  "after_copy_step ops fm copied_kb r = (case r of
     (Some (True, job), vol) \<Rightarrow>
       (reload ops vol (fm\<lparr>fm_copy := None,
          fm_status := ''COPIED '' @ dec (cj_files job) @ '' FILES '' @ dec copied_kb @ '' KB''\<rparr>), vol)
   | (Some (False, job), vol) \<Rightarrow>
       ((if fm_shown_kb fm div 16 < copied_kb div 16
         then fm\<lparr>fm_status := ''COPYING '' @ dec (cj_files job) @ '' FILES '' @ dec copied_kb @ '' KB''\<rparr>
         else fm)\<lparr>fm_copy := Some job, fm_shown_kb := copied_kb\<rparr>, vol)
   | (None, vol) \<Rightarrow>
       (reload ops vol (fm\<lparr>fm_copy := None, fm_status := ''COPY FAILED - PARTIAL DEST''\<rparr>), vol))"

definition copy_poll :: "('v, 'h) fat_ops \<Rightarrow> 'h screen \<Rightarrow> 'v \<Rightarrow> ('h screen \<times> 'v) option" where
  "copy_poll ops s vol =
    (case fm_copy (fst s) of
       None \<Rightarrow> Some (s, vol)
     | Some job \<Rightarrow>
       (case after_copy_step ops (fst s) (cj_copied job div 1024) (copy_step ops job vol) of
          (fm, vol) \<Rightarrow> map_option (\<lambda>s. (s, vol)) (show_fm (fm, snd s))))"

subsection \<open>The screen stays in range\<close>

text \<open>What every operation keeps: at most one page is loaded, the selection is on an entry (or on
  nothing in an empty page), pages start at multiples of their length, the action is one of the
  menu's; and on the screen the viewport holds the selection.\<close>

definition fm_ok :: "'h file_manager \<Rightarrow> bool" where
  "fm_ok fm \<longleftrightarrow> length (fm_entries fm) \<le> page_len
     \<and> (fm_selected fm < length (fm_entries fm) \<or> fm_selected fm = 0)
     \<and> page_len dvd fm_page fm \<and> fm_action fm < actions_len"

definition screen_ok :: "'h screen \<Rightarrow> bool" where
  "screen_ok s \<longleftrightarrow> (let fm = fst s; ui = snd s in fm_ok fm
     \<and> fm_first fm \<le> fm_selected fm \<and> fm_selected fm < fm_first fm + visible_rows
     \<and> length (ui_rows ui) = visible_rows \<and> ui_index ui < visible_rows
     \<and> ui_count ui = min visible_rows (length (fm_entries fm) - fm_first fm)
     \<and> (\<forall>it. selected_item fm = Some it \<longrightarrow>
          ui_index ui < ui_count ui \<and> row_label it = Some (ui_rows ui ! ui_index ui)))"

lemma row_labels_nth:
  "row_labels items = Some ls \<Longrightarrow>
    length ls = length items \<and> (\<forall>i < length items. row_label (items ! i) = Some (ls ! i))"
proof (induction items arbitrary: ls)
  case (Cons it items)
  then obtain l ls' where l: "row_label it = Some l" "row_labels items = Some ls'" "ls = l # ls'"
    by (auto split: option.splits)
  from Cons.IH [OF l(2)] l(1,3) show ?case by (auto simp: nth_Cons split: nat.split)
qed simp

lemma scroll_frame [simp]:
  "fm_entries (scroll fm) = fm_entries fm" "fm_selected (scroll fm) = fm_selected fm"
  "fm_page (scroll fm) = fm_page fm" "fm_action (scroll fm) = fm_action fm" "fm_copy (scroll fm) = fm_copy fm"
  by (simp_all add: scroll_def Let_def)

lemma scroll_ok: "fm_ok (scroll fm) = fm_ok fm"
  by (simp add: fm_ok_def)

lemma scroll_holds_selection:
  assumes "fm_ok fm"
  shows "fm_first (scroll fm) \<le> fm_selected fm" "fm_selected fm < fm_first (scroll fm) + visible_rows"
  using assms by (auto simp: scroll_def Let_def fm_ok_def visible_rows_def)

text \<open>Drawing puts the selected entry into the row that the index names.\<close>

lemma show_ok:
  assumes "fm_ok (fst s)" "show_fm s = Some s'"
  shows "screen_ok s'"
proof -
  let ?fm = "scroll (fst s)"
  let ?shown = "take visible_rows (drop (fm_first ?fm) (fm_entries (fst s)))"
  from assms(2) obtain labels where labels: "row_labels ?shown = Some labels"
    and s': "fst s' = ?fm" "ui_rows (snd s') = labels @ replicate (visible_rows - length labels) []"
      "ui_index (snd s') = fm_selected (fst s) - fm_first ?fm" "ui_count (snd s') = length labels"
    by (auto simp: show_fm_def Let_def split: option.splits)
  note range = scroll_holds_selection [OF assms(1)]
  note nth = row_labels_nth [OF labels]
  have len: "length labels = min visible_rows (length (fm_entries (fst s)) - fm_first ?fm)"
    using nth by (simp add: min.commute)
  have "ui_index (snd s') < ui_count (snd s') \<and> row_label it = Some (ui_rows (snd s') ! ui_index (snd s'))"
    if "selected_item ?fm = Some it" for it
  proof -
    from that have sel: "fm_selected (fst s) < length (fm_entries (fst s))" "it = fm_entries (fst s) ! fm_selected (fst s)"
      by (auto simp: selected_item_def split: if_splits)
    let ?i = "fm_selected (fst s) - fm_first ?fm"
    have i: "?i < length labels" using range sel(1) len by auto
    then have "?shown ! ?i = it" using range sel nth by simp
    with nth i have "row_label it = Some (labels ! ?i)" by metis
    with i s' show ?thesis by (simp add: nth_append)
  qed
  moreover have "length (ui_rows (snd s')) = visible_rows" using s'(2) len by simp
  ultimately show ?thesis
    using range s' len assms(1) by (auto simp: screen_ok_def Let_def scroll_ok)
qed

lemma reload_ok:
  "page_len dvd fm_page fm \<Longrightarrow> fm_action fm < actions_len \<Longrightarrow> fm_ok (reload ops vol fm)"
  by (auto simp: reload_def Let_def fm_ok_def)

lemma fm_ok_updates [simp]:
  "fm_ok (fm\<lparr>fm_status := t\<rparr>) = fm_ok fm" "fm_ok (fm\<lparr>fm_clipboard := c\<rparr>) = fm_ok fm"
  "fm_ok (fm\<lparr>fm_input := i\<rparr>) = fm_ok fm" "fm_ok (fm\<lparr>fm_confirm_name := n\<rparr>) = fm_ok fm"
  "fm_ok (fm\<lparr>fm_copy := j\<rparr>) = fm_ok fm" "fm_ok (fm\<lparr>fm_shown_kb := k\<rparr>) = fm_ok fm"
  "fm_ok (fm\<lparr>fm_name_action := a\<rparr>) = fm_ok fm" "fm_ok (fm\<lparr>fm_first := f\<rparr>) = fm_ok fm"
  "fm_ok (set_status t fm) = fm_ok fm"
  by (simp_all add: fm_ok_def set_status_def)

lemma fm_ok_frame:
  "fm_ok fm \<Longrightarrow> page_len dvd fm_page fm" "fm_ok fm \<Longrightarrow> fm_action fm < actions_len"
  by (simp_all add: fm_ok_def)

lemma set_view_fst [simp]: "fst (set_view v s) = fst s"
  by (simp add: set_view_def)

lemma show_keeps: "show_fm s = Some s' \<Longrightarrow> fm_ok (fst s') = fm_ok (fst s)"
  by (auto simp: show_fm_def Let_def scroll_ok split: option.splits)

lemma forget_clip_ok [simp]: "fm_ok (forget_clip n fm) = fm_ok fm"
  by (simp add: forget_clip_def split: option.split)

lemma open_actions_ok: "fm_ok (fst s) \<Longrightarrow> open_actions s = Some s' \<Longrightarrow> fm_ok (fst s')"
  by (auto simp: open_actions_def dest!: show_keeps) (simp add: fm_ok_def actions_len_def)

lemma name_input_ok: "fm_ok (fst s) \<Longrightarrow> name_input a t s = Some s' \<Longrightarrow> fm_ok (fst s')"
  by (auto simp: name_input_def dest!: show_keeps)

lemma delete_prompt_ok: "fm_ok (fst s) \<Longrightarrow> delete_prompt s = Some s' \<Longrightarrow> fm_ok (fst s')"
  by (auto simp: delete_prompt_def split: option.splits dest!: show_keeps)

lemma paste_ok:
  assumes "fm_ok (fst s)" "paste ops s vol = Some (s', vol')"
  shows "fm_ok (fst s')"
proof -
  have move: "fm_ok (fst (paste_move ops cb e t (fst s) vol))" for cb e t
    using assms(1) by (auto simp: paste_move_def fm_ok_frame split: prod.split option.split intro!: reload_ok)
  have dir: "fm_ok (fst (paste_directory ops cb t (fst s) vol))" for cb t
    using assms(1) by (auto simp: paste_directory_def split: prod.split sum.split)
  from assms(2) consider t where "fst s' = set_status t (fst s)"
    | cb e t where "fm_ok (fst s') = fm_ok (fst (paste_move ops cb e t (fst s) vol))"
    | cb t where "fm_ok (fst s') = fm_ok (fst (paste_directory ops cb t (fst s) vol))"
    | j t where "fm_ok (fst s') = fm_ok ((fst s)\<lparr>fm_copy := j, fm_status := t\<rparr>)"
    by (auto simp: paste_def Let_def split: option.splits sum.splits prod.splits if_splits dest!: show_keeps)
       (metis fst_conv)+
  then show ?thesis using assms(1) move dir by cases auto
qed

lemma take_to_clipboard_ok [simp]: "fm_ok (take_to_clipboard fm) = fm_ok fm"
  by (simp add: take_to_clipboard_def split: option.split)

lemma apply_action_ok:
  assumes "fm_ok (fst s)" "apply_action ops s vol = Some (s', vol')"
  shows "fm_ok (fst s')"
proof -
  have ok: "fm_ok (fst (set_view 10 s))" using assms(1) by simp
  from assms(2) show ?thesis
    by (auto simp: apply_action_def Let_def assms(1) split: option.splits prod.splits if_splits
        dest!: show_keeps dest: paste_ok [OF ok] name_input_ok [OF ok] delete_prompt_ok [OF ok])
qed

lemma submit_named_ok:
  "fm_ok fm \<Longrightarrow> submit_named ops fm vol = (b, fm', vol') \<Longrightarrow> fm_ok fm'"
  by (auto simp: submit_named_def rename_selected_def split: option.splits prod.splits if_splits
      name_action.splits sum.splits)

lemma submit_name_ok:
  assumes "fm_ok (fst s)" "submit_name ops s vol = Some (s', vol')"
  shows "fm_ok (fst s')"
proof (cases "valid_name (fm_input (fst s))")
  case False
  with assms show ?thesis by (auto simp: submit_name_def Let_def dest!: show_keeps)
next
  case True
  obtain b fm v where n: "submit_named ops (fst s) vol = (b, fm, v)" by (metis prod.exhaust)
  have "fm_ok fm" by (rule submit_named_ok [OF assms(1) n])
  then show ?thesis
    using assms(2) True n
    by (cases b) (auto simp: submit_name_def Let_def set_view_def fm_ok_frame set_status_def reload_ok
        split: if_splits dest!: show_keeps)
qed

lemma confirm_delete_ok:
  assumes "fm_ok (fst s)" "confirm_delete ops s vol = Some (s', vol')"
  shows "fm_ok (fst s')"
proof -
  have "\<exists>fm v. page_len dvd fm_page fm \<and> fm_action fm < actions_len \<and> fm_ok (fst s') = fm_ok (reload ops v fm)"
    using assms
    by (auto simp: confirm_delete_def Let_def split: option.splits prod.splits if_splits dest!: show_keeps)
       (metis fm_ok_frame fm_ok_updates(4,9) forget_clip_ok)+
  then show ?thesis using reload_ok by metis
qed

lemma go_ok [intro]:
  "fm_ok fm \<Longrightarrow> page_len dvd page \<Longrightarrow> fm_ok (go_to_page ops vol page fm)"
  "fm_ok fm \<Longrightarrow> fm_ok (go_to_directory ops vol cwd fm)"
  by (auto simp: go_to_page_def go_to_directory_def fm_ok_frame intro!: reload_ok)

lemma browse_key_ok:
  assumes "fm_ok (fst s)" "browse_key ops vol key s = Some s'"
  shows "fm_ok (fst s')"
proof -
  have enter: "fm_ok (browse_enter ops vol (fst s))"
    using assms(1) by (auto simp: browse_enter_def split: option.split)
  have leave: "fm_ok (fst (browse_back ops vol s))"
    using assms(1) by (auto simp: browse_back_def)
  note d = fm_ok_frame(1) [OF assms(1)]
  have pages: "fm_ok (go_to_page ops vol (fm_page (fst s) - page_len) (fst s))"
    "fm_ok (go_to_page ops vol (fm_page (fst s) + page_len) (fst s))"
    using assms(1) d by (auto intro!: go_ok(1) simp: dvd_diff_nat)
  have moves: "fm_ok ((fst s)\<lparr>fm_selected := fm_selected (fst s) - 1\<rparr>)"
    "fm_selected (fst s) + 1 < length (fm_entries (fst s)) \<Longrightarrow> fm_ok ((fst s)\<lparr>fm_selected := fm_selected (fst s) + 1\<rparr>)"
    using assms(1) by (auto simp: fm_ok_def)
  from assms(2) show ?thesis
    using assms(1) enter leave pages moves open_actions_ok [OF assms(1)] delete_prompt_ok [OF assms(1)]
    by (cases key) (auto simp: browse_key_def Let_def split: if_splits)
qed

lemma press_ok:
  assumes "screen_ok s" "press ops key s vol = Some (s', vol')"
  shows "screen_ok s'"
proof (cases "fm_copy (fst s) = None")
  case False
  with assms show ?thesis by (auto simp: press_def)
next
  case True
  have ok: "fm_ok (fst s)" using assms(1) by (simp add: screen_ok_def Let_def)
  have act: "fm_ok (fst t)" if "action_key ops key s vol = Some (t, w)" for t w
    using that ok apply_action_ok [OF ok, of ops vol]
    by (auto simp: action_key_def Let_def split: if_splits) (auto simp: fm_ok_def actions_len_def)
  have name: "fm_ok (fst t)" if "name_key ops key s vol = Some (t, w)" for t w
    using that ok submit_name_ok [OF ok, of ops vol]
    by (cases key) (auto simp: name_key_def type_char_def split: if_splits)
  have conf: "fm_ok (fst t)" if "confirm_key ops key s vol = Some (t, w)" for t w
    using that ok confirm_delete_ok [OF ok, of ops vol]
    by (auto simp: confirm_key_def split: if_splits)
  from assms(2) True obtain t w where t: "show_fm t = Some s'"
    and "(if ui_view_state (snd s) = 10 then map_option (\<lambda>s. (s, vol)) (browse_key ops vol key s)
                else if ui_view_state (snd s) = 11 then action_key ops key s vol
                else if ui_view_state (snd s) = 12 then name_key ops key s vol
                else if ui_view_state (snd s) = 13 then confirm_key ops key s vol
                else Some (s, vol)) = Some (t, w)"
    by (auto simp: press_def split: option.splits prod.splits if_splits)
  then have "fm_ok (fst t)"
    using ok act name conf browse_key_ok [OF ok] by (auto split: if_splits)
  from show_ok [OF this t] show ?thesis .
qed

lemma after_copy_step_ok:
  assumes "fm_ok fm"
  shows "fm_ok (fst (after_copy_step ops fm kb r))"
proof -
  have "fm_ok (reload ops vol (fm\<lparr>fm_copy := None, fm_status := t\<rparr>))" for vol t
    using fm_ok_frame [OF assms] by (intro reload_ok) simp_all
  then show ?thesis
    using assms by (simp add: after_copy_step_def split: prod.split option.split bool.split)
qed

lemma copy_poll_ok:
  assumes "screen_ok s" "copy_poll ops s vol = Some (s', vol')"
  shows "screen_ok s'"
proof (cases "fm_copy (fst s)")
  case None
  with assms show ?thesis by (auto simp: copy_poll_def Let_def)
next
  case (Some job)
  have ok: "fm_ok (fst s)" using assms(1) by (simp add: screen_ok_def Let_def)
  obtain fm v where after: "after_copy_step ops (fst s) (cj_copied job div 1024) (copy_step ops job vol) = (fm, v)"
    by (metis prod.exhaust)
  with assms(2) Some have shown: "show_fm (fm, snd s) = Some s'" by (auto simp: copy_poll_def)
  have "fm_ok (fst (after_copy_step ops (fst s) (cj_copied job div 1024) (copy_step ops job vol)))"
    by (rule after_copy_step_ok [OF ok])
  with after show_ok [OF _ shown] show ?thesis by simp
qed

text \<open>The screens a run of the program can reach: keys, pasted text and copy steps, on volumes
  that other parts of the firmware may change between them.\<close>

inductive fm_reach :: "('v, 'h) fat_ops \<Rightarrow> 'h screen \<Rightarrow> bool" for ops where
  opened: "fm_new ops vol ui = Some s \<Longrightarrow> fm_reach ops s"
| pressed: "fm_reach ops s \<Longrightarrow> press ops key s vol = Some (s', vol') \<Longrightarrow> fm_reach ops s'"
| polled: "fm_reach ops s \<Longrightarrow> copy_poll ops s vol = Some (s', vol') \<Longrightarrow> fm_reach ops s'"
| pasted: "fm_reach ops s \<Longrightarrow> append_text t s = Inr (Some s') \<Longrightarrow> fm_reach ops s'"
| cleared: "fm_reach ops s \<Longrightarrow> clear_text s = Some s' \<Longrightarrow> fm_reach ops s'"

text \<open>C26: In every reachable screen of the file browser at most 24 entries are loaded, the selection
  is one of them, and the row that is highlighted shows the label of the selected entry.\<close>

theorem browser_screens_are_sound:
  assumes "fm_reach ops s"
  shows "screen_ok s"
  using assms
proof induction
  case (opened vol ui s)
  then show ?case unfolding fm_new_def
    by (elim show_ok [rotated]) (simp add: reload_ok actions_len_def)
next
  case (pasted s t s')
  then have "fm_ok (fst s)" "show_fm ((fst s)\<lparr>fm_input := fm_input (fst s) @ t\<rparr>, snd s) = Some s'"
    by (auto simp: screen_ok_def append_text_def Let_def split: if_splits)
  then show ?case using show_ok [of "((fst s)\<lparr>fm_input := fm_input (fst s) @ t\<rparr>, snd s)"] by simp
next
  case (cleared s s')
  then have "fm_ok (fst s)" "show_fm ((fst s)\<lparr>fm_input := []\<rparr>, snd s) = Some s'"
    by (auto simp: screen_ok_def clear_text_def Let_def)
  then show ?case using show_ok [of "((fst s)\<lparr>fm_input := []\<rparr>, snd s)"] by simp
qed (blast intro: press_ok copy_poll_ok)+

definition blank_ui :: fm_ui where
  "blank_ui = \<lparr>ui_view_state = 10, ui_path = [], ui_status = [], ui_index = 0, ui_action_index = 0, ui_name = [],
     ui_target = [], ui_rows = [], ui_count = 0, ui_more = False, ui_page = 0, ui_clipboard = [], ui_prompt = []\<rparr>"

text \<open>A page without directories is drawn without a panic.\<close>

lemma show_of_files:
  assumes "\<forall>it \<in> set (fm_entries (fst s)). \<not> it_directory it"
  shows "\<exists>s'. show_fm s = Some s' \<and> fm_entries (fst s') = fm_entries (fst s)"
proof -
  have labels: "row_labels items \<noteq> None" if "\<forall>it \<in> set items. \<not> it_directory it" for items
    using that by (induction items) (auto simp: row_label_def Let_def split: option.splits)
  have "row_labels (take visible_rows (drop (fm_first (scroll (fst s))) (fm_entries (fst s)))) \<noteq> None"
    by (rule labels) (use assms in \<open>auto dest!: in_set_takeD in_set_dropD\<close>)
  then show ?thesis by (auto simp: show_fm_def Let_def)
qed

text \<open>The root of the small card: one file, selected.\<close>

theorem browser_screens_are_sound_witness:
  "\<exists>s. fm_new small_card None blank_ui = Some s \<and> screen_ok s \<and> length (fm_entries (fst s)) = 1"
proof -
  have entries: "fm_entries (reload small_card None fm)
      = [\<lparr>it_name = ''a'', it_directory = False, it_size = 3\<rparr>]" if "fm_cwd fm = []" "fm_page fm = 0" for fm
    using that by (simp add: reload_def open_path_def small_card_def entry_named_def dots_def item_of_def page_len_def Let_def)
  define fm :: "nat file_manager" where "fm = \<lparr>fm_cwd = [], fm_page = 0, fm_selected = 0, fm_first = 0,
      fm_entries = [], fm_more = False, fm_clipboard = None, fm_action = 0, fm_name_action = New_File,
      fm_input = [], fm_confirm_name = None, fm_status = [], fm_shown_kb = 0, fm_copy = None\<rparr>"
  have one_file: "fm_entries (reload small_card None fm) = [\<lparr>it_name = ''a'', it_directory = False, it_size = 3\<rparr>]"
    by (rule entries) (simp_all add: fm_def)
  from show_of_files [of "(reload small_card None fm, blank_ui)"] obtain s
    where "show_fm (reload small_card None fm, blank_ui) = Some s"
      and one: "length (fm_entries (fst s)) = 1" by (auto simp: one_file)
  then have s: "fm_new small_card None blank_ui = Some s" by (simp add: fm_new_def fm_def)
  from browser_screens_are_sound [OF fm_reach.opened [OF s]] s one show ?thesis by blast
qed


text \<open>A letter and thirty letters of two bytes each: byte 27 of the label is the second byte of one.\<close>

definition accented :: item where
  "accented = \<lparr>it_name = ''a'' @ concat (replicate 30 [char_of (0xC4 :: nat), char_of (0x85 :: nat)]), it_directory = True,
     it_size = 0\<rparr>"


end
