(* ===== verification/Sftp_Wire.thy ===== *)
theory Sftp_Wire
  imports Wall_Clock
begin

text \<open>
  The wire format of \<open>src/sftp.rs\<close>: packet types and status codes, the bounds-checked reader,
  the attribute blocks in both directions, and the conversion between Unix times and FAT
  timestamps.  A reader is a function from the bytes left to an optional value and the bytes left
  afterwards, because a failed read can still have consumed a length field.
\<close>

subsection \<open>Constants\<close>

definition fxp_init :: nat where "fxp_init = 1"
definition fxp_version :: nat where "fxp_version = 2"
definition fxp_open :: nat where "fxp_open = 3"
definition fxp_close :: nat where "fxp_close = 4"
definition fxp_read :: nat where "fxp_read = 5"
definition fxp_write :: nat where "fxp_write = 6"
definition fxp_lstat :: nat where "fxp_lstat = 7"
definition fxp_fstat :: nat where "fxp_fstat = 8"
definition fxp_setstat :: nat where "fxp_setstat = 9"
definition fxp_fsetstat :: nat where "fxp_fsetstat = 10"
definition fxp_opendir :: nat where "fxp_opendir = 11"
definition fxp_readdir :: nat where "fxp_readdir = 12"
definition fxp_remove :: nat where "fxp_remove = 13"
definition fxp_mkdir :: nat where "fxp_mkdir = 14"
definition fxp_rmdir :: nat where "fxp_rmdir = 15"
definition fxp_realpath :: nat where "fxp_realpath = 16"
definition fxp_stat :: nat where "fxp_stat = 17"
definition fxp_rename :: nat where "fxp_rename = 18"
definition fxp_status :: nat where "fxp_status = 101"
definition fxp_handle :: nat where "fxp_handle = 102"
definition fxp_data :: nat where "fxp_data = 103"
definition fxp_name :: nat where "fxp_name = 104"
definition fxp_attrs :: nat where "fxp_attrs = 105"
definition fxp_extended :: nat where "fxp_extended = 200"
definition fxp_extended_reply :: nat where "fxp_extended_reply = 201"

definition fx_ok :: nat where "fx_ok = 0"
definition fx_eof :: nat where "fx_eof = 1"
definition fx_no_such_file :: nat where "fx_no_such_file = 2"
definition fx_permission_denied :: nat where "fx_permission_denied = 3"
definition fx_failure :: nat where "fx_failure = 4"
definition fx_bad_message :: nat where "fx_bad_message = 5"
definition fx_op_unsupported :: nat where "fx_op_unsupported = 8"

definition fxf_read :: nat where "fxf_read = 0x01"
definition fxf_write :: nat where "fxf_write = 0x02"
definition fxf_append :: nat where "fxf_append = 0x04"
definition fxf_creat :: nat where "fxf_creat = 0x08"
definition fxf_trunc :: nat where "fxf_trunc = 0x10"
definition fxf_excl :: nat where "fxf_excl = 0x20"

definition attr_size :: nat where "attr_size = 0x01"
definition attr_uidgid :: nat where "attr_uidgid = 0x02"
definition attr_permissions :: nat where "attr_permissions = 0x04"
definition attr_acmodtime :: nat where "attr_acmodtime = 0x08"
definition attr_extended :: nat where "attr_extended = 0x80000000"

lemmas fxp_defs = fxp_init_def fxp_version_def fxp_open_def fxp_close_def fxp_read_def fxp_write_def
  fxp_lstat_def fxp_fstat_def fxp_setstat_def fxp_fsetstat_def fxp_opendir_def fxp_readdir_def
  fxp_remove_def fxp_mkdir_def fxp_rmdir_def fxp_realpath_def fxp_stat_def fxp_rename_def
  fxp_status_def fxp_handle_def fxp_data_def fxp_name_def fxp_attrs_def fxp_extended_def
  fxp_extended_reply_def

lemmas fx_defs = fx_ok_def fx_eof_def fx_no_such_file_def fx_permission_denied_def fx_failure_def
  fx_bad_message_def fx_op_unsupported_def

subsection \<open>Statuses\<close>

datatype status = Status nat string

definition st_failure :: "string \<Rightarrow> status" where
  "st_failure message = Status fx_failure message"

definition st_no_such_file :: status where
  "st_no_such_file = Status fx_no_such_file ''No such file or directory''"

definition st_bad_message :: status where
  "st_bad_message = Status fx_bad_message ''Malformed request''"

subsection \<open>Writing\<close>

definition put_u32 :: "nat \<Rightarrow> bytes" where "put_u32 v = be_bytes 4 v"
definition put_u64 :: "nat \<Rightarrow> bytes" where "put_u64 v = be_bytes 8 v"
definition put_string :: "bytes \<Rightarrow> bytes" where "put_string bs = put_u32 (length bs) @ bs"

lemma length_put [simp, length_simps]:
  "length (put_u32 v) = 4" "length (put_u64 v) = 8" "length (put_string bs) = 4 + length bs"
  by (simp_all add: put_u32_def put_u64_def put_string_def)

subsection \<open>Reading\<close>

type_synonym 'a reader = "bytes \<Rightarrow> 'a option \<times> bytes"

definition rd_take :: "nat \<Rightarrow> bytes reader" where
  "rd_take count bs = (if length bs < count then (None, bs) else (Some (take count bs), drop count bs))"

definition rd_u32 :: "nat reader" where
  "rd_u32 bs = (case rd_take 4 bs of (None, r) \<Rightarrow> (None, r) | (Some h, r) \<Rightarrow> (Some (of_be h), r))"

definition rd_u64 :: "nat reader" where
  "rd_u64 bs = (case rd_take 8 bs of (None, r) \<Rightarrow> (None, r) | (Some h, r) \<Rightarrow> (Some (of_be h), r))"

definition rd_string :: "bytes reader" where
  "rd_string bs = (case rd_u32 bs of (None, r) \<Rightarrow> (None, r) | (Some n, r) \<Rightarrow> rd_take n r)"

definition rd_path :: "string reader" where
  "rd_path bs =
    (case rd_string bs of
       (None, r) \<Rightarrow> (None, r)
     | (Some text, r) \<Rightarrow>
        (if utf8_valid text \<and> 0 \<notin> set text then (Some (of_bytes text), r) else (None, r)))"

record requested_attrs =
  ra_size :: "nat option"
  ra_permissions :: "nat option"
  ra_times :: "(nat \<times> nat) option"
  ra_owner :: bool

definition no_attrs :: requested_attrs where
  "no_attrs = \<lparr>ra_size = None, ra_permissions = None, ra_times = None, ra_owner = False\<rparr>"

text \<open>The extended pairs are read and dropped; the count comes from the client.\<close>

primrec rd_extended :: "nat \<Rightarrow> unit reader" where
  "rd_extended 0 bs = (Some (), bs)"
| "rd_extended (Suc n) bs =
    (case rd_string bs of
       (None, r) \<Rightarrow> (None, r)
     | (Some _, r) \<Rightarrow> (case rd_string r of (None, r) \<Rightarrow> (None, r) | (Some _, r) \<Rightarrow> rd_extended n r))"

definition flag_set :: "nat \<Rightarrow> nat \<Rightarrow> bool" where
  "flag_set flags f \<longleftrightarrow> flags AND f \<noteq> 0"

text \<open>Unknown flags are those outside the known mask.  The optional parts of an attribute block, each read when its flag is set.\<close>

definition rd_when :: "bool \<Rightarrow> 'a reader \<Rightarrow> 'a option reader" where
  "rd_when c rd bs =
    (if c then (case rd bs of (None, r) \<Rightarrow> (None, r) | (Some x, r) \<Rightarrow> (Some (Some x), r))
     else (Some None, bs))"

definition rd_pair :: "(nat \<times> nat) reader" where
  "rd_pair bs =
    (case rd_u32 bs of
       (None, r) \<Rightarrow> (None, r)
     | (Some a, r) \<Rightarrow> (case rd_u32 r of (None, r) \<Rightarrow> (None, r) | (Some b, r) \<Rightarrow> (Some (a, b), r)))"

definition rd_count_extended :: "unit reader" where
  "rd_count_extended bs =
    (case rd_u32 bs of (None, r) \<Rightarrow> (None, r) | (Some n, r) \<Rightarrow> rd_extended n r)"

definition known_attr_flags :: nat where
  "known_attr_flags = attr_size + attr_uidgid + attr_permissions + attr_acmodtime + attr_extended"

definition rd_attrs :: "requested_attrs reader" where
  "rd_attrs bs =
    (case rd_u32 bs of
       (None, r) \<Rightarrow> (None, r)
     | (Some flags, r) \<Rightarrow>
        (if flags AND known_attr_flags \<noteq> flags then (None, r)
         else (case rd_when (flag_set flags attr_size) rd_u64 r of
           (None, r) \<Rightarrow> (None, r)
         | (Some sz, r) \<Rightarrow>
        (case rd_when (flag_set flags attr_uidgid) (rd_take 8) r of
           (None, r) \<Rightarrow> (None, r)
         | (Some owner, r) \<Rightarrow>
        (case rd_when (flag_set flags attr_permissions) rd_u32 r of
           (None, r) \<Rightarrow> (None, r)
         | (Some permissions, r) \<Rightarrow>
        (case rd_when (flag_set flags attr_acmodtime) rd_pair r of
           (None, r) \<Rightarrow> (None, r)
         | (Some tms, r) \<Rightarrow>
        (case rd_when (flag_set flags attr_extended) rd_count_extended r of
           (None, r) \<Rightarrow> (None, r)
         | (Some _, r) \<Rightarrow>
            (Some \<lparr>ra_size = sz, ra_permissions = permissions, ra_times = tms,
                   ra_owner = (owner \<noteq> None)\<rparr>, r))))))))"

subsection \<open>Reported attributes\<close>

record attrs =
  at_size :: nat
  at_permissions :: nat
  at_mtime :: "nat option"
  at_atime :: "nat option"

definition mode_dir :: nat where "mode_dir = 0x41ED"
definition mode_file :: nat where "mode_file = 0x81A4"
definition write_bits :: nat where "write_bits = 0x92"

definition attrs_root :: attrs where
  "attrs_root = \<lparr>at_size = 0, at_permissions = mode_dir, at_mtime = None, at_atime = None\<rparr>"

definition clamp_u32 :: "int \<Rightarrow> nat" where
  "clamp_u32 t = nat (max 0 (min t (int u32_max)))"

definition attrs_of :: "'h file_entry \<Rightarrow> clock_config \<Rightarrow> attrs" where
  "attrs_of entry config =
    (let date = fdt_date (fe_modified entry); time = fdt_time (fe_modified entry);
         loc = seconds_from_civil (int ((drop_bit 9 date AND 0x7F) + 1980))
           (max (drop_bit 5 date AND 0x0F) 1) (max (date AND 0x1F) 1)
           (drop_bit 11 time AND 0x1F) (drop_bit 5 time AND 0x3F) ((time AND 0x1F) * 2);
         adate = fe_accessed entry;
         aloc = seconds_from_civil (int ((drop_bit 9 adate AND 0x7F) + 1980))
           (max (drop_bit 5 adate AND 0x0F) 1) (max (adate AND 0x1F) 1) 0 0 0;
         mode = (if fe_is_directory entry then mode_dir else mode_file)
     in \<lparr>at_size = (if fe_is_directory entry then 0 else fe_len entry),
         at_permissions = (if is_read_only entry then mode AND (0xFFFFFFFF - write_bits) else mode),
         at_mtime = Some (clamp_u32 (unix_from_local loc config)),
         at_atime = Some (clamp_u32 (unix_from_local aloc config))\<rparr>)"

definition attrs_encode :: "attrs \<Rightarrow> bytes" where
  "attrs_encode a =
    (let flags = attr_size + attr_permissions + (case at_mtime a of None \<Rightarrow> 0 | Some _ \<Rightarrow> attr_acmodtime)
     in put_u32 flags @ put_u64 (at_size a) @ put_u32 (at_permissions a)
        @ (case at_mtime a of
             None \<Rightarrow> []
           | Some mtime \<Rightarrow>
              put_u32 (case at_atime a of None \<Rightarrow> mtime | Some atime \<Rightarrow> atime) @ put_u32 mtime))"

subsection \<open>Metadata requests\<close>

definition fat_time :: "nat \<Rightarrow> clock_config \<Rightarrow> status + fat_date_time" where
  "fat_time unix config =
    (let time = date_time (local_seconds unix config) in
     if \<not> (1980 \<le> dt_year time \<and> dt_year time \<le> 2107)
     then Inl (Status fx_op_unsupported ''Timestamp is outside FAT's date range'')
     else Inr (fat_date_time_new (nat (dt_year time)) (dt_month time) (dt_day time) (dt_hour time)
       (dt_minute time) (dt_second time)))"

text \<open>\<open>None\<close> is \<open>Ok(())\<close>.\<close>

definition validate_attrs :: "requested_attrs \<Rightarrow> clock_config \<Rightarrow> status option" where
  "validate_attrs attrs config =
    (if ra_owner attrs then Some (Status fx_op_unsupported ''FAT has no UID/GID'')
     else if (case ra_size attrs of None \<Rightarrow> False | Some sz \<Rightarrow> u32_max < sz)
     then Some (st_failure ''File exceeds FAT's 4 GiB limit'')
     else (case ra_times attrs of
       None \<Rightarrow> None
     | Some (atime, mtime) \<Rightarrow>
        (case fat_time atime config of
           Inl e \<Rightarrow> Some e
         | Inr _ \<Rightarrow> (case fat_time mtime config of Inl e \<Rightarrow> Some e | Inr _ \<Rightarrow> None))))"

definition set_read_only :: "bool \<Rightarrow> nat \<Rightarrow> nat" where
  "set_read_only on flags =
    (if on then flags OR attr_read_only else flags - (flags AND attr_read_only))"

definition apply_times ::
  "('v, 'h) fat_ops \<Rightarrow> 'v \<Rightarrow> 'h file_entry \<Rightarrow> requested_attrs \<Rightarrow> clock_config \<Rightarrow> status option \<times> 'v" where
  "apply_times ops vol entry attrs config =
    (case ra_times attrs of
       None \<Rightarrow> (None, vol)
     | Some (atime, mtime) \<Rightarrow>
        (case fat_time mtime config of
           Inl e \<Rightarrow> (Some e, vol)
         | Inr modified \<Rightarrow>
            (case fat_time atime config of
               Inl e \<Rightarrow> (Some e, vol)
             | Inr accessed \<Rightarrow>
                (case vol_set_times ops vol entry modified (fdt_date accessed) of
                   (False, vol) \<Rightarrow> (Some (st_failure ''Cannot set FAT timestamps''), vol)
                 | (True, vol) \<Rightarrow> (None, vol)))))"

definition apply_metadata ::
  "('v, 'h) fat_ops \<Rightarrow> 'v \<Rightarrow> 'h file_entry \<Rightarrow> requested_attrs \<Rightarrow> clock_config \<Rightarrow> status option \<times> 'v" where
  "apply_metadata ops vol entry attrs config =
    (case apply_times ops vol entry attrs config of
       (Some e, vol) \<Rightarrow> (Some e, vol)
     | (None, vol) \<Rightarrow>
        (case ra_permissions attrs of
           None \<Rightarrow> (None, vol)
         | Some permissions \<Rightarrow>
            (case vol_set_attributes ops vol entry
                   (set_read_only (permissions AND write_bits = 0) (fe_attributes entry)) of
               (False, vol) \<Rightarrow> (Some (st_failure ''Cannot set FAT attributes''), vol)
             | (True, vol) \<Rightarrow> (None, vol))))"

definition same_path :: "string list \<Rightarrow> string \<Rightarrow> string list \<Rightarrow> string \<Rightarrow> bool" where
  "same_path a_parent a_leaf b_parent b_leaf \<longleftrightarrow>
    length a_parent = length b_parent \<and> eq_ignore_ascii_case a_leaf b_leaf
    \<and> list_all (\<lambda>(a, b). eq_ignore_ascii_case a b) (zip a_parent b_parent)"

subsection \<open>The interface: a codec\<close>

text \<open>What the request handlers rely on: reading what was written returns it and leaves exactly
  what followed.\<close>

locale wire_codec =
  fixes put :: "'a \<Rightarrow> bytes" and get :: "'a reader" and fits :: "'a \<Rightarrow> bool"
  assumes get_put: "fits x \<Longrightarrow> get (put x @ rest) = (Some x, rest)"
begin

lemma get_put_all: "fits x \<Longrightarrow> get (put x) = (Some x, [])"
  using get_put [of x "[]"] by simp

lemma put_injective: "fits x \<Longrightarrow> fits y \<Longrightarrow> put x @ r = put y @ s \<Longrightarrow> x = y \<and> r = s"
proof -
  assume "fits x" "fits y" and eq: "put x @ r = put y @ s"
  from get_put [OF this(1), of r] get_put [OF this(2), of s, folded eq] show ?thesis by simp
qed

text \<open>No encoding is a proper prefix of another, so a sequence of fields is read unambiguously.\<close>

lemma prefix_free: "fits x \<Longrightarrow> fits y \<Longrightarrow> put y = put x @ r \<Longrightarrow> r = []"
  using put_injective [of y x "[]" r] by auto

lemma get_when:
  "(c \<longrightarrow> fits x) \<Longrightarrow> rd_when c get ((if c then put x else []) @ rest)
    = (Some (if c then Some x else None), rest)"
  by (simp add: rd_when_def get_put)

end

lemma rd_take_append: "length xs = n \<Longrightarrow> rd_take n (xs @ rest) = (Some xs, rest)"
  by (auto simp: rd_take_def)

interpretation wire_u32: wire_codec put_u32 rd_u32 "\<lambda>v. v < 2 ^ 32"
  by unfold_locales (simp add: rd_u32_def rd_take_append put_u32_def)

interpretation wire_u64: wire_codec put_u64 rd_u64 "\<lambda>v. v < 2 ^ 64"
  by unfold_locales (simp add: rd_u64_def rd_take_append put_u64_def)

interpretation wire_string: wire_codec put_string rd_string "\<lambda>s. length s < 2 ^ 32"
  by unfold_locales (simp add: rd_string_def put_string_def wire_u32.get_put rd_take_append)

definition path_ok :: "string \<Rightarrow> bool" where
  "path_ok p \<longleftrightarrow> length p < 2 ^ 32 \<and> utf8_valid (to_bytes p) \<and> 0 \<notin> set (to_bytes p)"

interpretation wire_path: wire_codec "\<lambda>p. put_string (to_bytes p)" rd_path path_ok
  by unfold_locales (simp add: rd_path_def path_ok_def wire_string.get_put)

interpretation wire_pair: wire_codec "\<lambda>(a, b). put_u32 a @ put_u32 b" rd_pair
    "\<lambda>(a, b). a < 2 ^ 32 \<and> b < 2 ^ 32"
  by unfold_locales (auto simp: rd_pair_def wire_u32.get_put)

lemmas wire_get_put = wire_u32.get_put wire_u64.get_put wire_string.get_put wire_path.get_put
  wire_pair.get_put

subsection \<open>Requested attributes\<close>

text \<open>The attribute block a client sends for a request, without extended pairs.\<close>

definition request_flags :: "requested_attrs \<Rightarrow> nat" where
  "request_flags a = (if ra_size a \<noteq> None then attr_size else 0)
     + (if ra_owner a then attr_uidgid else 0)
     + (if ra_permissions a \<noteq> None then attr_permissions else 0)
     + (if ra_times a \<noteq> None then attr_acmodtime else 0)"

definition put_request_attrs :: "bytes \<Rightarrow> requested_attrs \<Rightarrow> bytes" where
  "put_request_attrs owner a = put_u32 (request_flags a)
     @ (case ra_size a of None \<Rightarrow> [] | Some v \<Rightarrow> put_u64 v)
     @ (if ra_owner a then owner else [])
     @ (case ra_permissions a of None \<Rightarrow> [] | Some v \<Rightarrow> put_u32 v)
     @ (case ra_times a of None \<Rightarrow> [] | Some (x, y) \<Rightarrow> put_u32 x @ put_u32 y)"

definition request_attrs_ok :: "requested_attrs \<Rightarrow> bool" where
  "request_attrs_ok a \<longleftrightarrow> (\<forall>v. ra_size a = Some v \<longrightarrow> v < 2 ^ 64)
     \<and> (\<forall>v. ra_permissions a = Some v \<longrightarrow> v < 2 ^ 32)
     \<and> (\<forall>x y. ra_times a = Some (x, y) \<longrightarrow> x < 2 ^ 32 \<and> y < 2 ^ 32)"

lemmas attr_flag_defs = attr_size_def attr_uidgid_def attr_permissions_def attr_acmodtime_def
  attr_extended_def known_attr_flags_def

lemma request_flags_bits:
  "flag_set (request_flags a) attr_size = (ra_size a \<noteq> None)"
  "flag_set (request_flags a) attr_uidgid = ra_owner a"
  "flag_set (request_flags a) attr_permissions = (ra_permissions a \<noteq> None)"
  "flag_set (request_flags a) attr_acmodtime = (ra_times a \<noteq> None)"
  "\<not> flag_set (request_flags a) attr_extended"
  "request_flags a AND known_attr_flags = request_flags a" "request_flags a < 4294967296"
  by (simp_all add: request_flags_def flag_set_def attr_flag_defs
      del: One_nat_def add_2_eq_Suc add_2_eq_Suc')

lemma rd_attrs_put:
  assumes "request_attrs_ok a" and "length owner = 8"
  shows "rd_attrs (put_request_attrs owner a @ rest) = (Some a, rest)"
proof -
  have parts: "ra_size a = Some v \<Longrightarrow> v < 2 ^ 64" "ra_permissions a = Some w \<Longrightarrow> w < 2 ^ 32"
    "ra_times a = Some (x, y) \<Longrightarrow> x < 2 ^ 32 \<and> y < 2 ^ 32" for v w x y
    using assms(1) by (auto simp: request_attrs_ok_def)
  have sz: "rd_when (ra_size a \<noteq> None) rd_u64 ((case ra_size a of None \<Rightarrow> [] | Some v \<Rightarrow> put_u64 v) @ r)
      = (Some (ra_size a), r)" for r
    using parts(1) by (cases "ra_size a") (simp_all add: rd_when_def wire_u64.get_put)
  have own: "rd_when (ra_owner a) (rd_take 8) ((if ra_owner a then owner else []) @ r)
      = (Some (if ra_owner a then Some owner else None), r)" for r
    using assms(2) by (simp add: rd_when_def rd_take_append)
  have perm: "rd_when (ra_permissions a \<noteq> None) rd_u32
      ((case ra_permissions a of None \<Rightarrow> [] | Some v \<Rightarrow> put_u32 v) @ r) = (Some (ra_permissions a), r)" for r
    using parts(2) by (cases "ra_permissions a") (simp_all add: rd_when_def wire_u32.get_put)
  have times: "rd_when (ra_times a \<noteq> None) rd_pair
      ((case ra_times a of None \<Rightarrow> [] | Some (x, y) \<Rightarrow> put_u32 x @ put_u32 y) @ r) = (Some (ra_times a), r)" for r
    using parts(3) wire_pair.get_put [of _ r]
    by (cases "ra_times a") (auto simp: rd_when_def split: prod.splits)
  have ext: "rd_when False rd_count_extended r = (Some None, r)" for r
    by (simp add: rd_when_def)
  have flags: "rd_u32 (put_u32 (request_flags a) @ r) = (Some (request_flags a), r)" for r
    using request_flags_bits(7) [of a] by (intro wire_u32.get_put) simp
  have ext_flag: "flag_set (request_flags a) attr_extended = False" using request_flags_bits(5) by simp
  have "rd_attrs (put_request_attrs owner a @ rest)
      = (Some \<lparr>ra_size = ra_size a, ra_permissions = ra_permissions a, ra_times = ra_times a,
           ra_owner = ((if ra_owner a then Some owner else None) \<noteq> None)\<rparr>, rest)"
    unfolding rd_attrs_def put_request_attrs_def append.assoc
    by (simp only: flags request_flags_bits(1-4,6) ext_flag sz own perm times ext prod.case option.case
        simp_thms if_False)
  then show ?thesis by simp
qed

subsection \<open>Reported attributes are valid requests\<close>

definition attrs_ok :: "attrs \<Rightarrow> bool" where
  "attrs_ok a \<longleftrightarrow> at_size a < 2 ^ 64 \<and> at_permissions a < 2 ^ 32
     \<and> (\<forall>t. at_mtime a = Some t \<longrightarrow> t < 2 ^ 32) \<and> (\<forall>t. at_atime a = Some t \<longrightarrow> t < 2 ^ 32)"

definition as_request :: "attrs \<Rightarrow> requested_attrs" where
  "as_request a = \<lparr>ra_size = Some (at_size a), ra_permissions = Some (at_permissions a),
     ra_times = (case at_mtime a of None \<Rightarrow> None
       | Some m \<Rightarrow> Some (case at_atime a of None \<Rightarrow> m | Some t \<Rightarrow> t, m)), ra_owner = False\<rparr>"

lemma attrs_encode_eq: "attrs_encode a = put_request_attrs owner (as_request a)"
  by (simp add: attrs_encode_def put_request_attrs_def as_request_def request_flags_def Let_def
      split: option.split)

lemma clamp_u32_less: "clamp_u32 t < 2 ^ 32"
  by (simp add: clamp_u32_def nat_less_iff)

lemma attrs_of_ok: "fe_len e < 2 ^ 64 \<Longrightarrow> attrs_ok (attrs_of e config)"
proof -
  assume "fe_len e < 2 ^ 64"
  moreover have "clamp_u32 t < 4294967296" for t using clamp_u32_less [of t] by simp
  ultimately show ?thesis
    by (simp add: attrs_ok_def attrs_of_def Let_def mode_dir_def mode_file_def write_bits_def)
qed

lemma attrs_round_trip:
  assumes "attrs_ok a"
  shows "rd_attrs (attrs_encode a @ rest) = (Some (as_request a), rest)"
proof -
  have "request_attrs_ok (as_request a)"
    using assms by (auto simp: request_attrs_ok_def as_request_def attrs_ok_def split: option.splits)
  then show ?thesis
    using rd_attrs_put [of "as_request a" "replicate 8 0" rest]
    by (simp add: attrs_encode_eq [of a "replicate 8 0"])
qed

lemma length_attrs_encode: "length (attrs_encode a) \<le> 24"
  by (simp add: attrs_encode_def Let_def split: option.split)

end
