(* ===== verification/Sftp_Server.thy ===== *)
theory Sftp_Server
  imports Sftp_Wire
begin

text \<open>
  The server of \<open>src/sftp.rs\<close>: the session state, the framing of requests and replies, the
  handle table, every request handler, and the three transfers that span several steps (a
  \<open>DATA\<close> reply, a \<open>WRITE\<close> payload, a growing resize).

  The card is optional, as in the code: \<open>None\<close> while USB DISK owns it.  A handler returns an
  optional status (\<open>None\<close> is \<open>Ok(())\<close>), the session and the volume.  The environment of a
  step holds the clock configuration, the text of \<open>storage::now_ymdhms\<close> and the microseconds
  that a card operation takes.  \<open>usize\<close> is 32 bits wide.  Buffer capacities are not modelled.
\<close>

subsection \<open>Limits and state\<close>

definition write_chunk_len :: nat where "write_chunk_len = 8192"
definition io_chunk :: nat where "io_chunk = 8192"
definition max_request :: nat where "max_request = 4096"
definition max_input :: nat where "max_input = write_chunk_len + 2048"
definition max_output :: nat where "max_output = io_chunk + 64"
definition max_read_reply :: nat where "max_read_reply = 32 * 1024"
definition max_handles :: nat where "max_handles = 8"
definition readdir_max_entries :: nat where "readdir_max_entries = 24"
definition readdir_max_bytes :: nat where "readdir_max_bytes = 3072"

lemmas limit_defs = write_chunk_len_def io_chunk_def max_request_def max_input_def max_output_def
  max_read_reply_def max_handles_def readdir_max_entries_def readdir_max_bytes_def

record 'h file_handle =
  fh_parent :: "string list"
  fh_leaf :: string
  fh_readable :: bool
  fh_writable :: bool
  fh_append_mode :: bool
  fh_size :: nat
  fh_append :: "'h option"
  fh_read_at :: "(nat \<times> 'h) option"

record dir_handle =
  dh_components :: "string list"
  dh_next :: nat

datatype 'h handle = File "'h file_handle" | Dir dir_handle

record read_stream =
  rs_slot :: nat
  rs_offset :: nat
  rs_remaining :: nat

record write_stream =
  ws_id :: nat
  ws_slot :: nat
  ws_remaining :: nat
  ws_offset :: nat
  ws_failed :: "status option"

record 'h resize_job =
  rj_id :: nat
  rj_components :: "string list"
  rj_attrs :: requested_attrs
  rj_file :: "'h file_handle"

record sftp_stats =
  st_bytes_read :: nat
  st_bytes_written :: nat
  st_requests :: nat
  st_card_read_us :: nat
  st_card_write_us :: nat

record 'h sftp =
  sf_input :: bytes
  sf_out :: bytes
  sf_read_stream :: "read_stream option"
  sf_write_stream :: "write_stream option"
  sf_resize :: "'h resize_job option"
  sf_skip :: nat
  sf_handles :: "'h handle option list"
  sf_generation :: nat
  sf_tokens :: "nat list"
  sf_fatal :: bool
  sf_card_budget :: bool
  sf_stats :: sftp_stats

record sftp_env =
  en_clock :: clock_config
  en_now :: string
  en_elapsed_us :: nat

definition sftp_new :: "'h sftp" where
  "sftp_new = \<lparr>sf_input = [], sf_out = [], sf_read_stream = None, sf_write_stream = None,
     sf_resize = None, sf_skip = 0, sf_handles = replicate max_handles None, sf_generation = 0,
     sf_tokens = replicate max_handles 0, sf_fatal = False, sf_card_budget = True,
     sf_stats = \<lparr>st_bytes_read = 0, st_bytes_written = 0, st_requests = 0, st_card_read_us = 0,
                 st_card_write_us = 0\<rparr>\<rparr>"

definition input_space :: "'h sftp \<Rightarrow> nat" where
  "input_space s = max_input - length (sf_input s)"

definition feed :: "bytes \<Rightarrow> 'h sftp \<Rightarrow> 'h sftp" where
  "feed bs s = s\<lparr>sf_input := sf_input s @ bs\<rparr>"

definition consume_output :: "nat \<Rightarrow> 'h sftp \<Rightarrow> 'h sftp" where
  "consume_output count s = s\<lparr>sf_out := drop (min count (length (sf_out s))) (sf_out s)\<rparr>"

definition transferring :: "'h sftp \<Rightarrow> bool" where
  "transferring s \<longleftrightarrow> sf_read_stream s \<noteq> None \<or> sf_write_stream s \<noteq> None \<or> sf_resize s \<noteq> None
     \<or> sf_out s \<noteq> [] \<or> sf_input s \<noteq> []"

definition has_open_handles :: "'h sftp \<Rightarrow> bool" where
  "has_open_handles s \<longleftrightarrow> list_ex (\<lambda>h. h \<noteq> None) (sf_handles s)"

definition begin_poll :: "'h sftp \<Rightarrow> 'h sftp" where
  "begin_poll s = s\<lparr>sf_card_budget := True\<rparr>"

subsection \<open>Replies\<close>

definition begin_reply :: "nat \<Rightarrow> 'h sftp \<Rightarrow> nat \<times> 'h sftp" where
  "begin_reply kind s = (length (sf_out s), s\<lparr>sf_out := sf_out s @ put_u32 0 @ [of_nat kind]\<rparr>)"

definition put_out :: "bytes \<Rightarrow> 'h sftp \<Rightarrow> 'h sftp" where
  "put_out bs s = s\<lparr>sf_out := sf_out s @ bs\<rparr>"

definition finish_reply :: "nat \<Rightarrow> 'h sftp \<Rightarrow> 'h sftp" where
  "finish_reply start s =
    s\<lparr>sf_out := splice_at start (put_u32 (length (sf_out s) - start - 4)) (sf_out s)\<rparr>"

text \<open>Most replies are a header, a payload and the patched length.\<close>

definition reply :: "nat \<Rightarrow> bytes \<Rightarrow> 'h sftp \<Rightarrow> 'h sftp" where
  "reply kind payload s = (let (start, s) = begin_reply kind s in finish_reply start (put_out payload s))"

definition send_status :: "nat \<Rightarrow> nat \<Rightarrow> string \<Rightarrow> 'h sftp \<Rightarrow> 'h sftp" where
  "send_status rid code message s =
    reply fxp_status (put_u32 rid @ put_u32 code @ put_string (to_bytes message) @ put_string []) s"

type_synonym ('h, 'v) outcome = "status option \<times> 'h sftp \<times> 'v"

definition send_ok :: "nat \<Rightarrow> 'h sftp \<Rightarrow> 'v \<Rightarrow> ('h, 'v) outcome" where
  "send_ok rid s vol = (None, send_status rid fx_ok ''OK'' s, vol)"

definition handle_reply :: "nat \<Rightarrow> nat \<Rightarrow> 'h sftp \<Rightarrow> 'h sftp" where
  "handle_reply rid slot s =
    reply fxp_handle (put_u32 rid @ put_string (put_u32 (sf_tokens s ! slot))) s"

subsection \<open>Handles\<close>

fun free_slot :: "'a option list \<Rightarrow> nat option" where
  "free_slot [] = None"
| "free_slot (None # hs) = Some 0"
| "free_slot (Some h # hs) = map_option Suc (free_slot hs)"

definition allocate :: "'h handle \<Rightarrow> 'h sftp \<Rightarrow> (status + nat) \<times> 'h sftp" where
  "allocate h s =
    (case free_slot (sf_handles s) of
       None \<Rightarrow> (Inl (st_failure ''Too many open handles''), s)
     | Some slot \<Rightarrow>
        (let generation = wrapping_add 32 (sf_generation s) 1 AND 0x00FFFFFF in
         (Inr slot, s\<lparr>sf_generation := generation,
                     sf_tokens := (sf_tokens s)[slot := push_bit 8 generation OR slot],
                     sf_handles := (sf_handles s)[slot := Some h]\<rparr>)))"

definition slot_of :: "bytes \<Rightarrow> 'h sftp \<Rightarrow> status + nat" where
  "slot_of token s =
    (if length token \<noteq> 4 then Inl (st_failure ''Invalid handle'')
     else let t = of_be token; slot = t AND 0xFF in
       if max_handles \<le> slot \<or> sf_handles s ! slot = None \<or> sf_tokens s ! slot \<noteq> t
       then Inl (st_failure ''Invalid handle'')
       else Inr slot)"

definition file_at :: "nat \<Rightarrow> 'h sftp \<Rightarrow> status + 'h file_handle" where
  "file_at slot s =
    (case sf_handles s ! slot of
       Some (File file) \<Rightarrow> Inr file
     | _ \<Rightarrow> Inl (st_failure ''Not a file handle''))"

definition set_file :: "nat \<Rightarrow> 'h file_handle \<Rightarrow> 'h sftp \<Rightarrow> 'h sftp" where
  "set_file slot file s = s\<lparr>sf_handles := (sf_handles s)[slot := Some (File file)]\<rparr>"

definition handle_components :: "nat \<Rightarrow> 'h sftp \<Rightarrow> status + string list" where
  "handle_components slot s =
    (case sf_handles s ! slot of
       Some (File file) \<Rightarrow> Inr (fh_parent file @ [fh_leaf file])
     | Some (Dir dir) \<Rightarrow> Inr (dh_components dir)
     | None \<Rightarrow> Inl (st_failure ''Invalid handle''))"

text \<open>\<open>invalidate_file\<close> drops the cached positions of every handle on a path,
  \<open>invalidate_written\<close> those of all other handles on the file just written through a slot.\<close>

definition forget_positions :: "'h file_handle \<Rightarrow> 'h file_handle" where
  "forget_positions file = file\<lparr>fh_append := None, fh_read_at := None\<rparr>"

definition invalidate_handle :: "string list \<Rightarrow> string \<Rightarrow> 'h handle option \<Rightarrow> 'h handle option" where
  "invalidate_handle parent leaf h =
    (case h of
       Some (File file) \<Rightarrow>
        (if same_path (fh_parent file) (fh_leaf file) parent leaf
         then Some (File (forget_positions file)) else h)
     | _ \<Rightarrow> h)"

definition invalidate_file :: "string list \<Rightarrow> string \<Rightarrow> 'h sftp \<Rightarrow> 'h sftp" where
  "invalidate_file parent leaf s = s\<lparr>sf_handles := map (invalidate_handle parent leaf) (sf_handles s)\<rparr>"

definition invalidate_other :: "'h file_handle \<Rightarrow> 'h handle option \<Rightarrow> 'h handle option" where
  "invalidate_other written h =
    (case h of
       Some (File other) \<Rightarrow>
        (if same_path (fh_parent written) (fh_leaf written) (fh_parent other) (fh_leaf other)
         then Some (File (forget_positions other)) else h)
     | _ \<Rightarrow> h)"

definition invalidate_written :: "nat \<Rightarrow> 'h sftp \<Rightarrow> 'h sftp" where
  "invalidate_written slot s =
    (case sf_handles s ! slot of
       Some (File written) \<Rightarrow>
        s\<lparr>sf_handles := map (invalidate_other written) (take slot (sf_handles s))
            @ Some (File (written\<lparr>fh_read_at := None\<rparr>))
            # map (invalidate_other written) (drop (Suc slot) (sf_handles s))\<rparr>
     | _ \<Rightarrow> s)"

subsection \<open>Early returns\<close>

text \<open>\<open>reader.x().ok_or_else(Status::bad_message)?\<close>, \<open>value.ok_or(status)?\<close> and
  \<open>self.slot_of(token)?\<close>.\<close>

definition with_arg ::
  "'a reader \<Rightarrow> bytes \<Rightarrow> 'h sftp \<Rightarrow> 'v \<Rightarrow> ('a \<Rightarrow> bytes \<Rightarrow> ('h, 'v) outcome) \<Rightarrow> ('h, 'v) outcome" where
  "with_arg rd body s vol k =
    (case rd body of (None, r) \<Rightarrow> (Some st_bad_message, s, vol) | (Some x, r) \<Rightarrow> k x r)"

definition require ::
  "'a option \<Rightarrow> status \<Rightarrow> 'h sftp \<Rightarrow> 'v \<Rightarrow> ('a \<Rightarrow> ('h, 'v) outcome) \<Rightarrow> ('h, 'v) outcome" where
  "require x e s vol k = (case x of None \<Rightarrow> (Some e, s, vol) | Some y \<Rightarrow> k y)"

definition attempt ::
  "status + 'a \<Rightarrow> 'h sftp \<Rightarrow> 'v \<Rightarrow> ('a \<Rightarrow> ('h, 'v) outcome) \<Rightarrow> ('h, 'v) outcome" where
  "attempt x s vol k = (case x of Inl e \<Rightarrow> (Some e, s, vol) | Inr y \<Rightarrow> k y)"

definition check_status ::
  "status option \<Rightarrow> 'h sftp \<Rightarrow> 'v \<Rightarrow> ('h, 'v) outcome \<Rightarrow> ('h, 'v) outcome" where
  "check_status x s vol k = (case x of Some e \<Rightarrow> (Some e, s, vol) | None \<Rightarrow> k)"

definition split_last :: "'a list \<Rightarrow> ('a \<times> 'a list) option" where
  "split_last xs = (if xs = [] then None else Some (last xs, butlast xs))"

subsection \<open>Reading and writing one chunk\<close>

definition seek_reader ::
  "('v, 'h) fat_ops \<Rightarrow> 'v \<Rightarrow> 'h file_entry \<Rightarrow> (nat \<times> 'h) option \<Rightarrow> nat \<Rightarrow> 'h option" where
  "seek_reader ops vol entry read_at offset =
    (case read_at of
       Some (at, cursor) \<Rightarrow>
        (if at = offset then reader_from_cursor ops vol entry cursor
         else Option.bind (reader_new ops vol entry) (\<lambda>r. reader_seek ops vol r offset))
     | None \<Rightarrow> Option.bind (reader_new ops vol entry) (\<lambda>r. reader_seek ops vol r offset))"

definition read_chunk ::
  "('v, 'h) fat_ops \<Rightarrow> 'v \<Rightarrow> 'h file_handle \<Rightarrow> nat \<Rightarrow> nat \<Rightarrow> bytes option \<times> 'h file_handle" where
  "read_chunk ops vol file offset count =
    (case find_in ops vol (fh_parent file) (fh_leaf file) of
       None \<Rightarrow> (None, file)
     | Some (entry, _) \<Rightarrow>
        (case seek_reader ops vol entry (fh_read_at file) offset of
           None \<Rightarrow> (None, file\<lparr>fh_read_at := None\<rparr>)
         | Some r \<Rightarrow>
            (case reader_read ops vol r count of
               None \<Rightarrow> (None, file\<lparr>fh_read_at := None\<rparr>)
             | Some (bs, r) \<Rightarrow>
                (Some bs, file\<lparr>fh_read_at := Some (offset + length bs, reader_cursor ops r)\<rparr>))))"

definition open_writer ::
  "('v, 'h) fat_ops \<Rightarrow> 'v \<Rightarrow> 'h file_entry \<Rightarrow> 'h option \<Rightarrow> nat \<Rightarrow> 'h option \<times> 'v" where
  "open_writer ops vol entry resume offset =
    (if offset = fe_len entry then
       (case resume of
          Some cursor \<Rightarrow> writer_append_from_cursor ops vol entry cursor
        | None \<Rightarrow> writer_append ops vol entry)
     else writer_at ops vol entry offset)"

definition write_chunk ::
  "('v, 'h) fat_ops \<Rightarrow> 'v \<Rightarrow> 'h file_handle \<Rightarrow> nat \<Rightarrow> bytes \<Rightarrow> status option \<times> 'h file_handle \<times> 'v" where
  "write_chunk ops vol file offset data =
    (case find_in ops vol (fh_parent file) (fh_leaf file) of
       None \<Rightarrow> (Some st_no_such_file, file, vol)
     | Some (entry, _) \<Rightarrow>
        if is_read_only entry then (Some (Status fx_permission_denied ''File is read-only''), file, vol)
        else (case checked_add 64 offset (length data) of
           None \<Rightarrow> (Some (st_failure ''File exceeds FAT's 4 GiB limit''), file, vol)
         | Some end_at \<Rightarrow>
            if u32_max < end_at then (Some (st_failure ''File exceeds FAT's 4 GiB limit''), file, vol)
            else if fe_len entry < offset
            then (Some (st_failure ''Gap must be zero-filled first''), file, vol)
            else
              let resume = (if fh_size file \<noteq> fe_len entry then None else fh_append file);
                  file = file\<lparr>fh_append := None\<rparr> in
              (case open_writer ops vol entry resume offset of
                 (None, vol) \<Rightarrow> (Some (st_failure ''SD write failed''), file, vol)
               | (Some w, vol) \<Rightarrow>
                  (case writer_write ops vol w data of
                     (None, vol) \<Rightarrow> (Some (st_failure ''SD write failed''), file, writer_drop ops vol w)
                   | (Some (written, w), vol) \<Rightarrow>
                      if written \<noteq> length data
                      then (Some (st_failure ''SD card full''), file, writer_drop ops vol w)
                      else
                        let cursor = (if fe_len entry \<le> end_at then Some (writer_append_cursor ops w) else None)
                        in (case writer_finish ops vol w of
                              (False, vol) \<Rightarrow> (Some (st_failure ''SD write failed''), file, vol)
                            | (True, vol) \<Rightarrow>
                               (None, file\<lparr>fh_append := cursor, fh_read_at := None,
                                          fh_size := max (fe_len entry) end_at\<rparr>, vol))))))"

end
