(* ===== verification/Sftp_Requests.thy ===== *)
theory Sftp_Requests
  imports Sftp_Server
begin

text \<open>
  The request handlers of \<open>src/sftp.rs\<close>, the transfers that continue over several steps, and
  \<open>step\<close> itself.  A step that would panic is \<open>None\<close>; the code has such places in
  \<open>continue_resize\<close> (three \<open>unwrap\<close>s).
\<close>

subsection \<open>Paths and attributes\<close>

definition sftp_realpath :: "nat \<Rightarrow> bytes \<Rightarrow> 'h sftp \<Rightarrow> 'v \<Rightarrow> ('h, 'v) outcome" where
  "sftp_realpath rid body s vol =
    with_arg rd_path body s vol (\<lambda>path _.
      let canonical = to_bytes (display (resolve [] path)) in
      (None, reply fxp_name (put_u32 rid @ put_u32 1 @ put_string canonical @ put_string canonical
         @ put_u32 0) s, vol))"

definition stat_components ::
  "('v, 'h) fat_ops \<Rightarrow> sftp_env \<Rightarrow> nat \<Rightarrow> string list \<Rightarrow> 'h sftp \<Rightarrow> 'v \<Rightarrow> ('h, 'v) outcome" where
  "stat_components ops env rid components s vol =
    (case split_last components of
       None \<Rightarrow> (None, reply fxp_attrs (put_u32 rid @ attrs_encode attrs_root) s, vol)
     | Some (leaf, parent) \<Rightarrow>
        require (find_in ops vol parent leaf) st_no_such_file s vol (\<lambda>(entry, _).
          (None, reply fxp_attrs (put_u32 rid @ attrs_encode (attrs_of entry (en_clock env))) s, vol)))"

definition stat_path ::
  "('v, 'h) fat_ops \<Rightarrow> sftp_env \<Rightarrow> nat \<Rightarrow> bytes \<Rightarrow> 'h sftp \<Rightarrow> 'v \<Rightarrow> ('h, 'v) outcome" where
  "stat_path ops env rid body s vol =
    with_arg rd_path body s vol (\<lambda>path _. stat_components ops env rid (resolve [] path) s vol)"

definition sftp_fstat ::
  "('v, 'h) fat_ops \<Rightarrow> sftp_env \<Rightarrow> nat \<Rightarrow> bytes \<Rightarrow> 'h sftp \<Rightarrow> 'v \<Rightarrow> ('h, 'v) outcome" where
  "sftp_fstat ops env rid body s vol =
    with_arg rd_string body s vol (\<lambda>token _.
    attempt (slot_of token s) s vol (\<lambda>slot.
    attempt (handle_components slot s) s vol (\<lambda>components.
      stat_components ops env rid components s vol)))"

subsection \<open>Directories\<close>

definition opendir_error :: "('v, 'h) fat_ops \<Rightarrow> 'v \<Rightarrow> string list \<Rightarrow> status" where
  "opendir_error ops vol components =
    (case split_last components of
       Some (leaf, parent) \<Rightarrow>
        (if find_in ops vol parent leaf \<noteq> None then st_failure ''Not a directory'' else st_no_such_file)
     | None \<Rightarrow> st_no_such_file)"

definition sftp_opendir ::
  "('v, 'h) fat_ops \<Rightarrow> nat \<Rightarrow> bytes \<Rightarrow> 'h sftp \<Rightarrow> 'v \<Rightarrow> ('h, 'v) outcome" where
  "sftp_opendir ops rid body s vol =
    with_arg rd_path body s vol (\<lambda>path _.
      let components = resolve [] path in
      if open_dir_path ops vol components = None
      then (Some (opendir_error ops vol components), s, vol)
      else (case allocate (Dir \<lparr>dh_components = components, dh_next = 0\<rparr>) s of
              (Inl e, s) \<Rightarrow> (Some e, s, vol)
            | (Inr slot, s) \<Rightarrow> (None, handle_reply rid slot s, vol)))"

definition readdir_entry :: "sftp_env \<Rightarrow> 'h file_entry \<Rightarrow> bytes" where
  "readdir_entry env entry =
    put_string (to_bytes (fe_name entry))
    @ put_string (to_bytes (long_listing_line (en_now env) entry))
    @ attrs_encode (attrs_of entry (en_clock env))"

text \<open>The walk over a directory: entries already sent are skipped, the batch ends at the entry or
  byte budget.  \<open>None\<close> is a read error.\<close>

fun readdir_loop ::
  "sftp_env \<Rightarrow> 'h file_entry option list \<Rightarrow> nat \<Rightarrow> nat \<Rightarrow> bytes \<Rightarrow> (nat \<times> bytes) option" where
  "readdir_loop env [] skip count entries = Some (count, entries)"
| "readdir_loop env (None # es) skip count entries = None"
| "readdir_loop env (Some entry # es) skip count entries =
    (if fe_name entry = ''.'' \<or> fe_name entry = ''..'' then readdir_loop env es skip count entries
     else if 0 < skip then readdir_loop env es (skip - 1) count entries
     else if readdir_max_entries \<le> count \<or> readdir_max_bytes \<le> length entries
     then Some (count, entries)
     else readdir_loop env es skip (count + 1) (entries @ readdir_entry env entry))"

definition readdir_batch ::
  "('v, 'h) fat_ops \<Rightarrow> sftp_env \<Rightarrow> nat \<Rightarrow> nat \<Rightarrow> dir_handle \<Rightarrow> 'h sftp \<Rightarrow> 'v \<Rightarrow> ('h, 'v) outcome" where
  "readdir_batch ops env rid slot dir s vol =
    require (open_dir_path ops vol (dh_components dir)) st_no_such_file s vol (\<lambda>fat_dir.
    require (readdir_loop env (dir_entries ops vol fat_dir) (dh_next dir) 0 [])
      (st_failure ''Directory read error'') s vol (\<lambda>(count, entries).
      let s = s\<lparr>sf_handles := (sf_handles s)
            [slot := Some (Dir (dir\<lparr>dh_next := dh_next dir + count\<rparr>))]\<rparr> in
      if count = 0 then (None, send_status rid fx_eof ''End of directory'' s, vol)
      else (None, reply fxp_name (put_u32 rid @ put_u32 count @ entries) s, vol)))"

definition sftp_readdir ::
  "('v, 'h) fat_ops \<Rightarrow> sftp_env \<Rightarrow> nat \<Rightarrow> bytes \<Rightarrow> 'h sftp \<Rightarrow> 'v \<Rightarrow> ('h, 'v) outcome" where
  "sftp_readdir ops env rid body s vol =
    with_arg rd_string body s vol (\<lambda>token _.
    attempt (slot_of token s) s vol (\<lambda>slot.
      case sf_handles s ! slot of
        Some (Dir dir) \<Rightarrow> readdir_batch ops env rid slot dir s vol
      | _ \<Rightarrow> (Some (st_failure ''Not a directory handle''), s, vol)))"

subsection \<open>Opening and closing\<close>

definition writable_flags :: "nat \<Rightarrow> bool" where
  "writable_flags flags \<longleftrightarrow> flag_set flags fxf_write"

definition readable_flags :: "nat \<Rightarrow> bool" where
  "readable_flags flags \<longleftrightarrow> flag_set flags fxf_read \<or> \<not> writable_flags flags"

text \<open>The match on the entry found: the size of the file that is opened, created or emptied.\<close>

definition open_entry ::
  "('v, 'h) fat_ops \<Rightarrow> nat \<Rightarrow> 'h \<Rightarrow> string list \<Rightarrow> string \<Rightarrow> 'h file_entry option \<Rightarrow> 'h sftp \<Rightarrow> 'v
    \<Rightarrow> (status + nat) \<times> 'h sftp \<times> 'v" where
  "open_entry ops flags dir parent leaf existing s vol =
    (case existing of
       Some entry \<Rightarrow>
        if fe_is_directory entry then (Inl (st_failure ''Is a directory''), s, vol)
        else if flag_set flags fxf_creat \<and> flag_set flags fxf_excl
        then (Inl (st_failure ''File exists''), s, vol)
        else if writable_flags flags \<and> is_read_only entry
        then (Inl (Status fx_permission_denied ''File is read-only''), s, vol)
        else if writable_flags flags \<and> flag_set flags fxf_trunc
        then (case vol_truncate ops vol entry 0 of
                (False, vol) \<Rightarrow> (Inl (st_failure ''Cannot truncate file''), s, vol)
              | (True, vol) \<Rightarrow> (Inr 0, invalidate_file parent leaf s, vol))
        else (Inr (fe_len entry), s, vol)
     | None \<Rightarrow>
        if writable_flags flags \<and> flag_set flags fxf_creat
        then (case vol_create_file ops vol dir leaf of
                (None, vol) \<Rightarrow> (Inl (st_failure ''Cannot create file''), s, vol)
              | (Some _, vol) \<Rightarrow> (Inr 0, s, vol))
        else (Inl st_no_such_file, s, vol))"

definition created_metadata ::
  "('v, 'h) fat_ops \<Rightarrow> sftp_env \<Rightarrow> bool \<Rightarrow> string list \<Rightarrow> string \<Rightarrow> requested_attrs \<Rightarrow> 'v
    \<Rightarrow> status option \<times> 'v" where
  "created_metadata ops env created parent leaf attrs vol =
    (if created then
       (case find_in ops vol parent leaf of
          None \<Rightarrow> (Some st_no_such_file, vol)
        | Some (entry, _) \<Rightarrow> apply_metadata ops vol entry attrs (en_clock env))
     else (None, vol))"

definition opened_file :: "nat \<Rightarrow> string list \<Rightarrow> string \<Rightarrow> nat \<Rightarrow> 'h file_handle" where
  "opened_file flags parent leaf sz =
    \<lparr>fh_parent = parent, fh_leaf = leaf, fh_readable = readable_flags flags,
     fh_writable = writable_flags flags, fh_append_mode = flag_set flags fxf_append,
     fh_size = sz, fh_append = None, fh_read_at = None\<rparr>"

definition open_found ::
  "('v, 'h) fat_ops \<Rightarrow> sftp_env \<Rightarrow> nat \<Rightarrow> nat \<Rightarrow> requested_attrs \<Rightarrow> 'h \<Rightarrow> string list \<Rightarrow> string
    \<Rightarrow> 'h file_entry option \<Rightarrow> 'h sftp \<Rightarrow> 'v \<Rightarrow> ('h, 'v) outcome" where
  "open_found ops env rid flags attrs dir parent leaf existing s vol =
    (case open_entry ops flags dir parent leaf existing s vol of
       (Inl e, s, vol) \<Rightarrow> (Some e, s, vol)
     | (Inr sz, s, vol) \<Rightarrow>
        (case created_metadata ops env (existing = None) parent leaf attrs vol of
           (Some e, vol) \<Rightarrow> (Some e, s, vol)
         | (None, vol) \<Rightarrow>
            (case allocate (File (opened_file flags parent leaf sz)) s of
               (Inl e, s) \<Rightarrow> (Some e, s, vol)
             | (Inr slot, s) \<Rightarrow> (None, handle_reply rid slot s, vol))))"

definition sftp_open ::
  "('v, 'h) fat_ops \<Rightarrow> sftp_env \<Rightarrow> nat \<Rightarrow> bytes \<Rightarrow> 'h sftp \<Rightarrow> 'v \<Rightarrow> ('h, 'v) outcome" where
  "sftp_open ops env rid body s vol =
    with_arg rd_path body s vol (\<lambda>path r.
    with_arg rd_u32 r s vol (\<lambda>flags r.
    with_arg rd_attrs r s vol (\<lambda>attrs _.
    check_status (validate_attrs attrs (en_clock env)) s vol (
    require (split_last (resolve [] path)) (st_failure ''Is a directory'') s vol (\<lambda>(leaf, parent).
    require (open_dir_path ops vol parent) st_no_such_file s vol (\<lambda>dir.
    require (dir_find ops vol dir leaf) (st_failure ''Directory read error'') s vol (\<lambda>existing.
      open_found ops env rid flags attrs dir parent leaf existing s vol)))))))"

definition sftp_close :: "nat \<Rightarrow> bytes \<Rightarrow> 'h sftp \<Rightarrow> 'v \<Rightarrow> ('h, 'v) outcome" where
  "sftp_close rid body s vol =
    with_arg rd_string body s vol (\<lambda>token _.
    attempt (slot_of token s) s vol (\<lambda>slot.
      send_ok rid (s\<lparr>sf_handles := (sf_handles s)[slot := None]\<rparr>) vol))"

subsection \<open>Reading\<close>

text \<open>The header of a \<open>DATA\<close> reply, with the length of a payload that follows chunk by chunk.\<close>

definition start_data :: "nat \<Rightarrow> nat \<Rightarrow> nat \<Rightarrow> nat \<Rightarrow> 'h sftp \<Rightarrow> 'h sftp" where
  "start_data rid slot offset len s =
    (let (start, s) = begin_reply fxp_data s;
         s = put_out (put_u32 rid @ put_u32 len) s;
         total = length (sf_out s) - start - 4 + len
     in s\<lparr>sf_out := splice_at start (put_u32 total) (sf_out s),
          sf_read_stream := Some \<lparr>rs_slot = slot, rs_offset = offset, rs_remaining = len\<rparr>\<rparr>)"

definition sftp_read ::
  "('v, 'h) fat_ops \<Rightarrow> nat \<Rightarrow> bytes \<Rightarrow> 'h sftp \<Rightarrow> 'v \<Rightarrow> ('h, 'v) outcome" where
  "sftp_read ops rid body s vol =
    with_arg rd_string body s vol (\<lambda>token r.
    with_arg rd_u64 r s vol (\<lambda>offset r.
    with_arg rd_u32 r s vol (\<lambda>wanted _.
    attempt (slot_of token s) s vol (\<lambda>slot.
    attempt (file_at slot s) s vol (\<lambda>file.
      if \<not> fh_readable file then (Some (st_failure ''Handle not open for reading''), s, vol)
      else require (find_in ops vol (fh_parent file) (fh_leaf file)) st_no_such_file s vol (\<lambda>(entry, _).
        let sz = fe_len entry in
        if sz \<le> offset \<or> wanted = 0 then (None, send_status rid fx_eof ''End of file'' s, vol)
        else
          (None, start_data rid slot offset
             (min (min wanted max_read_reply) (min (sz - offset) u32_max)) s, vol)))))))"

definition read_for_stream ::
  "('v, 'h) fat_ops \<Rightarrow> sftp_env \<Rightarrow> read_stream \<Rightarrow> nat \<Rightarrow> 'h sftp \<Rightarrow> 'v option \<Rightarrow> nat option \<times> 'h sftp" where
  "read_for_stream ops env stream chunk_len s vol =
    (case (vol, sf_handles s ! rs_slot stream) of
       (Some v, Some (File file)) \<Rightarrow>
        (case read_chunk ops v file (rs_offset stream) chunk_len of
           (r, file) \<Rightarrow>
            (map_option length r,
             set_file (rs_slot stream) file
               (s\<lparr>sf_out := sf_out s @ (case r of None \<Rightarrow> [] | Some bs \<Rightarrow> bs),
                 sf_stats := (sf_stats s)\<lparr>st_card_read_us :=
                   wrapping_add 64 (st_card_read_us (sf_stats s)) (en_elapsed_us env)\<rparr>\<rparr>)))
     | _ \<Rightarrow> (None, s))"

definition continue_read ::
  "('v, 'h) fat_ops \<Rightarrow> sftp_env \<Rightarrow> 'h sftp \<Rightarrow> 'v option \<Rightarrow> 'h sftp" where
  "continue_read ops env s vol =
    (case sf_read_stream s of
       None \<Rightarrow> s
     | Some stream \<Rightarrow>
        (case read_for_stream ops env stream (min (rs_remaining stream) io_chunk)
                (s\<lparr>sf_read_stream := None\<rparr>) vol of
           (Some n, s) \<Rightarrow>
             if 0 < n then
               let left = rs_remaining stream - n;
                   s = s\<lparr>sf_stats := (sf_stats s)\<lparr>st_bytes_read :=
                          wrapping_add 64 (st_bytes_read (sf_stats s)) n\<rparr>\<rparr>
               in if 0 < left
                  then s\<lparr>sf_read_stream := Some (stream\<lparr>rs_offset := rs_offset stream + n,
                                                     rs_remaining := left\<rparr>)\<rparr>
                  else s
             else s\<lparr>sf_fatal := True\<rparr>
         | (None, s) \<Rightarrow> s\<lparr>sf_fatal := True\<rparr>))"

subsection \<open>Writing\<close>

text \<open>The payload of a \<open>WRITE\<close> is accepted for a slot or, after a failed check, discarded.\<close>

definition write_check :: "bytes \<Rightarrow> nat \<Rightarrow> nat \<Rightarrow> 'h sftp \<Rightarrow> status + nat" where
  "write_check token offset data_len s =
    (case slot_of token s of
       Inl e \<Rightarrow> Inl e
     | Inr slot \<Rightarrow>
        (case file_at slot s of
           Inl e \<Rightarrow> Inl e
         | Inr file \<Rightarrow>
            if \<not> fh_writable file then Inl (st_failure ''Handle not open for writing'')
            else (case checked_add 64 offset data_len of
              None \<Rightarrow> Inl (st_failure ''File exceeds FAT's 4 GiB limit'')
            | Some end_at \<Rightarrow>
                if u32_max < end_at then Inl (st_failure ''File exceeds FAT's 4 GiB limit'')
                else Inr slot)))"

definition or_default :: "'a option \<Rightarrow> 'a \<Rightarrow> 'a" where
  "or_default x d = (case x of None \<Rightarrow> d | Some y \<Rightarrow> y)"

definition count_request :: "'h sftp \<Rightarrow> 'h sftp" where
  "count_request s =
    s\<lparr>sf_stats := (sf_stats s)\<lparr>st_requests := wrapping_add 32 (st_requests (sf_stats s)) 1\<rparr>\<rparr>"

definition begin_write :: "nat \<Rightarrow> 'h sftp \<Rightarrow> bool \<times> 'h sftp" where
  "begin_write len s =
    (if length (sf_input s) < 13 then (False, s)
     else
       let handle_len = of_be (slice_of 9 4 (sf_input s));
           header = wrapping_add 32 (wrapping_add 32 13 handle_len) 12 in
       if 64 < handle_len then (False, s\<lparr>sf_fatal := True\<rparr>)
       else if length (sf_input s) < header then (False, s)
       else
         let header_bytes = take header (sf_input s);
             s = count_request (s\<lparr>sf_input := drop header (sf_input s)\<rparr>);
             (rid, r) = rd_u32 (drop 5 header_bytes);
             (token, r) = rd_string r;
             (offset, r) = rd_u64 r;
             (data_len, r) = rd_u32 r;
             rid = or_default rid 0; token = or_default token [];
             offset = or_default offset 0; data_len = or_default data_len 0 in
         if len \<noteq> wrapping_add 32 (header - 4) data_len then (False, s\<lparr>sf_fatal := True\<rparr>)
         else
           let (slot, failed) = (case write_check token offset data_len s of
                                   Inr slot \<Rightarrow> (slot, None) | Inl e \<Rightarrow> (0, Some e)) in
           (True, s\<lparr>sf_write_stream := Some \<lparr>ws_id = rid, ws_slot = slot, ws_remaining = data_len,
              ws_offset = offset, ws_failed = failed\<rparr>\<rparr>))"

definition count_card_write :: "sftp_env \<Rightarrow> 'h sftp \<Rightarrow> 'h sftp" where
  "count_card_write env s =
    s\<lparr>sf_stats := (sf_stats s)\<lparr>st_card_write_us :=
      wrapping_add 64 (st_card_write_us (sf_stats s)) (en_elapsed_us env)\<rparr>\<rparr>"

text \<open>One write to the card.  \<open>Inl\<close> is the early return that puts the stream back (the file is
  gone, or one chunk of a gap was zero-filled); \<open>Inr\<close> the result of writing payload.\<close>

definition write_payload ::
  "('v, 'h) fat_ops \<Rightarrow> sftp_env \<Rightarrow> write_stream \<Rightarrow> 'h file_handle \<Rightarrow> nat \<Rightarrow> 'h sftp \<Rightarrow> 'v
    \<Rightarrow> (write_stream + status option) \<times> 'h sftp \<times> 'v" where
  "write_payload ops env stream file count s vol =
    (case find_in ops vol (fh_parent file) (fh_leaf file) of
       None \<Rightarrow> (Inl (stream\<lparr>ws_failed := Some st_no_such_file\<rparr>), s, vol)
     | Some (entry, _) \<Rightarrow>
        let offset = (if fh_append_mode file then fe_len entry else ws_offset stream);
            slot = ws_slot stream in
        if fe_len entry < offset then
          let n = min (offset - fe_len entry) write_chunk_len in
          (case write_chunk ops vol file (fe_len entry) (replicate n 0) of
             (Some e, file, vol) \<Rightarrow>
               (Inl (stream\<lparr>ws_failed := Some e\<rparr>), count_card_write env (set_file slot file s), vol)
           | (None, file, vol) \<Rightarrow>
               (Inl stream, invalidate_written slot (count_card_write env (set_file slot file s)), vol))
        else
          (case write_chunk ops vol file offset (take count (sf_input s)) of
             (r, file, vol) \<Rightarrow> (Inr r, count_card_write env (set_file slot file s), vol)))"

definition write_for_stream ::
  "('v, 'h) fat_ops \<Rightarrow> sftp_env \<Rightarrow> write_stream \<Rightarrow> nat \<Rightarrow> 'h sftp \<Rightarrow> 'v option
    \<Rightarrow> (write_stream + status option) \<times> 'h sftp \<times> 'v option" where
  "write_for_stream ops env stream count s vol =
    (case vol of
       None \<Rightarrow> (Inr (Some (st_failure ''SD card is in use by USB DISK'')), s, None)
     | Some v \<Rightarrow>
        (case sf_handles s ! ws_slot stream of
           Some (File file) \<Rightarrow>
            (case write_payload ops env stream file count s v of (r, s, v) \<Rightarrow> (r, s, Some v))
         | _ \<Rightarrow> (Inr (Some (st_failure ''Invalid handle'')), s, vol)))"

definition end_write :: "write_stream \<Rightarrow> 'h sftp \<Rightarrow> 'h sftp" where
  "end_write stream s =
    (if ws_remaining stream = 0 then
       (case ws_failed stream of
          None \<Rightarrow> send_status (ws_id stream) fx_ok ''OK'' s
        | Some (Status code message) \<Rightarrow> send_status (ws_id stream) code message s)
     else s\<lparr>sf_write_stream := Some stream\<rparr>)"

definition consume_payload :: "nat \<Rightarrow> write_stream \<Rightarrow> 'h sftp \<Rightarrow> 'h sftp" where
  "consume_payload count stream s =
    end_write (stream\<lparr>ws_remaining := ws_remaining stream - count\<rparr>)
      (s\<lparr>sf_input := drop count (sf_input s)\<rparr>)"

definition count_payload :: "nat \<Rightarrow> 'h sftp \<Rightarrow> 'h sftp" where
  "count_payload n s =
    s\<lparr>sf_stats := (sf_stats s)\<lparr>st_bytes_written :=
      wrapping_add 64 (st_bytes_written (sf_stats s)) n\<rparr>\<rparr>"

definition continue_write ::
  "('v, 'h) fat_ops \<Rightarrow> sftp_env \<Rightarrow> 'h sftp \<Rightarrow> 'v option \<Rightarrow> bool \<times> 'h sftp \<times> 'v option" where
  "continue_write ops env s vol =
    (case sf_write_stream s of
       None \<Rightarrow> (False, s, vol)
     | Some stream \<Rightarrow>
        let back = s; s = s\<lparr>sf_write_stream := None\<rparr> in
        if 0 < ws_remaining stream then
          let available = min (length (sf_input s)) (ws_remaining stream) in
          if available = 0 \<or> (available < write_chunk_len \<and> available < ws_remaining stream)
          then (False, back, vol)
          else
            let count = min available write_chunk_len in
            if ws_failed stream = None \<and> \<not> sf_card_budget s then (False, back, vol)
            else if ws_failed stream = None then
              (case write_for_stream ops env stream count (s\<lparr>sf_card_budget := False\<rparr>) vol of
                 (Inl stream, s, vol) \<Rightarrow> (True, s\<lparr>sf_write_stream := Some stream\<rparr>, vol)
               | (Inr None, s, vol) \<Rightarrow>
                   (True, consume_payload count (stream\<lparr>ws_offset := ws_offset stream + count\<rparr>)
                      (count_payload count (invalidate_written (ws_slot stream) s)), vol)
               | (Inr (Some e), s, vol) \<Rightarrow>
                   (True, consume_payload count (stream\<lparr>ws_failed := Some e\<rparr>) s, vol))
            else (True, consume_payload count stream s, vol)
        else (True, end_write stream s, vol))"

subsection \<open>Names\<close>

definition sftp_remove ::
  "('v, 'h) fat_ops \<Rightarrow> nat \<Rightarrow> bytes \<Rightarrow> 'h sftp \<Rightarrow> 'v \<Rightarrow> ('h, 'v) outcome" where
  "sftp_remove ops rid body s vol =
    with_arg rd_path body s vol (\<lambda>path _.
    require (split_last (resolve [] path)) (st_failure ''Is a directory'') s vol (\<lambda>(leaf, parent).
    require (find_in ops vol parent leaf) st_no_such_file s vol (\<lambda>(entry, _).
      if fe_is_directory entry then (Some (st_failure ''Is a directory''), s, vol)
      else if is_read_only entry
      then (Some (Status fx_permission_denied ''File is read-only''), s, vol)
      else (case vol_delete ops vol entry of
              (Some _, vol) \<Rightarrow> (Some (st_failure ''Cannot delete''), s, vol)
            | (None, vol) \<Rightarrow> send_ok rid s vol))))"

definition sftp_mkdir ::
  "('v, 'h) fat_ops \<Rightarrow> sftp_env \<Rightarrow> nat \<Rightarrow> bytes \<Rightarrow> 'h sftp \<Rightarrow> 'v \<Rightarrow> ('h, 'v) outcome" where
  "sftp_mkdir ops env rid body s vol =
    with_arg rd_path body s vol (\<lambda>path r.
    with_arg rd_attrs r s vol (\<lambda>attrs _.
    check_status (validate_attrs attrs (en_clock env)) s vol (
    if ra_size attrs \<noteq> None then (Some (st_failure ''Directory size cannot be set''), s, vol)
    else
    require (split_last (resolve [] path)) (st_failure ''Exists'') s vol (\<lambda>(leaf, parent).
    require (open_dir_path ops vol parent) st_no_such_file s vol (\<lambda>dir.
      case vol_create_dir ops vol dir leaf of
        (Inr _, vol) \<Rightarrow>
          require (find_in ops vol parent leaf) st_no_such_file s vol (\<lambda>(entry, _).
            case apply_metadata ops vol entry attrs (en_clock env) of
              (Some e, vol) \<Rightarrow> (Some e, s, vol)
            | (None, vol) \<Rightarrow> send_ok rid s vol)
      | (Inl Already_Exists, vol) \<Rightarrow> (Some (st_failure ''File exists''), s, vol)
      | (Inl _, vol) \<Rightarrow> (Some (st_failure ''Cannot create directory''), s, vol))))))"

definition sftp_rmdir ::
  "('v, 'h) fat_ops \<Rightarrow> nat \<Rightarrow> bytes \<Rightarrow> 'h sftp \<Rightarrow> 'v \<Rightarrow> ('h, 'v) outcome" where
  "sftp_rmdir ops rid body s vol =
    with_arg rd_path body s vol (\<lambda>path _.
    require (split_last (resolve [] path)) (st_failure ''Cannot remove the root'') s vol
      (\<lambda>(leaf, parent).
    require (find_in ops vol parent leaf) st_no_such_file s vol (\<lambda>(entry, _).
      if \<not> fe_is_directory entry then (Some (st_failure ''Not a directory''), s, vol)
      else (case vol_delete ops vol entry of
              (None, vol) \<Rightarrow> send_ok rid s vol
            | (Some Directory_Not_Empty, vol) \<Rightarrow> (Some (st_failure ''Directory not empty''), s, vol)
            | (Some _, vol) \<Rightarrow> (Some (st_failure ''Cannot remove directory''), s, vol)))))"

definition below_itself :: "string list \<Rightarrow> string list \<Rightarrow> bool" where
  "below_itself source target \<longleftrightarrow> length source < length target
     \<and> list_all (\<lambda>(left, right). eq_ignore_ascii_case left right)
         (zip (take (length source) target) source)"

definition sftp_rename ::
  "('v, 'h) fat_ops \<Rightarrow> nat \<Rightarrow> bytes \<Rightarrow> 'h sftp \<Rightarrow> 'v \<Rightarrow> ('h, 'v) outcome" where
  "sftp_rename ops rid body s vol =
    with_arg rd_path body s vol (\<lambda>old r.
    with_arg rd_path r s vol (\<lambda>new _.
      let source = resolve [] old; target = resolve [] new in
    require (split_last source) (st_failure ''Cannot rename the root'') s vol
      (\<lambda>(source_leaf, source_parent).
    require (split_last target) (st_failure ''Invalid target'') s vol (\<lambda>(target_leaf, target_parent).
      if below_itself source target
      then (Some (st_failure ''Cannot move a directory into itself''), s, vol)
      else
    require (find_in ops vol source_parent source_leaf) st_no_such_file s vol (\<lambda>(entry, _).
    require (open_dir_path ops vol target_parent) st_no_such_file s vol (\<lambda>dest.
      case vol_rename ops vol entry dest target_leaf of
        (None, vol) \<Rightarrow> send_ok rid s vol
      | (Some Already_Exists, vol) \<Rightarrow> (Some (st_failure ''Target exists''), s, vol)
      | (Some _, vol) \<Rightarrow> (Some (st_failure ''Rename failed''), s, vol)))))))"

subsection \<open>Metadata and resizing\<close>

definition new_resize ::
  "nat \<Rightarrow> string list \<Rightarrow> string list \<Rightarrow> string \<Rightarrow> requested_attrs \<Rightarrow> nat \<Rightarrow> 'h resize_job" where
  "new_resize rid components parent leaf attrs len =
    \<lparr>rj_id = rid, rj_components = components, rj_attrs = attrs,
     rj_file = \<lparr>fh_parent = parent, fh_leaf = leaf, fh_readable = False, fh_writable = True,
                fh_append_mode = False, fh_size = len, fh_append = None, fh_read_at = None\<rparr>\<rparr>"

text \<open>The tail of \<open>apply_setstat\<close>: metadata on the entry found again, then the answer.\<close>

definition finish_setstat ::
  "('v, 'h) fat_ops \<Rightarrow> sftp_env \<Rightarrow> nat \<Rightarrow> string list \<Rightarrow> string \<Rightarrow> requested_attrs \<Rightarrow> 'h sftp \<Rightarrow> 'v
    \<Rightarrow> ('h, 'v) outcome" where
  "finish_setstat ops env rid parent leaf attrs s vol =
    require (find_in ops vol parent leaf) st_no_such_file s vol (\<lambda>(entry, _).
      case apply_metadata ops vol entry attrs (en_clock env) of
        (Some e, vol) \<Rightarrow> (Some e, s, vol)
      | (None, vol) \<Rightarrow> send_ok rid (invalidate_file parent leaf s) vol)"

definition apply_setstat ::
  "('v, 'h) fat_ops \<Rightarrow> sftp_env \<Rightarrow> nat \<Rightarrow> string list \<Rightarrow> requested_attrs \<Rightarrow> 'h sftp \<Rightarrow> 'v
    \<Rightarrow> ('h, 'v) outcome" where
  "apply_setstat ops env rid components attrs s vol =
    check_status (validate_attrs attrs (en_clock env)) s vol (
    require (split_last components) (Status fx_op_unsupported ''Root metadata cannot be changed'') s vol
      (\<lambda>(leaf, parent).
    require (find_in ops vol parent leaf) st_no_such_file s vol (\<lambda>(entry, _).
      case ra_size attrs of
        None \<Rightarrow> finish_setstat ops env rid parent leaf attrs s vol
      | Some sz \<Rightarrow>
          if fe_is_directory entry then (Some (st_failure ''Cannot resize a directory''), s, vol)
          else if sz \<noteq> fe_len entry \<and> is_read_only entry
          then (Some (Status fx_permission_denied ''File is read-only''), s, vol)
          else if fe_len entry < sz
          then (None, s\<lparr>sf_resize := Some (new_resize rid components parent leaf attrs (fe_len entry))\<rparr>, vol)
          else if sz < fe_len entry
          then (case vol_truncate ops vol entry sz of
                  (False, vol) \<Rightarrow> (Some (st_failure ''Cannot truncate file''), s, vol)
                | (True, vol) \<Rightarrow> finish_setstat ops env rid parent leaf attrs s vol)
          else finish_setstat ops env rid parent leaf attrs s vol)))"

definition sftp_setstat ::
  "('v, 'h) fat_ops \<Rightarrow> sftp_env \<Rightarrow> nat \<Rightarrow> bytes \<Rightarrow> 'h sftp \<Rightarrow> 'v \<Rightarrow> ('h, 'v) outcome" where
  "sftp_setstat ops env rid body s vol =
    with_arg rd_path body s vol (\<lambda>path r.
    with_arg rd_attrs r s vol (\<lambda>attrs _.
      apply_setstat ops env rid (resolve [] path) attrs s vol))"

definition sftp_fsetstat ::
  "('v, 'h) fat_ops \<Rightarrow> sftp_env \<Rightarrow> nat \<Rightarrow> bytes \<Rightarrow> 'h sftp \<Rightarrow> 'v \<Rightarrow> ('h, 'v) outcome" where
  "sftp_fsetstat ops env rid body s vol =
    with_arg rd_string body s vol (\<lambda>token r.
    with_arg rd_attrs r s vol (\<lambda>attrs _.
    attempt (slot_of token s) s vol (\<lambda>slot.
    attempt (if ra_size attrs = None then Inr True
             else case file_at slot s of Inl e \<Rightarrow> Inl e | Inr file \<Rightarrow> Inr (fh_writable file)) s vol
      (\<lambda>allowed.
      if \<not> allowed then (Some (Status fx_permission_denied ''Handle not open for writing''), s, vol)
      else attempt (handle_components slot s) s vol (\<lambda>components.
        apply_setstat ops env rid components attrs s vol)))))"

text \<open>One step of a growing file: a chunk of zeros, or the metadata once the size is reached.
  \<open>None\<close> is a panic.\<close>

definition resize_chunk ::
  "('v, 'h) fat_ops \<Rightarrow> sftp_env \<Rightarrow> 'h resize_job \<Rightarrow> 'h sftp \<Rightarrow> 'v
    \<Rightarrow> ((status + bool) \<times> 'h resize_job \<times> 'h sftp \<times> 'v) option" where
  "resize_chunk ops env job s vol =
    (case split_last (rj_components job) of
       None \<Rightarrow> None
     | Some (leaf, parent) \<Rightarrow>
        (case find_in ops vol parent leaf of
           None \<Rightarrow> Some (Inl st_no_such_file, job, s, vol)
         | Some (entry, _) \<Rightarrow>
            (case ra_size (rj_attrs job) of
               None \<Rightarrow> None
             | Some target \<Rightarrow>
                if fe_len entry < target then
                  let count = min (target - fe_len entry) write_chunk_len in
                  (case write_chunk ops vol (rj_file job) (fe_len entry) (replicate count 0) of
                     (Some e, file, vol) \<Rightarrow> Some (Inl e, job\<lparr>rj_file := file\<rparr>, s, vol)
                   | (None, file, vol) \<Rightarrow>
                       Some (Inr False, job\<lparr>rj_file := file\<rparr>, invalidate_file parent leaf s, vol))
                else
                  (case apply_metadata ops vol entry (rj_attrs job) (en_clock env) of
                     (Some e, vol) \<Rightarrow> Some (Inl e, job, s, vol)
                   | (None, vol) \<Rightarrow> Some (Inr True, job, invalidate_file parent leaf s, vol)))))"

definition continue_resize ::
  "('v, 'h) fat_ops \<Rightarrow> sftp_env \<Rightarrow> 'h sftp \<Rightarrow> 'v option \<Rightarrow> ('h sftp \<times> 'v option) option" where
  "continue_resize ops env s vol =
    (case sf_resize s of
       None \<Rightarrow> None
     | Some job \<Rightarrow>
        let s = s\<lparr>sf_resize := None\<rparr> in
        (case vol of
           None \<Rightarrow> Some (send_status (rj_id job) fx_failure ''SD unavailable'' s, None)
         | Some v \<Rightarrow>
            (case resize_chunk ops env job s v of
               None \<Rightarrow> None
             | Some (Inr False, job, s, v) \<Rightarrow> Some (s\<lparr>sf_resize := Some job\<rparr>, Some v)
             | Some (Inr True, job, s, v) \<Rightarrow> Some (send_status (rj_id job) fx_ok ''OK'' s, Some v)
             | Some (Inl (Status code message), job, s, v) \<Rightarrow>
                 Some (send_status (rj_id job) code message s, Some v))))"

subsection \<open>Extensions\<close>

definition ext_limits :: bytes where "ext_limits = to_bytes ''limits@openssh.com''"
definition ext_fsync :: bytes where "ext_fsync = to_bytes ''fsync@openssh.com''"
definition ext_statvfs :: bytes where "ext_statvfs = to_bytes ''statvfs@openssh.com''"
definition ext_fstatvfs :: bytes where "ext_fstatvfs = to_bytes ''fstatvfs@openssh.com''"

definition put_u64s :: "nat list \<Rightarrow> bytes" where
  "put_u64s vs = concat (map put_u64 vs)"

definition statvfs_reply ::
  "('v, 'h) fat_ops \<Rightarrow> nat \<Rightarrow> string list \<Rightarrow> 'h sftp \<Rightarrow> 'v \<Rightarrow> ('h, 'v) outcome" where
  "statvfs_reply ops rid components s vol =
    (if (case split_last components of
           Some (leaf, parent) \<Rightarrow> find_in ops vol parent leaf = None
         | None \<Rightarrow> False)
     then (Some st_no_such_file, s, vol)
     else
       require (vol_free_clusters ops vol) (Status fx_op_unsupported ''FAT free-space count is unknown'')
         s vol (\<lambda>free.
         let total = vol_max_cluster ops vol - 1 in
         if total < free then (Some (st_failure ''Invalid FAT free-space count''), s, vol)
         else (None, reply fxp_extended_reply (put_u32 rid @ put_u64s
                [vol_cluster_size ops vol, vol_cluster_size ops vol, total, free, free, 0, 0, 0,
                 vol_volume_id ops vol, 0, 255]) s, vol)))"

definition sftp_extended ::
  "('v, 'h) fat_ops \<Rightarrow> nat \<Rightarrow> bytes \<Rightarrow> 'h sftp \<Rightarrow> 'v \<Rightarrow> ('h, 'v) outcome" where
  "sftp_extended ops rid body s vol =
    with_arg rd_string body s vol (\<lambda>name r.
      if name = ext_limits
      then (None, reply fxp_extended_reply (put_u32 rid
              @ put_u64s [65536, max_read_reply, 32768, max_handles]) s, vol)
      else if name = ext_fsync then
        with_arg rd_string r s vol (\<lambda>token _.
        attempt (slot_of token s) s vol (\<lambda>slot.
        attempt (file_at slot s) s vol (\<lambda>_.
          case vol_sync ops vol of
            (False, vol) \<Rightarrow> (Some (st_failure ''SD sync failed''), s, vol)
          | (True, vol) \<Rightarrow> send_ok rid s vol)))
      else if name = ext_statvfs then
        with_arg rd_path r s vol (\<lambda>path _. statvfs_reply ops rid (resolve [] path) s vol)
      else if name = ext_fstatvfs then
        with_arg rd_string r s vol (\<lambda>token _.
        attempt (slot_of token s) s vol (\<lambda>slot.
        attempt (handle_components slot s) s vol (\<lambda>components.
          statvfs_reply ops rid components s vol)))
      else (Some (Status fx_op_unsupported ''Extension not supported''), s, vol))"

subsection \<open>Framing and steps\<close>

definition version_payload :: bytes where
  "version_payload = put_u32 3 @ concat (map (\<lambda>(name, version). put_string name @ put_string (to_bytes version))
     [(ext_fsync, ''1''), (ext_statvfs, ''2''), (ext_fstatvfs, ''2''), (ext_limits, ''1'')])"

definition handle_request ::
  "('v, 'h) fat_ops \<Rightarrow> sftp_env \<Rightarrow> nat \<Rightarrow> nat \<Rightarrow> bytes \<Rightarrow> 'h sftp \<Rightarrow> 'v \<Rightarrow> ('h, 'v) outcome" where
  "handle_request ops env kind rid body s vol =
    (if kind = fxp_realpath then sftp_realpath rid body s vol
     else if kind = fxp_stat \<or> kind = fxp_lstat then stat_path ops env rid body s vol
     else if kind = fxp_fstat then sftp_fstat ops env rid body s vol
     else if kind = fxp_opendir then sftp_opendir ops rid body s vol
     else if kind = fxp_readdir then sftp_readdir ops env rid body s vol
     else if kind = fxp_open then sftp_open ops env rid body s vol
     else if kind = fxp_close then sftp_close rid body s vol
     else if kind = fxp_read then sftp_read ops rid body s vol
     else if kind = fxp_remove then sftp_remove ops rid body s vol
     else if kind = fxp_mkdir then sftp_mkdir ops env rid body s vol
     else if kind = fxp_rmdir then sftp_rmdir ops rid body s vol
     else if kind = fxp_rename then sftp_rename ops rid body s vol
     else if kind = fxp_setstat then sftp_setstat ops env rid body s vol
     else if kind = fxp_fsetstat then sftp_fsetstat ops env rid body s vol
     else if kind = fxp_extended then sftp_extended ops rid body s vol
     else (Some (Status fx_op_unsupported ''Operation not supported''), s, vol))"

definition dispatch ::
  "('v, 'h) fat_ops \<Rightarrow> sftp_env \<Rightarrow> nat \<Rightarrow> bytes \<Rightarrow> 'h sftp \<Rightarrow> 'v option \<Rightarrow> 'h sftp \<times> 'v option" where
  "dispatch ops env kind body s vol =
    (if kind = fxp_init then (reply fxp_version version_payload s, vol)
     else (case rd_u32 body of
       (None, _) \<Rightarrow> (s\<lparr>sf_fatal := True\<rparr>, vol)
     | (Some rid, r) \<Rightarrow>
        (case vol of
           None \<Rightarrow> (send_status rid fx_failure ''SD card is in use by USB DISK'' s, None)
         | Some v \<Rightarrow>
            (case handle_request ops env kind rid r s v of
               (Some (Status code message), s, v) \<Rightarrow> (send_status rid code message s, Some v)
             | (None, s, v) \<Rightarrow> (s, Some v)))))"

definition parse_next ::
  "('v, 'h) fat_ops \<Rightarrow> sftp_env \<Rightarrow> 'h sftp \<Rightarrow> 'v option \<Rightarrow> bool \<times> 'h sftp \<times> 'v option" where
  "parse_next ops env s vol =
    (if length (sf_input s) < 5 then (False, s, vol)
     else
       let len = of_be (take 4 (sf_input s)); kind = unat (sf_input s ! 4) in
       if len = 0 then (False, s\<lparr>sf_fatal := True\<rparr>, vol)
       else if kind = fxp_write then (case begin_write len s of (b, s) \<Rightarrow> (b, s, vol))
       else if max_request < len then
         (if length (sf_input s) < 9 then (False, s, vol)
          else
            let rid = of_be (slice_of 5 4 (sf_input s));
                s = send_status rid fx_bad_message ''Request too large'' s;
                whole = wrapping_add 32 4 len;
                have' = min (length (sf_input s)) whole in
            (True, s\<lparr>sf_input := drop have' (sf_input s), sf_skip := whole - have'\<rparr>, vol))
       else if length (sf_input s) < 4 + len then (False, s, vol)
       else if \<not> sf_card_budget s then (False, s, vol)
       else
         let packet = take (4 + len) (sf_input s);
             s = count_request (s\<lparr>sf_card_budget := False, sf_input := drop (4 + len) (sf_input s)\<rparr>) in
         (case dispatch ops env kind (drop 5 packet) s vol of (s, vol) \<Rightarrow> (True, s, vol)))"

definition sftp_step ::
  "('v, 'h) fat_ops \<Rightarrow> sftp_env \<Rightarrow> 'h sftp \<Rightarrow> 'v option \<Rightarrow> (bool \<times> 'h sftp \<times> 'v option) option" where
  "sftp_step ops env s vol =
    (if sf_fatal s then Some (False, s, vol)
     else if sf_out s \<noteq> [] then Some (False, s, vol)
     else if sf_resize s \<noteq> None then
       (if \<not> sf_card_budget s then Some (False, s, vol)
        else (case continue_resize ops env (s\<lparr>sf_card_budget := False\<rparr>) vol of
                None \<Rightarrow> None | Some (s, vol) \<Rightarrow> Some (True, s, vol)))
     else if sf_read_stream s \<noteq> None then
       (if \<not> sf_card_budget s then Some (False, s, vol)
        else Some (True, continue_read ops env (s\<lparr>sf_card_budget := False\<rparr>) vol, vol))
     else if sf_write_stream s \<noteq> None then Some (continue_write ops env s vol)
     else if 0 < sf_skip s then
       (let count = min (sf_skip s) (length (sf_input s)) in
        Some (0 < count, s\<lparr>sf_input := drop count (sf_input s), sf_skip := sf_skip s - count\<rparr>, vol))
     else Some (parse_next ops env s vol))"

end
