(* ===== verification/Sftp_Handles.thy ===== *)
theory Sftp_Handles
  imports Sftp_Requests
begin

text \<open>
  The frames and the handle table of the SFTP server.  A reply is appended to the output as one
  length-prefixed frame.  The handle table is stated as an interface, of which the allocation,
  lookup and closing of \<open>src/sftp.rs\<close> are an instance: open handles have distinct tokens, a
  token finds exactly its handle, and a closed handle's token is refused, for as long as fewer than
  $2^{24}$ handles are opened after it.
\<close>

subsection \<open>Frames\<close>

definition frame :: "nat \<Rightarrow> bytes \<Rightarrow> bytes" where
  "frame kind payload = put_u32 (1 + length payload) @ of_nat kind # payload"

lemma length_frame [simp, length_simps]: "length (frame kind payload) = 5 + length payload"
  by (simp add: frame_def)

lemma splice_prefix: "length xs = length ys \<Longrightarrow> splice_at (length a) ys (a @ xs @ b) = a @ ys @ b"
  by (simp add: splice_at_def)

lemma reply_eq: "reply kind payload s = s\<lparr>sf_out := sf_out s @ frame kind payload\<rparr>"
proof -
  have "splice_at (length a) (put_u32 (Suc n)) (a @ put_u32 0 @ b) = a @ put_u32 (Suc n) @ b" for a b n
    by (rule splice_prefix) simp
  then show ?thesis
    by (simp add: reply_def begin_reply_def finish_reply_def put_out_def frame_def Let_def)
qed

lemma reply_fields [simp, frame_simps]:
  "sf_input (reply k p s) = sf_input s" "sf_out (reply k p s) = sf_out s @ frame k p"
  "sf_read_stream (reply k p s) = sf_read_stream s" "sf_write_stream (reply k p s) = sf_write_stream s"
  "sf_resize (reply k p s) = sf_resize s" "sf_skip (reply k p s) = sf_skip s"
  "sf_handles (reply k p s) = sf_handles s" "sf_generation (reply k p s) = sf_generation s"
  "sf_tokens (reply k p s) = sf_tokens s" "sf_fatal (reply k p s) = sf_fatal s"
  "sf_card_budget (reply k p s) = sf_card_budget s" "sf_stats (reply k p s) = sf_stats s"
  by (simp_all add: reply_eq)

definition status_frame :: "nat \<Rightarrow> status \<Rightarrow> bytes" where
  "status_frame rid st =
    (case st of Status code message \<Rightarrow>
       frame fxp_status (put_u32 rid @ put_u32 code @ put_string (to_bytes message) @ put_string []))"

lemma send_status_eq:
  "send_status rid code message s = s\<lparr>sf_out := sf_out s @ status_frame rid (Status code message)\<rparr>"
  by (simp add: send_status_def reply_eq status_frame_def)

text \<open>A status reply determines the request and the code it carries.\<close>

lemma frame_inject: "length p < 4294967295 \<Longrightarrow> length q < 4294967295 \<Longrightarrow> k < 256 \<Longrightarrow> l < 256 \<Longrightarrow>
  frame k p @ r = frame l q @ t \<Longrightarrow> k = l \<and> p = q \<and> r = t"
proof -
  assume len: "length p < 4294967295" "length q < 4294967295" and kl: "k < 256" "l < 256"
    and eq: "frame k p @ r = frame l q @ t"
  from eq have "put_u32 (1 + length p) @ of_nat k # p @ r = put_u32 (1 + length q) @ of_nat l # q @ t"
    by (simp add: frame_def)
  then have "1 + length p = 1 + length q \<and> (of_nat k :: u8) # p @ r = of_nat l # q @ t"
    using len by (intro wire_u32.put_injective) simp_all
  then have "length p = length q" "(of_nat k :: u8) = of_nat l" "p @ r = q @ t" by simp_all
  moreover have "k = l"
  proof -
    have "k mod 2 ^ 8 = l mod 2 ^ 8"
      using arg_cong [OF \<open>(of_nat k :: u8) = of_nat l\<close>, of unat] by (simp only: unat_of_nat) simp
    with kl show ?thesis by simp
  qed
  ultimately show ?thesis by simp
qed

subsection \<open>The handle table interface\<close>

locale handle_table =
  fixes ok :: "'s \<Rightarrow> bool"
    and open_handle :: "'a \<Rightarrow> 's \<Rightarrow> ('e + nat) \<times> 's"
    and find_handle :: "bytes \<Rightarrow> 's \<Rightarrow> 'e + nat"
    and close_handle :: "nat \<Rightarrow> 's \<Rightarrow> 's"
    and token :: "'s \<Rightarrow> nat \<Rightarrow> bytes"
    and content :: "'s \<Rightarrow> nat \<Rightarrow> 'a option"
  assumes open_ok: "ok s \<Longrightarrow> open_handle h s = (r, s') \<Longrightarrow> ok s'"
    and close_ok: "ok s \<Longrightarrow> ok (close_handle i s)"
    and open_new: "ok s \<Longrightarrow> open_handle h s = (Inr i, s') \<Longrightarrow>
      content s i = None \<and> content s' = (content s)(i := Some h) \<and> (\<forall>j. j \<noteq> i \<longrightarrow> token s' j = token s j)"
    and open_fails: "ok s \<Longrightarrow> open_handle h s = (Inl e, s') \<Longrightarrow> s' = s"
    and close_content: "ok s \<Longrightarrow> content (close_handle i s) = (content s)(i := None)
      \<and> token (close_handle i s) = token s"
    and find_sound: "ok s \<Longrightarrow> find_handle t s = Inr i \<Longrightarrow> content s i \<noteq> None \<and> token s i = t"
    and find_complete: "ok s \<Longrightarrow> content s i = Some h \<Longrightarrow> find_handle (token s i) s = Inr i"
begin

lemma find_iff: "ok s \<Longrightarrow> find_handle t s = Inr i \<longleftrightarrow> content s i \<noteq> None \<and> token s i = t"
  using find_sound find_complete by blast

lemma tokens_distinct:
  "ok s \<Longrightarrow> content s i \<noteq> None \<Longrightarrow> content s j \<noteq> None \<Longrightarrow> token s i = token s j \<Longrightarrow> i = j"
  using find_iff [of s "token s i" i] find_iff [of s "token s i" j] by simp

lemma opened_is_found:
  assumes "ok s" "open_handle h s = (Inr i, s')"
  shows "find_handle (token s' i) s' = Inr i"
  using open_new [OF assms] open_ok [OF assms] find_complete by simp

lemma others_stay_found:
  assumes "ok s" "open_handle h s = (r, s')" "find_handle t s = Inr j"
  shows "find_handle t s' = Inr j"
proof (cases r)
  case (Inl e)
  then show ?thesis using open_fails assms by blast
next
  case (Inr i)
  have j: "content s j \<noteq> None" "token s j = t" using find_sound [OF assms(1,3)] by auto
  have op: "open_handle h s = (Inr i, s')" using assms(2) Inr by simp
  note new = open_new [OF assms(1) op]
  from new j have "j \<noteq> i" by auto
  with new j have "content s' j \<noteq> None \<and> token s' j = t" by simp
  then show ?thesis using find_iff [OF open_ok [OF assms(1,2)]] by blast
qed

lemma closed_is_refused:
  assumes "ok s" "find_handle t s = Inr i"
  shows "find_handle t (close_handle i s) \<noteq> Inr j"
proof
  assume found: "find_handle t (close_handle i s) = Inr j"
  note close_ok [OF assms(1), of i]
  from find_sound [OF this found] close_content [OF assms(1), of i]
  have "j \<noteq> i" "content s j \<noteq> None" "token s j = t" by (auto split: if_splits)
  with find_sound [OF assms] tokens_distinct [OF assms(1)] show False by blast
qed

lemma closing_keeps_others:
  assumes "ok s" "find_handle t s = Inr j" "j \<noteq> i"
  shows "find_handle t (close_handle i s) = Inr j"
  using find_iff [OF close_ok [OF assms(1)]] close_content [OF assms(1), of i]
    find_sound [OF assms(1,2)] assms(3) by simp

end

subsection \<open>The table of the server\<close>

definition table_ok :: "'h sftp \<Rightarrow> bool" where
  "table_ok s \<longleftrightarrow> length (sf_handles s) = max_handles \<and> length (sf_tokens s) = max_handles
     \<and> sf_generation s < 2 ^ 24
     \<and> (\<forall>i < max_handles. sf_handles s ! i \<noteq> None \<longrightarrow>
          sf_tokens s ! i < 2 ^ 32 \<and> sf_tokens s ! i mod 256 = i)"

definition close_slot :: "nat \<Rightarrow> 'h sftp \<Rightarrow> 'h sftp" where
  "close_slot slot s = s\<lparr>sf_handles := (sf_handles s)[slot := None]\<rparr>"

definition handle_in :: "'h sftp \<Rightarrow> nat \<Rightarrow> 'h handle option" where
  "handle_in s i = (if i < max_handles then sf_handles s ! i else None)"

definition token_of :: "'h sftp \<Rightarrow> nat \<Rightarrow> bytes" where
  "token_of s i = put_u32 (sf_tokens s ! i)"

lemma table_cong [frame_simps]:
  "sf_handles t = sf_handles s \<Longrightarrow> sf_tokens t = sf_tokens s \<Longrightarrow> sf_generation t = sf_generation s
    \<Longrightarrow> table_ok t = table_ok s"
  by (simp add: table_ok_def)

lemma table_ok_new: "table_ok sftp_new"
  by (simp add: table_ok_def sftp_new_def limit_defs)

lemma table_okD:
  assumes "table_ok s"
  shows "length (sf_handles s) = 8" "length (sf_tokens s) = 8" "sf_generation s < 16777216"
    "i < 8 \<Longrightarrow> sf_handles s ! i \<noteq> None \<Longrightarrow> sf_tokens s ! i < 4294967296 \<and> sf_tokens s ! i mod 256 = i"
  using assms by (simp_all add: table_ok_def max_handles_def)

lemma free_slot_Some: "free_slot hs = Some i \<Longrightarrow> i < length hs \<and> hs ! i = None"
  by (induction hs arbitrary: i rule: free_slot.induct) auto

lemma free_slot_None: "free_slot hs = None \<longleftrightarrow> None \<notin> set hs"
  by (induction hs rule: free_slot.induct) auto

lemma and_masks:
  fixes n :: nat
  shows "n AND 0xFF = n mod 256" "n AND 0x00FFFFFF = n mod 16777216"
proof -
  have "n AND (2 ^ k - 1) = n mod 2 ^ k" for k
    by (simp only: mask_eq_exp_minus_1 [symmetric] take_bit_eq_mask [symmetric] take_bit_eq_mod)
  from this [of 8] this [of 24] show "n AND 0xFF = n mod 256" "n AND 0x00FFFFFF = n mod 16777216"
    by simp_all
qed

lemma next_generation:
  "g < 16777216 \<Longrightarrow> wrapping_add 32 g 1 AND 0x00FFFFFF = (g + 1) mod 16777216"
proof -
  assume "g < 16777216"
  then have "wrapping_add 32 g 1 = g + 1" by (simp add: wrapping_add_def)
  then show ?thesis by (simp only: and_masks)
qed

definition new_token :: "nat \<Rightarrow> nat \<Rightarrow> nat" where
  "new_token g slot = (g + 1) mod 16777216 * 256 + slot"

lemma new_token_bounds: "slot < 8 \<Longrightarrow> new_token g slot < 4294967296 \<and> new_token g slot mod 256 = slot"
proof -
  assume slot: "slot < 8"
  define m where "m = (g + 1) mod 16777216"
  have "m \<le> 16777215" by (simp add: m_def)
  with slot show ?thesis by (simp add: new_token_def m_def [symmetric])
qed

lemma allocate_cases:
  assumes "table_ok s"
  shows "(\<exists>slot < 8. sf_handles s ! slot = None
      \<and> allocate h s = (Inr slot, s\<lparr>sf_generation := (sf_generation s + 1) mod 16777216,
          sf_tokens := (sf_tokens s)[slot := new_token (sf_generation s) slot],
          sf_handles := (sf_handles s)[slot := Some h]\<rparr>))
    \<or> (None \<notin> set (sf_handles s)
       \<and> allocate h s = (Inl (st_failure ''Too many open handles''), s))"
proof (cases "free_slot (sf_handles s)")
  case None
  then have "None \<notin> set (sf_handles s)" by (simp add: free_slot_None)
  moreover from None have "allocate h s = (Inl (st_failure ''Too many open handles''), s)"
    by (simp add: allocate_def)
  ultimately show ?thesis by blast
next
  case (Some slot)
  note free = free_slot_Some [OF Some]
  have slot: "slot < 8" using free table_okD(1) [OF assms] by simp
  have gen: "wrapping_add 32 (sf_generation s) 1 AND 0x00FFFFFF = (sf_generation s + 1) mod 16777216"
    by (rule next_generation [OF table_okD(3) [OF assms]])
  have "push_bit 8 ((sf_generation s + 1) mod 16777216) OR slot = new_token (sf_generation s) slot"
    using push_bit_or_eq_add [of slot 8 "(sf_generation s + 1) mod 16777216"] slot
    by (simp add: new_token_def)
  with Some slot free gen show ?thesis
    by (intro disjI1 exI [of _ slot]) (simp add: allocate_def Let_def)
qed

lemma table_okI:
  assumes "length (sf_handles s) = 8" "length (sf_tokens s) = 8" "sf_generation s < 16777216"
    and "\<And>i. i < 8 \<Longrightarrow> sf_handles s ! i \<noteq> None
      \<Longrightarrow> sf_tokens s ! i < 4294967296 \<and> sf_tokens s ! i mod 256 = i"
  shows "table_ok s"
  using assms by (simp add: table_ok_def max_handles_def)

lemma table_ok_allocate: "table_ok s \<Longrightarrow> allocate h s = (r, s') \<Longrightarrow> table_ok s'"
proof -
  assume ok: "table_ok s" and alloc: "allocate h s = (r, s')"
  note d = table_okD [OF ok]
  from allocate_cases [OF ok, of h] alloc consider (same) "s' = s"
    | (new) slot where "slot < 8" "s' = s\<lparr>sf_generation := (sf_generation s + 1) mod 16777216,
          sf_tokens := (sf_tokens s)[slot := new_token (sf_generation s) slot],
          sf_handles := (sf_handles s)[slot := Some h]\<rparr>" by force
  then show ?thesis
  proof cases
    case new
    show ?thesis
    proof (rule table_okI)
      fix i assume "i < 8" "sf_handles s' ! i \<noteq> None"
      then show "sf_tokens s' ! i < 4294967296 \<and> sf_tokens s' ! i mod 256 = i"
        using new d(1,2) d(4) [of i] new_token_bounds [OF new(1)] by (cases "i = slot") simp_all
    qed (use new d in simp_all)
  qed (simp add: ok)
qed

lemma table_ok_close: "table_ok s \<Longrightarrow> table_ok (close_slot i s)"
proof (rule table_okI)
  assume ok: "table_ok s"
  note d = table_okD [OF ok]
  show "length (sf_handles (close_slot i s)) = 8" "length (sf_tokens (close_slot i s)) = 8"
    "sf_generation (close_slot i s) < 16777216"
    using d(1-3) by (simp_all add: close_slot_def)
  fix j assume "j < 8" "sf_handles (close_slot i s) ! j \<noteq> None"
  then show "sf_tokens (close_slot i s) ! j < 4294967296 \<and> sf_tokens (close_slot i s) ! j mod 256 = j"
    using d(1) d(4) [of j] by (cases "i = j") (simp_all add: close_slot_def)
qed

lemma slot_of_iff:
  assumes "table_ok s"
  shows "slot_of t s = Inr i \<longleftrightarrow> handle_in s i \<noteq> None \<and> token_of s i = t"
proof
  assume "slot_of t s = Inr i"
  then have len: "length t = 4" and i: "i = of_be t mod 256" "i < 8" "sf_handles s ! i \<noteq> None"
    and tok: "sf_tokens s ! i = of_be t"
    by (auto simp: slot_of_def Let_def and_masks max_handles_def split: if_splits)
  from len tok have "token_of s i = t" using be_bytes_of_be [of t] by (simp add: token_of_def put_u32_def)
  with i show "handle_in s i \<noteq> None \<and> token_of s i = t" by (simp add: handle_in_def max_handles_def)
next
  assume h: "handle_in s i \<noteq> None \<and> token_of s i = t"
  then have i: "i < 8" "sf_handles s ! i \<noteq> None" by (auto simp: handle_in_def max_handles_def split: if_splits)
  note tok = table_okD(4) [OF assms i]
  from h tok have "of_be t = sf_tokens s ! i" "length t = 4" by (auto simp: token_of_def put_u32_def)
  with i tok show "slot_of t s = Inr i" by (simp add: slot_of_def Let_def and_masks max_handles_def)
qed

interpretation handles: handle_table table_ok allocate slot_of close_slot token_of handle_in
proof unfold_locales
  fix s s' :: "'a sftp" and h i
  assume ok: "table_ok s" and alloc: "allocate h s = (Inr i, s')"
  with allocate_cases [OF ok, of h] table_okD(1,2) [OF ok]
  show "handle_in s i = None \<and> handle_in s' = (handle_in s)(i := Some h)
      \<and> (\<forall>j. j \<noteq> i \<longrightarrow> token_of s' j = token_of s j)"
    by (auto simp: handle_in_def token_of_def fun_eq_iff max_handles_def)
next
  fix s s' :: "'a sftp" and h e
  assume ok: "table_ok s" and alloc: "allocate h s = (Inl e, s')"
  with allocate_cases [OF ok, of h] show "s' = s" by auto
next
  fix s :: "'a sftp" and i
  assume "table_ok s"
  then show "handle_in (close_slot i s) = (handle_in s)(i := None) \<and> token_of (close_slot i s) = token_of s"
    by (auto simp: handle_in_def token_of_def close_slot_def fun_eq_iff max_handles_def table_okD(1)
        nth_list_update)
qed (auto simp: table_ok_allocate table_ok_close slot_of_iff)

subsection \<open>Closed handles stay closed\<close>

text \<open>A history of the table: handles opened and slots closed, in any order.\<close>

datatype 'h table_event = Opened "'h handle" | Closed nat

primrec table_step :: "'h table_event \<Rightarrow> 'h sftp \<Rightarrow> 'h sftp" where
  "table_step (Opened h) s = snd (allocate h s)"
| "table_step (Closed i) s = close_slot i s"

definition table_run :: "'h table_event list \<Rightarrow> 'h sftp \<Rightarrow> 'h sftp" where
  "table_run es s = fold table_step es s"

lemma table_ok_step: "table_ok s \<Longrightarrow> table_ok (table_step e s)"
  by (cases e) (auto simp: table_ok_close intro: table_ok_allocate [OF _ surjective_pairing])

lemma table_ok_run: "table_ok s \<Longrightarrow> table_ok (table_run es s)"
  by (induction es arbitrary: s) (auto simp: table_run_def table_ok_step)

lemma step_generation:
  "table_ok s \<Longrightarrow> \<exists>m \<le> 1. sf_generation (table_step e s) = (sf_generation s + m) mod 16777216"
proof (cases e)
  case (Opened h)
  assume ok: "table_ok s"
  from allocate_cases [OF ok, of h] consider "sf_generation (table_step e s) = (sf_generation s + 1) mod 16777216"
    | "sf_generation (table_step e s) = sf_generation s"
    using Opened by auto
  then show ?thesis
  proof cases
    case 2
    then show ?thesis using table_okD(3) [OF ok] by (intro exI [of _ 0]) simp
  qed (auto intro: exI [of _ 1])
next
  case (Closed i)
  assume ok: "table_ok s"
  show ?thesis
    using Closed table_okD(3) [OF ok] by (intro exI [of _ 0]) (simp add: close_slot_def)
qed

lemma run_generation:
  "table_ok s \<Longrightarrow> \<exists>m \<le> length es. sf_generation (table_run es s) = (sf_generation s + m) mod 16777216"
proof (induction es arbitrary: s)
  case Nil
  then show ?case using table_okD(3) [OF Nil] by (intro exI [of _ 0]) (simp add: table_run_def)
next
  case (Cons e es)
  obtain m where m: "m \<le> 1" "sf_generation (table_step e s) = (sf_generation s + m) mod 16777216"
    using step_generation [OF Cons.prems] by blast
  obtain n where n: "n \<le> length es"
    "sf_generation (table_run es (table_step e s)) = (sf_generation (table_step e s) + n) mod 16777216"
    using Cons.IH [OF table_ok_step [OF Cons.prems]] by blast
  show ?case
  proof (intro exI conjI)
    show "m + n \<le> length (e # es)" using m(1) n(1) by simp
    show "sf_generation (table_run (e # es) s) = (sf_generation s + (m + n)) mod 16777216"
      using n(2) m(2) by (simp add: table_run_def mod_add_left_eq add.assoc)
  qed
qed

definition stale :: "nat \<Rightarrow> nat \<Rightarrow> 'h sftp \<Rightarrow> bool" where
  "stale g i s \<longleftrightarrow> \<not> (sf_handles s ! i \<noteq> None \<and> sf_tokens s ! i = g * 256 + i)"

lemma step_stale:
  assumes ok: "table_ok s" and i: "i < 8" and st: "stale g i s"
    and gen: "sf_generation s = (g + m) mod 16777216" "g < 16777216" "m + 1 < 16777216"
  shows "stale g i (table_step e s)"
proof (cases e)
  case (Closed j)
  then show ?thesis using st i table_okD(1) [OF ok]
    by (cases "i = j") (simp_all add: stale_def close_slot_def)
next
  case (Opened h)
  from allocate_cases [OF ok, of h] consider (same) "table_step e s = s"
    | (new) slot where "slot < 8" "table_step e s = s\<lparr>sf_generation := (sf_generation s + 1) mod 16777216,
          sf_tokens := (sf_tokens s)[slot := new_token (sf_generation s) slot],
          sf_handles := (sf_handles s)[slot := Some h]\<rparr>" using Opened by force
  then show ?thesis
  proof cases
    case new
    show ?thesis
    proof (cases "i = slot")
      case True
      have "(sf_generation s + 1) mod 16777216 = (g + (m + 1)) mod 16777216"
        by (simp add: gen(1) mod_Suc_eq)
      moreover have "(g + (m + 1)) mod 16777216 \<noteq> g"
      proof (cases "g + (m + 1) < 16777216")
        case False
        then have "(g + (m + 1)) mod 16777216 = g + (m + 1) - 16777216"
          using gen(2,3) by (simp add: mod_if)
        then show ?thesis using gen(3) False by simp
      qed simp
      ultimately have "new_token (sf_generation s) slot \<noteq> g * 256 + i"
        by (simp add: new_token_def True)
      then show ?thesis using new True table_okD(1,2) [OF ok] by (simp add: stale_def)
    qed (use new st in \<open>simp add: stale_def\<close>)
  qed (use st in simp)
qed

lemma run_stale:
  "table_ok s \<Longrightarrow> i < 8 \<Longrightarrow> stale g i s \<Longrightarrow> sf_generation s = (g + m) mod 16777216 \<Longrightarrow> g < 16777216
    \<Longrightarrow> m + length es < 16777216 \<Longrightarrow> stale g i (table_run es s)"
proof (induction es arbitrary: s m)
  case (Cons e es)
  have st: "stale g i (table_step e s)"
    using step_stale [OF Cons.prems(1-5), of e] Cons.prems(6) by simp
  obtain n where n: "n \<le> 1" "sf_generation (table_step e s) = (sf_generation s + n) mod 16777216"
    using step_generation [OF Cons.prems(1)] by blast
  have "sf_generation (table_step e s) = (g + (m + n)) mod 16777216"
    using n(2) Cons.prems(4) by (simp add: mod_add_left_eq add.assoc)
  from Cons.IH [OF table_ok_step [OF Cons.prems(1)] Cons.prems(2) st this Cons.prems(5)]
  show ?case using n(1) Cons.prems(6) by (simp add: table_run_def)
qed (simp add: table_run_def)

lemma stale_not_found:
  assumes "table_ok s" "stale g i s" "i < 8" "g < 16777216"
  shows "slot_of (put_u32 (g * 256 + i)) s \<noteq> Inr j"
proof
  assume "slot_of (put_u32 (g * 256 + i)) s = Inr j"
  then have j: "handle_in s j \<noteq> None" "token_of s j = put_u32 (g * 256 + i)"
    using slot_of_iff [OF assms(1)] by auto
  then have j8: "j < 8" "sf_handles s ! j \<noteq> None" by (auto simp: handle_in_def max_handles_def split: if_splits)
  note tok = table_okD(4) [OF assms(1) j8]
  have gi: "g * 256 + i < 4294967296" using assms(3,4) by simp
  have "of_be (token_of s j) = of_be (put_u32 (g * 256 + i))" using j(2) by simp
  with tok gi have eq: "sf_tokens s ! j = g * 256 + i" by (simp add: token_of_def put_u32_def)
  with tok assms(3) have "j = i" by simp
  with eq j8 assms(2) show False by (simp add: stale_def)
qed



end
