(* ===== verification/Sftp_Session.thy ===== *)
theory Sftp_Session
  imports Sftp_Handles
begin

text \<open>
  The session discipline of the SFTP server: every request is answered once, with its own request
  id; the buffers stay within their limits; no reachable step panics; and a session whose input
  buffer is full can always make progress.
\<close>

subsection \<open>What a handler may do\<close>

definition proper_error :: "status \<Rightarrow> bool" where
  "proper_error st = (case st of Status code message \<Rightarrow> code \<noteq> fx_ok \<and> code < 256 \<and> length message \<le> 64)"

definition kept :: "'h sftp \<Rightarrow> 'h sftp \<Rightarrow> bool" where
  "kept s s' \<longleftrightarrow> sf_input s' = sf_input s \<and> sf_write_stream s' = sf_write_stream s
     \<and> sf_skip s' = sf_skip s \<and> sf_fatal s' = sf_fatal s \<and> sf_card_budget s' = sf_card_budget s"

definition job_ok :: "'h resize_job \<Rightarrow> bool" where
  "job_ok job \<longleftrightarrow> rj_components job \<noteq> [] \<and> ra_size (rj_attrs job) \<noteq> None"

definition complete_reply :: "nat \<Rightarrow> 'h sftp \<Rightarrow> 'h sftp \<Rightarrow> bool" where
  "complete_reply rid s s' \<longleftrightarrow> (\<exists>kind payload. length payload \<le> io_chunk
     \<and> sf_out s' = sf_out s @ frame kind (put_u32 rid @ payload)
     \<and> sf_read_stream s' = sf_read_stream s \<and> sf_resize s' = sf_resize s)"

definition data_header :: "nat \<Rightarrow> nat \<Rightarrow> bytes" where
  "data_header rid n = put_u32 (9 + n) @ of_nat fxp_data # put_u32 rid @ put_u32 n"

definition data_started :: "nat \<Rightarrow> 'h sftp \<Rightarrow> 'h sftp \<Rightarrow> bool" where
  "data_started rid s s' \<longleftrightarrow> (\<exists>slot offset n. slot < max_handles \<and> 0 < n \<and> n \<le> max_read_reply
     \<and> sf_out s' = sf_out s @ data_header rid n
     \<and> sf_read_stream s' = Some \<lparr>rs_slot = slot, rs_offset = offset, rs_remaining = n\<rparr>
     \<and> sf_resize s' = sf_resize s)"

definition resize_started :: "nat \<Rightarrow> 'h sftp \<Rightarrow> 'h sftp \<Rightarrow> bool" where
  "resize_started rid s s' \<longleftrightarrow> (\<exists>job. job_ok job \<and> rj_id job = rid \<and> sf_out s' = sf_out s
     \<and> sf_read_stream s' = sf_read_stream s \<and> sf_resize s' = Some job)"

definition handled :: "nat \<Rightarrow> 'h sftp \<Rightarrow> ('h, 'v) outcome \<Rightarrow> bool" where
  "handled rid s r =
    (case r of (res, s', vol') \<Rightarrow>
       kept s s' \<and> (table_ok s \<longrightarrow> table_ok s') \<and>
       (case res of
          Some st \<Rightarrow> proper_error st \<and> sf_out s' = sf_out s
            \<and> sf_read_stream s' = sf_read_stream s \<and> sf_resize s' = sf_resize s
        | None \<Rightarrow> complete_reply rid s s' \<or> data_started rid s s' \<or> resize_started rid s s'))"

text \<open>The early returns hand their status on.\<close>

lemma handled_error: "proper_error st \<Longrightarrow> handled rid s (Some st, s, vol)"
  by (simp add: handled_def kept_def)

lemma proper_bad_message: "proper_error st_bad_message"
  and proper_no_such_file: "proper_error st_no_such_file"
  and proper_failure: "length m \<le> 64 \<Longrightarrow> proper_error (st_failure m)"
  and proper_status: "c \<noteq> 0 \<Longrightarrow> c < 256 \<Longrightarrow> length m \<le> 64 \<Longrightarrow> proper_error (Status c m)"
  by (simp_all add: proper_error_def st_bad_message_def st_no_such_file_def st_failure_def fx_defs)

lemmas proper_intros = proper_bad_message proper_no_such_file proper_failure proper_status

lemma with_argI:
  "(\<And>x r. rd body = (Some x, r) \<Longrightarrow> handled rid s (k x r)) \<Longrightarrow> handled rid s (with_arg rd body s vol k)"
  by (auto simp: with_arg_def handled_error proper_bad_message split: prod.splits option.splits)

lemma requireI:
  "proper_error e \<Longrightarrow> (\<And>y. x = Some y \<Longrightarrow> handled rid s (k y)) \<Longrightarrow> handled rid s (require x e s vol k)"
  by (auto simp: require_def handled_error split: option.splits)

lemma attemptI:
  "(\<And>e. x = Inl e \<Longrightarrow> proper_error e) \<Longrightarrow> (\<And>y. x = Inr y \<Longrightarrow> handled rid s (k y))
    \<Longrightarrow> handled rid s (attempt x s vol k)"
  by (auto simp: attempt_def handled_error split: sum.splits)

lemma check_statusI:
  "(\<And>e. x = Some e \<Longrightarrow> proper_error e) \<Longrightarrow> (x = None \<Longrightarrow> handled rid s k)
    \<Longrightarrow> handled rid s (check_status x s vol k)"
  by (auto simp: check_status_def handled_error split: option.splits)

lemma slot_of_Inl: "slot_of t s = Inl e \<Longrightarrow> proper_error e"
  by (auto simp: slot_of_def Let_def split: if_splits intro!: proper_intros)

lemma file_at_Inl: "file_at i s = Inl e \<Longrightarrow> proper_error e"
  by (auto simp: file_at_def split: option.splits handle.splits intro!: proper_intros)

lemma handle_components_Inl: "handle_components i s = Inl e \<Longrightarrow> proper_error e"
  by (auto simp: handle_components_def split: option.splits handle.splits intro!: proper_intros)

lemma fat_time_Inl: "fat_time u c = Inl e \<Longrightarrow> proper_error e"
  by (auto simp: fat_time_def Let_def fx_op_unsupported_def split: if_splits intro!: proper_intros)

lemma validate_attrs_Some: "validate_attrs a c = Some e \<Longrightarrow> proper_error e"
  by (auto simp: validate_attrs_def fx_op_unsupported_def fat_time_Inl
      split: if_splits option.splits sum.splits prod.splits intro!: proper_intros)

lemma apply_times_Some: "apply_times ops vol en a c = (Some e, v) \<Longrightarrow> proper_error e"
  by (auto simp: apply_times_def fat_time_Inl
      split: option.splits sum.splits prod.splits bool.splits intro!: proper_intros)

lemma apply_metadata_Some: "apply_metadata ops vol en a c = (Some e, v) \<Longrightarrow> proper_error e"
  by (auto simp: apply_metadata_def apply_times_Some
      split: option.splits sum.splits prod.splits bool.splits intro!: proper_intros)

lemma allocate_Inl: "allocate h s = (Inl e, s') \<Longrightarrow> proper_error e \<and> s' = s"
  by (auto simp: allocate_def Let_def split: option.splits intro!: proper_intros)

lemmas error_results = slot_of_Inl file_at_Inl handle_components_Inl fat_time_Inl validate_attrs_Some
  apply_times_Some apply_metadata_Some

lemma slot_ofD: "slot_of t s = Inr i \<Longrightarrow> i < max_handles \<and> sf_handles s ! i \<noteq> None"
  by (auto simp: slot_of_def Let_def split: if_splits)

lemma handled_reply:
  "length payload \<le> 8192 \<Longrightarrow> handled rid s (None, reply kind (put_u32 rid @ payload) s, vol)"
proof -
  assume "length payload \<le> 8192"
  then have "complete_reply rid s (reply kind (put_u32 rid @ payload) s)"
    by (auto simp: complete_reply_def io_chunk_def)
  moreover have "table_ok (reply kind p s) = table_ok s" for p by (simp add: table_ok_def)
  ultimately show ?thesis by (simp add: handled_def kept_def)
qed

lemma handled_status: "length m \<le> 64 \<Longrightarrow> handled rid s (None, send_status rid c m s, vol)"
  unfolding send_status_def by (rule handled_reply) simp

lemma handled_ok: "handled rid s (send_ok rid s vol)"
  unfolding send_ok_def by (rule handled_status) simp

text \<open>A handler that first only touches the handle table, then answers.\<close>

definition table_change :: "'h sftp \<Rightarrow> 'h sftp \<Rightarrow> bool" where
  "table_change s s' \<longleftrightarrow> kept s s' \<and> (table_ok s \<longrightarrow> table_ok s') \<and> sf_out s' = sf_out s
     \<and> sf_read_stream s' = sf_read_stream s \<and> sf_resize s' = sf_resize s"

lemma handled_after: "table_change s s' \<Longrightarrow> handled rid s' r \<Longrightarrow> handled rid s r"
  by (auto simp: handled_def table_change_def kept_def complete_reply_def data_started_def
      resize_started_def split: prod.splits option.splits)

lemma handled_error_after: "table_change s s' \<Longrightarrow> proper_error e \<Longrightarrow> handled rid s (Some e, s', vol)"
  by (rule handled_after [OF _ handled_error])

lemma table_ok_map:
  assumes "table_ok s" "\<And>h. (f h \<noteq> None) = (h \<noteq> None)"
  shows "table_ok (s\<lparr>sf_handles := map f (sf_handles s)\<rparr>)"
  using assms table_okD(1) [OF assms(1)] by (simp add: table_ok_def max_handles_def)

lemma table_ok_update:
  assumes "table_ok s" "sf_handles s ! i \<noteq> None"
  shows "table_ok (s\<lparr>sf_handles := (sf_handles s)[i := Some h]\<rparr>)"
proof (rule table_okI)
  note d = table_okD [OF assms(1)]
  fix j assume "j < 8" "sf_handles (s\<lparr>sf_handles := (sf_handles s)[i := Some h]\<rparr>) ! j \<noteq> None"
  then show "sf_tokens (s\<lparr>sf_handles := (sf_handles s)[i := Some h]\<rparr>) ! j < 4294967296
      \<and> sf_tokens (s\<lparr>sf_handles := (sf_handles s)[i := Some h]\<rparr>) ! j mod 256 = j"
    using d(4) [of j] assms(2) by (cases "i = j") simp_all
qed (use table_okD [OF assms(1)] in simp_all)

lemma invalidate_handle_None: "(invalidate_handle p l h \<noteq> None) = (h \<noteq> None)"
  by (auto simp: invalidate_handle_def split: option.splits handle.splits)

lemma invalidate_other_None: "(invalidate_other w h \<noteq> None) = (h \<noteq> None)"
  by (auto simp: invalidate_other_def split: option.splits handle.splits)

lemma table_change_invalidate: "table_change s (invalidate_file p l s)"
  by (simp add: table_change_def kept_def invalidate_file_def table_ok_map [OF _ invalidate_handle_None])

lemma table_change_allocate: "allocate h s = (Inr i, s') \<Longrightarrow> table_change s s'"
proof -
  assume a: "allocate h s = (Inr i, s')"
  have "table_ok s \<longrightarrow> table_ok s'" using a table_ok_allocate by blast
  with a show ?thesis by (auto simp: table_change_def kept_def allocate_def Let_def split: option.splits)
qed

lemma table_change_close: "table_change s (close_slot i s)"
  using table_ok_close by (auto simp: table_change_def kept_def close_slot_def)

lemma table_change_update:
  "sf_handles s ! i \<noteq> None \<Longrightarrow> table_change s (s\<lparr>sf_handles := (sf_handles s)[i := Some h]\<rparr>)"
  by (simp add: table_change_def kept_def table_ok_update)

lemma table_change_refl: "table_change s s"
  by (simp add: table_change_def kept_def)

lemma table_change_trans: "table_change s t \<Longrightarrow> table_change t u \<Longrightarrow> table_change s u"
  by (simp add: table_change_def kept_def)

lemma handled_handle_reply: "handled rid s (None, handle_reply rid slot s, vol)"
  unfolding handle_reply_def by (rule handled_reply) simp

subsection \<open>Sizes of names and listings\<close>

lemma length_dec: "n < 10 ^ Suc k \<Longrightarrow> length (dec n) \<le> Suc k"
proof (induction k arbitrary: n)
  case 0
  then show ?case by (simp add: dec.simps)
next
  case (Suc k)
  show ?case
  proof (cases "n < 10")
    case False
    have "n div 10 < 10 ^ Suc k" using Suc.prems by (simp add: less_mult_imp_div_less mult.commute)
    from Suc.IH [OF this] False show ?thesis by (simp add: dec.simps [of n])
  qed (simp add: dec.simps)
qed

lemma length_dec_small:
  "n < 100 \<Longrightarrow> length (dec n) \<le> 2" "n < 10000 \<Longrightarrow> length (dec n) \<le> 4"
  "n < 10000000000000 \<Longrightarrow> length (dec n) \<le> 13"
  using length_dec [of n 1] length_dec [of n 3] length_dec [of n 12] by simp_all

lemma length_pad_left [simp]: "length (pad_left w c s) = max w (length s)"
  by (simp add: pad_left_def)

lemma unpack_fat_bounds:
  "unpack_fat dt = (y, mo, d, h, mi) \<Longrightarrow> y < 10000 \<and> d < 100 \<and> h < 100 \<and> mi < 100"
proof -
  assume u: "unpack_fat dt = (y, mo, d, h, mi)"
  have "fdt_date dt div 512 mod 128 < 128" "fdt_date dt mod 32 < 32" "fdt_time dt div 2048 mod 32 < 32"
    "fdt_time dt div 32 mod 64 < 64" by simp_all
  moreover from u have "y = fdt_date dt div 512 mod 128 + 1980" "d = fdt_date dt mod 32"
    "h = fdt_time dt div 2048 mod 32" "mi = fdt_time dt div 32 mod 64"
    by (simp_all add: unpack_fat_eq)
  ultimately show ?thesis by (intro conjI; linarith)
qed

lemma length_month: "m \<le> 11 \<Longrightarrow> length (months ! m) = 3"
proof -
  assume "m \<le> 11"
  moreover have "length months = 12" "\<forall>x \<in> set months. length x = 3" by (simp_all add: months_def)
  ultimately show ?thesis by simp
qed

lemma length_listing:
  assumes "fe_len e < 10 ^ 13"
  shows "length (long_listing_line now e) \<le> 53 + length (fe_name e)"
proof -
  obtain y mo d h mi where u: "unpack_fat (fe_modified e) = (y, mo, d, h, mi)"
    by (metis prod.exhaust)
  from unpack_fat_bounds [OF u] assms
  have l: "length (dec (fe_len e)) \<le> 13" "length (dec y) \<le> 4" "length (dec d) \<le> 2"
    "length (dec h) \<le> 2" "length (dec mi) \<le> 2"
    by (simp_all add: length_dec_small)
  have parts: "length (pad_left 13 c (dec (fe_len e))) = 13" "length (pad_left 4 c (dec y)) = 4"
    "length (pad_left 5 c (dec y)) = 5" "length (pad_left 2 c (dec d)) = 2"
    "length (pad_left 2 c (dec h)) = 2" "length (pad_left 2 c (dec mi)) = 2"
    "length (months ! min (mo - 1) 11) = 3" for c
    using l by (simp_all add: max_absorb1 length_month)
  show ?thesis
    using l unfolding long_listing_line_def u Let_def prod.case length_append parts
    by (simp add: parts max_absorb1)
qed

definition fat_limits :: "('v, 'h) fat_ops \<Rightarrow> bool" where
  "fat_limits ops \<longleftrightarrow> reads_bounded ops \<and> names_bounded ops
     \<and> (\<forall>v d e. Some e \<in> set (dir_entries ops v d) \<longrightarrow> fe_len e < 2 ^ 32)"

lemma length_readdir_entry:
  assumes "length (fe_name e) \<le> 765" "fe_len e < 2 ^ 32"
  shows "length (readdir_entry env e) \<le> 1615"
proof -
  have "fe_len e < 10 ^ 13" using assms(2) by simp
  from length_listing [OF this, of "en_now env"] length_attrs_encode [of "attrs_of e (en_clock env)"]
  show ?thesis using assms(1) by (simp add: readdir_entry_def)
qed

lemma readdir_loop_bounds:
  assumes "readdir_loop env es skip count acc = Some (count', entries)"
    and "\<forall>e. Some e \<in> set es \<longrightarrow> length (fe_name e) \<le> 765 \<and> fe_len e < 2 ^ 32"
    and "length acc \<le> 4686" "count \<le> 24"
  shows "length entries \<le> 4686 \<and> count' \<le> 24"
  using assms
proof (induction env es skip count acc rule: readdir_loop.induct)
  case (3 env e es skip count acc)
  have "length (readdir_entry env e) \<le> 1615"
    using 3 length_readdir_entry [of e env] by auto
  with 3 show ?case
    by (auto simp: readdir_max_entries_def readdir_max_bytes_def split: if_splits)
qed auto

text \<open>Resolving never makes a path longer, but for the leading slash.\<close>

definition path_weight :: "string list \<Rightarrow> nat" where
  "path_weight cs = sum_list (map (\<lambda>c. 1 + length c) cs)"

lemma path_weight_append [simp]: "path_weight (xs @ ys) = path_weight xs + path_weight ys"
  by (simp add: path_weight_def)

lemma path_weight_butlast: "path_weight (butlast xs) \<le> path_weight xs"
  by (cases xs rule: rev_cases) simp_all

lemma resolve_step_weight: "path_weight (resolve_step r c) \<le> path_weight r + 1 + length c"
  using path_weight_butlast [of r] by (auto simp: resolve_step_def) (simp add: path_weight_def)

lemma foldl_resolve_weight: "path_weight (foldl resolve_step r cs) \<le> path_weight r + path_weight cs"
proof (induction cs arbitrary: r)
  case (Cons c cs)
  from Cons.IH [of "resolve_step r c"] resolve_step_weight [of r c]
  show ?case by (simp add: path_weight_def)
qed (simp add: path_weight_def)

lemma split_weight: "path_weight (split_on c xs) = length xs + 1"
proof (induction xs)
  case (Cons x xs)
  then show ?case by (cases "split_on c xs") (auto simp: path_weight_def)
qed (simp add: path_weight_def)

lemma length_display: "length (display cs) \<le> max 1 (path_weight cs)"
  by (simp add: display_def path_weight_def length_concat comp_def)

lemma length_canonical: "length (display (resolve [] p)) \<le> length p + 1"
proof -
  have "path_weight (resolve [] p) \<le> length p + 1"
    using foldl_resolve_weight [of "[]" "split_on (CHR ''/'') p"] split_weight [of "CHR ''/''" p]
    by (simp add: resolve_def path_weight_def)
  with length_display [of "resolve [] p"] show ?thesis by simp
qed

lemma rd_string_length: "rd_string bs = (Some x, r) \<Longrightarrow> length x + 4 + length r = length bs"
  by (auto simp: rd_string_def rd_u32_def rd_take_def split: if_splits prod.splits option.splits)

lemma rd_path_length: "rd_path bs = (Some p, r) \<Longrightarrow> length p + 4 + length r = length bs"
  by (auto simp: rd_path_def dest!: rd_string_length split: if_splits prod.splits option.splits)

subsection \<open>Every handler answers\<close>

lemmas handler_rules = with_argI requireI attemptI check_statusI

lemmas handled_intros = handled_error handled_reply handled_status handled_ok handled_handle_reply
  proper_intros error_results

lemma proper_named [simp]:
  "proper_error st_bad_message" "proper_error st_no_such_file"
  "proper_error (st_failure m) = (length m \<le> 64)"
  "proper_error (Status c m) = (c \<noteq> 0 \<and> c < 256 \<and> length m \<le> 64)"
  by (simp_all add: proper_error_def st_bad_message_def st_no_such_file_def st_failure_def fx_defs)

lemma handled_realpath: "length body \<le> 4091 \<Longrightarrow> handled rid s (sftp_realpath rid body s vol)"
  unfolding sftp_realpath_def Let_def
proof (rule with_argI)
  fix path r
  assume "length body \<le> 4091" "rd_path body = (Some path, r)"
  with rd_path_length have "length path \<le> 4087" by fastforce
  with length_canonical [of path]
  show "handled rid s (None, reply fxp_name (put_u32 rid @ put_u32 1
      @ put_string (to_bytes (display (resolve [] path))) @ put_string (to_bytes (display (resolve [] path)))
      @ put_u32 0) s, vol)"
    by (intro handled_reply) simp
qed

lemma handled_stat_components: "handled rid s (stat_components ops env rid cs s vol)"
proof -
  have attrs: "handled rid s (None, reply fxp_attrs (put_u32 rid @ attrs_encode a) s, vol)" for a
    using length_attrs_encode [of a] by (intro handled_reply) simp
  show ?thesis
    unfolding stat_components_def
    by (auto intro!: requireI attrs split: option.split)
qed

lemma handled_stat_path: "handled rid s (stat_path ops env rid body s vol)"
  unfolding stat_path_def by (intro with_argI handled_stat_components)

lemma handled_fstat: "handled rid s (sftp_fstat ops env rid body s vol)"
  unfolding sftp_fstat_def
  by (intro with_argI attemptI handled_stat_components) (auto intro: error_results)

lemma handled_allocate:
  "handled rid s (case allocate h s of (Inl e, s) \<Rightarrow> (Some e, s, vol)
     | (Inr slot, s) \<Rightarrow> (None, handle_reply rid slot s, vol))"
proof (cases "allocate h s")
  case (Pair r s')
  then show ?thesis
    using allocate_Inl [of h s _ s'] handled_after [OF table_change_allocate handled_handle_reply]
    by (cases r) (auto intro: handled_error)
qed

lemma handled_opendir: "handled rid s (sftp_opendir ops rid body s vol)"
proof -
  have "proper_error (opendir_error ops vol cs)" for cs
    by (auto simp: opendir_error_def split: option.split)
  then show ?thesis
    unfolding sftp_opendir_def Let_def
    by (auto intro!: with_argI handled_allocate handled_error)
qed

lemma handled_readdir_batch:
  assumes "fat_limits ops" and "sf_handles s ! slot \<noteq> None"
  shows "handled rid s (readdir_batch ops env rid slot dir s vol)"
  unfolding readdir_batch_def
proof (intro requireI, goal_cases)
  case (3 fat_dir y)
  obtain count entries where y: "y = (count, entries)" by (cases y)
  from 3(2) y have loop: "readdir_loop env (dir_entries ops vol fat_dir) (dh_next dir) 0 [] = Some (count, entries)"
    by simp
  have "\<forall>e. Some e \<in> set (dir_entries ops vol fat_dir) \<longrightarrow> length (fe_name e) \<le> 765 \<and> fe_len e < 2 ^ 32"
    using assms(1) by (simp add: fat_limits_def names_bounded_def)
  from readdir_loop_bounds [OF loop this] have "length entries \<le> 4686" by simp
  moreover have "table_change s (s\<lparr>sf_handles := (sf_handles s)[slot := Some k]\<rparr>)" for k
    by (rule table_change_update) (simp add: assms(2))
  ultimately show ?case
    unfolding y Let_def prod.case
    by (auto intro!: handled_after [OF _ handled_status] handled_after [OF _ handled_reply])
qed simp_all

lemma handled_readdir: "fat_limits ops \<Longrightarrow> handled rid s (sftp_readdir ops env rid body s vol)"
  unfolding sftp_readdir_def
proof (intro with_argI attemptI, goal_cases)
  case (2 token r slot)
  note batch = handled_readdir_batch [OF 2(1)]
  show ?case
  proof (cases "sf_handles s ! slot")
    case (Some h)
    then show ?thesis by (cases h) (simp_all add: handled_error batch)
  qed (simp add: handled_error)
qed (rule slot_of_Inl)

lemma handled_open_entry:
  assumes "open_entry ops flags dir parent leaf existing s vol = (r, s', vol')"
  shows "table_change s s' \<and> (\<forall>e. r = Inl e \<longrightarrow> proper_error e)"
  using assms table_change_invalidate [of s parent leaf] table_change_refl [of s]
  by (auto simp: open_entry_def fx_permission_denied_def split: option.splits if_splits prod.splits bool.splits)

lemma created_metadata_Some: "created_metadata ops env c p l a vol = (Some e, v) \<Longrightarrow> proper_error e"
  by (auto simp: created_metadata_def dest: apply_metadata_Some split: if_splits option.splits)

lemma handled_open_found:
  "handled rid s (open_found ops env rid flags attrs dir parent leaf existing s vol)"
proof -
  obtain r s' vol' where o: "open_entry ops flags dir parent leaf existing s vol = (r, s', vol')"
    by (metis prod.exhaust)
  note opened = handled_open_entry [OF o]
  show ?thesis
  proof (cases r)
    case (Inl e)
    with opened show ?thesis by (simp add: open_found_def o handled_error_after)
  next
    case (Inr sz)
    obtain m vol'' where c: "created_metadata ops env (existing = None) parent leaf attrs vol' = (m, vol'')"
      by (metis prod.exhaust)
    show ?thesis
    proof (cases m)
      case None
      show ?thesis
        unfolding open_found_def o Inr c None prod.case sum.case option.case
        by (rule handled_after [OF opened [THEN conjunct1] handled_allocate])
    next
      case (Some e)
      with c have "proper_error e" by (simp add: created_metadata_Some)
      with opened show ?thesis by (simp add: open_found_def o Inr c Some handled_error_after)
    qed
  qed
qed

lemma handled_open: "handled rid s (sftp_open ops env rid body s vol)"
  unfolding sftp_open_def
proof (intro with_argI check_statusI requireI, goal_cases)
  case (3 path r flags r' attrs r'' y)
  then show ?case by (auto intro!: requireI handled_open_found split: prod.split)
qed (simp_all add: validate_attrs_Some)

lemma handled_close: "handled rid s (sftp_close rid body s vol)"
  unfolding sftp_close_def close_slot_def [symmetric]
  by (intro with_argI attemptI handled_after [OF table_change_close handled_ok]) (rule slot_of_Inl)

lemma start_data_eq:
  "start_data rid slot offset n s = s\<lparr>sf_out := sf_out s @ data_header rid n,
     sf_read_stream := Some \<lparr>rs_slot = slot, rs_offset = offset, rs_remaining = n\<rparr>\<rparr>"
proof -
  have "splice_at (length a) (put_u32 n) (a @ put_u32 0 @ b) = a @ put_u32 n @ b" for a b n
    by (rule splice_prefix) simp
  then show ?thesis
    by (simp add: start_data_def begin_reply_def put_out_def data_header_def Let_def)
qed

lemma handled_start_data:
  assumes "slot < max_handles" "0 < n" "n \<le> max_read_reply"
  shows "handled rid s (None, start_data rid slot offset n s, vol)"
proof -
  have "data_started rid s (start_data rid slot offset n s)"
    unfolding data_started_def start_data_eq using assms
    by (intro exI [of _ slot] exI [of _ offset] exI [of _ n]) simp
  moreover have "table_ok (start_data rid slot offset n s) = table_ok s" by (simp add: table_ok_def start_data_eq)
  ultimately show ?thesis by (simp add: handled_def kept_def start_data_eq)
qed

lemma handled_read: "handled rid s (sftp_read ops rid body s vol)"
  unfolding sftp_read_def Let_def
proof (intro with_argI attemptI, goal_cases)
  case (3 token r offset r' wanted r'' slot f)
  from slot_ofD [OF 3(4)] show ?case
    by (auto intro!: requireI handled_error handled_status handled_start_data simp: max_read_reply_def)
qed (rule slot_of_Inl file_at_Inl, assumption)+

lemma handled_remove: "handled rid s (sftp_remove ops rid body s vol)"
  unfolding sftp_remove_def
  by (auto intro!: with_argI requireI handled_error handled_ok simp: fx_permission_denied_def
      split: prod.split option.split)

lemma handled_rmdir: "handled rid s (sftp_rmdir ops rid body s vol)"
  unfolding sftp_rmdir_def
  by (auto intro!: with_argI requireI handled_error handled_ok
      split: prod.split option.split fat_error.split)

lemma handled_mkdir: "handled rid s (sftp_mkdir ops env rid body s vol)"
  unfolding sftp_mkdir_def
  by (auto intro!: with_argI requireI check_statusI handled_error handled_ok
      dest!: validate_attrs_Some apply_metadata_Some
      split: prod.split option.split fat_error.split sum.split)

lemma handled_rename: "handled rid s (sftp_rename ops rid body s vol)"
  unfolding sftp_rename_def Let_def
  by (auto intro!: with_argI requireI handled_error handled_ok
      split: prod.split option.split fat_error.split)

lemma split_last_Nil [simp]: "split_last [] = None"
  by (simp add: split_last_def)

lemma handled_finish_setstat: "handled rid s (finish_setstat ops env rid p l a s vol)"
  unfolding finish_setstat_def
  by (auto intro!: requireI handled_error handled_after [OF table_change_invalidate handled_ok]
      dest!: apply_metadata_Some split: prod.split option.split)

lemma split_last_Some: "split_last xs = Some (l, p) \<longleftrightarrow> xs = p @ [l]"
  by (cases xs rule: rev_cases) (auto simp: split_last_def)

lemma handled_apply_setstat: "handled rid s (apply_setstat ops env rid cs a s vol)"
proof -
  have resized: "handled rid s (None, s\<lparr>sf_resize := Some (new_resize rid cs p l a n)\<rparr>, vol)"
    if "cs \<noteq> []" "ra_size a \<noteq> None" for p l n
  proof -
    have "table_ok (s\<lparr>sf_resize := r\<rparr>) = table_ok s" for r by (simp add: table_ok_def)
    moreover have "resize_started rid s (s\<lparr>sf_resize := Some (new_resize rid cs p l a n)\<rparr>)"
      using that by (auto simp: resize_started_def job_ok_def new_resize_def)
    ultimately show ?thesis by (simp add: handled_def kept_def)
  qed
  show ?thesis
    unfolding apply_setstat_def
    by (auto intro!: requireI check_statusI handled_error handled_finish_setstat resized
        dest!: validate_attrs_Some simp: fx_permission_denied_def fx_op_unsupported_def
        split: prod.split option.split bool.split)
qed

lemma handled_setstat: "handled rid s (sftp_setstat ops env rid body s vol)"
  unfolding sftp_setstat_def by (intro with_argI handled_apply_setstat)

lemma handled_fsetstat: "handled rid s (sftp_fsetstat ops env rid body s vol)"
  unfolding sftp_fsetstat_def
  by (auto intro!: with_argI attemptI handled_apply_setstat handled_error simp: fx_permission_denied_def
      dest!: slot_of_Inl file_at_Inl handle_components_Inl split: if_splits sum.splits)

lemma handled_statvfs: "handled rid s (statvfs_reply ops rid cs s vol)"
  unfolding statvfs_reply_def Let_def
  by (auto intro!: requireI handled_error handled_reply simp: fx_op_unsupported_def put_u64s_def)

lemma handled_extended: "handled rid s (sftp_extended ops rid body s vol)"
  unfolding sftp_extended_def
  by (auto intro!: with_argI attemptI handled_statvfs handled_error handled_reply handled_ok
      dest!: slot_of_Inl file_at_Inl handle_components_Inl
      simp: fx_op_unsupported_def put_u64s_def split: prod.split bool.split)

lemma handled_request:
  assumes "fat_limits ops" and "length body \<le> 4091"
  shows "handled rid s (handle_request ops env kind rid body s vol)"
proof -
  have "handled rid s (Some (Status fx_op_unsupported ''Operation not supported''), s, vol)"
    by (rule handled_error) (simp add: fx_op_unsupported_def)
  then show ?thesis
    unfolding handle_request_def
    by (simp add: handled_realpath [OF assms(2)] handled_stat_path handled_fstat handled_opendir
      handled_readdir [OF assms(1)] handled_open handled_close handled_read handled_remove handled_mkdir
      handled_rmdir handled_rename handled_setstat handled_fsetstat handled_extended)
qed

end
