(* ===== verification/Sftp_Steps.thy ===== *)
theory Sftp_Steps
  imports Sftp_Session
begin

text \<open>
  The session as a state machine: bytes are fed, output is taken, polls and steps alternate, and
  the card may change hands or contents between steps.  In every reachable session the buffers
  stay within their limits, at most one transfer is pending, and no step panics.
\<close>

subsection \<open>The session invariant\<close>

definition stream_ok :: "write_stream \<Rightarrow> bool" where
  "stream_ok st \<longleftrightarrow> ws_slot st < max_handles \<and> (\<forall>e. ws_failed st = Some e \<longrightarrow> proper_error e)"

definition session_ok :: "'h sftp \<Rightarrow> bool" where
  "session_ok s \<longleftrightarrow> table_ok s \<and> length (sf_input s) \<le> max_input \<and> length (sf_out s) \<le> max_output
     \<and> (\<forall>st. sf_read_stream s = Some st \<longrightarrow> rs_slot st < max_handles \<and> 0 < rs_remaining st
          \<and> rs_remaining st \<le> max_read_reply \<and> sf_write_stream s = None \<and> sf_resize s = None)
     \<and> (\<forall>st. sf_write_stream s = Some st \<longrightarrow> stream_ok st \<and> sf_resize s = None)
     \<and> (\<forall>job. sf_resize s = Some job \<longrightarrow> job_ok job)"

lemma session_ok_new: "session_ok sftp_new"
  using table_ok_new by (auto simp: session_ok_def sftp_new_def)

lemma session_ok_feed: "session_ok s \<Longrightarrow> length bs \<le> input_space s \<Longrightarrow> session_ok (feed bs s)"
  by (auto simp: session_ok_def feed_def input_space_def table_ok_def)

lemma session_ok_consume: "session_ok s \<Longrightarrow> session_ok (consume_output n s)"
  by (auto simp: session_ok_def consume_output_def table_ok_def)

lemma session_ok_poll: "session_ok s \<Longrightarrow> session_ok (begin_poll s)"
  by (auto simp: session_ok_def begin_poll_def table_ok_def)

lemma session_okD:
  assumes "session_ok s"
  shows "table_ok s" "length (sf_input s) \<le> max_input" "length (sf_out s) \<le> max_output"
    "sf_read_stream s = Some r \<Longrightarrow> rs_slot r < max_handles \<and> 0 < rs_remaining r
          \<and> rs_remaining r \<le> max_read_reply \<and> sf_write_stream s = None \<and> sf_resize s = None"
    "sf_write_stream s = Some w \<Longrightarrow> stream_ok w \<and> sf_resize s = None"
    "sf_resize s = Some job \<Longrightarrow> job_ok job"
  using assms by (auto simp: session_ok_def)

text \<open>A state with nothing pending whose output is small.\<close>

definition settled :: "'h sftp \<Rightarrow> bool" where
  "settled s \<longleftrightarrow> table_ok s \<and> length (sf_input s) \<le> max_input \<and> length (sf_out s) \<le> max_output
     \<and> sf_read_stream s = None \<and> sf_write_stream s = None \<and> sf_resize s = None"

lemma settled_session: "settled s \<Longrightarrow> session_ok s"
  by (simp add: settled_def session_ok_def)

lemma length_status_frame: "length (status_frame rid (Status c m)) = 21 + length m"
  by (simp add: status_frame_def)

lemma settled_status:
  "settled s \<Longrightarrow> sf_out s = [] \<Longrightarrow> length m \<le> 64 \<Longrightarrow> settled (send_status rid c m s)"
  by (auto simp: settled_def send_status_eq table_ok_def length_status_frame limit_defs)

lemma settled_change: "settled s \<Longrightarrow> table_change s s' \<Longrightarrow> settled s'"
  by (simp add: settled_def table_change_def kept_def)

lemma length_proper: "proper_error (Status c m) \<Longrightarrow> length m \<le> 64"
  by simp

subsection \<open>Transfers\<close>

lemma table_change_set_file:
  "sf_handles s ! i \<noteq> None \<Longrightarrow> table_change s (set_file i f s)"
  unfolding set_file_def by (rule table_change_update)

lemma table_change_stats: "table_change s (s\<lparr>sf_stats := st\<rparr>)"
  by (auto simp: table_change_def kept_def table_ok_def)

lemma table_change_written: "i < max_handles \<Longrightarrow> table_change s (invalidate_written i s)"
proof -
  assume i: "i < max_handles"
  have "table_ok (invalidate_written i s)" if ok: "table_ok s"
  proof (cases "\<exists>f. sf_handles s ! i = Some (File f)")
    case True
    then obtain f where f: "sf_handles s ! i = Some (File f)" by blast
    note d = table_okD [OF ok]
    have len: "i < length (sf_handles s)" using i d(1) by (simp add: max_handles_def)
    let ?t = "invalidate_written i s"
    have hs: "sf_handles ?t = (map (invalidate_other f) (sf_handles s))
        [i := Some (File (f\<lparr>fh_read_at := None\<rparr>))]"
      using len by (simp add: invalidate_written_def f upd_conv_take_nth_drop take_map drop_map)
    show ?thesis
    proof (rule table_okI)
      show "length (sf_handles ?t) = 8" by (simp add: hs d(1))
      show "length (sf_tokens ?t) = 8" "sf_generation ?t < 16777216"
        using d(2,3) by (simp_all add: invalidate_written_def f)
      fix j assume j: "j < 8" "sf_handles ?t ! j \<noteq> None"
      have "sf_handles s ! j \<noteq> None"
      proof (cases "i = j")
        case False
        with j hs d(1) have "invalidate_other f (sf_handles s ! j) \<noteq> None" by simp
        then show ?thesis by (simp only: invalidate_other_None simp_thms)
      qed (use f in simp)
      with d(4) [of j] j show "sf_tokens ?t ! j < 4294967296 \<and> sf_tokens ?t ! j mod 256 = j"
        by (simp add: invalidate_written_def f)
    qed
  next
    case False
    then have "invalidate_written i s = s"
      by (auto simp: invalidate_written_def split: option.split handle.split)
    with ok show ?thesis by simp
  qed
  then show ?thesis
    by (auto simp: table_change_def kept_def invalidate_written_def split: option.split handle.split)
qed

lemma write_chunk_Some: "write_chunk ops vol f off d = (Some e, f', v) \<Longrightarrow> proper_error e"
  by (auto simp: write_chunk_def Let_def fx_permission_denied_def
      split: option.splits if_splits prod.splits bool.splits)

lemma write_payload_result:
  assumes "write_payload ops env st f count s vol = (r, s', vol')"
    and "sf_handles s ! ws_slot st = Some (File f)" "stream_ok st" "ws_failed st = None"
  shows "table_change s s' \<and> (\<forall>st'. r = Inl st' \<longrightarrow> stream_ok st' \<and> ws_remaining st' = ws_remaining st)
    \<and> (\<forall>e. r = Inr (Some e) \<longrightarrow> proper_error e)"
proof -
  have slot: "ws_slot st < max_handles" using assms(3) by (simp add: stream_ok_def)
  have put: "table_change s (count_card_write env (set_file (ws_slot st) g s))" for g
    unfolding count_card_write_def
    by (rule table_change_trans [OF table_change_set_file table_change_stats]) (simp add: assms(2))
  note wr = table_change_trans [OF put table_change_written [OF slot]]
  show ?thesis
    using assms(1,3,4) put wr write_chunk_Some
    by (fastforce simp: write_payload_def Let_def stream_ok_def table_change_refl
        split: option.splits if_splits prod.splits)
qed

lemma write_for_stream_result:
  assumes "write_for_stream ops env st count s vol = (r, s', vol')" "stream_ok st" "ws_failed st = None"
  shows "table_change s s' \<and> (\<forall>st'. r = Inl st' \<longrightarrow> stream_ok st' \<and> ws_remaining st' = ws_remaining st)
    \<and> (\<forall>e. r = Inr (Some e) \<longrightarrow> proper_error e)"
proof (cases "\<exists>v f. vol = Some v \<and> sf_handles s ! ws_slot st = Some (File f)")
  case True
  then obtain v f where v: "vol = Some v" "sf_handles s ! ws_slot st = Some (File f)" by blast
  obtain r2 s2 v2 where w: "write_payload ops env st f count s v = (r2, s2, v2)" by (metis prod.exhaust)
  with assms(1) v have "r = r2" "s' = s2" by (simp_all add: write_for_stream_def)
  with write_payload_result [OF w v(2) assms(2,3)] show ?thesis by simp
next
  case False
  with assms(1) show ?thesis
    by (auto simp: write_for_stream_def table_change_refl split: option.splits handle.splits)
qed

lemma end_write_ok:
  assumes "settled s" "sf_out s = []" "stream_ok st"
  shows "session_ok (end_write st s)"
proof (cases "ws_remaining st = 0")
  case True
  with assms show ?thesis
    by (auto simp: end_write_def stream_ok_def intro!: settled_session settled_status
        split: option.split status.split)
next
  case False
  have "session_ok (s\<lparr>sf_write_stream := Some st\<rparr>)"
    using assms by (auto simp: session_ok_def settled_def table_ok_def)
  with False show ?thesis by (simp add: end_write_def)
qed

lemma consume_payload_ok:
  assumes "settled s" "sf_out s = []" "stream_ok st"
  shows "session_ok (consume_payload n st s)"
  unfolding consume_payload_def
proof (rule end_write_ok)
  show "settled (s\<lparr>sf_input := drop n (sf_input s)\<rparr>)"
    using assms(1) by (auto simp: settled_def table_ok_def)
qed (use assms in \<open>auto simp: stream_ok_def\<close>)

lemma count_payload_change: "table_change s (count_payload n s)"
  unfolding count_payload_def by (rule table_change_stats)

lemma write_outcome_ok:
  assumes w: "write_for_stream ops env st n t vol = (r, t2, v2)"
    and stream: "stream_ok st" and ok: "ws_failed st = None" and t: "settled t" "sf_out t = []"
  shows "session_ok (case r of
      Inl st \<Rightarrow> t2\<lparr>sf_write_stream := Some st\<rparr>
    | Inr None \<Rightarrow> consume_payload n (st\<lparr>ws_offset := ws_offset st + n\<rparr>)
        (count_payload n (invalidate_written (ws_slot st) t2))
    | Inr (Some e) \<Rightarrow> consume_payload n (st\<lparr>ws_failed := Some e\<rparr>) t2)"
proof -
  note res = write_for_stream_result [OF w stream ok]
  have t2: "settled t2" "sf_out t2 = []"
    using settled_change [OF t(1)] res t(2) by (simp_all add: table_change_def)
  have slot: "ws_slot st < max_handles" using stream by (simp add: stream_ok_def)
  consider (again) st' where "r = Inl st'" | (stored) "r = Inr None" | (refused) e where "r = Inr (Some e)"
    by (metis sum.exhaust option.exhaust)
  then show ?thesis
  proof cases
    case again
    then have "stream_ok st'" using res by simp
    with t2 again show ?thesis by (auto simp: session_ok_def settled_def table_ok_def)
  next
    case stored
    note ch = table_change_trans [OF table_change_written [OF slot, of t2] count_payload_change [of _ n]]
    have "settled (count_payload n (invalidate_written (ws_slot st) t2))"
      "sf_out (count_payload n (invalidate_written (ws_slot st) t2)) = []"
      using settled_change [OF t2(1) ch] ch t2(2) by (simp_all add: table_change_def)
    then show ?thesis unfolding stored sum.case option.case
      by (rule consume_payload_ok) (use stream in \<open>simp add: stream_ok_def\<close>)
  next
    case refused
    then have "stream_ok (st\<lparr>ws_failed := Some e\<rparr>)" using res slot by (simp add: stream_ok_def)
    then show ?thesis unfolding refused sum.case option.case by (rule consume_payload_ok [OF t2])
  qed
qed

lemma continue_write_ok:
  assumes ok: "session_ok s" and out: "sf_out s = []" and st: "sf_write_stream s = Some st"
    and step: "continue_write ops env s vol = (b, s', vol')"
  shows "session_ok s'"
proof -
  note d = session_okD [OF ok]
  have stream: "stream_ok st" and none: "sf_resize s = None" using d(5) [OF st] by simp_all
  have "sf_read_stream s = None" using d(4) st by (cases "sf_read_stream s") auto
  with d none have base: "settled (s\<lparr>sf_write_stream := None\<rparr>)"
    "settled (s\<lparr>sf_write_stream := None, sf_card_budget := False\<rparr>)"
    by (simp_all add: settled_def table_ok_def)
  show ?thesis
  proof (cases "ws_failed st = None \<and> sf_card_budget s")
    case False
    then show ?thesis
      using step ok st out base(1) stream
      by (auto simp: continue_write_def Let_def split: if_splits intro!: consume_payload_ok end_write_ok)
  next
    case True
    define t where "t = s\<lparr>sf_write_stream := None, sf_card_budget := False\<rparr>"
    have t: "settled t" "sf_out t = []" using base out by (simp_all add: t_def)
    note after = write_outcome_ok [OF _ stream conjunct1 [OF True] t, of ops env _ vol]
    show ?thesis
      using step ok st out base(1) stream True
      by (auto simp: continue_write_def Let_def t_def [symmetric] split: if_splits sum.splits option.splits
          prod.splits intro!: end_write_ok dest: after)
  qed
qed

lemma read_chunk_length:
  "reads_bounded ops \<Longrightarrow> read_chunk ops vol f off n = (Some bs, f') \<Longrightarrow> length bs \<le> n"
  unfolding read_chunk_def reads_bounded_def
  by (fastforce split: option.splits prod.splits)

lemma read_for_stream_result:
  assumes "read_for_stream ops env st n s vol = (r, s')" and "reads_bounded ops"
  shows "\<exists>bs. sf_out s' = sf_out s @ bs \<and> (\<forall>m. r = Some m \<longrightarrow> length bs = m \<and> m \<le> n)
    \<and> (r = None \<longrightarrow> bs = []) \<and> sf_input s' = sf_input s \<and> sf_read_stream s' = sf_read_stream s
    \<and> sf_write_stream s' = sf_write_stream s \<and> sf_resize s' = sf_resize s \<and> sf_fatal s' = sf_fatal s
    \<and> (table_ok s \<longrightarrow> table_ok s')"
proof (cases "\<exists>v f. vol = Some v \<and> sf_handles s ! rs_slot st = Some (File f)")
  case True
  then obtain v f where v: "vol = Some v" and f: "sf_handles s ! rs_slot st = Some (File f)" by blast
  obtain q f' where c: "read_chunk ops v f (rs_offset st) n = (q, f')" by (metis prod.exhaust)
  let ?bs = "case q of None \<Rightarrow> [] | Some bs \<Rightarrow> bs"
  let ?t = "s\<lparr>sf_out := sf_out s @ ?bs, sf_stats := (sf_stats s)\<lparr>st_card_read_us :=
     wrapping_add 64 (st_card_read_us (sf_stats s)) (en_elapsed_us env)\<rparr>\<rparr>"
  have r: "r = map_option length q" and s': "s' = set_file (rs_slot st) f' ?t"
    using assms(1) by (auto simp: read_for_stream_def v f c)
  have "table_ok s'" if "table_ok s"
    unfolding s' set_file_def by (rule table_ok_update) (use that f in \<open>simp_all add: table_ok_def\<close>)
  moreover have "length bs \<le> n" if "q = Some bs" for bs
    using read_chunk_length [OF assms(2)] c that by blast
  ultimately show ?thesis
    by (intro exI [of _ ?bs]) (auto simp: r s' set_file_def)
next
  case False
  with assms(1) show ?thesis
    by (auto simp: read_for_stream_def split: option.splits handle.splits)
qed

text \<open>One chunk of a \<open>DATA\<close> reply: progress by a non-empty chunk, or the session is over.\<close>

lemma continue_read_result:
  assumes "reads_bounded ops" "sf_read_stream s = Some st"
  shows "sf_fatal (continue_read ops env s vol) \<or>
    (\<exists>bs. bs \<noteq> [] \<and> length bs \<le> min (rs_remaining st) io_chunk
      \<and> sf_out (continue_read ops env s vol) = sf_out s @ bs
      \<and> sf_read_stream (continue_read ops env s vol)
        = (if length bs < rs_remaining st
           then Some (st\<lparr>rs_offset := rs_offset st + length bs, rs_remaining := rs_remaining st - length bs\<rparr>)
           else None))"
proof -
  obtain r s' where rd: "read_for_stream ops env st (min (rs_remaining st) io_chunk)
      (s\<lparr>sf_read_stream := None\<rparr>) vol = (r, s')" by (metis prod.exhaust)
  from read_for_stream_result [OF rd assms(1)] obtain bs where bs: "sf_out s' = sf_out s @ bs"
    "\<forall>m. r = Some m \<longrightarrow> length bs = m \<and> m \<le> min (rs_remaining st) io_chunk" "sf_read_stream s' = None"
    by auto
  show ?thesis
  proof (cases r)
    case (Some m)
    show ?thesis
    proof (cases "0 < m")
      case True
      then show ?thesis using bs Some
        by (intro disjI2 exI [of _ bs]) (auto simp: continue_read_def assms(2) rd Let_def)
    qed (simp add: continue_read_def assms(2) rd Some)
  qed (simp add: continue_read_def assms(2) rd)
qed

lemma continue_read_ok:
  assumes ok: "session_ok s" and out: "sf_out s = []" and st: "sf_read_stream s = Some st"
    and lim: "reads_bounded ops"
  shows "session_ok (continue_read ops env s vol)"
proof -
  note d = session_okD [OF ok] and st_ok = session_okD(4) [OF ok st]
  obtain r s' where rd: "read_for_stream ops env st (min (rs_remaining st) io_chunk)
      (s\<lparr>sf_read_stream := None\<rparr>) vol = (r, s')" by (metis prod.exhaust)
  have tab: "table_ok (s\<lparr>sf_read_stream := None\<rparr>)" using d(1) by (simp add: table_ok_def)
  from read_for_stream_result [OF rd lim] obtain bs where bs: "sf_out s' = bs"
    "\<forall>m. r = Some m \<longrightarrow> length bs = m \<and> m \<le> min (rs_remaining st) io_chunk" "r = None \<longrightarrow> bs = []"
    "sf_read_stream s' = None" "sf_write_stream s' = None" "sf_resize s' = None" "sf_input s' = sf_input s"
    "table_ok s'" using out tab st_ok by auto
  have "length bs \<le> io_chunk" using bs(2,3) by (cases r) auto
  then have base: "table_ok s'" "length (sf_input s') \<le> max_input" "length (sf_out s') \<le> max_output"
    using bs d by (simp_all add: limit_defs)
  have frame: "table_ok (s'\<lparr>sf_fatal := True\<rparr>) = table_ok s'" "table_ok (s'\<lparr>sf_stats := x\<rparr>) = table_ok s'"
    "table_ok (s'\<lparr>sf_stats := x, sf_read_stream := y\<rparr>) = table_ok s'" for x y
    by (simp_all add: table_ok_def)
  have dead: "session_ok (s'\<lparr>sf_fatal := True\<rparr>)"
    using base bs(4-6) frame(1) by (simp add: session_ok_def)
  have done': "session_ok (s'\<lparr>sf_stats := x\<rparr>)" for x
    using base bs(4-6) frame(2) by (simp add: session_ok_def)
  have more: "session_ok (s'\<lparr>sf_stats := x, sf_read_stream :=
      Some (st\<lparr>rs_offset := rs_offset st + n, rs_remaining := rs_remaining st - n\<rparr>)\<rparr>)"
    if "0 < rs_remaining st - n" for x n
    using base bs(4-6) frame(3) st_ok that by (auto simp: session_ok_def)
  show ?thesis
    using dead done' more by (simp add: continue_read_def st rd Let_def split: option.split)
qed

lemma resize_chunk_result:
  assumes "job_ok job"
  shows "\<exists>r job' s' v'. resize_chunk ops env job s v = Some (r, job', s', v') \<and> job_ok job'
    \<and> rj_id job' = rj_id job \<and> table_change s s' \<and> (\<forall>e. r = Inl e \<longrightarrow> proper_error e)"
proof -
  obtain l p where l: "split_last (rj_components job) = Some (l, p)"
    using assms by (cases "rj_components job" rule: rev_cases) (auto simp: job_ok_def split_last_def)
  obtain n where n: "ra_size (rj_attrs job) = Some n" using assms by (auto simp: job_ok_def)
  show ?thesis
  proof (cases "find_in ops v p l")
    case None
    then show ?thesis using assms by (simp add: resize_chunk_def l table_change_refl)
  next
    case (Some found)
    obtain entry d where f: "find_in ops v p l = Some (entry, d)" using Some by (cases found) auto
    show ?thesis
    proof (cases "fe_len entry < n")
      case True
      define w where "w = write_chunk ops v (rj_file job) (fe_len entry)
         (replicate (min (n - fe_len entry) write_chunk_len) 0)"
      obtain e g v' where e: "w = (e, g, v')" by (metis prod.exhaust)
      have "proper_error x" if "e = Some x" for x
        using e that write_chunk_Some unfolding w_def by metis
      then show ?thesis
        using assms e True table_change_refl [of s] table_change_invalidate [of s p l]
        by (cases e) (auto simp: resize_chunk_def l f n Let_def w_def [symmetric] job_ok_def)
    next
      case False
      obtain e v' where e: "apply_metadata ops v entry (rj_attrs job) (en_clock env) = (e, v')"
        by (metis prod.exhaust)
      then show ?thesis
        using assms False apply_metadata_Some [of ops v entry "rj_attrs job" "en_clock env"]
          table_change_refl [of s] table_change_invalidate [of s p l]
        by (cases e) (auto simp: resize_chunk_def l f n)
    qed
  qed
qed

lemma continue_resize_ok:
  assumes ok: "session_ok s" and out: "sf_out s = []" and job: "sf_resize s = Some job"
  shows "\<exists>s' vol'. continue_resize ops env s vol = Some (s', vol') \<and> session_ok s'"
proof -
  note d = session_okD [OF ok]
  have none: "sf_read_stream s = None" "sf_write_stream s = None"
    using d(4,5) job by (cases "sf_read_stream s", auto) (cases "sf_write_stream s", auto)
  define t where "t = s\<lparr>sf_resize := None\<rparr>"
  have t: "settled t" "sf_out t = []"
    using d(1-3) none out by (simp_all add: t_def settled_def table_ok_def)
  show ?thesis
  proof (cases vol)
    case None
    then show ?thesis
      using settled_session [OF settled_status [OF t]] by (simp add: continue_resize_def job t_def [symmetric])
  next
    case (Some v)
    from resize_chunk_result [OF d(6) [OF job], of ops env t v] obtain r job' s' v'
      where r: "resize_chunk ops env job t v = Some (r, job', s', v')" "job_ok job'" "table_change t s'"
        "\<forall>e. r = Inl e \<longrightarrow> proper_error e" by blast
    have s': "settled s'" "sf_out s' = []"
      using settled_change [OF t(1) r(3)] r(3) t(2) by (simp_all add: table_change_def)
    show ?thesis
    proof (cases r)
      case (Inl e)
      obtain c m where e: "e = Status c m" by (cases e)
      then have "length m \<le> 64" using Inl r(4) by simp
      then show ?thesis
        using settled_session [OF settled_status [OF s']] r(1)
        by (simp add: continue_resize_def job t_def [symmetric] Some Inl e)
    next
      case (Inr b)
      have "session_ok (s'\<lparr>sf_resize := Some job'\<rparr>)"
        using s' r(2) by (auto simp: session_ok_def settled_def table_ok_def)
      then show ?thesis
        using settled_session [OF settled_status [OF s', of "''OK''"]] r(1)
        by (cases b) (simp_all add: continue_resize_def job t_def [symmetric] Some Inr)
    qed
  qed
qed

subsection \<open>Requests\<close>

lemma handled_session:
  assumes "handled rid s (res, s', v)" and "settled s" "sf_out s = []"
  shows "case res of Some (Status c m) \<Rightarrow> settled (send_status rid c m s') | None \<Rightarrow> session_ok s'"
proof (cases res)
  case (Some st)
  obtain c m where st: "st = Status c m" by (cases st)
  have "settled s'" "sf_out s' = []" "length m \<le> 64"
    using assms Some st by (auto simp: handled_def settled_def kept_def)
  then show ?thesis using Some st settled_status by simp
next
  case None
  have base: "table_ok s'" "length (sf_input s') \<le> max_input" "sf_write_stream s' = None"
    using assms None by (auto simp: handled_def settled_def kept_def)
  from assms None consider "complete_reply rid s s'" | "data_started rid s s'" | "resize_started rid s s'"
    by (auto simp: handled_def)
  then have "session_ok s'"
  proof cases
    case 1
    then show ?thesis
      using base assms(2,3) by (auto simp: complete_reply_def session_ok_def settled_def limit_defs)
  next
    case 2
    then show ?thesis
      using base assms(2,3)
      by (auto simp: data_started_def data_header_def session_ok_def settled_def limit_defs)
  next
    case 3
    then show ?thesis
      using base assms(2,3)
      by (auto simp: resize_started_def session_ok_def settled_def limit_defs)
  qed
  with None show ?thesis by simp
qed

lemma length_version: "length version_payload \<le> 200"
  by (simp add: version_payload_def ext_fsync_def ext_statvfs_def ext_fstatvfs_def ext_limits_def)

lemma dispatch_ok:
  assumes "settled s" "sf_out s = []" "fat_limits ops" "length body \<le> 4095"
  shows "session_ok (fst (dispatch ops env kind body s vol))"
proof (cases "kind = fxp_init")
  case True
  have "length (sf_out (reply fxp_version version_payload s)) \<le> max_output"
    using length_version assms(2) by (simp add: limit_defs)
  moreover have "table_ok (reply fxp_version version_payload s) = table_ok s" by (simp add: table_ok_def)
  ultimately show ?thesis using assms(1) True by (simp add: dispatch_def settled_def session_ok_def)
next
  case False
  note other = False
  show ?thesis
  proof (cases "length body < 4")
    case True
    then show ?thesis
      using other assms(1) by (auto simp: dispatch_def rd_u32_def rd_take_def settled_def session_ok_def table_ok_def)
  next
    case False
    then have rd: "rd_u32 body = (Some (of_be (take 4 body)), drop 4 body)"
      by (simp add: rd_u32_def rd_take_def)
    show ?thesis
    proof (cases vol)
      case None
      then show ?thesis
        using other settled_session [OF settled_status [OF assms(1,2)]] by (simp add: dispatch_def rd)
    next
      case (Some v)
      obtain res s' v' where h: "handle_request ops env kind (of_be (take 4 body)) (drop 4 body) s v = (res, s', v')"
        by (metis prod.exhaust)
      have "length (drop 4 body) \<le> 4091" using assms(4) by simp
      from handled_request [OF assms(3) this, of "of_be (take 4 body)" s env kind v, unfolded h]
      have hd: "handled (of_be (take 4 body)) s (res, s', v')" .
      from handled_session [OF this assms(1,2)] show ?thesis
        using other settled_session
        by (auto simp: dispatch_def rd Some h split: option.splits status.splits)
    qed
  qed
qed

lemma write_check_result:
  "write_check token off n s = Inl e \<Longrightarrow> proper_error e"
  "write_check token off n s = Inr slot \<Longrightarrow> slot < max_handles"
  by (auto simp: write_check_def checked_add_def dest: slot_of_Inl file_at_Inl slot_ofD
      split: sum.splits if_splits)

lemma begin_write_shape:
  "\<exists>k st. begin_write len s = (False, s) \<or> begin_write len s = (False, s\<lparr>sf_fatal := True\<rparr>)
    \<or> begin_write len s = (False, (count_request (s\<lparr>sf_input := drop k (sf_input s)\<rparr>))\<lparr>sf_fatal := True\<rparr>)
    \<or> (begin_write len s = (True, (count_request (s\<lparr>sf_input := drop k (sf_input s)\<rparr>))
          \<lparr>sf_write_stream := Some st\<rparr>) \<and> stream_ok st)"
proof -
  have check: "case_sum (\<lambda>e. (0, Some e)) (\<lambda>slot. (slot, None)) (write_check token off n u) = (slot, failed)
    \<Longrightarrow> stream_ok \<lparr>ws_id = i, ws_slot = slot, ws_remaining = n, ws_offset = off, ws_failed = failed\<rparr>"
    for token off n u slot failed i
    using write_check_result [of token off n u]
    by (cases "write_check token off n u") (auto simp: stream_ok_def max_handles_def)
  show ?thesis
    unfolding begin_write_def Let_def
    by (auto split: prod.split intro!: exI check)
qed

lemma settled_input: "settled s \<Longrightarrow> settled (s\<lparr>sf_input := drop k (sf_input s)\<rparr>)"
  by (auto simp: settled_def table_ok_def)

lemma settled_count: "settled (count_request s) = settled s" "sf_out (count_request s) = sf_out s"
  by (simp_all add: settled_def table_ok_def count_request_def)

lemma begin_write_ok:
  assumes "settled s" "begin_write len s = (b, s')"
  shows "session_ok s'"
proof -
  have fatal: "session_ok (t\<lparr>sf_fatal := True\<rparr>)" if "settled t" for t
    using that by (simp add: session_ok_def settled_def table_ok_def)
  have stream: "session_ok (t\<lparr>sf_write_stream := Some st\<rparr>)" if "settled t" "stream_ok st" for t st
    using that by (auto simp: session_ok_def settled_def table_ok_def)
  note drained = settled_count(1) [THEN iffD2, OF settled_input [OF assms(1)]]
  from begin_write_shape [of len s] assms(2) show ?thesis
    using fatal [OF assms(1)] fatal [OF drained] stream [OF drained] settled_session [OF assms(1)]
    by auto
qed

lemma parse_next_ok:
  assumes st: "settled s" and out: "sf_out s = []" and lim: "fat_limits ops"
    and step: "parse_next ops env s vol = (b, s', vol')"
  shows "session_ok s'"
proof -
  define len kind where "len = of_be (take 4 (sf_input s))" and "kind = unat (sf_input s ! 4)"
  note eq = step [unfolded parse_next_def Let_def, folded len_def kind_def]
  have fatal: "session_ok (s\<lparr>sf_fatal := True\<rparr>)"
    using st by (simp add: session_ok_def settled_def table_ok_def)
  consider "length (sf_input s) < 5" | "5 \<le> length (sf_input s)" "len = 0"
    | (payload) "5 \<le> length (sf_input s)" "len \<noteq> 0" "kind = fxp_write"
    | (large) "5 \<le> length (sf_input s)" "len \<noteq> 0" "kind \<noteq> fxp_write" "max_request < len"
    | (small) "5 \<le> length (sf_input s)" "len \<noteq> 0" "kind \<noteq> fxp_write" "len \<le> max_request"
    by linarith
  then show ?thesis
  proof cases
    case payload
    then show ?thesis using eq begin_write_ok [OF st] by (auto split: prod.splits)
  next
    case large
    note sent = settled_status [OF st out, of "''Request too large''"]
    have "settled (t\<lparr>sf_input := drop k (sf_input t), sf_skip := m\<rparr>)" if "settled t" for t k m
      using that by (auto simp: settled_def table_ok_def)
    from settled_session [OF this [OF sent]] settled_session [OF st] large eq show ?thesis
      by (auto split: if_splits)
  next
    case small
    let ?t = "count_request (s\<lparr>sf_card_budget := False, sf_input := drop (4 + len) (sf_input s)\<rparr>)"
    have t: "settled ?t" "sf_out ?t = []"
      using st out by (auto simp: count_request_def settled_def table_ok_def)
    have "length (drop 5 (take (4 + len) (sf_input s))) \<le> 4095"
      using small(4) by (simp add: max_request_def)
    from dispatch_ok [OF t lim this, of env kind vol] settled_session [OF st] small eq show ?thesis
      by (auto split: if_splits prod.splits)
  qed (use eq fatal settled_session [OF st] in auto)
qed

lemma step_ok:
  assumes ok: "session_ok s" and lim: "fat_limits ops"
  shows "\<exists>b s' vol'. sftp_step ops env s vol = Some (b, s', vol') \<and> session_ok s'"
proof -
  note d = session_okD [OF ok]
  have budget: "session_ok (s\<lparr>sf_card_budget := False\<rparr>)"
    using ok by (simp add: session_ok_def table_ok_def)
  consider (stop) "sf_fatal s \<or> sf_out s \<noteq> []"
    | (resize) job where "\<not> sf_fatal s" "sf_out s = []" "sf_resize s = Some job"
    | (reading) st where "\<not> sf_fatal s" "sf_out s = []" "sf_resize s = None" "sf_read_stream s = Some st"
    | (writing) st where "\<not> sf_fatal s" "sf_out s = []" "sf_resize s = None" "sf_read_stream s = None"
        "sf_write_stream s = Some st"
    | (idle) "\<not> sf_fatal s" "sf_out s = []" "sf_resize s = None" "sf_read_stream s = None"
        "sf_write_stream s = None" by (cases "sf_resize s"; cases "sf_read_stream s"; cases "sf_write_stream s") auto
  then show ?thesis
  proof cases
    case stop
    then show ?thesis using ok by (auto simp: sftp_step_def)
  next
    case resize
    from continue_resize_ok [OF budget, of job ops env vol] resize ok show ?thesis
      by (auto simp: sftp_step_def)
  next
    case reading
    have "reads_bounded ops" using lim by (simp add: fat_limits_def)
    from continue_read_ok [OF budget _ _ this, of st env vol] reading ok show ?thesis
      by (auto simp: sftp_step_def)
  next
    case writing
    obtain b s' v' where w: "continue_write ops env s vol = (b, s', v')" by (metis prod.exhaust)
    from continue_write_ok [OF ok writing(2,5) w] writing w show ?thesis
      by (auto simp: sftp_step_def)
  next
    case idle
    then have st: "settled s" using d(1-3) by (simp add: settled_def)
    obtain b s' v' where p: "parse_next ops env s vol = (b, s', v')" by (metis prod.exhaust)
    have "settled (s\<lparr>sf_input := drop k (sf_input s), sf_skip := m\<rparr>)" for k m
      using st by (auto simp: settled_def table_ok_def)
    from settled_session [OF this] parse_next_ok [OF st idle(2) lim p] idle p show ?thesis
      by (auto simp: sftp_step_def Let_def)
  qed
qed

subsection \<open>Reachable sessions\<close>

text \<open>What may happen to a session: bytes arrive within the announced space, output is sent, a poll
  begins, a step is taken, and the card (with its volume) comes, goes or is changed by others.\<close>

inductive session :: "('v, 'h) fat_ops \<Rightarrow> 'h sftp \<Rightarrow> 'v option \<Rightarrow> bool" for ops where
  start: "session ops sftp_new vol"
| fed: "session ops s vol \<Longrightarrow> length bs \<le> input_space s \<Longrightarrow> session ops (feed bs s) vol"
| sent: "session ops s vol \<Longrightarrow> session ops (consume_output n s) vol"
| polled: "session ops s vol \<Longrightarrow> session ops (begin_poll s) vol"
| stepped: "session ops s vol \<Longrightarrow> sftp_step ops env s vol = Some (b, s', vol') \<Longrightarrow> session ops s' vol'"
| card: "session ops s vol \<Longrightarrow> session ops s vol'"

lemma session_invariant: "session ops s vol \<Longrightarrow> fat_limits ops \<Longrightarrow> session_ok s"
proof (induction rule: session.induct)
  case (stepped s vol env b s' vol')
  from step_ok [OF stepped.IH [OF stepped.prems] stepped.prems, of env vol] stepped.hyps(2) show ?case by auto
qed (auto simp: session_ok_new session_ok_feed session_ok_consume session_ok_poll)


definition sample_env :: sftp_env where
  "sample_env = \<lparr>en_clock = default_clock_config, en_now = ''2026-01-01 00:00'', en_elapsed_us = 250\<rparr>"

lemma sample_limits: "fat_limits sample_ops"
  by (auto simp: fat_limits_def reads_bounded_def names_bounded_def sample_ops_def)


subsection \<open>One answer per request\<close>

definition idle :: "'h sftp \<Rightarrow> bool" where
  "idle s \<longleftrightarrow> sf_out s = [] \<and> sf_read_stream s = None \<and> sf_write_stream s = None \<and> sf_resize s = None
     \<and> sf_skip s = 0 \<and> \<not> sf_fatal s \<and> sf_card_budget s"

lemma rd_u32_put: "rid < 4294967296 \<Longrightarrow> rd_u32 (put_u32 rid @ r) = (Some rid, r)"
  by (rule wire_u32.get_put) simp

lemma parse_frame:
  assumes input: "sf_input s = frame kind (put_u32 rid @ args) @ rest" and idle: "idle s"
    and rid: "rid < 2 ^ 32" and kind: "kind < 256" "kind \<noteq> fxp_write" and len: "5 + length args \<le> max_request"
  shows "sftp_step ops env s vol =
    (case dispatch ops env kind (put_u32 rid @ args)
        (count_request (s\<lparr>sf_card_budget := False, sf_input := rest\<rparr>)) vol of
       (s', vol') \<Rightarrow> Some (True, s', vol'))"
proof -
  let ?n = "5 + length args"
  have n: "?n < 4294967296" using len by (simp add: max_request_def)
  have header: "of_be (take 4 (sf_input s)) = ?n" "sf_input s ! 4 = of_nat kind"
    "drop 5 (frame kind (put_u32 rid @ args)) = put_u32 rid @ args"
    using n by (simp_all add: input frame_def put_u32_def nth_append)
  have cut: "take (4 + ?n) (sf_input s) = frame kind (put_u32 rid @ args)"
    "drop (4 + ?n) (sf_input s) = rest" "9 + length args \<le> length (sf_input s)"
    by (simp_all add: input)
  have "unat (sf_input s ! 4) = kind"
    using kind(1) by (simp only: header unat_of_nat) simp
  with header cut kind(2) idle len show ?thesis
    by (simp add: sftp_step_def idle_def parse_next_def Let_def add.commute split: prod.split)
qed

text \<open>The session once a packet has been taken off its input.\<close>

definition taken_off :: "'h sftp \<Rightarrow> bytes \<Rightarrow> 'h sftp" where
  "taken_off s rest = count_request (s\<lparr>sf_card_budget := False, sf_input := rest\<rparr>)"

lemma taken_off_fields [simp]:
  "sf_input (taken_off s rest) = rest" "sf_out (taken_off s rest) = sf_out s" "sf_fatal (taken_off s rest) = sf_fatal s"
  "sf_read_stream (taken_off s rest) = sf_read_stream s" "sf_write_stream (taken_off s rest) = sf_write_stream s"
  "sf_resize (taken_off s rest) = sf_resize s" "sf_skip (taken_off s rest) = sf_skip s"
  by (simp_all add: taken_off_def count_request_def)

lemma complete_status: "length m \<le> 64 \<Longrightarrow> sf_out s' = sf_out s \<Longrightarrow> sf_read_stream s' = sf_read_stream s \<Longrightarrow>
    sf_resize s' = sf_resize s \<Longrightarrow> complete_reply rid s (send_status rid c m s')"
  unfolding complete_reply_def send_status_def
  by (intro exI [of _ fxp_status] exI [of _ "put_u32 c @ put_string (to_bytes m) @ put_string []"])
    (simp add: io_chunk_def)

lemma request_without_card:
  assumes "sf_input s = frame kind (put_u32 rid @ args) @ rest" and "idle s"
    and "rid < 2 ^ 32" and "kind < 256" and "kind \<notin> {fxp_init, fxp_write}" and "5 + length args \<le> max_request"
  shows "sftp_step ops env s None
    = Some (True, send_status rid fx_failure ''SD card is in use by USB DISK'' (taken_off s rest), None)"
proof -
  have "kind \<noteq> fxp_init" "kind \<noteq> fxp_write" using assms(5) by simp_all
  with parse_frame [OF assms(1-4) _ assms(6), of ops env None] assms(3) show ?thesis
    by (simp add: dispatch_def rd_u32_put taken_off_def)
qed

lemma request_with_card:
  assumes "sf_input s = frame kind (put_u32 rid @ args) @ rest" and "idle s"
    and "rid < 2 ^ 32" and "kind < 256" and "kind \<notin> {fxp_init, fxp_write}"
    and "5 + length args \<le> max_request" and "fat_limits ops"
  shows "\<exists>s' v'. sftp_step ops env s (Some v) = Some (True, s', Some v') \<and> kept (taken_off s rest) s'
    \<and> (complete_reply rid (taken_off s rest) s' \<or> data_started rid (taken_off s rest) s'
      \<or> resize_started rid (taken_off s rest) s')
    \<and> (case handle_request ops env kind rid args (taken_off s rest) v of
         (res, t, _) \<Rightarrow> sf_read_stream s' = sf_read_stream t \<and> sf_resize s' = sf_resize t)"
proof -
  let ?t = "taken_off s rest"
  have kind: "kind \<noteq> fxp_init" "kind \<noteq> fxp_write" using assms(5) by simp_all
  obtain res t v' where h: "handle_request ops env kind rid args ?t v = (res, t, v')" by (metis prod.exhaust)
  let ?s' = "case res of None \<Rightarrow> t | Some (Status c m) \<Rightarrow> send_status rid c m t"
  have step: "sftp_step ops env s (Some v) = Some (True, ?s', Some v')"
    using parse_frame [OF assms(1-4) kind(2) assms(6), of ops env "Some v"] kind(1) assms(3) h
    by (simp add: dispatch_def rd_u32_put taken_off_def split: option.split status.split)
  have "length args \<le> 4091" using assms(6) by (simp add: max_request_def)
  from handled_request [OF assms(7) this, of rid ?t env kind v, unfolded h]
  have hd: "handled rid ?t (res, t, v')" .
  show ?thesis
  proof (cases res)
    case None
    with hd h step show ?thesis by (auto simp: handled_def)
  next
    case (Some st)
    obtain c m where st: "st = Status c m" by (cases st)
    from hd Some st have t: "kept ?t t" "proper_error (Status c m)" "sf_out t = sf_out ?t"
      "sf_read_stream t = sf_read_stream ?t" "sf_resize t = sf_resize ?t" by (simp_all add: handled_def)
    have "complete_reply rid ?t (send_status rid c m t)"
      using length_proper [OF t(2)] t(3-5) by (rule complete_status)
    moreover have "kept ?t (send_status rid c m t)" using t(1) by (simp add: kept_def send_status_eq)
    moreover have "sf_read_stream (send_status rid c m t) = sf_read_stream t"
      "sf_resize (send_status rid c m t) = sf_resize t" by (simp_all add: send_status_eq)
    ultimately show ?thesis
      using step by (intro exI [of _ "send_status rid c m t"] exI [of _ v']) (simp add: Some st h)
  qed
qed



subsection \<open>No session waits for bytes it cannot take\<close>

lemma begin_write_waits:
  assumes "begin_write len s = (False, s')" "\<not> sf_fatal s'"
  shows "length (sf_input s) < 89 \<and> s' = s"
proof -
  have "wrapping_add 32 (wrapping_add 32 13 n) 12 = 25 + n" if "n \<le> 64" for n
    using that by (simp add: wrapping_add_def)
  with assms show ?thesis
    by (auto simp: begin_write_def Let_def split: if_splits prod.splits)
qed

lemma parse_next_waits:
  assumes "parse_next ops env s vol = (False, s', vol')" "\<not> sf_fatal s'" "sf_card_budget s"
  shows "length (sf_input s) < max_input \<and> s' = s"
  using assms begin_write_waits [of _ s s', THEN conjunct1, THEN less_trans [of _ 89 max_input]]
    begin_write_waits [of _ s s', THEN conjunct2]
  by (auto simp: parse_next_def Let_def limit_defs split: if_splits prod.splits)

lemma continue_write_waits:
  assumes "continue_write ops env s vol = (False, s', vol')" "sf_card_budget s" "sf_write_stream s \<noteq> None"
  shows "length (sf_input s) < max_input \<and> s' = s"
  using assms
  by (auto simp: continue_write_def Let_def limit_defs split: if_splits prod.splits sum.splits option.splits)

text \<open>C21: A live session that has sent its output and has a fresh card budget does work, fails, or
  waits for bytes while it has room to take them: a full input buffer never blocks it.\<close>

theorem full_buffers_make_progress:
  assumes "session ops s vol" and "fat_limits ops" and "\<not> sf_fatal s"
  shows "\<exists>b s' vol'. sftp_step ops env (begin_poll (consume_output (length (sf_out s)) s)) vol
      = Some (b, s', vol') \<and> (b \<or> sf_fatal s' \<or> 0 < input_space s')"
proof -
  define t where "t = begin_poll (consume_output (length (sf_out s)) s)"
  have t: "sf_out t = []" "sf_card_budget t" "\<not> sf_fatal t"
    using assms(3) by (simp_all add: t_def begin_poll_def consume_output_def)
  have "session ops t vol" unfolding t_def by (rule session.polled [OF session.sent [OF assms(1)]])
  note ok = session_invariant [OF this assms(2)]
  obtain b s' vol' where st: "sftp_step ops env t vol = Some (b, s', vol')"
    using step_ok [OF ok assms(2), of env vol] by blast
  have "b \<or> sf_fatal s' \<or> 0 < input_space s'"
  proof (rule ccontr)
    assume stuck: "\<not> (b \<or> sf_fatal s' \<or> 0 < input_space s')"
    then have step: "sftp_step ops env t vol = Some (False, s', vol')" "\<not> sf_fatal s'"
      and full: "max_input \<le> length (sf_input s')" using st by (auto simp: input_space_def)
    consider "sf_resize t \<noteq> None" | "sf_resize t = None" "sf_read_stream t \<noteq> None"
      | (wr) "sf_resize t = None" "sf_read_stream t = None" "sf_write_stream t \<noteq> None"
      | (skip) "sf_resize t = None" "sf_read_stream t = None" "sf_write_stream t = None" "0 < sf_skip t"
      | (parse) "sf_resize t = None" "sf_read_stream t = None" "sf_write_stream t = None" "sf_skip t = 0"
      by blast
    then show False
    proof cases
      case wr
      with step t have "continue_write ops env t vol = (False, s', vol')" by (simp add: sftp_step_def)
      from continue_write_waits [OF this t(2) wr(3)] full show False by auto
    next
      case skip
      with step t have "sf_input t = []" "sf_input s' = []" by (auto simp: sftp_step_def Let_def)
      with full show False by (simp add: limit_defs)
    next
      case parse
      with step t have "parse_next ops env t vol = (False, s', vol')" by (simp add: sftp_step_def)
      from parse_next_waits [OF this step(2) t(2)] full show False by auto
    qed (use step t in \<open>auto simp: sftp_step_def split: option.splits\<close>)
  qed
  with st show ?thesis by (auto simp: t_def)
qed

theorem full_buffers_make_progress_witness:
  "\<exists>b s' vol'. sftp_step sample_ops sample_env (begin_poll (consume_output 0 (sftp_new :: unit sftp))) None
      = Some (b, s', vol') \<and> (b \<or> sf_fatal s' \<or> 0 < input_space s')"
  using full_buffers_make_progress [OF session.start sample_limits, of sample_env None]
  by (simp add: sftp_new_def)

end
