(* ===== verification/Ssh_Shell.thy ===== *)
theory Ssh_Shell
  imports Rat_Text Sftp_Steps
begin

text \<open>
  The channel side of the SSH server in \<open>src/ssh.rs\<close>: the command shell with its line editor, the
  events of a session, and the two kinds of channel (shell and SFTP subsystem).

  \<open>sunset\<close> is a library and is not modelled.  A request it hands over is an event with the data
  the code reads from it; what the code answers is a value of \<open>answer\<close>, and whether the library
  accepted the answer is an argument.  The channel operations of its runner are a parameter of the
  definitions that use them.  Times are milliseconds since boot.
\<close>

subsection \<open>Session state\<close>

definition max_line :: nat where "max_line = 128"
definition sftp_steps :: nat where "sftp_steps = 8"

record shell_status =
  ss_heap_free :: nat
  ss_heap_free_min :: nat
  ss_uptime_ms :: nat
  ss_loop_max_ms :: nat

record ('c, 'h) shell =
  sh_peer :: string
  sh_channel :: "'c option"
  sh_authenticated :: bool
  sh_pty :: bool
  sh_close_after_reply :: bool
  sh_line :: bytes
  sh_reply :: bytes
  sh_started :: nat
  sh_last_activity :: nat
  sh_kex_done_logged :: bool
  sh_exec_pending :: bool
  sh_exit_status :: nat
  sh_sftp :: "'h sftp option"

definition shell_new :: "string \<Rightarrow> nat \<Rightarrow> ('c, 'h) shell" where
  "shell_new peer now = \<lparr>sh_peer = peer, sh_channel = None, sh_authenticated = False, sh_pty = False,
     sh_close_after_reply = False, sh_line = [], sh_reply = [], sh_started = now, sh_last_activity = now,
     sh_kex_done_logged = False, sh_exec_pending = False, sh_exit_status = 0, sh_sftp = None\<rparr>"

subsection \<open>The command shell\<close>

definition newline :: char where "newline = char_of (10::nat)"

text \<open>On a terminal a newline is sent as carriage return and newline.\<close>

definition push_text :: "string \<Rightarrow> ('c, 'h) shell \<Rightarrow> ('c, 'h) shell" where
  "push_text text sh =
    sh\<lparr>sh_reply := sh_reply sh
       @ concat (map (\<lambda>b. if b = 0x0A \<and> sh_pty sh then [0x0D, b] else [b]) (to_bytes text))\<rparr>"

definition push_prompt :: "('c, 'h) shell \<Rightarrow> ('c, 'h) shell" where
  "push_prompt sh =
    (if \<not> sh_close_after_reply sh then sh\<lparr>sh_reply := sh_reply sh @ to_bytes ''rat$ ''\<rparr> else sh)"

definition status_line :: "shell_status \<Rightarrow> string" where
  "status_line st =
    ''uptime_ms='' @ dec (ss_uptime_ms st) @ '' heap_free='' @ dec (ss_heap_free st)
    @ '' heap_free_min='' @ dec (ss_heap_free_min st) @ '' loop_max_ms='' @ dec (ss_loop_max_ms st) @ [newline]"

definition command_line :: "bytes \<Rightarrow> string" where
  "command_line line = to_ascii_lowercase (trim (if utf8_valid line then of_bytes line else []))"

definition run_command :: "shell_status \<Rightarrow> bytes \<Rightarrow> ('c, 'h) shell \<Rightarrow> ('c, 'h) shell" where
  "run_command status line sh =
    (let sh = sh\<lparr>sh_exit_status := 0\<rparr>; command = command_line line in
     case (if command = [] then ([], sh)
           else if command = ''help'' then (''commands: help status ping exit'' @ [newline], sh)
           else if command = ''ping'' then (''pong'' @ [newline], sh)
           else if command = ''status'' then (status_line status, sh)
           else if command = ''exit'' \<or> command = ''logout''
           then (''bye'' @ [newline], sh\<lparr>sh_close_after_reply := True\<rparr>)
           else (''unknown command: '' @ command @ [newline], sh\<lparr>sh_exit_status := 127\<rparr>)) of
       (text, sh) \<Rightarrow> push_prompt (push_text text sh))"

definition shell_byte :: "shell_status \<Rightarrow> u8 \<Rightarrow> ('c, 'h) shell \<Rightarrow> ('c, 'h) shell" where
  "shell_byte status byte sh =
    (if byte = 0x0D \<or> byte = 0x0A then
       (let sh = (if sh_pty sh then sh\<lparr>sh_reply := sh_reply sh @ [0x0D, 0x0A]\<rparr> else sh) in
        run_command status (sh_line sh) (sh\<lparr>sh_line := []\<rparr>))
     else if byte = 0x08 \<or> byte = 0x7F then
       (if sh_line sh \<noteq> [] then
          let sh = sh\<lparr>sh_line := butlast (sh_line sh)\<rparr> in
          if sh_pty sh then sh\<lparr>sh_reply := sh_reply sh @ [0x08, 0x20, 0x08]\<rparr> else sh
        else sh)
     else if byte = 0x03 then push_prompt (push_text (''^C'' @ [newline]) (sh\<lparr>sh_line := []\<rparr>))
     else if byte = 0x04 then sh\<lparr>sh_close_after_reply := True\<rparr>
     else if 0x20 \<le> byte \<and> byte \<le> 0x7E \<and> length (sh_line sh) < max_line then
       (let sh = sh\<lparr>sh_line := sh_line sh @ [byte]\<rparr> in
        if sh_pty sh then sh\<lparr>sh_reply := sh_reply sh @ [byte]\<rparr> else sh)
     else sh)"

definition shell_input :: "shell_status \<Rightarrow> bytes \<Rightarrow> ('c, 'h) shell \<Rightarrow> ('c, 'h) shell" where
  "shell_input status bs sh = fold (shell_byte status) bs sh"

subsection \<open>Events\<close>

datatype 'c serv_event = Ev_Hostkeys | Ev_First_Auth | Ev_Password_Auth string string | Ev_Pubkey_Auth
  | Ev_Authenticated | Ev_Open_Session 'c | Ev_Session_Pty | Ev_Session_Shell
  | Ev_Session_Exec "string option" | Ev_Session_Subsystem "string option" | Ev_Session_Env
  | Ev_Defunct | Ev_Poll_Again

datatype answer = An_Hostkeys | An_Auth_Methods bool bool | An_Allow | An_Reject | An_Accept
  | An_Reject_Channel | An_Succeed | An_Fail

text \<open>What the code answers to a request, if anything; whether the answer was accepted comes back
  as \<open>accepted\<close>.\<close>

definition event_answer :: "server_config \<Rightarrow> ('c, 'h) shell \<Rightarrow> 'c serv_event \<Rightarrow> answer option" where
  "event_answer cred sh ev = (case ev of
     Ev_Hostkeys \<Rightarrow> Some An_Hostkeys
   | Ev_First_Auth \<Rightarrow> Some (An_Auth_Methods True False)
   | Ev_Password_Auth user password \<Rightarrow>
       Some (if user = srv_user cred \<and> password = srv_password cred then An_Allow else An_Reject)
   | Ev_Pubkey_Auth \<Rightarrow> Some An_Reject
   | Ev_Open_Session c \<Rightarrow> Some (if sh_channel sh = None then An_Accept else An_Reject_Channel)
   | Ev_Session_Pty \<Rightarrow> Some An_Succeed
   | Ev_Session_Shell \<Rightarrow> Some An_Succeed
   | Ev_Session_Exec _ \<Rightarrow> Some An_Succeed
   | Ev_Session_Subsystem name \<Rightarrow>
       Some (if name = Some ''sftp'' \<and> sh_sftp sh = None then An_Succeed else An_Fail)
   | Ev_Session_Env \<Rightarrow> Some An_Fail
   | _ \<Rightarrow> None)"

datatype event_result = Go_On | End_Session | Answer_Failed

definition handle_event ::
  "server_config \<Rightarrow> bool \<Rightarrow> 'c serv_event \<Rightarrow> ('c, 'h) shell \<Rightarrow> event_result \<times> ('c, 'h) shell" where
  "handle_event cred accepted ev sh = (case ev of
     Ev_Hostkeys \<Rightarrow>
       if accepted then (Go_On, sh\<lparr>sh_kex_done_logged := True\<rparr>) else (Answer_Failed, sh)
   | Ev_Authenticated \<Rightarrow> (Go_On, sh\<lparr>sh_authenticated := True\<rparr>)
   | Ev_Open_Session c \<Rightarrow>
       if \<not> accepted then (Answer_Failed, sh)
       else (Go_On, if sh_channel sh = None then sh\<lparr>sh_channel := Some c\<rparr> else sh)
   | Ev_Session_Pty \<Rightarrow>
       (if accepted then Go_On else Answer_Failed, sh\<lparr>sh_pty := True\<rparr>)
   | Ev_Session_Shell \<Rightarrow>
       if \<not> accepted then (Answer_Failed, sh)
       else (Go_On, push_prompt (push_text
              (''RATPUTER SSH - type '' @ [char_of (39::nat)] @ ''help'' @ [char_of (39::nat)]
               @ '' for commands'' @ [newline]) sh))
   | Ev_Session_Exec command \<Rightarrow>
       (let sh = sh\<lparr>sh_line := to_bytes (case command of Some c \<Rightarrow> c | None \<Rightarrow> [])\<rparr> in
        if \<not> accepted then (Answer_Failed, sh)
        else (Go_On, sh\<lparr>sh_pty := False, sh_close_after_reply := True, sh_exec_pending := True\<rparr>))
   | Ev_Session_Subsystem name \<Rightarrow>
       if \<not> accepted then (Answer_Failed, sh)
       else (Go_On, if name = Some ''sftp'' \<and> sh_sftp sh = None then sh\<lparr>sh_sftp := Some sftp_new\<rparr> else sh)
   | Ev_Defunct \<Rightarrow> (End_Session, sh)
   | Ev_Poll_Again \<Rightarrow> (Go_On, sh)
   | _ \<Rightarrow> (if accepted then Go_On else Answer_Failed, sh))"

subsection \<open>Channels\<close>

text \<open>The channel operations of the library.  A read or write fails at the end of the channel or for
  another reason; every operation leaves a new runner.\<close>

datatype channel_error = Channel_Eof | Channel_Error

record ('r, 'c) channel_ops =
  ch_read :: "'r \<Rightarrow> 'c \<Rightarrow> nat \<Rightarrow> (channel_error + bytes) \<times> 'r"
  ch_write :: "'r \<Rightarrow> 'c \<Rightarrow> bytes \<Rightarrow> (channel_error + nat) \<times> 'r"
  ch_close :: "'r \<Rightarrow> 'c \<Rightarrow> nat \<Rightarrow> 'r"
  ch_done :: "'r \<Rightarrow> 'c \<Rightarrow> 'r"

text \<open>A pass over a channel says whether bytes moved; \<open>None\<close> ends the session.\<close>

definition run_pending :: "shell_status \<Rightarrow> ('c, 'h) shell \<Rightarrow> ('c, 'h) shell" where
  "run_pending status sh =
    (if sh_exec_pending sh
     then run_command status (sh_line sh) (sh\<lparr>sh_exec_pending := False, sh_line := []\<rparr>) else sh)"

definition shell_read ::
  "('r, 'c) channel_ops \<Rightarrow> shell_status \<Rightarrow> 'c \<Rightarrow> 'r \<Rightarrow> ('c, 'h) shell \<Rightarrow> bool option \<times> 'r \<times> ('c, 'h) shell" where
  "shell_read co status c r sh =
    (case ch_read co r c 128 of
       (Inr bs, r) \<Rightarrow> if bs = [] then (Some False, r, sh) else (Some True, r, shell_input status bs sh)
     | (Inl Channel_Eof, r) \<Rightarrow> (Some False, r, sh\<lparr>sh_close_after_reply := True\<rparr>)
     | (Inl Channel_Error, r) \<Rightarrow> (None, r, sh))"

definition shell_write ::
  "('r, 'c) channel_ops \<Rightarrow> 'c \<Rightarrow> 'r \<Rightarrow> ('c, 'h) shell \<Rightarrow> bool option \<times> 'r \<times> ('c, 'h) shell" where
  "shell_write co c r sh =
    (if sh_reply sh = [] then (Some False, r, sh)
     else (case ch_write co r c (sh_reply sh) of
        (Inr written, r) \<Rightarrow> (Some (0 < written), r, sh\<lparr>sh_reply := drop written (sh_reply sh)\<rparr>)
      | (Inl Channel_Eof, r) \<Rightarrow> (Some False, r, sh\<lparr>sh_reply := []\<rparr>)
      | (Inl Channel_Error, r) \<Rightarrow> (None, r, sh)))"

definition shell_close ::
  "('r, 'c) channel_ops \<Rightarrow> 'c \<Rightarrow> 'r \<Rightarrow> ('c, 'h) shell \<Rightarrow> bool \<times> 'r \<times> ('c, 'h) shell" where
  "shell_close co c r sh =
    (if sh_close_after_reply sh \<and> sh_reply sh = []
     then (True, ch_done co (ch_close co r c (sh_exit_status sh)) c, sh\<lparr>sh_channel := None\<rparr>)
     else (False, r, sh))"

definition channel_shell ::
  "('r, 'c) channel_ops \<Rightarrow> shell_status \<Rightarrow> 'r \<Rightarrow> ('c, 'h) shell \<Rightarrow> bool option \<times> 'r \<times> ('c, 'h) shell" where
  "channel_shell co status r sh =
    (let ran = sh_exec_pending sh; sh = run_pending status sh in
     case sh_channel sh of
       None \<Rightarrow> (Some ran, r, sh)
     | Some c \<Rightarrow>
       (case shell_read co status c r sh of
          (None, r, sh) \<Rightarrow> (None, r, sh)
        | (Some got, r, sh) \<Rightarrow>
          (case shell_write co c r sh of
             (None, r, sh) \<Rightarrow> (None, r, sh)
           | (Some sent, r, sh) \<Rightarrow>
             (case shell_close co c r sh of
                (closed, r, sh) \<Rightarrow> (Some (ran \<or> got \<or> sent \<or> closed), r, sh)))))"

text \<open>One round of the SFTP channel: process, then send what is ready.  The outer option is a
  panic of the SFTP server, the inner one ends the session; the flags are whether the server made
  a step and whether bytes were sent.\<close>

definition sftp_round ::
  "('v, 'h) fat_ops \<Rightarrow> sftp_env \<Rightarrow> ('r, 'c) channel_ops \<Rightarrow> 'c \<Rightarrow> 'r \<Rightarrow> 'h sftp \<Rightarrow> 'v option \<Rightarrow>
   ((bool \<times> bool) option \<times> 'r \<times> 'h sftp \<times> 'v option) option" where
  "sftp_round ops env co c r s vol =
    (case sftp_step ops env s vol of
       None \<Rightarrow> None
     | Some (stepped, s, vol) \<Rightarrow>
       Some (case (if sf_out s = [] then (Some False, r, s)
                   else (case ch_write co r c (sf_out s) of
                      (Inr written, r) \<Rightarrow> (Some (0 < written), r, consume_output written s)
                    | (Inl _, r) \<Rightarrow> (None, r, s))) of
          (None, r, s) \<Rightarrow> (None, r, s, vol)
        | (Some wrote, r, s) \<Rightarrow>
            if sf_fatal s then (None, r, s, vol) else (Some (stepped, wrote), r, s, vol)))"

primrec sftp_rounds ::
  "('v, 'h) fat_ops \<Rightarrow> sftp_env \<Rightarrow> ('r, 'c) channel_ops \<Rightarrow> 'c \<Rightarrow> nat \<Rightarrow> bool \<Rightarrow> 'r \<Rightarrow> 'h sftp \<Rightarrow> 'v option \<Rightarrow>
   (bool option \<times> 'r \<times> 'h sftp \<times> 'v option) option" where
  "sftp_rounds ops env co c 0 moved r s vol = Some (Some moved, r, s, vol)"
| "sftp_rounds ops env co c (Suc n) moved r s vol =
    (case sftp_round ops env co c r s vol of
       None \<Rightarrow> None
     | Some (None, r, s, vol) \<Rightarrow> Some (None, r, s, vol)
     | Some (Some (stepped, wrote), r, s, vol) \<Rightarrow>
        let moved = (moved \<or> stepped \<or> wrote) in
        if \<not> stepped \<and> \<not> wrote then Some (Some moved, r, s, vol)
        else if sf_out s \<noteq> [] \<and> \<not> wrote then Some (Some moved, r, s, vol)
        else sftp_rounds ops env co c n moved r s vol)"

definition sftp_input ::
  "('r, 'c) channel_ops \<Rightarrow> 'c \<Rightarrow> 'r \<Rightarrow> 'h sftp \<Rightarrow> (channel_error + bool) \<times> 'r \<times> 'h sftp" where
  "sftp_input co c r s =
    (if 0 < input_space s then
       (case ch_read co r c (min (input_space s) 1024) of
          (Inr bs, r) \<Rightarrow> if bs = [] then (Inr False, r, s) else (Inr True, r, feed bs s)
        | (Inl e, r) \<Rightarrow> (Inl e, r, s))
     else (Inr False, r, s))"

definition channel_sftp ::
  "('v, 'h) fat_ops \<Rightarrow> sftp_env \<Rightarrow> ('r, 'c) channel_ops \<Rightarrow> 'r \<Rightarrow> ('c, 'h) shell \<Rightarrow> 'v option \<Rightarrow>
   (bool option \<times> 'r \<times> ('c, 'h) shell \<times> 'v option) option" where
  "channel_sftp ops env co r sh vol =
    (case (sh_channel sh, sh_sftp sh) of
       (Some c, Some s) \<Rightarrow>
         (case sftp_input co c r s of
            (Inl Channel_Eof, r, s) \<Rightarrow>
              Some (Some True, ch_done co (ch_close co r c 0) c, sh\<lparr>sh_sftp := None, sh_channel := None\<rparr>, vol)
          | (Inl Channel_Error, r, s) \<Rightarrow> Some (None, r, sh\<lparr>sh_sftp := Some s\<rparr>, vol)
          | (Inr got, r, s) \<Rightarrow>
             (case sftp_rounds ops env co c sftp_steps got r s vol of
                None \<Rightarrow> None
              | Some (moved, r, s, vol) \<Rightarrow> Some (moved, r, sh\<lparr>sh_sftp := Some s\<rparr>, vol)))
     | _ \<Rightarrow> Some (Some False, r, sh, vol))"

subsection \<open>The SFTP server behind its channel\<close>

text \<open>The library's \<open>read_channel\<close> fills the slice it is given.\<close>

definition channel_reads_fit :: "('r, 'c) channel_ops \<Rightarrow> bool" where
  "channel_reads_fit co \<longleftrightarrow> (\<forall>r c n bs r'. ch_read co r c n = (Inr bs, r') \<longrightarrow> length bs \<le> n)"

lemma sftp_round_session:
  assumes "session ops s vol" "fat_limits ops"
  shows "\<exists>m r' s' vol'. sftp_round ops env co c r s vol = Some (m, r', s', vol') \<and> session ops s' vol'"
proof -
  obtain b s1 vol1 where step: "sftp_step ops env s vol = Some (b, s1, vol1)"
    using step_ok [OF session_invariant [OF assms] assms(2), of env vol] by auto
  have reached: "session ops s1 vol1" by (rule session.stepped [OF assms(1) step])
  show ?thesis
    using session.sent [OF reached] reached step
    by (auto simp: sftp_round_def split: prod.split sum.split)
qed

lemma sftp_rounds_session:
  assumes "session ops s vol" "fat_limits ops"
  shows "\<exists>m r' s' vol'. sftp_rounds ops env co c n moved r s vol = Some (m, r', s', vol') \<and> session ops s' vol'"
  using assms(1)
proof (induction n arbitrary: moved r s vol)
  case (Suc n)
  obtain m r1 s1 vol1 where step: "sftp_round ops env co c r s vol = Some (m, r1, s1, vol1)"
    and reached: "session ops s1 vol1"
    using sftp_round_session [OF Suc.prems assms(2), of env co c r] by blast
  show ?case
  proof (cases m)
    case None
    with step reached show ?thesis by simp
  next
    case (Some sw)
    with step reached Suc.IH [OF reached] show ?thesis by (cases sw) (auto simp: Let_def)
  qed
qed simp

text \<open>A shell whose SFTP session, if it has one, is one that the protocol can reach.\<close>

definition shell_sound :: "('v, 'h) fat_ops \<Rightarrow> ('c, 'h) shell \<Rightarrow> 'v option \<Rightarrow> bool" where
  "shell_sound ops sh vol \<longleftrightarrow> (\<forall>s. sh_sftp sh = Some s \<longrightarrow> session ops s vol)"

lemma channel_sftp_sound:
  assumes "shell_sound ops sh vol" "fat_limits ops" "channel_reads_fit co"
  shows "\<exists>m r' sh' vol'. channel_sftp ops env co r sh vol = Some (m, r', sh', vol') \<and> shell_sound ops sh' vol'"
proof (cases "sh_channel sh = None \<or> sh_sftp sh = None")
  case True
  then show ?thesis using assms(1) by (auto simp: channel_sftp_def split: option.split)
next
  case False
  then obtain c s where cs: "sh_channel sh = Some c" "sh_sftp sh = Some s" by auto
  with assms(1) have reached: "session ops s vol" by (simp add: shell_sound_def)
  obtain e r1 s1 where read: "sftp_input co c r s = (e, r1, s1)" by (metis prod.exhaust)
  have fed: "session ops s1 vol"
    using read reached assms(3) session.fed [OF reached]
    by (auto simp: sftp_input_def channel_reads_fit_def split: if_splits prod.splits sum.splits) fastforce+
  show ?thesis
  proof (cases e)
    case (Inl x)
    with cs read fed show ?thesis by (cases x) (auto simp: channel_sftp_def shell_sound_def)
  next
    case (Inr got)
    from sftp_rounds_session [OF fed assms(2), of env co c sftp_steps got r1] cs read Inr
    show ?thesis by (auto simp: channel_sftp_def shell_sound_def)
  qed
qed

lemma sh_sftp_push [simp]:
  "sh_sftp (push_text t sh) = sh_sftp sh" "sh_sftp (push_prompt sh) = sh_sftp sh"
  by (simp_all add: push_text_def push_prompt_def)

lemma sh_sftp_run [simp]: "sh_sftp (run_command st l sh) = sh_sftp sh"
  by (simp add: run_command_def Let_def split: prod.split if_split)

lemma sh_sftp_pending [simp]: "sh_sftp (run_pending st sh) = sh_sftp sh"
  by (simp add: run_pending_def)

lemma sh_sftp_byte [simp]: "sh_sftp (shell_byte st b sh) = sh_sftp sh"
  unfolding shell_byte_def Let_def by (simp only: if_distrib [of sh_sftp] sh_sftp_run sh_sftp_push) simp

lemma sh_sftp_input [simp]: "sh_sftp (shell_input st bs sh) = sh_sftp sh"
  by (induction bs arbitrary: sh) (simp_all add: shell_input_def)

lemma channel_shell_sftp:
  "channel_shell co st r sh = (m, r', sh') \<Longrightarrow> sh_sftp sh' = sh_sftp sh"
  by (auto simp: channel_shell_def shell_read_def shell_write_def shell_close_def Let_def
      split: option.splits prod.splits sum.splits channel_error.splits if_splits)

lemma handle_event_sound:
  assumes "shell_sound ops sh vol" "handle_event cred a ev sh = (res, sh')"
  shows "shell_sound ops sh' vol"
  using assms session.start [of ops vol]
  by (cases ev) (auto simp: handle_event_def shell_sound_def Let_def split: if_splits)

end
