(* ===== verification/Ssh_Fingerprint.thy ===== *)
theory Ssh_Fingerprint
  imports Fat_Volume
begin

text \<open>
  The fingerprint of the host key as \<open>src/ssh.rs\<close> shows it: the unpadded base64 text of the
  SHA-256 digest of the key blob.  The digest is a library function and a parameter.
\<close>

subsection \<open>Encoding\<close>

definition alphabet :: string where
  "alphabet = ''ABCDEFGHIJKLMNOPQRSTUVWXYZabcdefghijklmnopqrstuvwxyz0123456789+/''"

definition chunk_value :: "bytes \<Rightarrow> nat" where
  "chunk_value chunk = fold (\<lambda>(index, byte) acc. acc OR push_bit (16 - 8 * index) (unat byte))
     (zip [0..<length chunk] chunk) 0"

definition chunk_chars :: "bytes \<Rightarrow> string" where
  "chunk_chars chunk = map (\<lambda>index. alphabet ! (drop_bit (18 - 6 * index) (chunk_value chunk) AND 0x3F))
     [0..<length chunk + 1]"

definition base64_unpadded :: "bytes \<Rightarrow> string" where
  "base64_unpadded bs = concat (map chunk_chars (chunks 3 bs))"

definition fingerprint :: "(bytes \<Rightarrow> bytes) \<Rightarrow> bytes \<Rightarrow> string" where
  "fingerprint sha256 public_key =
    ''SHA256:'' @ base64_unpadded (sha256 (be_bytes 4 11 @ to_bytes ''ssh-ed25519'' @ be_bytes 4 32 @ public_key))"

subsection \<open>The fingerprint can be read back\<close>

text \<open>The decoder of RFC 4648 without padding: four characters carry three bytes, two or three
  characters at the end carry one or two.\<close>

definition sextet :: "char \<Rightarrow> nat" where
  "sextet c = length (takeWhile (\<lambda>x. x \<noteq> c) alphabet)"

definition group_value :: "nat list \<Rightarrow> nat" where
  "group_value ds = (case ds @ [0, 0, 0] of
     d0 # d1 # d2 # d3 # _ \<Rightarrow> d0 * 262144 + d1 * 4096 + d2 * 64 + d3 | _ \<Rightarrow> 0)"

definition decode_group :: "string \<Rightarrow> bytes" where
  "decode_group cs = take (length cs - 1) (be_bytes 3 (group_value (map sextet cs)))"

definition base64_decode :: "string \<Rightarrow> bytes" where
  "base64_decode s = concat (map decode_group (chunks 4 s))"

lemma sextet_alphabet: "i < 64 \<Longrightarrow> sextet (alphabet ! i) = i"
proof -
  have "list_all (\<lambda>i. sextet (alphabet ! i) = i) [0..<64]" by code_simp
  then show "i < 64 \<Longrightarrow> sextet (alphabet ! i) = i" by (simp add: list_all_iff)
qed

lemma upt_small: "[0..<3] = [0, 1, 2 :: nat]" "[0..<4] = [0, 1, 2, 3 :: nat]"
  by code_simp+

lemma chunk_value_sum:
  "chunk_value [a] = unat a * 65536"
  "chunk_value [a, b] = unat a * 65536 + unat b * 256"
  "chunk_value [a, b, c] = unat a * 65536 + unat b * 256 + unat c"
proof -
  have bc: "push_bit 8 (unat b) OR unat c = unat b * 256 + unat c"
    using push_bit_or_eq_add [of "unat c" 8 "unat b"] by simp
  have "unat b * 256 + unat c < 2 ^ 16" using unat_u8_less [of b] unat_u8_less [of c] by (simp del: unat_u8_less)
  from push_bit_or_eq_add [OF this, of "unat a"]
  have abc: "push_bit 16 (unat a) OR (push_bit 8 (unat b) OR unat c) = unat a * 65536 + (unat b * 256 + unat c)"
    by (simp add: bc)
  have "unat b * 256 < 2 ^ 16" using unat_u8_less [of b] by simp
  from push_bit_or_eq_add [OF this, of "unat a"]
  have ab: "push_bit 16 (unat a) OR push_bit 8 (unat b) = unat a * 65536 + unat b * 256"
    by (simp add: push_bit_eq_mult)
  show "chunk_value [a] = unat a * 65536" by (simp add: chunk_value_def push_bit_eq_mult)
  show "chunk_value [a, b] = unat a * 65536 + unat b * 256"
    using ab by (simp add: chunk_value_def)
  show "chunk_value [a, b, c] = unat a * 65536 + unat b * 256 + unat c"
    using abc by (simp add: chunk_value_def or.assoc upt_small)
qed

lemma digits_value:
  fixes v :: nat
  assumes "v < 16777216"
  shows "v div 262144 mod 64 * 262144 + v div 4096 mod 64 * 4096 + v div 64 mod 64 * 64 + v mod 64 = v"
proof -
  define w1 w2 w3 where w: "w1 = v div 64" "w2 = w1 div 64" "w3 = w2 div 64"
  have d: "v div 4096 = w2" "v div 262144 = w3"
    by (simp_all add: w div_mult2_eq [symmetric])
  have "w3 < 64" using assms by (simp add: d(2) [symmetric] less_mult_imp_div_less)
  moreover have "w1 = w2 * 64 + w1 mod 64" "w2 = w3 * 64 + w2 mod 64" "v = w1 * 64 + v mod 64"
    by (simp_all add: w)
  ultimately show ?thesis unfolding d w(1) [symmetric] by simp
qed

lemma decode_chunk_chars:
  assumes "0 < length ch" "length ch \<le> 3"
  shows "decode_group (chunk_chars ch) = ch"
proof -
  define v where "v = chunk_value ch"
  define dig where "dig k = v div 2 ^ (18 - 6 * k) mod 64" for k
  have ds: "map sextet (chunk_chars ch) = map dig [0..<length ch + 1]"
    by (simp add: chunk_chars_def comp_def and_mask_nat sextet_alphabet drop_bit_eq_div dig_def v_def del: upt_Suc)
  consider a where "ch = [a]" | a b where "ch = [a, b]" | a b c where "ch = [a, b, c]"
    using assms by (cases ch; cases "tl ch"; cases "tl (tl ch)") auto
  then have "v < 16777216 \<and> group_value (map dig [0..<length ch + 1]) = v"
  proof cases
    case 1
    have v: "v = unat a * 65536" by (simp add: v_def 1 chunk_value_sum)
    have "v < 16777216" using unat_u8_less [of a] v by simp
    moreover have "v div 64 mod 64 = 0" "v mod 64 = 0" by (simp_all add: v)
    ultimately show ?thesis using digits_value [of v] by (simp add: 1 group_value_def dig_def)
  next
    case 2
    have v: "v = unat a * 65536 + unat b * 256" by (simp add: v_def 2 chunk_value_sum)
    have "v < 16777216" using unat_u8_less [of a] unat_u8_less [of b] v by (simp del: unat_u8_less)
    moreover have "v = (unat a * 1024 + unat b * 4) * 64" by (simp add: v)
    then have "v mod 64 = 0" by simp
    ultimately show ?thesis using digits_value [of v] by (simp add: 2 group_value_def dig_def)
  next
    case 3
    have v: "v = unat a * 65536 + unat b * 256 + unat c" by (simp add: v_def 3 chunk_value_sum)
    have "v < 16777216" using unat_u8_less [of a] unat_u8_less [of b] unat_u8_less [of c] v by (simp del: unat_u8_less)
    then show ?thesis using digits_value [of v]
      by (simp add: 3 group_value_def dig_def upt_small)
  qed
  then have g: "group_value (map sextet (chunk_chars ch)) = v" by (simp add: ds del: upt_Suc)
  have "of_be (ch @ replicate (3 - length ch) 0) = v"
    using \<open>0 < length ch\<close> \<open>length ch \<le> 3\<close>
    by (cases ch; cases "tl ch"; cases "tl (tl ch)")
       (auto simp: of_be_def v_def chunk_value_sum numeral_2_eq_2)
  with be_bytes_of_be [of "ch @ replicate (3 - length ch) 0"] assms
  have "take (length ch) (be_bytes 3 v) = ch" by simp
  then show ?thesis by (simp add: decode_group_def g) (simp add: chunk_chars_def)
qed

lemma length_chunk_chars: "length (chunk_chars ch) = length ch + 1"
  by (simp add: chunk_chars_def)

lemma chunks_whole: "0 < length xs \<Longrightarrow> length xs \<le> n \<Longrightarrow> chunks n xs = [xs]"
  by (subst chunks.simps) (cases n; simp)

text \<open>Decoding the text of the fingerprint gives back the digest, whatever its length.\<close>

theorem base64_round_trip: "base64_decode (base64_unpadded bs) = bs"
proof (induction "length bs" arbitrary: bs rule: less_induct)
  case less
  show ?case
  proof (cases "bs = []")
    case False
    let ?ch = "take 3 bs"
    have ch: "0 < length ?ch" "length ?ch \<le> 3" using False by auto
    have chars: "chunks 4 (chunk_chars ?ch) = [chunk_chars ?ch]"
      using ch by (intro chunks_whole) (simp_all add: length_chunk_chars)
    have first: "base64_unpadded bs = chunk_chars ?ch @ base64_unpadded (drop 3 bs)"
      using False by (simp add: base64_unpadded_def chunks.simps [of 3 bs])
    have "chunks 4 (base64_unpadded bs) = chunk_chars ?ch # chunks 4 (base64_unpadded (drop 3 bs))"
    proof (cases "3 \<le> length bs")
      case True
      then show ?thesis
        using chunks_append_mult [of 4 "chunk_chars ?ch" 1] chars
        by (simp add: first length_chunk_chars)
    next
      case False
      then show ?thesis using chars by (simp only: first) (simp add: base64_unpadded_def)
    qed
    moreover have "base64_decode (base64_unpadded (drop 3 bs)) = drop 3 bs"
      using False by (intro less) simp
    ultimately show ?thesis
      using decode_chunk_chars [OF ch] by (simp add: base64_decode_def)
  qed (simp add: base64_unpadded_def base64_decode_def)
qed

end
