(* ===== verification/Ssh_Server.thy ===== *)
theory Ssh_Server
  imports Ssh_Shell Ssh_Fingerprint
begin

text \<open>
  The SSH server of \<open>src/ssh.rs\<close> around one session: the listener, the host key, a poll with its
  rounds of socket input, protocol progress, channel work and socket output, and the timeouts.

  The runner of \<open>sunset\<close> and the TCP socket of \<open>embassy-net\<close> are libraries; records of their
  operations are parameters.  Times are milliseconds since boot, one reading per poll.  The packet
  buffers are static and their flag \<open>BUFFERS_IN_USE\<close> is part of the state; dropping a session clears
  it.  A definition that runs the SFTP server returns an \<open>option\<close> whose \<open>None\<close> stands for a
  panic, or for a loop that does not end; both are shown not to happen.
\<close>

subsection \<open>Libraries\<close>

datatype 'c progress = Pg_Error | Pg_None | Pg_Progressed | Pg_Client | Pg_Server "'c serv_event"

record ('r, 'c) runner_ops =
  rn_new :: 'r
  rn_input_ready :: "'r \<Rightarrow> bool"
  rn_input :: "'r \<Rightarrow> bytes \<Rightarrow> nat option \<times> 'r"
  rn_close_input :: "'r \<Rightarrow> 'r"
  rn_progress :: "'r \<Rightarrow> 'c progress \<times> 'r"
  rn_answer :: "'r \<Rightarrow> answer \<Rightarrow> bool \<times> 'r"
  rn_output_buf :: "'r \<Rightarrow> bytes"
  rn_consume_output :: "'r \<Rightarrow> nat \<Rightarrow> 'r"
  rn_channels :: "('r, 'c) channel_ops"

datatype tcp_state = Tcp_Closed | Tcp_Listen | Tcp_Syn_Received | Tcp_Established | Tcp_Other string

text \<open>A socket future is polled once: \<open>so_receive\<close> and \<open>so_write\<close> say nothing when it would
  block, and otherwise whether it failed.\<close>

record 'k socket_ops =
  so_state :: "'k \<Rightarrow> tcp_state"
  so_can_recv :: "'k \<Rightarrow> bool"
  so_can_send :: "'k \<Rightarrow> bool"
  so_may_recv :: "'k \<Rightarrow> bool"
  so_may_send :: "'k \<Rightarrow> bool"
  so_receive :: "'k \<Rightarrow> bytes option option"
  so_take :: "'k \<Rightarrow> nat \<Rightarrow> 'k"
  so_write :: "'k \<Rightarrow> bytes \<Rightarrow> nat option option \<times> 'k"
  so_close :: "'k \<Rightarrow> 'k"
  so_abort :: "'k \<Rightarrow> 'k"
  so_accept :: "'k \<Rightarrow> 'k"
  so_peer :: "'k \<Rightarrow> string option"

text \<open>The Ed25519 public key of a seed, and SHA-256.\<close>

record crypto =
  cr_public_key :: "bytes \<Rightarrow> bytes"
  cr_sha256 :: "bytes \<Rightarrow> bytes"

subsection \<open>State\<close>

definition auth_timeout :: nat where "auth_timeout = 60 * 1000"
definition idle_timeout :: nat where "idle_timeout = 600 * 1000"
definition close_grace :: nat where "close_grace = 2 * 1000"
definition max_progress_steps :: nat where "max_progress_steps = 16"
definition max_rounds :: nat where "max_rounds = 8"
definition hostkey_file :: string where "hostkey_file = ''SSHHOST.KEY''"

record ('k, 'r, 'c, 'h) ssh_server =
  sv_socket :: 'k
  sv_active :: bool
  sv_session :: "('r \<times> ('c, 'h) shell) option"
  sv_hostkey :: "bytes option"
  sv_fingerprint :: string
  sv_unsaved_seed :: "bytes option"
  sv_sessions_total :: nat
  sv_closing_since :: "nat option"
  buffers_in_use :: bool

record poll_context =
  cx_credentials :: server_config
  cx_env :: sftp_env
  cx_status :: shell_status
  cx_now :: nat
  cx_random_seed :: bytes

subsection \<open>The host key\<close>

definition install_hostkey ::
  "crypto \<Rightarrow> bytes \<Rightarrow> ('k, 'r, 'c, 'h) ssh_server \<Rightarrow> ('k, 'r, 'c, 'h) ssh_server" where
  "install_hostkey cr seed sv =
    sv\<lparr>sv_fingerprint := fingerprint (cr_sha256 cr) (cr_public_key cr seed), sv_hostkey := Some seed\<rparr>"

definition ssh_new ::
  "('v, 'h) fat_ops \<Rightarrow> crypto \<Rightarrow> 'k \<Rightarrow> 'v option \<Rightarrow> ('k, 'r, 'c, 'h) ssh_server" where
  "ssh_new ops cr socket vol =
    (let sv = \<lparr>sv_socket = socket, sv_active = False, sv_session = None, sv_hostkey = None,
       sv_fingerprint = [], sv_unsaved_seed = None, sv_sessions_total = 0, sv_closing_since = None,
       buffers_in_use = False\<rparr> in
     case vol of
       None \<Rightarrow> sv
     | Some v \<Rightarrow> (case read_config_file ops v hostkey_file 64 of
         Inr bs \<Rightarrow> if length bs = 32 then install_hostkey cr bs sv else sv
       | Inl _ \<Rightarrow> sv))"

definition ensure_hostkey ::
  "('v, 'h) fat_ops \<Rightarrow> crypto \<Rightarrow> bytes \<Rightarrow> ('k, 'r, 'c, 'h) ssh_server \<Rightarrow> 'v option \<Rightarrow>
   ('k, 'r, 'c, 'h) ssh_server \<times> 'v option" where
  "ensure_hostkey ops cr random_seed sv vol =
    (let sv = (if sv_hostkey sv = None
               then (install_hostkey cr random_seed sv)\<lparr>sv_unsaved_seed := Some random_seed\<rparr> else sv) in
     case (sv_unsaved_seed sv, vol) of
       (Some seed, Some v) \<Rightarrow>
         (case write_config_file ops v hostkey_file seed of
            (Inr _, v) \<Rightarrow> (sv\<lparr>sv_unsaved_seed := None\<rparr>, Some v)
          | (Inl _, v) \<Rightarrow> (sv, Some v))
     | _ \<Rightarrow> (sv, vol))"

definition fingerprint_text :: "('k, 'r, 'c, 'h) ssh_server \<Rightarrow> string" where
  "fingerprint_text sv = (if sv_fingerprint sv = [] then ''none'' else sv_fingerprint sv)"

subsection \<open>Start, stop, and what the rest of the firmware asks\<close>

definition ssh_start :: "('k, 'r, 'c, 'h) ssh_server \<Rightarrow> ('k, 'r, 'c, 'h) ssh_server" where
  "ssh_start sv = sv\<lparr>sv_active := True\<rparr>"

text \<open>Dropping a session, as its \<open>Drop\<close> does.\<close>

definition drop_session :: "('k, 'r, 'c, 'h) ssh_server \<Rightarrow> ('k, 'r, 'c, 'h) ssh_server" where
  "drop_session sv = (if sv_session sv = None then sv else sv\<lparr>sv_session := None, buffers_in_use := False\<rparr>)"

definition ssh_stop :: "'k socket_ops \<Rightarrow> ('k, 'r, 'c, 'h) ssh_server \<Rightarrow> ('k, 'r, 'c, 'h) ssh_server" where
  "ssh_stop so sv =
    (let sv = drop_session (sv\<lparr>sv_active := False\<rparr>)
     in sv\<lparr>sv_closing_since := None, sv_socket := so_abort so (sv_socket sv)\<rparr>)"

definition ssh_peer :: "('k, 'r, 'c, 'h) ssh_server \<Rightarrow> string option" where
  "ssh_peer sv = map_option (\<lambda>(r, sh). sh_peer sh) (sv_session sv)"

definition tcp_state_name :: "tcp_state \<Rightarrow> string" where
  "tcp_state_name st = (case st of Tcp_Closed \<Rightarrow> ''closed'' | Tcp_Listen \<Rightarrow> ''listen''
     | Tcp_Syn_Received \<Rightarrow> ''synreceived'' | Tcp_Established \<Rightarrow> ''established''
     | Tcp_Other name \<Rightarrow> to_ascii_lowercase name)"

definition ssh_state :: "'k socket_ops \<Rightarrow> ('k, 'r, 'c, 'h) ssh_server \<Rightarrow> string" where
  "ssh_state so sv =
    (if \<not> sv_active sv then ''off''
     else case sv_session sv of
       None \<Rightarrow> if so_state so (sv_socket sv) = Tcp_Listen then ''listening''
               else tcp_state_name (so_state so (sv_socket sv))
     | Some (r, sh) \<Rightarrow> (if sh_authenticated sh then ''session peer='' else ''handshake peer='') @ sh_peer sh)"

definition ssh_busy :: "('k, 'r, 'c, 'h) ssh_server \<Rightarrow> bool" where
  "ssh_busy sv \<longleftrightarrow> sv_session sv \<noteq> None"

definition session_sftp :: "('k, 'r, 'c, 'h) ssh_server \<Rightarrow> 'h sftp option" where
  "session_sftp sv = (case sv_session sv of None \<Rightarrow> None | Some (r, sh) \<Rightarrow> sh_sftp sh)"

definition ssh_transferring :: "('k, 'r, 'c, 'h) ssh_server \<Rightarrow> bool" where
  "ssh_transferring sv \<longleftrightarrow> (case session_sftp sv of None \<Rightarrow> False | Some s \<Rightarrow> transferring s)"

definition holds_sd :: "('k, 'r, 'c, 'h) ssh_server \<Rightarrow> bool" where
  "holds_sd sv \<longleftrightarrow> (case session_sftp sv of None \<Rightarrow> False | Some s \<Rightarrow> has_open_handles s \<or> transferring s)"

subsection \<open>One round\<close>

text \<open>Each stage says whether anything moved; \<open>None\<close> ends the session.  The first stage feeds the
  library from the receive ring of the socket.\<close>

definition receive_input ::
  "'k socket_ops \<Rightarrow> ('r, 'c) runner_ops \<Rightarrow> nat \<Rightarrow> 'k \<Rightarrow> 'r \<Rightarrow> ('c, 'h) shell \<Rightarrow>
   bool option \<times> 'k \<times> 'r \<times> ('c, 'h) shell" where
  "receive_input so rn now k r sh =
    (if so_can_recv so k \<and> rn_input_ready rn r then
       (case so_receive so k of
          None \<Rightarrow> (Some False, k, r, sh)
        | Some None \<Rightarrow> (None, k, r, sh)
        | Some (Some data) \<Rightarrow>
          (case rn_input rn r data of
             (Some used, r) \<Rightarrow>
               if 0 < used then (Some True, so_take so k used, r, sh\<lparr>sh_last_activity := now\<rparr>)
               else (Some False, so_take so k used, r, sh)
           | (None, r) \<Rightarrow> (None, so_take so k 0, r, sh)))
     else (Some False, k, r, sh))"

definition close_ended_input :: "'k socket_ops \<Rightarrow> ('r, 'c) runner_ops \<Rightarrow> 'k \<Rightarrow> 'r \<Rightarrow> 'r" where
  "close_ended_input so rn k r =
    (if \<not> so_may_recv so k \<and> \<not> so_can_recv so k then rn_close_input rn r else r)"

primrec progress_steps ::
  "('r, 'c) runner_ops \<Rightarrow> server_config \<Rightarrow> bool \<Rightarrow> nat \<Rightarrow> bool \<Rightarrow> 'r \<Rightarrow> ('c, 'h) shell \<Rightarrow>
   bool option \<times> 'r \<times> ('c, 'h) shell" where
  "progress_steps rn cred has_key 0 moved r sh = (Some moved, r, sh)"
| "progress_steps rn cred has_key (Suc n) moved r sh =
    (case rn_progress rn r of
       (Pg_Error, r) \<Rightarrow> (None, r, sh)
     | (Pg_None, r) \<Rightarrow> (Some moved, r, sh)
     | (Pg_Progressed, r) \<Rightarrow> progress_steps rn cred has_key n True r sh
     | (Pg_Client, r) \<Rightarrow> (None, r, sh)
     | (Pg_Server ev, r) \<Rightarrow>
        if \<not> has_key then (None, r, sh)
        else (case (case event_answer cred sh ev of
                 Some a \<Rightarrow> rn_answer rn r a | None \<Rightarrow> (True, r)) of
           (accepted, r) \<Rightarrow>
             (case handle_event cred accepted ev sh of
                (Go_On, sh) \<Rightarrow> progress_steps rn cred has_key n True r sh
              | (_, sh) \<Rightarrow> (None, r, sh))))"

partial_function (option) send_output ::
  "'k socket_ops \<Rightarrow> ('r, 'c) runner_ops \<Rightarrow> bool \<Rightarrow> 'k \<Rightarrow> 'r \<Rightarrow> (bool option \<times> 'k \<times> 'r) option" where
  "send_output so rn moved k r =
    (if \<not> so_can_send so k \<or> rn_output_buf rn r = [] then Some (Some moved, k, r)
     else (case so_write so k (rn_output_buf rn r) of
        (None, k) \<Rightarrow> Some (Some moved, k, r)
      | (Some None, k) \<Rightarrow> Some (None, k, r)
      | (Some (Some written), k) \<Rightarrow>
          if 0 < written then send_output so rn True k (rn_consume_output rn r written)
          else Some (Some moved, k, r)))"

definition channel_pass ::
  "('v, 'h) fat_ops \<Rightarrow> poll_context \<Rightarrow> ('r, 'c) runner_ops \<Rightarrow> 'r \<Rightarrow> ('c, 'h) shell \<Rightarrow> 'v option \<Rightarrow>
   (bool option \<times> 'r \<times> ('c, 'h) shell \<times> 'v option) option" where
  "channel_pass ops cx rn r sh vol =
    (case (if sh_sftp sh \<noteq> None then channel_sftp ops (cx_env cx) (rn_channels rn) r sh vol
           else (case channel_shell (rn_channels rn) (cx_status cx) r sh of
              (m, r, sh) \<Rightarrow> Some (m, r, sh, vol))) of
       None \<Rightarrow> None
     | Some (Some True, r, sh, vol) \<Rightarrow> Some (Some True, r, sh\<lparr>sh_last_activity := cx_now cx\<rparr>, vol)
     | Some (m, r, sh, vol) \<Rightarrow> Some (m, r, sh, vol))"

definition ssh_round ::
  "('v, 'h) fat_ops \<Rightarrow> poll_context \<Rightarrow> 'k socket_ops \<Rightarrow> ('r, 'c) runner_ops \<Rightarrow> bool \<Rightarrow>
   'k \<Rightarrow> 'r \<Rightarrow> ('c, 'h) shell \<Rightarrow> 'v option \<Rightarrow>
   (bool option \<times> 'k \<times> 'r \<times> ('c, 'h) shell \<times> 'v option) option" where
  "ssh_round ops cx so rn has_key k r sh vol =
    (case receive_input so rn (cx_now cx) k r sh of
       (None, k, r, sh) \<Rightarrow> Some (None, k, r, sh, vol)
     | (Some got, k, r, sh) \<Rightarrow>
       (case progress_steps rn (cx_credentials cx) has_key max_progress_steps got
               (close_ended_input so rn k r) sh of
          (None, r, sh) \<Rightarrow> Some (None, k, r, sh, vol)
        | (Some moved, r, sh) \<Rightarrow>
          (case channel_pass ops cx rn r sh vol of
             None \<Rightarrow> None
           | Some (None, r, sh, vol) \<Rightarrow> Some (None, k, r, sh, vol)
           | Some (Some passed, r, sh, vol) \<Rightarrow>
             (case send_output so rn (moved \<or> passed) k r of
                None \<Rightarrow> None
              | Some (m, k, r) \<Rightarrow> Some (m, k, r, sh, vol)))))"

subsection \<open>One poll\<close>

text \<open>Rounds while something moves, eight at most; the flag is \<open>False\<close> when the session is over.\<close>

primrec ssh_rounds ::
  "('v, 'h) fat_ops \<Rightarrow> poll_context \<Rightarrow> 'k socket_ops \<Rightarrow> ('r, 'c) runner_ops \<Rightarrow> bool \<Rightarrow> nat \<Rightarrow>
   'k \<Rightarrow> 'r \<Rightarrow> ('c, 'h) shell \<Rightarrow> 'v option \<Rightarrow>
   (bool \<times> 'k \<times> 'r \<times> ('c, 'h) shell \<times> 'v option) option" where
  "ssh_rounds ops cx so rn has_key 0 k r sh vol = Some (True, k, r, sh, vol)"
| "ssh_rounds ops cx so rn has_key (Suc n) k r sh vol =
    (case ssh_round ops cx so rn has_key k r sh vol of
       None \<Rightarrow> None
     | Some (None, k, r, sh, vol) \<Rightarrow> Some (False, k, r, sh, vol)
     | Some (Some False, k, r, sh, vol) \<Rightarrow> Some (True, k, r, sh, vol)
     | Some (Some True, k, r, sh, vol) \<Rightarrow> ssh_rounds ops cx so rn has_key n k r sh vol)"

definition timed_out :: "nat \<Rightarrow> ('c, 'h) shell \<Rightarrow> bool" where
  "timed_out now sh \<longleftrightarrow> (\<not> sh_authenticated sh \<and> auth_timeout < now - sh_started sh)
     \<or> idle_timeout < now - sh_last_activity sh"

definition poll_session ::
  "('v, 'h) fat_ops \<Rightarrow> poll_context \<Rightarrow> 'k socket_ops \<Rightarrow> ('r, 'c) runner_ops \<Rightarrow> bool \<Rightarrow>
   'k \<Rightarrow> 'r \<Rightarrow> ('c, 'h) shell \<Rightarrow> 'v option \<Rightarrow>
   (bool \<times> 'k \<times> 'r \<times> ('c, 'h) shell \<times> 'v option) option" where
  "poll_session ops cx so rn has_key k r sh vol =
    (if timed_out (cx_now cx) sh then Some (False, k, r, sh, vol)
     else case ssh_rounds ops cx so rn has_key max_rounds k r
                 (sh\<lparr>sh_sftp := map_option begin_poll (sh_sftp sh)\<rparr>) vol of
       None \<Rightarrow> None
     | Some (keep, k, r, sh, vol) \<Rightarrow>
         Some (keep \<and> (so_may_send so k \<or> so_may_recv so k), k, r, sh, vol))"

definition poll_listener ::
  "('v, 'h) fat_ops \<Rightarrow> crypto \<Rightarrow> poll_context \<Rightarrow> 'k socket_ops \<Rightarrow> ('r, 'c) runner_ops \<Rightarrow>
   ('k, 'r, 'c, 'h) ssh_server \<Rightarrow> 'v option \<Rightarrow> ('k, 'r, 'c, 'h) ssh_server \<times> 'v option" where
  "poll_listener ops cr cx so rn sv vol =
    (case so_state so (sv_socket sv) of
       Tcp_Closed \<Rightarrow> (sv\<lparr>sv_closing_since := None, sv_socket := so_accept so (sv_socket sv)\<rparr>, vol)
     | Tcp_Established \<Rightarrow>
        if buffers_in_use sv then (sv\<lparr>sv_socket := so_abort so (sv_socket sv)\<rparr>, vol)
        else (case ensure_hostkey ops cr (cx_random_seed cx) (sv\<lparr>buffers_in_use := True\<rparr>) vol of
           (sv, vol) \<Rightarrow>
             let peer = (case so_peer so (sv_socket sv) of Some p \<Rightarrow> p | None \<Rightarrow> ''?'') in
             (sv\<lparr>sv_sessions_total := wrapping_add 32 (sv_sessions_total sv) 1,
                 sv_session := Some (rn_new rn, shell_new peer (cx_now cx))\<rparr>, vol))
     | Tcp_Listen \<Rightarrow> (sv, vol)
     | Tcp_Syn_Received \<Rightarrow> (sv, vol)
     | Tcp_Other _ \<Rightarrow>
        if (case sv_closing_since sv of Some since \<Rightarrow> cx_now cx - since < close_grace | None \<Rightarrow> False)
        then (sv, vol)
        else (sv\<lparr>sv_closing_since := None, sv_socket := so_abort so (sv_socket sv)\<rparr>, vol))"

definition ssh_poll ::
  "('v, 'h) fat_ops \<Rightarrow> crypto \<Rightarrow> poll_context \<Rightarrow> 'k socket_ops \<Rightarrow> ('r, 'c) runner_ops \<Rightarrow>
   ('k, 'r, 'c, 'h) ssh_server \<Rightarrow> 'v option \<Rightarrow> (('k, 'r, 'c, 'h) ssh_server \<times> 'v option) option" where
  "ssh_poll ops cr cx so rn sv vol =
    (if \<not> sv_active sv then Some (sv, vol)
     else case (if sv_session sv = None then poll_listener ops cr cx so rn sv vol else (sv, vol)) of
       (sv, vol) \<Rightarrow>
       (case sv_session sv of
          None \<Rightarrow> Some (sv, vol)
        | Some (r, sh) \<Rightarrow>
          (case poll_session ops cx so rn (sv_hostkey sv \<noteq> None) (sv_socket sv) r sh vol of
             None \<Rightarrow> None
           | Some (True, k, r, sh, vol) \<Rightarrow> Some (sv\<lparr>sv_socket := k, sv_session := Some (r, sh)\<rparr>, vol)
           | Some (False, k, r, sh, vol) \<Rightarrow>
               Some (drop_session (sv\<lparr>sv_socket := so_close so k, sv_closing_since := Some (cx_now cx)\<rparr>), vol))))"

subsection \<open>Every poll returns, and one session owns the buffers\<close>

text \<open>What the output loop relies on: a socket write takes at most what it is given, and the
  library's output shrinks by what is consumed.\<close>

definition output_drains :: "'k socket_ops \<Rightarrow> ('r, 'c) runner_ops \<Rightarrow> bool" where
  "output_drains so rn \<longleftrightarrow>
    (\<forall>k bs n k'. so_write so k bs = (Some (Some n), k') \<longrightarrow> n \<le> length bs)
    \<and> (\<forall>r n. 0 < n \<longrightarrow> n \<le> length (rn_output_buf rn r) \<longrightarrow>
         length (rn_output_buf rn (rn_consume_output rn r n)) < length (rn_output_buf rn r))"

lemma send_output_returns:
  assumes "output_drains so rn"
  shows "\<exists>x. send_output so rn moved k r = Some x"
proof (induction "length (rn_output_buf rn r)" arbitrary: moved k r rule: less_induct)
  case less
  obtain w k' where w: "so_write so k (rn_output_buf rn r) = (w, k')" by (metis prod.exhaust)
  show ?case
  proof (cases "\<exists>n. w = Some (Some n) \<and> 0 < n")
    case True
    then obtain n where n: "w = Some (Some n)" "0 < n" by blast
    with w assms have "n \<le> length (rn_output_buf rn r)" unfolding output_drains_def by blast
    with assms n(2) have "length (rn_output_buf rn (rn_consume_output rn r n)) < length (rn_output_buf rn r)"
      unfolding output_drains_def by blast
    from less [OF this, of True k'] w n show ?thesis by (subst send_output.simps) simp
  next
    case False
    then show ?thesis using w by (subst send_output.simps) (auto split: option.split)
  qed
qed

lemma progress_steps_sound:
  "shell_sound ops sh vol \<Longrightarrow> progress_steps rn cred has_key n moved r sh = (m, r', sh') \<Longrightarrow>
    shell_sound ops sh' vol"
proof (induction n arbitrary: moved r sh)
  case (Suc n)
  obtain p r1 where p: "rn_progress rn r = (p, r1)" by (metis prod.exhaust)
  show ?case
  proof (cases "\<exists>ev. p = Pg_Server ev \<and> has_key")
    case False
    with Suc.prems p show ?thesis by (cases p) (auto dest: Suc.IH)
  next
    case True
    then obtain ev where ev: "p = Pg_Server ev" "has_key" by blast
    obtain a r2 where a: "(case event_answer cred sh ev of Some a \<Rightarrow> rn_answer rn r1 a | None \<Rightarrow> (True, r1)) = (a, r2)"
      by (metis prod.exhaust)
    obtain res sh1 where h: "handle_event cred a ev sh = (res, sh1)" by (metis prod.exhaust)
    note s1 = handle_event_sound [OF Suc.prems(1) h]
    from Suc.prems(2) p ev a h s1 show ?thesis by (cases res) (auto dest: Suc.IH)
  qed
qed simp

lemma receive_input_sound:
  "shell_sound ops sh vol \<Longrightarrow> receive_input so rn now k r sh = (m, k', r', sh') \<Longrightarrow> shell_sound ops sh' vol"
  by (auto simp: receive_input_def shell_sound_def split: if_splits option.splits prod.splits)

definition link_ok :: "('v, 'h) fat_ops \<Rightarrow> 'k socket_ops \<Rightarrow> ('r, 'c) runner_ops \<Rightarrow> bool" where
  "link_ok ops so rn \<longleftrightarrow> fat_limits ops \<and> channel_reads_fit (rn_channels rn) \<and> output_drains so rn"

lemma channel_pass_sound:
  assumes "shell_sound ops sh vol" "link_ok ops so rn"
  shows "\<exists>m r' sh' vol'. channel_pass ops cx rn r sh vol = Some (m, r', sh', vol') \<and> shell_sound ops sh' vol'"
proof (cases "sh_sftp sh = None")
  case True
  obtain m r1 sh1 where c: "channel_shell (rn_channels rn) (cx_status cx) r sh = (m, r1, sh1)" by (metis prod.exhaust)
  have "sh_sftp sh1 = None" using channel_shell_sftp [OF c] True by simp
  with True c show ?thesis
    by (cases "m = Some True") (auto simp: channel_pass_def shell_sound_def split: option.split bool.split)
next
  case False
  obtain m r1 sh1 vol1 where c: "channel_sftp ops (cx_env cx) (rn_channels rn) r sh vol = Some (m, r1, sh1, vol1)"
    "shell_sound ops sh1 vol1"
    using channel_sftp_sound [OF assms(1), of "rn_channels rn" "cx_env cx" r] assms(2) by (auto simp: link_ok_def)
  with False show ?thesis
    by (cases "m = Some True") (auto simp: channel_pass_def shell_sound_def split: option.split bool.split)
qed

lemma ssh_round_sound:
  assumes "shell_sound ops sh vol" "link_ok ops so rn"
  shows "\<exists>m k' r' sh' vol'. ssh_round ops cx so rn has_key k r sh vol = Some (m, k', r', sh', vol')
    \<and> shell_sound ops sh' vol'"
proof -
  obtain m1 k1 r1 sh1 where in1: "receive_input so rn (cx_now cx) k r sh = (m1, k1, r1, sh1)" by (metis prod.exhaust)
  have s1: "shell_sound ops sh1 vol" by (rule receive_input_sound [OF assms(1) in1])
  show ?thesis
  proof (cases m1)
    case None
    with in1 s1 show ?thesis by (simp add: ssh_round_def)
  next
    case (Some got)
    obtain m2 r2 sh2 where p: "progress_steps rn (cx_credentials cx) has_key max_progress_steps got
        (close_ended_input so rn k1 r1) sh1 = (m2, r2, sh2)" by (metis prod.exhaust)
    have s2: "shell_sound ops sh2 vol" by (rule progress_steps_sound [OF s1 p])
    show ?thesis
    proof (cases m2)
      case None
      with in1 Some p s2 show ?thesis by (simp add: ssh_round_def)
    next
      case (Some moved)
      obtain m3 r3 sh3 vol3 where c: "channel_pass ops cx rn r2 sh2 vol = Some (m3, r3, sh3, vol3)"
        "shell_sound ops sh3 vol3"
        using channel_pass_sound [OF s2 assms(2), of cx r2] by blast
      obtain m4 k4 r4 where "send_output so rn (moved \<or> the m3) k1 r3 = Some (m4, k4, r4)"
        using send_output_returns [of so rn "moved \<or> the m3" k1 r3] assms(2) by (auto simp: link_ok_def)
      with in1 \<open>m1 = Some got\<close> p Some c show ?thesis by (cases m3) (simp_all add: ssh_round_def)
    qed
  qed
qed

lemma ssh_rounds_sound:
  assumes "link_ok ops so rn" "shell_sound ops sh vol"
  shows "\<exists>b k' r' sh' vol'. ssh_rounds ops cx so rn has_key n k r sh vol = Some (b, k', r', sh', vol')
    \<and> shell_sound ops sh' vol'"
  using assms(2)
proof (induction n arbitrary: k r sh vol)
  case (Suc n)
  obtain m k1 r1 sh1 vol1 where one: "ssh_round ops cx so rn has_key k r sh vol = Some (m, k1, r1, sh1, vol1)"
    "shell_sound ops sh1 vol1"
    using ssh_round_sound [OF Suc.prems assms(1), of cx has_key k r] by blast
  show ?case
  proof (cases "m = Some True")
    case True
    with one Suc.IH [OF one(2)] show ?thesis by simp
  next
    case False
    with one show ?thesis by (cases m) auto
  qed
qed auto

lemma poll_session_sound:
  assumes "link_ok ops so rn" "shell_sound ops sh vol"
  shows "\<exists>b k' r' sh' vol'. poll_session ops cx so rn has_key k r sh vol = Some (b, k', r', sh', vol')
    \<and> shell_sound ops sh' vol'"
proof -
  have "shell_sound ops (sh\<lparr>sh_sftp := map_option begin_poll (sh_sftp sh)\<rparr>) vol"
    using assms(2) session.polled by (fastforce simp: shell_sound_def)
  from ssh_rounds_sound [OF assms(1) this, of cx has_key max_rounds k r] assms(2)
  show ?thesis by (auto simp: poll_session_def)
qed

text \<open>The invariant of the server.\<close>

definition ssh_sound :: "('v, 'h) fat_ops \<Rightarrow> ('k, 'r, 'c, 'h) ssh_server \<Rightarrow> 'v option \<Rightarrow> bool" where
  "ssh_sound ops sv vol \<longleftrightarrow> (buffers_in_use sv \<longleftrightarrow> sv_session sv \<noteq> None)
     \<and> (\<not> sv_active sv \<longrightarrow> sv_session sv = None)
     \<and> (\<forall>r sh. sv_session sv = Some (r, sh) \<longrightarrow> shell_sound ops sh vol \<and> sv_hostkey sv \<noteq> None)"

lemma ensure_hostkey_frame:
  assumes "ensure_hostkey ops cr seed sv vol = (sv', vol')"
  shows "sv_session sv' = sv_session sv" "sv_active sv' = sv_active sv" "buffers_in_use sv' = buffers_in_use sv"
    "sv_hostkey sv' \<noteq> None" "sv_socket sv' = sv_socket sv"
  using assms
  by (auto simp: ensure_hostkey_def install_hostkey_def Let_def split: if_splits option.splits prod.splits sum.splits)

lemma session_card_irrelevant: "shell_sound ops sh vol \<Longrightarrow> shell_sound ops sh vol'"
  using session.card by (auto simp: shell_sound_def)

lemma ensure_hostkey_sound:
  "ssh_sound ops sv vol \<Longrightarrow> ensure_hostkey ops cr seed sv vol = (sv', vol') \<Longrightarrow> ssh_sound ops sv' vol'"
  using ensure_hostkey_frame [of ops cr seed sv vol sv' vol']
  by (auto simp: ssh_sound_def intro: session_card_irrelevant [of ops _ vol vol'])

lemma poll_listener_sound:
  assumes "ssh_sound ops sv vol" "sv_session sv = None" "sv_active sv"
    "poll_listener ops cr cx so rn sv vol = (sv', vol')"
  shows "ssh_sound ops sv' vol' \<and> sv_active sv'"
proof (cases "so_state so (sv_socket sv) = Tcp_Established")
  case True
  obtain sv1 vol1 where k: "ensure_hostkey ops cr (cx_random_seed cx) (sv\<lparr>buffers_in_use := True\<rparr>) vol = (sv1, vol1)"
    by (metis prod.exhaust)
  have "\<not> buffers_in_use sv" using assms(1,2) by (simp add: ssh_sound_def)
  with True k assms(4) ensure_hostkey_frame [OF k] assms(3) show ?thesis
    by (auto simp: poll_listener_def Let_def ssh_sound_def shell_sound_def shell_new_def)
next
  case False
  with assms show ?thesis
    by (auto simp: poll_listener_def ssh_sound_def split: tcp_state.splits if_splits)
qed

lemma ssh_poll_sound:
  assumes "ssh_sound ops sv vol" "link_ok ops so rn"
  shows "\<exists>sv' vol'. ssh_poll ops cr cx so rn sv vol = Some (sv', vol') \<and> ssh_sound ops sv' vol'"
proof (cases "sv_active sv")
  case True
  obtain sv1 vol1 where l: "(if sv_session sv = None then poll_listener ops cr cx so rn sv vol else (sv, vol)) = (sv1, vol1)"
    by (metis prod.exhaust)
  have s1: "ssh_sound ops sv1 vol1" "sv_active sv1"
    using l assms(1) True poll_listener_sound [OF assms(1) _ True, of cr cx so rn sv1 vol1]
    by (auto split: if_splits)
  show ?thesis
  proof (cases "sv_session sv1")
    case None
    with True l s1 show ?thesis by (simp add: ssh_poll_def)
  next
    case (Some x)
    obtain r sh where x: "sv_session sv1 = Some (r, sh)" using Some by (cases x) simp
    with s1 have "shell_sound ops sh vol1" by (simp add: ssh_sound_def)
    from poll_session_sound [OF assms(2) this, of cx "sv_hostkey sv1 \<noteq> None" "sv_socket sv1" r]
    obtain b k2 r2 sh2 vol2 where p: "poll_session ops cx so rn (sv_hostkey sv1 \<noteq> None) (sv_socket sv1) r sh vol1
        = Some (b, k2, r2, sh2, vol2)" "shell_sound ops sh2 vol2" by blast
    with True l x s1 show ?thesis
      by (cases b) (auto simp: ssh_poll_def ssh_sound_def drop_session_def)
  qed
qed (use assms(1) in \<open>simp add: ssh_poll_def\<close>)

text \<open>The servers a run of the firmware can reach; between two operations the card may come, go or be
  changed by others.\<close>

inductive ssh_reach ::
  "('v, 'h) fat_ops \<Rightarrow> crypto \<Rightarrow> 'k socket_ops \<Rightarrow> ('r, 'c) runner_ops \<Rightarrow>
   ('k, 'r, 'c, 'h) ssh_server \<Rightarrow> 'v option \<Rightarrow> bool" for ops cr so rn where
  booted: "ssh_reach ops cr so rn (ssh_new ops cr socket vol) vol"
| opened: "ssh_reach ops cr so rn sv vol \<Longrightarrow> ssh_reach ops cr so rn (ssh_start sv) vol"
| stopped: "ssh_reach ops cr so rn sv vol \<Longrightarrow> ssh_reach ops cr so rn (ssh_stop so sv) vol"
| polled: "ssh_reach ops cr so rn sv vol \<Longrightarrow> ssh_poll ops cr cx so rn sv vol = Some (sv', vol') \<Longrightarrow>
    ssh_reach ops cr so rn sv' vol'"
| keyed: "ssh_reach ops cr so rn sv vol \<Longrightarrow> ensure_hostkey ops cr seed sv vol = (sv', vol') \<Longrightarrow>
    ssh_reach ops cr so rn sv' vol'"
| carded: "ssh_reach ops cr so rn sv vol \<Longrightarrow> ssh_reach ops cr so rn sv vol'"

lemma ssh_new_sound: "ssh_sound ops (ssh_new ops cr socket vol) vol'"
  by (simp add: ssh_new_def ssh_sound_def install_hostkey_def Let_def split: option.split sum.split)

lemma ssh_reach_sound: "ssh_reach ops cr so rn sv vol \<Longrightarrow> link_ok ops so rn \<Longrightarrow> ssh_sound ops sv vol"
proof (induction rule: ssh_reach.induct)
  case (booted socket vol)
  show ?case by (rule ssh_new_sound)
next
  case (polled sv vol cx sv' vol')
  from ssh_poll_sound [OF polled.IH [OF polled.prems] polled.prems, of cr cx] polled.hyps(2)
  show ?case by auto
next
  case (keyed sv vol seed sv' vol')
  then show ?case using ensure_hostkey_sound by blast
next
  case (carded sv vol vol')
  then show ?case by (auto simp: ssh_sound_def intro: session_card_irrelevant [of ops _ vol vol'])
qed (auto simp: ssh_start_def ssh_stop_def drop_session_def ssh_sound_def Let_def)

text \<open>C15: In every reachable state of the SSH server the static packet buffers are in use exactly
  while a session exists; without its screen there is no session and nothing holds the card; and the
  SFTP state of a session is one that the SFTP protocol can reach, so all its guarantees apply.\<close>

theorem one_session_owns_the_buffers:
  assumes "ssh_reach ops cr so rn sv vol" and "link_ok ops so rn"
  shows "(buffers_in_use sv \<longleftrightarrow> ssh_busy sv)
    \<and> (\<not> sv_active sv \<longrightarrow> \<not> ssh_busy sv \<and> \<not> holds_sd sv)
    \<and> (\<forall>s. session_sftp sv = Some s \<longrightarrow> session ops s vol)"
  using ssh_reach_sound [OF assms]
  by (auto simp: ssh_sound_def ssh_busy_def holds_sd_def session_sftp_def shell_sound_def split: option.splits)

text \<open>C14: Every poll of the SSH server returns: no step panics and its output loop ends.  A session
  that is not authenticated after a minute, or idle for ten, is gone after the poll and its
  connection closed.\<close>

theorem every_poll_returns:
  assumes "ssh_reach ops cr so rn sv vol" and "link_ok ops so rn"
  shows "\<exists>sv' vol'. ssh_poll ops cr cx so rn sv vol = Some (sv', vol')
    \<and> (\<forall>r sh. sv_active sv \<and> sv_session sv = Some (r, sh) \<and> timed_out (cx_now cx) sh \<longrightarrow>
         \<not> ssh_busy sv' \<and> \<not> buffers_in_use sv' \<and> sv_socket sv' = so_close so (sv_socket sv))"
proof -
  obtain sv' vol' where p: "ssh_poll ops cr cx so rn sv vol = Some (sv', vol')"
    using ssh_poll_sound [OF ssh_reach_sound [OF assms] assms(2), of cr cx] by blast
  moreover have "\<not> ssh_busy sv' \<and> \<not> buffers_in_use sv' \<and> sv_socket sv' = so_close so (sv_socket sv)"
    if "sv_active sv" "sv_session sv = Some (r, sh)" "timed_out (cx_now cx) sh" for r sh
    using p that by (auto simp: ssh_poll_def poll_session_def drop_session_def ssh_busy_def)
  ultimately show ?thesis by blast
qed

text \<open>A connection that sends nothing.\<close>

definition quiet_socket :: "tcp_state socket_ops" where
  "quiet_socket = \<lparr>so_state = id, so_can_recv = \<lambda>k. False, so_can_send = \<lambda>k. True, so_may_recv = \<lambda>k. True,
     so_may_send = \<lambda>k. True, so_receive = \<lambda>k. None, so_take = \<lambda>k n. k,
     so_write = \<lambda>k bs. (Some (Some (length bs)), k), so_close = \<lambda>k. Tcp_Other ''FinWait1'',
     so_abort = \<lambda>k. Tcp_Closed, so_accept = \<lambda>k. Tcp_Listen, so_peer = \<lambda>k. Some ''10.0.0.2:50000''\<rparr>"

definition quiet_runner :: "(bytes, unit) runner_ops" where
  "quiet_runner = \<lparr>rn_new = [0x53, 0x53, 0x48], rn_input_ready = \<lambda>r. True, rn_input = \<lambda>r bs. (Some (length bs), r),
     rn_close_input = id, rn_progress = \<lambda>r. (Pg_None, r), rn_answer = \<lambda>r a. (True, r),
     rn_output_buf = id, rn_consume_output = \<lambda>r n. drop n r,
     rn_channels = \<lparr>ch_read = \<lambda>r c n. (Inr [], r), ch_write = \<lambda>r c bs. (Inr (length bs), r),
       ch_close = \<lambda>r c n. r, ch_done = \<lambda>r c. r\<rparr>\<rparr>"

definition sample_crypto :: crypto where
  "sample_crypto = \<lparr>cr_public_key = id, cr_sha256 = id\<rparr>"

definition sample_context :: "nat \<Rightarrow> poll_context" where
  "sample_context now = \<lparr>cx_credentials = default_server_config, cx_env = sample_env,
     cx_status = \<lparr>ss_heap_free = 1, ss_heap_free_min = 1, ss_uptime_ms = 1, ss_loop_max_ms = 1\<rparr>,
     cx_now = now, cx_random_seed = replicate 32 7\<rparr>"

lemma quiet_link: "link_ok sample_ops quiet_socket quiet_runner"
  using sample_limits
  by (auto simp: link_ok_def channel_reads_fit_def output_drains_def quiet_socket_def quiet_runner_def)

lemma quiet_reach:
  "ssh_reach sample_ops sample_crypto quiet_socket quiet_runner
    (ssh_start (ssh_new sample_ops sample_crypto Tcp_Established None)) None"
  by (rule ssh_reach.opened [OF ssh_reach.booted])

theorem one_session_owns_the_buffers_witness:
  "\<exists>sv vol. ssh_poll sample_ops sample_crypto (sample_context 0) quiet_socket quiet_runner
      (ssh_start (ssh_new sample_ops sample_crypto Tcp_Established None)) None = Some (sv, vol)
    \<and> (buffers_in_use sv \<longleftrightarrow> ssh_busy sv)"
proof -
  obtain sv vol where p: "ssh_poll sample_ops sample_crypto (sample_context 0) quiet_socket quiet_runner
      (ssh_start (ssh_new sample_ops sample_crypto Tcp_Established None)) None = Some (sv, vol)"
    using ssh_poll_sound [OF ssh_reach_sound [OF quiet_reach quiet_link] quiet_link] by blast
  from one_session_owns_the_buffers [OF ssh_reach.polled [OF quiet_reach p] quiet_link] p
  show ?thesis by blast
qed

theorem every_poll_returns_witness:
  "\<exists>sv vol. ssh_poll sample_ops sample_crypto (sample_context 0) quiet_socket quiet_runner
      (ssh_start (ssh_new sample_ops sample_crypto Tcp_Established None)) None = Some (sv, vol)"
  using every_poll_returns [OF quiet_reach quiet_link, of "sample_context 0"] by blast

end
