(* ===== verification/Debug_Console.thy ===== *)
theory Debug_Console
  imports Rat_Text
begin

text \<open>
  The debug console of \<open>src/debug.rs\<close>: the line editor over the serial port, the commands it
  parses, and the transmit ring.  The serial port is the driver's; its answers are arguments: the
  bytes it has received, the number of bytes it accepts before it would block, and whether a flush
  completes.  A write that does not fit the ring is dropped whole.

  The contract of the ring is the locale \<open>byte_queue\<close>, a bounded queue seen through its
  contents; the ring is an interpretation of it, and behaves like the list queue below under every
  sequence of operations.
\<close>

subsection \<open>Commands\<close>

definition rx_line_len :: nat where "rx_line_len = 192"
definition text_len :: nat where "text_len = 96"
definition tx_queue_len :: nat where "tx_queue_len = 4096"

datatype debug_key = Dk_Up | Dk_Down | Dk_Left | Dk_Right | Dk_Enter | Dk_Back | Dk_Backspace
  | Dk_Delete | Dk_Tab | Dk_Space

record debug_text =
  dt_bytes :: bytes
  dt_len :: nat

definition as_str :: "debug_text \<Rightarrow> string" where
  "as_str t = of_bytes (take (dt_len t) (dt_bytes t))"

datatype debug_wdt = Wdt_Status | Wdt_On | Wdt_Off | Wdt_Freeze | Wdt_Stall

datatype debug_command = Cmd_Ping | Cmd_Help | Cmd_Status | Cmd_Key debug_key | Cmd_Text debug_text | Cmd_Wdt debug_wdt
  | Cmd_Clear | Cmd_Reboot | Cmd_Invalid string

definition parse_key :: "string option \<Rightarrow> debug_key option" where
  "parse_key argument = (case map_option trim argument of
     None \<Rightarrow> None
   | Some v \<Rightarrow>
      if eq_ignore_ascii_case v ''up'' then Some Dk_Up
      else if eq_ignore_ascii_case v ''down'' then Some Dk_Down
      else if eq_ignore_ascii_case v ''left'' then Some Dk_Left
      else if eq_ignore_ascii_case v ''right'' then Some Dk_Right
      else if eq_ignore_ascii_case v ''enter'' then Some Dk_Enter
      else if eq_ignore_ascii_case v ''back'' then Some Dk_Back
      else if eq_ignore_ascii_case v ''backspace'' then Some Dk_Backspace
      else if eq_ignore_ascii_case v ''delete'' then Some Dk_Delete
      else if eq_ignore_ascii_case v ''tab'' then Some Dk_Tab
      else if eq_ignore_ascii_case v ''space'' then Some Dk_Space
      else None)"

definition parse_text :: "string option \<Rightarrow> debug_command" where
  "parse_text argument = (case argument of
     None \<Rightarrow> Cmd_Invalid ''missing_text''
   | Some a \<Rightarrow>
      if a = [] \<or> text_len < length a \<or> \<not> list_all (\<lambda>c. is_ascii_graphic c \<or> c = CHR '' '') a
      then Cmd_Invalid ''text_must_be_1_96_printable_ascii''
      else Cmd_Text \<lparr>dt_bytes = splice_at 0 (to_bytes a) (replicate text_len 0), dt_len = length a\<rparr>)"

definition parse_wdt :: "string option \<Rightarrow> debug_wdt option" where
  "parse_wdt argument = (case map_option trim argument of
     None \<Rightarrow> Some Wdt_Status
   | Some v \<Rightarrow>
      if eq_ignore_ascii_case v ''on'' then Some Wdt_On
      else if eq_ignore_ascii_case v ''off'' then Some Wdt_Off
      else if eq_ignore_ascii_case v ''freeze'' then Some Wdt_Freeze
      else if eq_ignore_ascii_case v ''stall'' then Some Wdt_Stall
      else None)"

definition parse_command :: "bytes \<Rightarrow> debug_command option" where
  "parse_command bs =
    (if \<not> utf8_valid bs then Some (Cmd_Invalid ''non_ascii_command'')
     else let line = trim (of_bytes bs) in
       if line = [] then None
       else case (case split_once (CHR '' '') line of
           None \<Rightarrow> (line, None) | Some (name, argument) \<Rightarrow> (name, Some argument)) of
         (name, argument) \<Rightarrow>
           Some (if eq_ignore_ascii_case name ''PING'' then Cmd_Ping
           else if eq_ignore_ascii_case name ''HELP'' then Cmd_Help
           else if eq_ignore_ascii_case name ''STATUS'' then Cmd_Status
           else if eq_ignore_ascii_case name ''CLEAR'' then Cmd_Clear
           else if eq_ignore_ascii_case name ''REBOOT'' then Cmd_Reboot
           else if eq_ignore_ascii_case name ''KEY'' then
             (case parse_key argument of Some k \<Rightarrow> Cmd_Key k | None \<Rightarrow> Cmd_Invalid ''bad_key'')
           else if eq_ignore_ascii_case name ''TEXT'' then parse_text argument
           else if eq_ignore_ascii_case name ''WDT'' then
             (case parse_wdt argument of Some w \<Rightarrow> Cmd_Wdt w
              | None \<Rightarrow> Cmd_Invalid ''wdt_must_be_on_off_freeze_or_stall'')
           else Cmd_Invalid ''unknown_command''))"

subsection \<open>The console and its transmit ring\<close>

record console =
  rx_line :: bytes
  rx_len :: nat
  rx_overflow :: bool
  escape_state :: nat
  last_was_cr :: bool
  tx_queue :: bytes
  tx_head :: nat
  tx_len :: nat
  tx_dirty :: bool

primrec push_tx :: "console \<Rightarrow> bytes \<Rightarrow> console" where
  "push_tx c [] = c"
| "push_tx c (b # bs) =
    (let tail = (tx_head c + tx_len c) mod length (tx_queue c) in
     push_tx (c\<lparr>tx_queue := (tx_queue c)[tail := b], tx_len := tx_len c + 1\<rparr>) bs)"

definition write_str :: "console \<Rightarrow> string \<Rightarrow> console option" where
  "write_str c s =
    (if length (tx_queue c) - tx_len c < length s then None else Some (push_tx c (to_bytes s)))"

text \<open>\<open>let _ = self.write_str(..)\<close>: a failure is ignored.\<close>

definition emit :: "string \<Rightarrow> console \<Rightarrow> console" where
  "emit s c = (case write_str c s of Some c' \<Rightarrow> c' | None \<Rightarrow> c)"

text \<open>The formatting machinery writes a message piece by piece and stops at the first failure.\<close>

primrec write_pieces :: "string list \<Rightarrow> console \<Rightarrow> console" where
  "write_pieces [] c = c"
| "write_pieces (p # ps) c = (case write_str c p of Some c' \<Rightarrow> write_pieces ps c' | None \<Rightarrow> c)"

definition crlf :: string where "crlf = [char_of (13::nat), char_of (10::nat)]"
definition rub_out :: string where "rub_out = [char_of (8::nat), CHR '' '', char_of (8::nat)]"

definition console_new :: console where
  "console_new =
    write_pieces [crlf @ ''[rat] RATPUTER USB console - type ''
        @ [char_of (39::nat)] @ ''help'' @ [char_of (39::nat)] @ '' for commands'' @ crlf @ ''rat> '']
      \<lparr>rx_line = replicate rx_line_len 0, rx_len = 0, rx_overflow = False, escape_state = 0,
       last_was_cr = False, tx_queue = replicate tx_queue_len 0, tx_head = 0, tx_len = 0,
       tx_dirty = False\<rparr>"

definition say_ok :: "string list \<Rightarrow> console \<Rightarrow> console" where
  "say_ok message c = write_pieces ([''[rat] OK ''] @ message @ [crlf]) c"

definition say_data :: "string list \<Rightarrow> console \<Rightarrow> console" where
  "say_data message c = write_pieces ([''[rat] ''] @ message @ [crlf]) c"

definition say_error :: "string list \<Rightarrow> console \<Rightarrow> console" where
  "say_error message c = write_pieces ([''[rat] ERROR ''] @ message @ [crlf]) c"

definition prompt :: "console \<Rightarrow> console" where
  "prompt c = emit ''rat> '' c"

definition end_reply :: "console \<Rightarrow> console" where
  "end_reply c = prompt c"

text \<open>\<open>service\<close>: \<open>room\<close> bytes are accepted before the port would block.\<close>

primrec service_loop :: "nat \<Rightarrow> console \<Rightarrow> bytes \<times> console" where
  "service_loop 0 c = ([], c)"
| "service_loop (Suc room) c =
    (if 0 < tx_len c then
       (case service_loop room (c\<lparr>tx_head := (tx_head c + 1) mod length (tx_queue c),
                                  tx_len := tx_len c - 1, tx_dirty := True\<rparr>) of
         (sent, c') \<Rightarrow> (tx_queue c ! tx_head c # sent, c'))
     else ([], c))"

definition service :: "nat \<Rightarrow> bool \<Rightarrow> console \<Rightarrow> bytes \<times> console" where
  "service room flushed c = (case service_loop room c of
     (sent, c) \<Rightarrow>
       (sent, if tx_len c = 0 \<and> tx_dirty c then (if flushed then c\<lparr>tx_dirty := False\<rparr> else c) else c))"

definition output_idle :: "console \<Rightarrow> bool" where
  "output_idle c \<longleftrightarrow> tx_len c = 0 \<and> \<not> tx_dirty c"

subsection \<open>The line editor\<close>

definition finish_line :: "console \<Rightarrow> debug_command option \<times> console" where
  "finish_line c =
    (let c = emit crlf c;
         command = (if rx_overflow c then Some (Cmd_Invalid ''line_too_long'')
                    else parse_command (take (rx_len c) (rx_line c)));
         c = c\<lparr>rx_len := 0, rx_overflow := False, escape_state := 0\<rparr>
     in (command, if command = None then prompt c else c))"

definition next_escape :: "nat \<Rightarrow> u8 \<Rightarrow> nat" where
  "next_escape state byte =
    (if state = 1 \<and> byte = 0x5B then 2
     else if state = 2 \<and> 0x40 \<le> byte \<and> byte \<le> 0x7E then 0
     else if state = 2 then 2
     else 0)"

primrec erase_line :: "nat \<Rightarrow> console \<Rightarrow> console" where
  "erase_line 0 c = c"
| "erase_line (Suc n) c = erase_line n (emit rub_out (c\<lparr>rx_len := n\<rparr>))"

definition handle_byte :: "u8 \<Rightarrow> console \<Rightarrow> console" where
  "handle_byte byte c =
    (if escape_state c \<noteq> 0 then c\<lparr>escape_state := next_escape (escape_state c) byte\<rparr>
     else if byte = 0x1B then c\<lparr>escape_state := 1\<rparr>
     else if byte = 0x08 \<or> byte = 0x7F then
       (if 0 < rx_len c then emit rub_out (c\<lparr>rx_len := rx_len c - 1\<rparr>) else c)
     else if byte = 0x15 then (erase_line (rx_len c) c)\<lparr>rx_overflow := False\<rparr>
     else if 0x20 \<le> byte \<and> byte \<le> 0x7E then
       (if rx_len c < length (rx_line c) then
          emit (of_bytes [byte]) (c\<lparr>rx_line := (rx_line c)[rx_len c := byte], rx_len := rx_len c + 1\<rparr>)
        else if \<not> rx_overflow c then emit [char_of (7::nat)] (c\<lparr>rx_overflow := True\<rparr>)
        else c)
     else c)"

text \<open>\<open>poll\<close> over the bytes the port has received; it stops at the first command.\<close>

fun read_lines :: "bytes \<Rightarrow> console \<Rightarrow> debug_command option \<times> bytes \<times> console" where
  "read_lines [] c = (None, [], c)"
| "read_lines (byte # rest) c =
    (if byte = 0x0D then
       (case finish_line (c\<lparr>last_was_cr := True\<rparr>) of
         (Some command, c) \<Rightarrow> (Some command, rest, c) | (None, c) \<Rightarrow> read_lines rest c)
     else if byte = 0x0A then
       (if last_was_cr c then read_lines rest (c\<lparr>last_was_cr := False\<rparr>)
        else (case finish_line c of
          (Some command, c) \<Rightarrow> (Some command, rest, c) | (None, c) \<Rightarrow> read_lines rest c))
     else read_lines rest (handle_byte byte (c\<lparr>last_was_cr := False\<rparr>)))"

definition console_poll ::
  "nat \<Rightarrow> bool \<Rightarrow> bytes \<Rightarrow> console \<Rightarrow> debug_command option \<times> bytes \<times> bytes \<times> console" where
  "console_poll room flushed received c =
    (case service room flushed c of (sent, c) \<Rightarrow>
      (case read_lines received c of (command, rest, c) \<Rightarrow> (command, rest, sent, c)))"

subsection \<open>The ring is a bounded queue\<close>

text \<open>A bounded queue of bytes with whole-or-nothing writes, seen through its contents.\<close>

locale byte_queue =
  fixes put :: "'q \<Rightarrow> bytes \<Rightarrow> 'q option"
    and get :: "nat \<Rightarrow> 'q \<Rightarrow> bytes \<times> 'q"
    and contents :: "'q \<Rightarrow> bytes"
    and wf :: "'q \<Rightarrow> bool"
    and capacity :: nat
  assumes put_fits: "wf q \<Longrightarrow> length bs \<le> capacity - length (contents q)
      \<Longrightarrow> \<exists>q'. put q bs = Some q' \<and> wf q' \<and> contents q' = contents q @ bs"
    and put_full: "wf q \<Longrightarrow> capacity - length (contents q) < length bs \<Longrightarrow> put q bs = None"
    and get_front: "wf q \<Longrightarrow> get n q = (sent, q')
      \<Longrightarrow> wf q' \<and> sent = take n (contents q) \<and> contents q' = drop n (contents q)"

text \<open>Runs of operations, on any queue; the reference is a list.\<close>

datatype queue_op = Put bytes | Get nat
datatype queue_answer = Accepted bool | Sent bytes

fun run_queue ::
  "('q \<Rightarrow> bytes \<Rightarrow> 'q option) \<Rightarrow> (nat \<Rightarrow> 'q \<Rightarrow> bytes \<times> 'q) \<Rightarrow> queue_op list \<Rightarrow> 'q \<Rightarrow>
   queue_answer list \<times> 'q" where
  "run_queue put get [] q = ([], q)"
| "run_queue put get (Put bs # ops) q =
    (case put q bs of
       None \<Rightarrow> (case run_queue put get ops q of (as, q') \<Rightarrow> (Accepted False # as, q'))
     | Some q1 \<Rightarrow> (case run_queue put get ops q1 of (as, q') \<Rightarrow> (Accepted True # as, q')))"
| "run_queue put get (Get n # ops) q =
    (case get n q of (sent, q1) \<Rightarrow>
      (case run_queue put get ops q1 of (as, q') \<Rightarrow> (Sent sent # as, q')))"

definition list_put :: "nat \<Rightarrow> bytes \<Rightarrow> bytes \<Rightarrow> bytes option" where
  "list_put capacity q bs = (if capacity - length q < length bs then None else Some (q @ bs))"

definition list_get :: "nat \<Rightarrow> bytes \<Rightarrow> bytes \<times> bytes" where
  "list_get n q = (take n q, drop n q)"

context byte_queue
begin

lemma runs_like_a_list:
  assumes "wf q" and "run_queue put get ops q = (as, q')"
  shows "run_queue (list_put capacity) list_get ops (contents q) = (as, contents q') \<and> wf q'"
  using assms
proof (induction ops arbitrary: q as)
  case (Cons a ops)
  show ?case
  proof (cases a)
    case (Put bs)
    show ?thesis
    proof (cases "length bs \<le> capacity - length (contents q)")
      case True
      with put_fits Cons.prems(1) obtain q1
        where q1: "put q bs = Some q1" "wf q1" "contents q1 = contents q @ bs" by blast
      with Cons.prems(2) Put obtain as1
        where as1: "run_queue put get ops q1 = (as1, q')" "as = Accepted True # as1"
        by (auto split: prod.splits)
      from Cons.IH [OF q1(2) as1(1)] q1(3) as1(2) True Put show ?thesis by (simp add: list_put_def)
    next
      case False
      with put_full [OF Cons.prems(1), of bs] have none: "put q bs = None" by simp
      with Cons.prems(2) Put obtain as1
        where as1: "run_queue put get ops q = (as1, q')" "as = Accepted False # as1"
        by (auto split: prod.splits)
      from Cons.IH [OF Cons.prems(1) as1(1)] as1(2) False Put show ?thesis by (simp add: list_put_def)
    qed
  next
    case (Get n)
    obtain sent q1 where g: "get n q = (sent, q1)" by (cases "get n q")
    with Cons.prems(2) Get obtain as1
      where as1: "run_queue put get ops q1 = (as1, q')" "as = Sent sent # as1" by (auto split: prod.splits)
    from get_front [OF Cons.prems(1) g] Cons.IH [OF _ as1(1)] as1(2) Get
    show ?thesis by (simp add: list_get_def)
  qed
qed simp

end

text \<open>The transmit ring: well-formed states, and the bytes that wait in it, oldest first.\<close>

definition ring_ok :: "console \<Rightarrow> bool" where
  "ring_ok c \<longleftrightarrow> length (tx_queue c) = tx_queue_len \<and> tx_head c < tx_queue_len \<and> tx_len c \<le> tx_queue_len"

definition waiting :: "console \<Rightarrow> bytes" where
  "waiting c = map (\<lambda>i. tx_queue c ! ((tx_head c + i) mod length (tx_queue c))) [0..<tx_len c]"

lemma length_waiting [simp]: "length (waiting c) = tx_len c"
  by (simp add: waiting_def)

lemma mod_add_inj:
  fixes i j h n :: nat
  assumes "i < n" "j < n" "(h + i) mod n = (h + j) mod n"
  shows "i = j"
proof (rule linorder_cases [of i j])
  assume "i < j"
  with assms(3) mod_eq_dvd_iff_nat [of "h + i" "h + j" n] have "n dvd j - i" by simp
  with assms \<open>i < j\<close> show ?thesis by (meson dvd_imp_le less_imp_diff_less not_less zero_less_diff)
next
  assume "j < i"
  with assms(3) mod_eq_dvd_iff_nat [of "h + j" "h + i" n] have "n dvd i - j" by simp
  with assms \<open>j < i\<close> show ?thesis by (meson dvd_imp_le less_imp_diff_less not_less zero_less_diff)
qed

lemma push_tx_one:
  assumes "ring_ok c" "tx_len c < tx_queue_len"
  shows "ring_ok (push_tx c [b]) \<and> waiting (push_tx c [b]) = waiting c @ [b]"
proof -
  have *: "(tx_queue c)[(tx_head c + tx_len c) mod tx_queue_len := b] ! ((tx_head c + i) mod tx_queue_len)
      = (if i = tx_len c then b else tx_queue c ! ((tx_head c + i) mod tx_queue_len))"
    if "i \<le> tx_len c" for i
    using assms that mod_add_inj [of i tx_queue_len "tx_len c" "tx_head c"]
    by (auto simp: ring_ok_def nth_list_update tx_queue_len_def)
  then show ?thesis
    using assms by (auto simp: ring_ok_def waiting_def Let_def)
qed

lemma push_tx_append: "push_tx c (xs @ ys) = push_tx (push_tx c xs) ys"
  by (induction xs arbitrary: c) (simp_all add: Let_def)

lemma push_tx_all:
  assumes "ring_ok c" "length bs \<le> tx_queue_len - tx_len c"
  shows "ring_ok (push_tx c bs) \<and> waiting (push_tx c bs) = waiting c @ bs"
  using assms(2)
proof (induction bs rule: rev_induct)
  case (snoc b bs)
  then have ok: "ring_ok (push_tx c bs)" "waiting (push_tx c bs) = waiting c @ bs" by simp_all
  then have "tx_len (push_tx c bs) = tx_len c + length bs" by (metis length_append length_waiting)
  with snoc.prems have "tx_len (push_tx c bs) < tx_queue_len" by simp
  from push_tx_one [OF ok(1) this, of b] ok(2) show ?case by (simp add: push_tx_append)
qed (simp add: assms(1))

lemma service_loop_takes:
  assumes "ring_ok c" "service_loop room c = (sent, c')"
  shows "ring_ok c' \<and> sent = take room (waiting c) \<and> waiting c' = drop room (waiting c)"
  using assms
proof (induction room arbitrary: c sent)
  case (Suc room)
  show ?case
  proof (cases "0 < tx_len c")
    case True
    let ?c = "c\<lparr>tx_head := (tx_head c + 1) mod length (tx_queue c), tx_len := tx_len c - 1, tx_dirty := True\<rparr>"
    obtain s where s: "service_loop room ?c = (s, c')" "sent = tx_queue c ! tx_head c # s"
      using Suc.prems(2) True by (auto split: prod.splits)
    have "ring_ok ?c" using Suc.prems(1) by (auto simp: ring_ok_def tx_queue_len_def)
    moreover have "waiting c = tx_queue c ! tx_head c # waiting ?c"
    proof (rule nth_equalityI)
      fix i assume "i < length (waiting c)"
      then show "waiting c ! i = (tx_queue c ! tx_head c # waiting ?c) ! i"
        using Suc.prems(1) True
        by (cases i) (auto simp: waiting_def ring_ok_def mod_add_left_eq)
    qed (use True in simp)
    ultimately show ?thesis using Suc.IH [OF _ s(1)] s(2) by simp
  next
    case False
    with Suc.prems show ?thesis by (simp add: waiting_def)
  qed
qed simp

lemma service_takes:
  assumes "ring_ok c" "service room flushed c = (sent, c')"
  shows "ring_ok c' \<and> sent = take room (waiting c) \<and> waiting c' = drop room (waiting c)"
proof -
  obtain s d where s: "service_loop room c = (s, d)" by (cases "service_loop room c")
  with assms(2) have "sent = s" "waiting c' = waiting d" "ring_ok c' = ring_ok d"
    by (auto simp: service_def waiting_def ring_ok_def split: if_splits)
  with service_loop_takes [OF assms(1) s] show ?thesis by simp
qed

definition put_bytes :: "console \<Rightarrow> bytes \<Rightarrow> console option" where
  "put_bytes c bs = write_str c (of_bytes bs)"

interpretation transmit: byte_queue put_bytes "\<lambda>n. service n flushed" waiting ring_ok tx_queue_len
  for flushed
proof unfold_locales
  show "\<exists>q'. put_bytes q bs = Some q' \<and> ring_ok q' \<and> waiting q' = waiting q @ bs"
    if "ring_ok q" "length bs \<le> tx_queue_len - length (waiting q)" for q bs
    using that push_tx_all [OF that(1), of bs] by (simp add: put_bytes_def write_str_def ring_ok_def)
  show "put_bytes q bs = None" if "ring_ok q" "tx_queue_len - length (waiting q) < length bs" for q bs
    using that by (simp add: put_bytes_def write_str_def ring_ok_def)
  show "ring_ok q' \<and> sent = take n (waiting q) \<and> waiting q' = drop n (waiting q)"
    if "ring_ok q" "service n flushed q = (sent, q')" for q n sent q'
    by (rule service_takes [OF that])
qed

text \<open>C25: The transmit ring is a bounded queue: under any sequence of writes and of service calls
  it gives the same answers and sends the same bytes as a list of at most 4096 bytes, in which a
  message is queued whole or not at all.\<close>

theorem console_output_is_a_queue:
  assumes "ring_ok c" and "run_queue put_bytes (\<lambda>n. service n flushed) ops c = (as, c')"
  shows "run_queue (list_put tx_queue_len) list_get ops (waiting c) = (as, waiting c')"
  using transmit.runs_like_a_list [OF assms] by simp

text \<open>The console starts with its greeting in the ring.\<close>

lemma write_str_ring: "ring_ok c \<Longrightarrow> write_str c s = Some c' \<Longrightarrow> ring_ok c'"
  using push_tx_all [of c "to_bytes s"] by (auto simp: write_str_def ring_ok_def split: if_splits)

lemma emit_ring: "ring_ok c \<Longrightarrow> ring_ok (emit s c)"
  by (auto simp: emit_def split: option.split dest: write_str_ring)

lemma write_pieces_ring: "ring_ok c \<Longrightarrow> ring_ok (write_pieces ps c)"
  by (induction ps arbitrary: c) (auto split: option.split dest: write_str_ring)

lemma console_new_ring: "ring_ok console_new"
  unfolding console_new_def
  by (rule write_pieces_ring) (simp add: ring_ok_def tx_queue_len_def)

text \<open>Two messages of ten bytes, then a service call that sends twelve bytes.\<close>

theorem console_output_is_a_queue_witness:
  "\<exists>as c'. run_queue put_bytes (\<lambda>n. service n True) [Put (replicate 10 1), Put (replicate 10 2), Get 12]
      console_new = (as, c')
    \<and> run_queue (list_put tx_queue_len) list_get [Put (replicate 10 1), Put (replicate 10 2), Get 12]
        (waiting console_new) = (as, waiting c')"
proof -
  let ?ops = "[Put (replicate 10 1), Put (replicate 10 2), Get 12]"
  obtain as c' where r: "run_queue put_bytes (\<lambda>n. service n True) ?ops console_new = (as, c')"
    by (metis prod.exhaust)
  from console_output_is_a_queue [OF console_new_ring r] r show ?thesis by blast
qed

subsection \<open>Lines\<close>

definition console_ok :: "console \<Rightarrow> bool" where
  "console_ok c \<longleftrightarrow> ring_ok c \<and> length (rx_line c) = rx_line_len \<and> rx_len c \<le> rx_line_len"

definition fresh_line :: "console \<Rightarrow> bool" where
  "fresh_line c \<longleftrightarrow> rx_len c = 0 \<and> \<not> rx_overflow c \<and> escape_state c = 0"

definition printable :: "u8 \<Rightarrow> bool" where
  "printable b \<longleftrightarrow> 0x20 \<le> b \<and> b \<le> 0x7E"

text \<open>What a typed line asks for.\<close>

definition typed_command :: "bytes \<Rightarrow> debug_command option" where
  "typed_command l = (if rx_line_len < length l then Some (Cmd_Invalid ''line_too_long'') else parse_command l)"

lemma push_tx_frame [frame_simps]:
  "rx_line (push_tx c bs) = rx_line c" "rx_len (push_tx c bs) = rx_len c"
  "rx_overflow (push_tx c bs) = rx_overflow c" "escape_state (push_tx c bs) = escape_state c"
  "last_was_cr (push_tx c bs) = last_was_cr c"
  by (induction bs arbitrary: c) (simp_all add: Let_def)

lemma emit_frame [simp, frame_simps]:
  "rx_line (emit s c) = rx_line c" "rx_len (emit s c) = rx_len c"
  "rx_overflow (emit s c) = rx_overflow c" "escape_state (emit s c) = escape_state c"
  "last_was_cr (emit s c) = last_was_cr c"
  by (simp_all add: emit_def write_str_def frame_simps split: option.split)

lemma ring_ok_update [simp]:
  "ring_ok (c\<lparr>rx_line := a\<rparr>) = ring_ok c" "ring_ok (c\<lparr>rx_len := n\<rparr>) = ring_ok c"
  "ring_ok (c\<lparr>rx_overflow := f\<rparr>) = ring_ok c" "ring_ok (c\<lparr>escape_state := n\<rparr>) = ring_ok c"
  "ring_ok (c\<lparr>last_was_cr := f\<rparr>) = ring_ok c"
  by (simp_all add: ring_ok_def)

lemma console_ok_emit: "console_ok c \<Longrightarrow> console_ok (emit s c)"
  by (simp add: console_ok_def emit_ring)

text \<open>The editor while a line of printable bytes is typed.\<close>

definition holds_line :: "bytes \<Rightarrow> console \<Rightarrow> bool" where
  "holds_line l c \<longleftrightarrow> console_ok c \<and> escape_state c = 0 \<and> rx_len c = min (length l) rx_line_len
    \<and> take (min (length l) rx_line_len) (rx_line c) = take rx_line_len l \<and> rx_overflow c = (rx_line_len < length l)"

lemma printable_step:
  assumes "printable b"
  shows "read_lines (b # rest) c = read_lines rest (handle_byte b (c\<lparr>last_was_cr := False\<rparr>))"
proof -
  have "b \<noteq> 0x0D" "b \<noteq> 0x0A" using assms by (auto simp: printable_def)
  then show ?thesis by simp
qed

lemma handle_printable:
  assumes "holds_line l c" "printable b"
  shows "holds_line (l @ [b]) (handle_byte b (c\<lparr>last_was_cr := False\<rparr>))"
proof -
  have b: "b \<noteq> 0x1B" "b \<noteq> 0x08" "b \<noteq> 0x7F" "b \<noteq> 0x15" "0x20 \<le> b" "b \<le> 0x7E"
    using assms(2) by (auto simp: printable_def)
  have line: "length (rx_line c) = rx_line_len" using assms(1) by (simp add: holds_line_def console_ok_def)
  show ?thesis
  proof (cases "length l < rx_line_len")
    case True
    with assms(1) have "rx_len c = length l" "take (length l) (rx_line c) = l"
      by (simp_all add: holds_line_def)
    with True assms(1) b line show ?thesis
      by (simp add: holds_line_def handle_byte_def console_ok_def emit_ring take_Suc_conv_app_nth)
  next
    case False
    with assms(1) b line show ?thesis
      by (auto simp: holds_line_def handle_byte_def console_ok_def emit_ring)
  qed
qed

lemma typing:
  assumes "holds_line l0 c" "\<forall>b \<in> set l. printable b"
  shows "\<exists>c'. read_lines (l @ rest) c = read_lines rest c' \<and> holds_line (l0 @ l) c'"
  using assms
proof (induction l arbitrary: c l0)
  case (Cons b l)
  then have "holds_line (l0 @ [b]) (handle_byte b (c\<lparr>last_was_cr := False\<rparr>))"
    by (simp add: handle_printable)
  from Cons.IH [OF this] Cons.prems(2) show ?case by (simp add: printable_step del: read_lines.simps)
qed auto

lemma finish_holds:
  assumes "holds_line l c"
  shows "\<exists>c'. finish_line (c\<lparr>last_was_cr := f\<rparr>) = (typed_command l, c') \<and> console_ok c' \<and> fresh_line c'
    \<and> last_was_cr c' = f"
proof -
  have "(if rx_overflow c then Some (Cmd_Invalid ''line_too_long'')
      else parse_command (take (rx_len c) (rx_line c))) = typed_command l"
    using assms by (cases "rx_line_len < length l") (simp_all add: holds_line_def typed_command_def)
  with assms show ?thesis
    by (auto simp: finish_line_def Let_def prompt_def holds_line_def console_ok_def fresh_line_def
        emit_ring)
qed

text \<open>C32: A line of printable characters that is typed at a fresh prompt and ended by a carriage
  return is parsed as it was typed, however long it is: a line that does not fit is reported as
  too long, an empty one asks for nothing.  The editor is then at a fresh prompt again, and a line
  feed that follows at once is skipped.\<close>

theorem typed_lines_are_parsed:
  assumes "console_ok c" "fresh_line c" "\<forall>b \<in> set l. printable b"
  shows "\<exists>c'. read_lines (l @ 0x0D # rest) c
      = (case typed_command l of Some command \<Rightarrow> (Some command, rest, c') | None \<Rightarrow> read_lines rest c')
    \<and> console_ok c' \<and> fresh_line c'
    \<and> read_lines (0x0A # rest) c' = read_lines rest (c'\<lparr>last_was_cr := False\<rparr>)"
proof -
  have "holds_line [] c" using assms(1,2) by (simp add: holds_line_def fresh_line_def)
  from typing [OF this assms(3), of "0x0D # rest"] obtain d
    where d: "read_lines (l @ 0x0D # rest) c = read_lines (0x0D # rest) d" "holds_line l d" by auto
  from finish_holds [OF d(2), of True] obtain c' where c':
    "finish_line (d\<lparr>last_was_cr := True\<rparr>) = (typed_command l, c')" "console_ok c'" "fresh_line c'" "last_was_cr c'"
    by blast
  with d(1) show ?thesis by (intro exI [of _ c']) (auto split: option.split)
qed

text \<open>\<open>ping\<close> and a carriage return at the first prompt.\<close>

theorem typed_lines_are_parsed_witness:
  "\<exists>c'. read_lines ([0x70, 0x69, 0x6E, 0x67] @ [0x0D]) console_new = (Some Cmd_Ping, [], c')"
proof -
  have fields: "rx_len (write_pieces ps c) = rx_len c" "rx_overflow (write_pieces ps c) = rx_overflow c"
    "escape_state (write_pieces ps c) = escape_state c" "rx_line (write_pieces ps c) = rx_line c" for ps c
    by (induction ps arbitrary: c) (auto simp: write_str_def frame_simps split: option.split if_splits)
  have "console_ok console_new" "fresh_line console_new"
    using console_new_ring
    by (simp_all add: console_ok_def fresh_line_def console_new_def fields del: write_pieces.simps)
  moreover have "\<forall>b \<in> set [0x70, 0x69, 0x6E, 0x67]. printable b" by (simp add: printable_def)
  moreover have "typed_command [0x70, 0x69, 0x6E, 0x67] = Some Cmd_Ping" by code_simp
  ultimately show ?thesis
    using typed_lines_are_parsed [of console_new "[0x70, 0x69, 0x6E, 0x67]" "[]"] by auto
qed

end
