(* ===== verification/Main_Loop.thy ===== *)
theory Main_Loop
  imports Wifi_Radio Network_Time File_Manager Ssh_Server Debug_Console
begin

text \<open>
  The main loop of \<open>src/main.rs\<close>, in which the parts meet: the keys of the keyboard and of the debug
  console, the navigation callback of \<open>ui/ratputer.slint\<close>, and one pass of the loop in the order of
  the code: input, stopping the SSH server off its screen, the file browser, the radio, USB, the
  actions of the SSH screens, the network, the frame ticker, the SSH poll.  The state extends the one
  of the radio and the card (\<open>Wifi_Radio\<close>, \<open>Usb_Disk\<close>); \<open>board\<close> holds the libraries and drivers, and
  \<open>events\<close> what one pass meets (\<open>ev_report\<close> is the reply to STATUS and WDT).  A pass is \<open>None\<close> when the code panics.

  Not in a pass: drawing, the battery, the watchdog (\<open>Watchdog\<close>), logging, and the delayed effects of
  the debug commands REBOOT and WDT.
\<close>

subsection \<open>State\<close>

text \<open>The keyboard crate's inputs, as the loop matches them.\<close>

datatype arrow = Arrow_Up | Arrow_Down | Arrow_Left | Arrow_Right

datatype key_input = Key_Char nat | Key_Modifier | Key_Enter | Key_Backspace | Key_Escape | Key_Delete | Key_Tab
  | Key_Arrow arrow

record ('v, 'd, 'w, 'k, 'r, 'c, 'h) ratputer = "('v, 'd, 'w) radio_host" +
  ml_splash_done :: bool
  ml_network :: bool
  ml_menu_index :: nat
  ml_wifi_menu_index :: nat
  ml_usb_action :: nat
  ml_ssh_action :: nat
  ml_browser :: "'h file_manager option"
  ml_fm_ui :: fm_ui
  ml_server :: "('k, 'r, 'c, 'h) ssh_server option"
  ml_ssh_status :: string
  ml_ssh_addr :: string
  ml_ssh_user :: string
  ml_ssh_password :: string
  ml_key_top :: string
  ml_key_bottom :: string
  ml_time :: net_time
  ml_link_state :: nat
  ml_console :: console

record ('v, 'd, 'w, 'k, 'r, 'c, 'h) board =
  bd_fat :: "('v, 'h) fat_ops"
  bd_mount :: "'d \<Rightarrow> 'v option"
  bd_free :: "'v \<Rightarrow> 'd"
  bd_device :: "'d device_ops"
  bd_radio :: "'w radio_ops"
  bd_sorter :: "scan_network list \<Rightarrow> scan_network list"
  bd_toml_print :: "wifi_config \<Rightarrow> string option"
  bd_toml_parse :: "string \<Rightarrow> wifi_config option"
  bd_crypto :: crypto
  bd_socket :: "'k socket_ops"
  bd_runner :: "('r, 'c) runner_ops"

text \<open>\<open>ev_polls\<close> are the contexts of the SSH polls: the one of every pass, and those of the burst during a
  transfer.\<close>

record events =
  ev_splash_over :: bool
  ev_command :: "debug_command option"
  ev_report :: "console \<Rightarrow> console"
  ev_keys :: "key_input list"
  ev_now :: instant
  ev_now_ms :: nat
  ev_auto_completed :: bool
  ev_link_up :: bool
  ev_online :: bool
  ev_address :: "string option"
  ev_turns :: nat
  ev_bus :: bus
  ev_stats_due :: bool
  ev_sntp :: sntp_env
  ev_sntp_done :: bool
  ev_sntp_finished :: instant
  ev_frame_due :: bool
  ev_key_seed :: bytes
  ev_first_poll :: poll_context
  ev_burst :: "poll_context list"

subsection \<open>Navigation\<close>

text \<open>The callback \<open>key-pressed\<close> of the window.\<close>

definition menu_labels :: "string list" where
  "menu_labels = [''RAT VIEW'', ''WI-FI'', ''USB DISK'', ''SSH + SFTP SERVER'', ''SD FILES'', ''ABOUT'']"

definition wifi_menu_labels :: "string list" where
  "wifi_menu_labels = [''SAVED NETWORKS'', ''SCAN NETWORKS'']"

definition key_back :: "('v, 'd, 'w, 'k, 'r, 'c, 'h) ratputer \<Rightarrow> ('v, 'd, 'w, 'k, 'r, 'c, 'h) ratputer" where
  "key_back h =
    (let view = hs_view h in
     if view = 5 then h\<lparr>rh_password := [], hs_view := 4\<rparr>
     else if view = 3 \<or> view = 4 then h\<lparr>hs_view := 2\<rparr>
     else if view = 7 then h\<lparr>ml_usb_action := 2\<rparr>
     else if view = 8 then h\<lparr>ml_ssh_action := 2, hs_view := 0\<rparr>
     else if view = 9 then h\<lparr>ml_ssh_action := 5\<rparr>
     else if view \<noteq> 0 then h\<lparr>hs_view := 0\<rparr>
     else h)"

definition menu_enter :: "('v, 'd, 'w, 'k, 'r, 'c, 'h) ratputer \<Rightarrow> ('v, 'd, 'w, 'k, 'r, 'c, 'h) ratputer" where
  "menu_enter h =
    (let i = ml_menu_index h in
     if i = 2 then h\<lparr>ml_usb_action := 1, hs_view := 7\<rparr>
     else if i = 3 then h\<lparr>ml_ssh_action := 1, hs_view := 8\<rparr>
     else h\<lparr>hs_view := (if i = 0 then 1 else if i = 1 then 2 else if i = 4 then 10 else 6)\<rparr>)"

definition key_enter :: "('v, 'd, 'w, 'k, 'r, 'c, 'h) ratputer \<Rightarrow> ('v, 'd, 'w, 'k, 'r, 'c, 'h) ratputer" where
  "key_enter h =
    (let view = hs_view h in
     if view = 0 then menu_enter h
     else if view = 1 \<or> view = 6 then h\<lparr>hs_view := 0\<rparr>
     else if view = 7 then h\<lparr>ml_usb_action := 2\<rparr>
     else if view = 8 then h\<lparr>ml_ssh_action := 2, hs_view := 0\<rparr>
     else if view = 9 then h\<lparr>ml_ssh_action := 4\<rparr>
     else if view = 2 then
       (if ml_wifi_menu_index h = 0 then h\<lparr>hs_view := 3\<rparr>
        else h\<lparr>hs_wifi_status := ''SCANNING... 2 PASSES'', rh_connecting := True, rh_action := 1, hs_view := 4\<rparr>)
     else if view = 3 \<and> 0 < length (rh_saved_labels h) then
       h\<lparr>rh_action_index := hs_saved_index h, rh_connecting := True, rh_action := 2\<rparr>
     else if view = 4 \<and> 0 < length (rh_scan_labels h) then
       h\<lparr>rh_action_index := rh_scan_index h, rh_action := 3\<rparr>
     else if view = 5 then h\<lparr>rh_connecting := True, rh_action := 4\<rparr>
     else h)"

text \<open>The four lists move round; \<open>step n\<close> is one, or the length less one for the other direction.\<close>

definition move_selection ::
  "(nat \<Rightarrow> nat) \<Rightarrow> ('v, 'd, 'w, 'k, 'r, 'c, 'h) ratputer \<Rightarrow> ('v, 'd, 'w, 'k, 'r, 'c, 'h) ratputer" where
  "move_selection step h =
    (let view = hs_view h; move = (\<lambda>i n. (i + step n) mod n) in
     if view = 0 then h\<lparr>ml_menu_index := move (ml_menu_index h) (length menu_labels)\<rparr>
     else if view = 2 then h\<lparr>ml_wifi_menu_index := move (ml_wifi_menu_index h) (length wifi_menu_labels)\<rparr>
     else if view = 3 \<and> 0 < length (rh_saved_labels h) then
       h\<lparr>hs_saved_index := move (hs_saved_index h) (length (rh_saved_labels h))\<rparr>
     else if view = 4 \<and> 0 < length (rh_scan_labels h) then
       h\<lparr>rh_scan_index := move (rh_scan_index h) (length (rh_scan_labels h))\<rparr>
     else h)"

definition key_pressed ::
  "string \<Rightarrow> ('v, 'd, 'w, 'k, 'r, 'c, 'h) ratputer \<Rightarrow> ('v, 'd, 'w, 'k, 'r, 'c, 'h) ratputer" where
  "key_pressed key h =
    (if key = ''back'' then key_back h
     else if key = ''backspace'' then h
     else if key = ''delete'' \<and> hs_view h = 3 \<and> 0 < length (rh_saved_labels h) then
       h\<lparr>rh_action_index := hs_saved_index h, rh_action := 5\<rparr>
     else if key = ''enter'' \<or> key = ''space'' then key_enter h
     else if key = ''tab'' \<and> hs_view h = 8 then h\<lparr>ml_ssh_action := 3, hs_view := 9\<rparr>
     else if key = ''tab'' \<or> key = ''down'' \<or> key = ''right'' then move_selection (\<lambda>n. 1) h
     else if key = ''up'' \<or> key = ''left'' then move_selection (\<lambda>n. n - 1) h
     else h)"

subsection \<open>Keys\<close>

definition browser_screen :: "nat \<Rightarrow> bool" where
  "browser_screen view \<longleftrightarrow> 10 \<le> view \<and> view \<le> 13"

text \<open>An operation of the open browser on the mounted volume.\<close>

definition with_browser ::
  "('h screen \<Rightarrow> 'v \<Rightarrow> ('h screen \<times> 'v) option) \<Rightarrow> ('v, 'd, 'w, 'k, 'r, 'c, 'h) ratputer \<Rightarrow>
   ('v, 'd, 'w, 'k, 'r, 'c, 'h) ratputer option" where
  "with_browser f h = (case (ml_browser h, hs_storage h) of
     (Some fm, Some vol) \<Rightarrow>
       (case f (fm, (ml_fm_ui h)\<lparr>ui_view_state := hs_view h\<rparr>) vol of
          None \<Rightarrow> None
        | Some ((fm, ui), vol) \<Rightarrow>
            Some (h\<lparr>ml_browser := Some fm, ml_fm_ui := ui, hs_view := ui_view_state ui, hs_storage := Some vol\<rparr>))
   | _ \<Rightarrow> Some h)"

definition apply_debug_key ::
  "debug_key \<Rightarrow> ('v, 'd, 'w, 'k, 'r, 'c, 'h) ratputer \<Rightarrow> ('v, 'd, 'w, 'k, 'r, 'c, 'h) ratputer" where
  "apply_debug_key key h = (case key of
     Dk_Up \<Rightarrow> key_pressed ''up'' h
   | Dk_Down \<Rightarrow> key_pressed ''down'' h
   | Dk_Left \<Rightarrow> key_pressed ''left'' h
   | Dk_Right \<Rightarrow> key_pressed ''right'' h
   | Dk_Enter \<Rightarrow> key_pressed ''enter'' h
   | Dk_Back \<Rightarrow> key_pressed ''back'' h
   | Dk_Delete \<Rightarrow> key_pressed ''delete'' h
   | Dk_Tab \<Rightarrow> key_pressed ''tab'' h
   | Dk_Space \<Rightarrow> key_pressed ''space'' h
   | Dk_Backspace \<Rightarrow>
       if hs_view h = 5 then h\<lparr>rh_password := butlast (rh_password h)\<rparr>
       else if hs_view h = 9 then h\<lparr>ml_ssh_password := butlast (ml_ssh_password h)\<rparr>
       else key_pressed ''back'' h)"

definition file_debug_key :: "debug_key \<Rightarrow> fm_key" where
  "file_debug_key key = (case key of
     Dk_Up \<Rightarrow> Up | Dk_Down \<Rightarrow> Down | Dk_Left \<Rightarrow> Left | Dk_Right \<Rightarrow> Right | Dk_Enter \<Rightarrow> Enter | Dk_Back \<Rightarrow> Back
   | Dk_Backspace \<Rightarrow> Backspace | Dk_Delete \<Rightarrow> Delete | Dk_Tab \<Rightarrow> Tab | Dk_Space \<Rightarrow> Char 32)"

definition append_debug_text ::
  "string \<Rightarrow> ('v, 'd, 'w, 'k, 'r, 'c, 'h) ratputer \<Rightarrow> string + ('v, 'd, 'w, 'k, 'r, 'c, 'h) ratputer" where
  "append_debug_text text h =
    (if hs_view h = 5 then
       (if 64 < length (rh_password h) + length text then Inl ''wifi_text_too_long''
        else Inr (h\<lparr>rh_password := rh_password h @ text\<rparr>))
     else if hs_view h = 9 then
       (if \<not> list_all is_ascii_graphic text then Inl ''ssh_text_disallows_spaces''
        else if 32 < length (ml_ssh_password h) + length text then Inl ''ssh_text_too_long''
        else Inr (h\<lparr>ml_ssh_password := ml_ssh_password h @ text\<rparr>))
     else Inl ''text_entry_not_active'')"

definition view_name :: "nat \<Rightarrow> string" where
  "view_name view =
    (let names = [''menu'', ''rat'', ''wifi_menu'', ''wifi_saved'', ''wifi_scan'', ''wifi_password'', ''about'',
       ''usb_disk'', ''ssh'', ''server_password'', ''sd_files'', ''sd_actions'', ''sd_name'', ''sd_delete'']
     in if view < length names then names ! view else ''unknown'')"

definition input_blocked :: "('v, 'd, 'w, 'k, 'r, 'c, 'h) ratputer \<Rightarrow> bool" where
  "input_blocked h \<longleftrightarrow> \<not> ml_splash_done h \<or> rh_pending h \<noteq> None"

text \<open>The name \<open>derive(Debug)\<close> gives a key.\<close>

definition debug_key_name :: "debug_key \<Rightarrow> string" where
  "debug_key_name key = (case key of
     Dk_Up \<Rightarrow> ''Up'' | Dk_Down \<Rightarrow> ''Down'' | Dk_Left \<Rightarrow> ''Left'' | Dk_Right \<Rightarrow> ''Right'' | Dk_Enter \<Rightarrow> ''Enter''
   | Dk_Back \<Rightarrow> ''Back'' | Dk_Backspace \<Rightarrow> ''Backspace'' | Dk_Delete \<Rightarrow> ''Delete'' | Dk_Tab \<Rightarrow> ''Tab''
   | Dk_Space \<Rightarrow> ''Space'')"

definition answer :: "(console \<Rightarrow> console) \<Rightarrow> ('v, 'd, 'w, 'k, 'r, 'c, 'h) ratputer \<Rightarrow> ('v, 'd, 'w, 'k, 'r, 'c, 'h) ratputer" where
  "answer f h = h\<lparr>ml_console := f (ml_console h)\<rparr>"

definition copying_now :: "('v, 'd, 'w, 'k, 'r, 'c, 'h) ratputer \<Rightarrow> bool" where
  "copying_now h \<longleftrightarrow> (case ml_browser h of None \<Rightarrow> False | Some fm \<Rightarrow> copying fm)"

definition debug_press ::
  "('v, 'h) fat_ops \<Rightarrow> debug_key \<Rightarrow> ('v, 'd, 'w, 'k, 'r, 'c, 'h) ratputer \<Rightarrow> ('v, 'd, 'w, 'k, 'r, 'c, 'h) ratputer option" where
  "debug_press ops key h =
    (if input_blocked h then Some (answer (say_error [''input_busy'']) h)
     else if key = Dk_Enter \<and> hs_view h = 0 \<and> ml_menu_index h = 2
       then Some (answer (say_error [''usb_disk_requires_physical_input'']) h)
     else if copying_now h then Some (answer (say_error [''sd_copy_busy'']) h)
     else map_option (\<lambda>h. answer (say_ok [''key='', debug_key_name key, '' view='', dec (hs_view h),
              '' name='', view_name (hs_view h)]) h)
            (if browser_screen (hs_view h) then with_browser (press ops (file_debug_key key)) h
             else Some (apply_debug_key key h)))"

definition debug_type :: "string \<Rightarrow> ('v, 'd, 'w, 'k, 'r, 'c, 'h) ratputer \<Rightarrow> ('v, 'd, 'w, 'k, 'r, 'c, 'h) ratputer option" where
  "debug_type text h =
    (if input_blocked h then Some (answer (say_error [''input_busy'']) h)
     else case (if hs_view h = 12 then
                 (case ml_browser h of
                    None \<Rightarrow> Inl ''sd_not_open''
                  | Some fm \<Rightarrow>
                     (case append_text text (fm, (ml_fm_ui h)\<lparr>ui_view_state := hs_view h\<rparr>) of
                        Inl reason \<Rightarrow> Inl reason
                      | Inr shown \<Rightarrow> Inr (map_option (\<lambda>(fm, ui).
                            h\<lparr>ml_browser := Some fm, ml_fm_ui := ui, hs_view := ui_view_state ui\<rparr>) shown)))
                else map_sum id Some (append_debug_text text h)) of
       Inl reason \<Rightarrow> Some (answer (say_error [reason]) h)
     | Inr result \<Rightarrow> map_option (answer (say_ok [''text_accepted''])) result)"

definition debug_clear :: "('v, 'd, 'w, 'k, 'r, 'c, 'h) ratputer \<Rightarrow> ('v, 'd, 'w, 'k, 'r, 'c, 'h) ratputer option" where
  "debug_clear h =
    (if hs_view h = 5 then Some (answer (say_ok [''wifi_text_cleared'']) (h\<lparr>rh_password := []\<rparr>))
     else if hs_view h = 9 then Some (answer (say_ok [''ssh_text_cleared'']) (h\<lparr>ml_ssh_password := []\<rparr>))
     else if hs_view h = 12 then
       (case ml_browser h of
          None \<Rightarrow> Some h
        | Some fm \<Rightarrow> map_option (\<lambda>(fm, ui). answer (say_ok [''sd_name_cleared''])
              (h\<lparr>ml_browser := Some fm, ml_fm_ui := ui, hs_view := ui_view_state ui\<rparr>))
            (clear_text (fm, (ml_fm_ui h)\<lparr>ui_view_state := hs_view h\<rparr>)))
     else Some (answer (say_error [''text_entry_not_active'']) h))"

definition help_lines :: "string list" where
  "help_lines = [''PING'', ''STATUS'', ''KEY up|down|left|right|enter|back|backspace|delete|tab|space'',
     ''TEXT <printable ASCII>'', ''WDT [ON|OFF|FREEZE|STALL]'', ''CLEAR'', ''REBOOT'']"

definition debug_input ::
  "('v, 'h) fat_ops \<Rightarrow> events \<Rightarrow> ('v, 'd, 'w, 'k, 'r, 'c, 'h) ratputer \<Rightarrow> ('v, 'd, 'w, 'k, 'r, 'c, 'h) ratputer option" where
  "debug_input ops ev h = (case ev_command ev of
     None \<Rightarrow> Some h
   | Some command \<Rightarrow> map_option (answer end_reply)
       (case command of
          Cmd_Ping \<Rightarrow> Some (answer (say_ok [''PONG protocol=1'']) h)
        | Cmd_Help \<Rightarrow> Some (answer (fold (\<lambda>line. say_data [line]) help_lines) (answer (say_ok [''commands'']) h))
        | Cmd_Status \<Rightarrow> Some (answer (ev_report ev) h)
        | Cmd_Key key \<Rightarrow> debug_press ops key h
        | Cmd_Text text \<Rightarrow> debug_type (as_str text) h
        | Cmd_Clear \<Rightarrow> debug_clear h
        | Cmd_Reboot \<Rightarrow> Some (answer (say_ok [''rebooting'']) h)
        | Cmd_Wdt _ \<Rightarrow> Some (answer (ev_report ev) h)
        | Cmd_Invalid reason \<Rightarrow> Some (answer (say_error [reason]) h)))"

text \<open>The keyboard.  Code points of punctuation: space 32, comma 44, period 46, slash 47, semicolon 59.\<close>

definition browser_key :: "nat \<Rightarrow> key_input \<Rightarrow> fm_key option" where
  "browser_key view input = (case input of
     Key_Char c \<Rightarrow>
       if view = 12 then Some (Char c)
       else if c = 32 then Some (Char 32)
       else if c = 44 then Some Left
       else if c = 59 then Some Up
       else if c = 46 then Some Down
       else if c = 47 then Some Right
       else None
   | Key_Modifier \<Rightarrow> None
   | Key_Enter \<Rightarrow> Some Enter
   | Key_Backspace \<Rightarrow> if view = 12 then Some Backspace else Some Back
   | Key_Escape \<Rightarrow> Some Back
   | Key_Delete \<Rightarrow> Some Delete
   | Key_Tab \<Rightarrow> Some Tab
   | Key_Arrow Arrow_Up \<Rightarrow> Some Up
   | Key_Arrow Arrow_Down \<Rightarrow> Some Down
   | Key_Arrow Arrow_Left \<Rightarrow> Some Left
   | Key_Arrow Arrow_Right \<Rightarrow> Some Right)"

definition screen_key :: "key_input \<Rightarrow> ('v, 'd, 'w, 'k, 'r, 'c, 'h) ratputer \<Rightarrow> ('v, 'd, 'w, 'k, 'r, 'c, 'h) ratputer" where
  "screen_key input h = (case input of
     Key_Char c \<Rightarrow>
       if hs_view h = 5 then
         (if 32 \<le> c \<and> c < 127 \<and> length (rh_password h) < 64 then h\<lparr>rh_password := rh_password h @ [char_of c]\<rparr> else h)
       else if hs_view h = 9 then
         (if 33 \<le> c \<and> c < 127 \<and> length (ml_ssh_password h) < 32
          then h\<lparr>ml_ssh_password := ml_ssh_password h @ [char_of c]\<rparr> else h)
       else if c = 32 then key_pressed ''space'' h
       else if c = 44 then key_pressed ''left'' h
       else if c = 59 then key_pressed ''up'' h
       else if c = 46 then key_pressed ''down'' h
       else if c = 47 then key_pressed ''right'' h
       else h
   | Key_Modifier \<Rightarrow> h
   | Key_Enter \<Rightarrow> key_pressed ''enter'' h
   | Key_Backspace \<Rightarrow>
       if hs_view h = 5 then h\<lparr>rh_password := butlast (rh_password h)\<rparr>
       else if hs_view h = 9 then h\<lparr>ml_ssh_password := butlast (ml_ssh_password h)\<rparr>
       else key_pressed ''back'' h
   | Key_Escape \<Rightarrow> key_pressed ''back'' h
   | Key_Delete \<Rightarrow> key_pressed ''delete'' h
   | Key_Tab \<Rightarrow> key_pressed ''tab'' h
   | Key_Arrow Arrow_Up \<Rightarrow> key_pressed ''up'' h
   | Key_Arrow Arrow_Down \<Rightarrow> key_pressed ''down'' h
   | Key_Arrow Arrow_Left \<Rightarrow> key_pressed ''left'' h
   | Key_Arrow Arrow_Right \<Rightarrow> key_pressed ''right'' h)"

definition keyboard_key ::
  "('v, 'h) fat_ops \<Rightarrow> key_input \<Rightarrow> ('v, 'd, 'w, 'k, 'r, 'c, 'h) ratputer \<Rightarrow> ('v, 'd, 'w, 'k, 'r, 'c, 'h) ratputer option" where
  "keyboard_key ops input h =
    (if input_blocked h then Some h
     else if browser_screen (hs_view h) then
       (case browser_key (hs_view h) input of
          Some key \<Rightarrow> with_browser (press ops key) h
        | None \<Rightarrow> Some h)
     else Some (screen_key input h))"

primrec keyboard_keys ::
  "('v, 'h) fat_ops \<Rightarrow> key_input list \<Rightarrow> ('v, 'd, 'w, 'k, 'r, 'c, 'h) ratputer \<Rightarrow> ('v, 'd, 'w, 'k, 'r, 'c, 'h) ratputer option" where
  "keyboard_keys ops [] h = Some h"
| "keyboard_keys ops (input # inputs) h = Option.bind (keyboard_key ops input h) (keyboard_keys ops inputs)"

subsection \<open>The SSH screens\<close>

definition set_ssh_login_text :: "('v, 'd, 'w, 'k, 'r, 'c, 'h) ratputer \<Rightarrow> ('v, 'd, 'w, 'k, 'r, 'c, 'h) ratputer" where
  "set_ssh_login_text h =
    (let server = cfg_server (hs_config h) in
     h\<lparr>ml_ssh_user := truncate_ascii (''USER:'' @ srv_user server @ '' PASS:'' @ srv_password server) 27\<rparr>)"

definition set_ssh_hostkey_text :: "string \<Rightarrow> ('v, 'd, 'w, 'k, 'r, 'c, 'h) ratputer \<Rightarrow> ('v, 'd, 'w, 'k, 'r, 'c, 'h) ratputer" where
  "set_ssh_hostkey_text shown h =
    (if shown = ''none'' then
       (if ml_key_top h \<noteq> ''KEY ON FIRST LOGIN'' then h\<lparr>ml_key_top := ''KEY ON FIRST LOGIN'', ml_key_bottom := []\<rparr> else h)
     else
       let split = min (length shown) 29 in
       if ml_key_top h \<noteq> take split shown
       then h\<lparr>ml_key_top := take split shown, ml_key_bottom := drop split shown\<rparr> else h)"

text \<open>\<open>None\<close> is the panic of \<open>unwrap\<close> when there is no server.\<close>

definition start_ssh :: "('v, 'd, 'w, 'k, 'r, 'c, 'h) ratputer \<Rightarrow> ('v, 'd, 'w, 'k, 'r, 'c, 'h) ratputer option" where
  "start_ssh h =
    (if hs_storage h = None \<or> \<not> ml_network h then Some (h\<lparr>ml_ssh_status := ''SD OR WI-FI UNAVAILABLE''\<rparr>)
     else let h = set_ssh_login_text h in
       case ml_server h of
         None \<Rightarrow> None
       | Some sv \<Rightarrow> Some (h\<lparr>ml_server := Some (ssh_start sv), ml_ssh_status := ''WAITING FOR WI-FI''\<rparr>))"

definition stop_ssh :: "'k socket_ops \<Rightarrow> ('v, 'd, 'w, 'k, 'r, 'c, 'h) ratputer \<Rightarrow> ('v, 'd, 'w, 'k, 'r, 'c, 'h) ratputer" where
  "stop_ssh so h = (case ml_server h of
     None \<Rightarrow> h
   | Some sv \<Rightarrow> if sv_active sv then h\<lparr>ml_server := Some (ssh_stop so sv)\<rparr> else h)"

definition save_server_password ::
  "(wifi_config \<Rightarrow> string option) \<Rightarrow> ('v, 'h) fat_ops \<Rightarrow> ('v, 'd, 'w, 'k, 'r, 'c, 'h) ratputer \<Rightarrow> ('v, 'd, 'w, 'k, 'r, 'c, 'h) ratputer option" where
  "save_server_password toml_print ops h =
    (let password = ml_ssh_password h in
     if \<not> valid_server_credential password then Some (h\<lparr>ml_ssh_status := ''1-32 ASCII, NO SPACES''\<rparr>)
     else case hs_storage h of
       None \<Rightarrow> Some (h\<lparr>ml_ssh_status := ''SD BUSY''\<rparr>)
     | Some vol \<Rightarrow>
       (let cfg = hs_config h; cfg = cfg\<lparr>cfg_server := (cfg_server cfg)\<lparr>srv_password := password\<rparr>\<rparr>;
            h = h\<lparr>hs_config := cfg\<rparr>
        in case save toml_print ops vol cfg of
             (Inl _, vol) \<Rightarrow> Some (h\<lparr>hs_storage := Some vol, ml_ssh_status := ''SD SAVE FAILED''\<rparr>)
           | (Inr _, vol) \<Rightarrow> start_ssh ((set_ssh_login_text (h\<lparr>hs_storage := Some vol\<rparr>))\<lparr>hs_view := 8\<rparr>)))"

definition ssh_command ::
  "('v, 'd, 'w, 'k, 'r, 'c, 'h) board \<Rightarrow> ('v, 'd, 'w, 'k, 'r, 'c, 'h) ratputer \<Rightarrow> ('v, 'd, 'w, 'k, 'r, 'c, 'h) ratputer option" where
  "ssh_command bd h =
    (let action = ml_ssh_action h in
     if action = 0 then Some h
     else
       let h = h\<lparr>ml_ssh_action := 0\<rparr> in
       if action = 1 then start_ssh h
       else if action = 2 then Some ((stop_ssh (bd_socket bd) h)\<lparr>ml_ssh_status := ''OFF''\<rparr>)
       else if action = 3 then
         Some ((stop_ssh (bd_socket bd) h)\<lparr>ml_ssh_password := srv_password (cfg_server (hs_config h)),
                 ml_ssh_status := ''TYPE NEW PASSWORD''\<rparr>)
       else if action = 4 then save_server_password (bd_toml_print bd) (bd_fat bd) h
       else if action = 5 then start_ssh (h\<lparr>hs_view := 8\<rparr>)
       else Some h)"

text \<open>The texts of the SSH screen while the server runs; the counters of \<open>ssh-stats\<close> are left out.  The
  fingerprint is ASCII, so its halves are slices.\<close>

definition show_ssh :: "events \<Rightarrow> ('v, 'd, 'w, 'k, 'r, 'c, 'h) ratputer \<Rightarrow> ('v, 'd, 'w, 'k, 'r, 'c, 'h) ratputer" where
  "show_ssh ev h = (case ml_server h of
     None \<Rightarrow> h
   | Some sv \<Rightarrow>
      if \<not> sv_active sv then h
      else
        let status = (case ssh_peer sv of
               Some peer \<Rightarrow> (if ssh_transferring sv then ''SFTP '' else ''SSH '') @ truncate_ascii peer 24
             | None \<Rightarrow> if ml_network h \<and> ev_online ev then ''LISTENING :22'' else ''WAITING FOR WI-FI'');
            address = (case (if ml_network h then ev_address ev else None) of
               Some a \<Rightarrow> ''SSH://'' @ a @ '':22'' | None \<Rightarrow> ''NO IP YET'')
        in set_ssh_hostkey_text (fingerprint_text sv) (h\<lparr>ml_ssh_status := status, ml_ssh_addr := address\<rparr>))"

primrec ssh_burst ::
  "('v, 'd, 'w, 'k, 'r, 'c, 'h) board \<Rightarrow> poll_context list \<Rightarrow> ('k, 'r, 'c, 'h) ssh_server \<Rightarrow> 'v option \<Rightarrow>
   (('k, 'r, 'c, 'h) ssh_server \<times> 'v option) option" where
  "ssh_burst bd [] sv vol = Some (sv, vol)"
| "ssh_burst bd (cx # cxs) sv vol =
    (if \<not> ssh_transferring sv then Some (sv, vol)
     else case ssh_poll (bd_fat bd) (bd_crypto bd) cx (bd_socket bd) (bd_runner bd) sv vol of
       None \<Rightarrow> None
     | Some (sv, vol) \<Rightarrow> ssh_burst bd cxs sv vol)"

definition loop_context :: "wifi_config \<Rightarrow> poll_context \<Rightarrow> poll_context" where
  "loop_context cfg cx = cx\<lparr>cx_credentials := cfg_server cfg, cx_env := (cx_env cx)\<lparr>en_clock := cfg_clock cfg\<rparr>\<rparr>"

definition serve_ssh ::
  "('v, 'd, 'w, 'k, 'r, 'c, 'h) board \<Rightarrow> events \<Rightarrow> ('v, 'd, 'w, 'k, 'r, 'c, 'h) ratputer \<Rightarrow> ('v, 'd, 'w, 'k, 'r, 'c, 'h) ratputer option" where
  "serve_ssh bd ev h = (case ml_server h of
     None \<Rightarrow> Some h
   | Some sv \<Rightarrow>
      if \<not> ml_network h then Some h
      else
        (case (if sv_active sv \<and> ev_link_up ev
               then ensure_hostkey (bd_fat bd) (bd_crypto bd) (ev_key_seed ev) sv (hs_storage h)
               else (sv, hs_storage h)) of
           (sv, vol) \<Rightarrow>
             (case Option.bind
                     (ssh_poll (bd_fat bd) (bd_crypto bd) (loop_context (hs_config h) (ev_first_poll ev))
                        (bd_socket bd) (bd_runner bd) sv vol)
                     (\<lambda>(sv, vol). ssh_burst bd (map (loop_context (hs_config h)) (ev_burst ev)) sv vol) of
                None \<Rightarrow> None
              | Some (sv, vol) \<Rightarrow> Some (h\<lparr>ml_server := Some sv, hs_storage := vol\<rparr>))))"

subsection \<open>One pass\<close>

definition browser_guard ::
  "('v, 'h) fat_ops \<Rightarrow> ('v, 'd, 'w, 'k, 'r, 'c, 'h) ratputer \<Rightarrow> ('v, 'd, 'w, 'k, 'r, 'c, 'h) ratputer option" where
  "browser_guard ops h =
    (if \<not> browser_screen (hs_view h) then Some (h\<lparr>ml_browser := None\<rparr>)
     else if ml_browser h \<noteq> None then Some h
     else case hs_storage h of
       None \<Rightarrow> Some (h\<lparr>hs_view := 0\<rparr>)
     | Some vol \<Rightarrow>
       (case fm_new ops vol ((ml_fm_ui h)\<lparr>ui_view_state := hs_view h\<rparr>) of
          None \<Rightarrow> None
        | Some (fm, ui) \<Rightarrow> Some (h\<lparr>ml_browser := Some fm, ml_fm_ui := ui, hs_view := ui_view_state ui\<rparr>)))"

definition server_holds_sd :: "('v, 'd, 'w, 'k, 'r, 'c, 'h) ratputer \<Rightarrow> bool" where
  "server_holds_sd h \<longleftrightarrow> (case ml_server h of None \<Rightarrow> False | Some sv \<Rightarrow> holds_sd sv)"

text \<open>USB: poll first, then the action of the screen, then its texts.\<close>

definition usb_command :: "('v, 'd, 'w, 'k, 'r, 'c, 'h) board \<Rightarrow> ('v, 'd, 'w, 'k, 'r, 'c, 'h) ratputer \<Rightarrow> ('v, 'd, 'w, 'k, 'r, 'c, 'h) ratputer" where
  "usb_command bd h =
    (let action = ml_usb_action h in
     if action = 0 then h
     else
       let h = h\<lparr>ml_usb_action := 0\<rparr> in
       if action = 1 then usb_enter (bd_free bd) (bd_mount bd) (bd_device bd) (server_holds_sd h) h
       else if action = 2 then usb_exit (bd_mount bd) (bd_toml_parse bd) (bd_fat bd) (rh_wifi h \<noteq> None) h
       else h)"

definition usb_labels :: "('v, 'd, 'w, 'k, 'r, 'c, 'h) ratputer \<Rightarrow> ('v, 'd, 'w, 'k, 'r, 'c, 'h) ratputer \<Rightarrow> ('v, 'd, 'w, 'k, 'r, 'c, 'h) ratputer" where
  "usb_labels before h =
    (if hs_usb_sd before \<noteq> None \<and> hs_usb_sd h = None
     then h\<lparr>rh_saved_labels := saved_network_model (hs_config h)\<rparr> else h)"

definition usb_pass :: "('v, 'd, 'w, 'k, 'r, 'c, 'h) board \<Rightarrow> events \<Rightarrow> ('v, 'd, 'w, 'k, 'r, 'c, 'h) ratputer \<Rightarrow> ('v, 'd, 'w, 'k, 'r, 'c, 'h) ratputer option" where
  "usb_pass bd ev h =
    map_option (\<lambda>h. usb_show (ev_stats_due ev) (usb_labels h (usb_command bd h)))
      (usb_service (ev_turns ev) (ev_bus ev) h)"

definition link_state :: "events \<Rightarrow> ('v, 'd, 'w, 'k, 'r, 'c, 'h) ratputer \<Rightarrow> nat" where
  "link_state ev h =
    (if rh_job h \<noteq> None then 1
     else case rh_pending h of
       Some (Connect_Step n a) \<Rightarrow> 1
     | _ \<Rightarrow> if ml_network h \<and> ev_online ev then 3 else if ml_network h \<and> ev_link_up ev then 2 else 0)"

definition network_pass :: "events \<Rightarrow> ('v, 'd, 'w, 'k, 'r, 'c, 'h) ratputer \<Rightarrow> ('v, 'd, 'w, 'k, 'r, 'c, 'h) ratputer" where
  "network_pass ev h =
    (let was_up = nt_link_was_up (ml_time h);
         h = (if ml_network h
              then (if \<not> ev_link_up ev \<and> was_up then link_lost (ev_now_ms ev) h else h)
                   \<lparr>ml_time := net_pass (ev_sntp ev) (cfg_clock (hs_config h)) (ev_now ev) (ev_sntp_finished ev)
                                (ev_sntp_done ev) (ev_link_up ev) (ev_online ev) (ml_time h)\<rparr>
              else h)
     in h\<lparr>ml_link_state := link_state ev h\<rparr>)"

definition tick_frame :: "events \<Rightarrow> ('v, 'd, 'w, 'k, 'r, 'c, 'h) ratputer \<Rightarrow> ('v, 'd, 'w, 'k, 'r, 'c, 'h) ratputer" where
  "tick_frame ev h =
    (if (\<not> ml_splash_done h \<or> hs_view h = 1 \<or> rh_pending h \<noteq> None) \<and> ev_frame_due ev then
       let h = h\<lparr>rh_frame := (rh_frame h + 1) mod 4\<rparr> in
       case rh_pending h of None \<Rightarrow> h | Some step \<Rightarrow> say_wifi (busy_status step (rh_frame h)) h
     else h)"

definition loop_pass :: "('v, 'd, 'w, 'k, 'r, 'c, 'h) board \<Rightarrow> events \<Rightarrow> ('v, 'd, 'w, 'k, 'r, 'c, 'h) ratputer \<Rightarrow> ('v, 'd, 'w, 'k, 'r, 'c, 'h) ratputer option" where
  "loop_pass bd ev h =
    Option.bind (debug_input (bd_fat bd) ev (h\<lparr>ml_splash_done := ml_splash_done h \<or> ev_splash_over ev\<rparr>)) (\<lambda>h.
    Option.bind (keyboard_keys (bd_fat bd) (ev_keys ev) h) (\<lambda>h.
    Option.bind (browser_guard (bd_fat bd) (if hs_view h \<noteq> 8 then stop_ssh (bd_socket bd) h else h)) (\<lambda>h.
    Option.bind (with_browser (copy_poll (bd_fat bd)) h) (\<lambda>h.
    Option.bind (usb_pass bd ev
      (radio_pass (bd_radio bd) (bd_sorter bd) (bd_toml_print bd) (bd_fat bd) (ev_now_ms ev)
         (ev_auto_completed ev) (ml_network h \<and> ev_link_up ev) h)) (\<lambda>h.
    Option.bind (ssh_command bd h) (\<lambda>h.
    serve_ssh bd ev (tick_frame ev (network_pass ev (show_ssh ev h)))))))))"

subsection \<open>The card has one user\<close>

definition server_active :: "('v, 'd, 'w, 'k, 'r, 'c, 'h) ratputer \<Rightarrow> bool" where
  "server_active h \<longleftrightarrow> (case ml_server h of None \<Rightarrow> False | Some sv \<Rightarrow> sv_active sv)"

text \<open>The invariant between two parts of a pass, and what input may leave for the rest of the pass.\<close>

definition one_user :: "('v, 'd, 'w, 'k, 'r, 'c, 'h) ratputer \<Rightarrow> bool" where
  "one_user h \<longleftrightarrow> (hs_usb_sd h \<noteq> None \<longrightarrow> hs_storage h = None)
     \<and> (hs_storage h = None \<longrightarrow> ml_browser h = None \<and> \<not> server_active h)"

definition asks_on_screen :: "('v, 'd, 'w, 'k, 'r, 'c, 'h) ratputer \<Rightarrow> bool" where
  "asks_on_screen h \<longleftrightarrow> (ml_usb_action h = 1 \<longrightarrow> hs_view h = 7)"

definition asks_when_free :: "('v, 'd, 'w, 'k, 'r, 'c, 'h) ratputer \<Rightarrow> bool" where
  "asks_when_free h \<longleftrightarrow> (ml_usb_action h = 1 \<longrightarrow> ml_browser h = None \<and> \<not> server_active h)"

text \<open>What keys leave alone.\<close>

definition same_card :: "('v, 'd, 'w, 'k, 'r, 'c, 'h) ratputer \<Rightarrow> ('v, 'd, 'w, 'k, 'r, 'c, 'h) ratputer \<Rightarrow> bool" where
  "same_card h h' \<longleftrightarrow> hs_usb_sd h' = hs_usb_sd h \<and> (hs_storage h' = None \<longleftrightarrow> hs_storage h = None)
     \<and> (ml_browser h' = None \<longleftrightarrow> ml_browser h = None) \<and> ml_server h' = ml_server h \<and> hs_disk h' = hs_disk h"

lemma same_card_one_user: "same_card h h' \<Longrightarrow> one_user h \<Longrightarrow> one_user h'"
  by (auto simp: same_card_def one_user_def server_active_def)

lemma same_card_trans: "same_card h h1 \<Longrightarrow> same_card h1 h2 \<Longrightarrow> same_card h h2"
  by (simp add: same_card_def)

lemma same_card_refl [simp]: "same_card h h"
  by (simp add: same_card_def)

lemmas key_defs = key_back_def menu_enter_def key_enter_def move_selection_def

lemma same_card_updates [simp]:
  "same_card h (h'\<lparr>hs_view := n\<rparr>) = same_card h h'" "same_card h (h'\<lparr>rh_password := x\<rparr>) = same_card h h'"
  "same_card h (h'\<lparr>ml_usb_action := n\<rparr>) = same_card h h'" "same_card h (h'\<lparr>ml_ssh_action := n\<rparr>) = same_card h h'"
  "same_card h (h'\<lparr>hs_wifi_status := x\<rparr>) = same_card h h'" "same_card h (h'\<lparr>rh_connecting := b\<rparr>) = same_card h h'"
  "same_card h (h'\<lparr>rh_action := n\<rparr>) = same_card h h'" "same_card h (h'\<lparr>rh_action_index := n\<rparr>) = same_card h h'"
  "same_card h (h'\<lparr>ml_menu_index := n\<rparr>) = same_card h h'" "same_card h (h'\<lparr>ml_wifi_menu_index := n\<rparr>) = same_card h h'"
  "same_card h (h'\<lparr>hs_saved_index := n\<rparr>) = same_card h h'" "same_card h (h'\<lparr>rh_scan_index := n\<rparr>) = same_card h h'"
  "same_card h (h'\<lparr>ml_ssh_password := x\<rparr>) = same_card h h'" "same_card h (h'\<lparr>ml_console := c\<rparr>) = same_card h h'"
  by (simp_all add: same_card_def)

lemma keys_card [simp]:
  "same_card h (key_back h)" "same_card h (key_enter h)" "same_card h (move_selection step h)"
  by (simp_all add: key_defs Let_def)

lemma key_pressed_card [simp]: "same_card h (key_pressed k h)"
  by (simp add: key_pressed_def)

lemma keys_ask:
  assumes "asks_on_screen h"
  shows "asks_on_screen (key_back h)" "asks_on_screen (key_enter h)" "asks_on_screen (move_selection step h)"
    "asks_on_screen (h\<lparr>rh_action_index := i, rh_action := a\<rparr>)"
    "hs_view h = 8 \<Longrightarrow> asks_on_screen (h\<lparr>ml_ssh_action := 3, hs_view := 9\<rparr>)"
  using assms
  by (cases "hs_view h = 7"; simp add: key_defs asks_on_screen_def Let_def)+

lemma key_pressed_asks: "asks_on_screen h \<Longrightarrow> asks_on_screen (key_pressed k h)"
  using keys_ask [of h] unfolding key_pressed_def by simp

lemma answer_simps [simp]:
  "same_card h (answer f h') = same_card h h'" "asks_on_screen (answer f h) = asks_on_screen h"
  "same_card (answer f h) h' = same_card h h'"
  by (simp_all add: answer_def same_card_def asks_on_screen_def)

definition quiet_input :: "('v, 'd, 'w, 'k, 'r, 'c, 'h) ratputer \<Rightarrow> ('v, 'd, 'w, 'k, 'r, 'c, 'h) ratputer option \<Rightarrow> bool" where
  "quiet_input h r \<longleftrightarrow> (\<forall>h'. r = Some h' \<longrightarrow> same_card h h' \<and> (asks_on_screen h \<longrightarrow> asks_on_screen h'))"

lemma quiet_inputI [intro]:
  "(\<And>h'. r = Some h' \<Longrightarrow> same_card h h' \<and> (asks_on_screen h \<longrightarrow> asks_on_screen h')) \<Longrightarrow> quiet_input h r"
  by (simp add: quiet_input_def)

lemma with_browser_quiet: "browser_screen (hs_view h) \<Longrightarrow> quiet_input h (with_browser f h)"
  by (auto simp: with_browser_def same_card_def asks_on_screen_def browser_screen_def
      split: option.splits prod.splits)

lemma quiet_Some [simp]:
  "quiet_input h (Some h') \<longleftrightarrow> same_card h h' \<and> (asks_on_screen h \<longrightarrow> asks_on_screen h')"
  by (simp add: quiet_input_def)

lemma asks_on_screen_updates [simp]:
  "asks_on_screen (h\<lparr>rh_password := x\<rparr>) = asks_on_screen h" "asks_on_screen (h\<lparr>ml_ssh_password := x\<rparr>) = asks_on_screen h"
  by (simp_all add: asks_on_screen_def)

lemma apply_debug_key_quiet: "quiet_input h (Some (apply_debug_key k h))"
  by (cases k) (simp_all add: apply_debug_key_def key_pressed_asks)

lemma screen_key_quiet: "quiet_input h (Some (screen_key k h))"
  by (cases k) (simp_all add: screen_key_def key_pressed_asks split: arrow.split)

lemma quiet_answer [simp]: "quiet_input h (map_option (answer f) r) = quiet_input h r"
  by (auto simp: quiet_input_def)

lemma debug_press_quiet: "quiet_input h (debug_press ops k h)"
  using with_browser_quiet [of h "press ops (file_debug_key k)"] apply_debug_key_quiet [of h k]
  unfolding debug_press_def quiet_input_def by (auto split: if_splits)

lemma debug_type_quiet: "quiet_input h (debug_type t h)"
  unfolding debug_type_def append_debug_text_def
  by (auto simp: same_card_def asks_on_screen_def answer_def split: option.splits sum.splits if_splits)

lemma debug_clear_quiet: "quiet_input h (debug_clear h)"
  unfolding debug_clear_def
  by (auto simp: same_card_def asks_on_screen_def answer_def split: option.splits if_splits)

lemma debug_input_quiet: "quiet_input h (debug_input ops ev h)"
  using debug_press_quiet [of h] debug_type_quiet [of h] debug_clear_quiet [of h]
  unfolding debug_input_def by (auto split: option.split debug_command.split simp: quiet_input_def)

lemma keyboard_key_quiet: "quiet_input h (keyboard_key ops k h)"
  using with_browser_quiet [of h] screen_key_quiet [of h k]
  unfolding keyboard_key_def by (auto split: option.split simp: quiet_input_def)

lemma keyboard_keys_quiet: "quiet_input h (keyboard_keys ops ks h)"
proof (induction ks arbitrary: h)
  case (Cons k ks)
  from keyboard_key_quiet [of h ops k] Cons.IH show ?case
    by (auto simp: quiet_input_def bind_eq_Some_conv dest: same_card_trans)
qed auto

text \<open>The screen guards: SSH is stopped off its screen, the browser dropped off its screens and never
  opened without a volume.\<close>

lemma stop_ssh_simps [simp]:
  "hs_view (stop_ssh so h) = hs_view h" "hs_usb_sd (stop_ssh so h) = hs_usb_sd h"
  "hs_storage (stop_ssh so h) = hs_storage h" "ml_browser (stop_ssh so h) = ml_browser h"
  "ml_usb_action (stop_ssh so h) = ml_usb_action h" "ml_ssh_action (stop_ssh so h) = ml_ssh_action h"
  "rh_action (stop_ssh so h) = rh_action h" "hs_disk (stop_ssh so h) = hs_disk h" "\<not> server_active (stop_ssh so h)"
  by (simp_all add: stop_ssh_def server_active_def ssh_stop_def drop_session_def Let_def split: option.split)

lemma browser_guard_frame:
  assumes "browser_guard ops h = Some h'"
  shows "hs_usb_sd h' = hs_usb_sd h \<and> hs_storage h' = hs_storage h \<and> ml_server h' = ml_server h \<and> hs_disk h' = hs_disk h
    \<and> ml_usb_action h' = ml_usb_action h \<and> (hs_view h = 7 \<longrightarrow> ml_browser h' = None)
    \<and> (ml_browser h' \<noteq> None \<longrightarrow> ml_browser h \<noteq> None \<or> hs_storage h \<noteq> None)"
  using assms by (auto simp: browser_guard_def browser_screen_def split: if_splits option.splits prod.splits)

lemma guards_one_user:
  assumes "one_user h" "asks_on_screen h"
    "browser_guard ops (if hs_view h \<noteq> 8 then stop_ssh so h else h) = Some h'"
  shows "one_user h' \<and> asks_when_free h'"
proof -
  let ?g = "if hs_view h \<noteq> 8 then stop_ssh so h else h"
  have g: "hs_usb_sd ?g = hs_usb_sd h" "hs_storage ?g = hs_storage h" "ml_browser ?g = ml_browser h"
    "ml_usb_action ?g = ml_usb_action h" "hs_view ?g = hs_view h" "server_active ?g \<Longrightarrow> server_active h"
    "hs_view h = 7 \<Longrightarrow> \<not> server_active ?g" by (auto split: if_splits)
  have "server_active h' = server_active ?g" using browser_guard_frame [OF assms(3)] by (simp add: server_active_def)
  with g browser_guard_frame [OF assms(3)] assms(1,2) show ?thesis
    unfolding one_user_def asks_on_screen_def asks_when_free_def by metis
qed

lemma with_browser_one_user:
  "one_user h \<Longrightarrow> asks_when_free h \<Longrightarrow> with_browser f h = Some h' \<Longrightarrow> one_user h' \<and> asks_when_free h'"
  by (auto simp: with_browser_def one_user_def asks_when_free_def server_active_def split: option.splits prod.splits)

text \<open>The radio leaves the card and everything above it alone.\<close>

definition keeps_card :: "('v, 'd, 'w, 'z) radio_host_scheme \<Rightarrow> ('v, 'd, 'w, 'z) radio_host_scheme \<Rightarrow> bool" where
  "keeps_card h h' \<longleftrightarrow> radio_host.more h' = radio_host.more h \<and> hs_usb_sd h' = hs_usb_sd h \<and> hs_disk h' = hs_disk h
     \<and> (hs_storage h' = None \<longleftrightarrow> hs_storage h = None)"

lemma keeps_card_trans: "keeps_card h h1 \<Longrightarrow> keeps_card h1 h2 \<Longrightarrow> keeps_card h h2"
  by (simp add: keeps_card_def)

lemma keeps_card_simps [simp]:
  "keeps_card h h" "keeps_card h (say_wifi t h') = keeps_card h h'" "keeps_card h (h'\<lparr>rh_wifi := w\<rparr>) = keeps_card h h'"
  "keeps_card h (h'\<lparr>rh_pending := s\<rparr>) = keeps_card h h'" "keeps_card h (h'\<lparr>rh_connecting := c\<rparr>) = keeps_card h h'"
  "keeps_card h (h'\<lparr>hs_auto_connect_at := a\<rparr>) = keeps_card h h'" "keeps_card h (h'\<lparr>rh_scan := ns\<rparr>) = keeps_card h h'"
  "keeps_card h (h'\<lparr>rh_scan_labels := ls\<rparr>) = keeps_card h h'" "keeps_card h (h'\<lparr>rh_selected := x\<rparr>) = keeps_card h h'"
  "keeps_card h (h'\<lparr>rh_job := j\<rparr>) = keeps_card h h'" "keeps_card h (h'\<lparr>rh_pass := p\<rparr>) = keeps_card h h'"
  "keeps_card h (h'\<lparr>rh_link_ssid := x\<rparr>) = keeps_card h h'" "keeps_card h (h'\<lparr>rh_action := n\<rparr>) = keeps_card h h'"
  "keeps_card h (h'\<lparr>rh_password := x\<rparr>) = keeps_card h h'" "keeps_card h (h'\<lparr>hs_view := n\<rparr>) = keeps_card h h'"
  "keeps_card h (h'\<lparr>rh_scan_index := n\<rparr>) = keeps_card h h'" "keeps_card h (h'\<lparr>hs_auto_next := n\<rparr>) = keeps_card h h'"
  "keeps_card h (h'\<lparr>hs_config := cf\<rparr>) = keeps_card h h'" "keeps_card h (h'\<lparr>rh_saved_labels := ls\<rparr>) = keeps_card h h'"
  "keeps_card h (h'\<lparr>hs_saved_index := n\<rparr>) = keeps_card h h'"
  by (simp_all add: keeps_card_def say_wifi_def)

lemma begin_connect_card [simp]: "keeps_card h (begin_connect ro n h)"
  by (auto simp: begin_connect_def Let_def split: option.split prod.split sum.split)

lemma save_networks_card [simp]: "keeps_card h0 (snd (save_networks tp ops h)) = keeps_card h0 h"
  by (auto simp: save_networks_def keeps_card_def split: option.split prod.split sum.split)

lemma after_scan_card: "keeps_card h0 h \<Longrightarrow> keeps_card h0 (after_scan sorter pass results h)"
  by (auto simp: after_scan_def Let_def split: option.split)

lemma after_connected_card: "keeps_card h0 h \<Longrightarrow> keeps_card h0 (after_connected tp ops n h)"
  by (simp add: after_connected_def Let_def case_prod_beta)

lemma radio_step_pass_card: "keeps_card h (radio_step_pass ro sorter tp ops h)"
  by (auto simp: radio_step_pass_def Let_def intro!: after_scan_card after_connected_card
      split: option.split radio_step.split prod.split sum.split)

lemma retry_host_card [simp]: "keeps_card h0 (retry_host now h) = keeps_card h0 h"
  by (simp add: retry_host_def split: prod.split)

lemma poll_job_card: "keeps_card h (poll_job ro now completed h)"
  by (auto simp: poll_job_def Let_def split: option.split prod.split sum.split)

lemma forget_saved_card: "keeps_card h0 h \<Longrightarrow> keeps_card h0 (forget_saved tp ops h)"
  by (simp add: forget_saved_def Let_def case_prod_beta split: bool.split)

lemma begin_connect_card': "keeps_card h0 h \<Longrightarrow> keeps_card h0 (begin_connect ro n h)"
  using keeps_card_trans [OF _ begin_connect_card] .

lemma command_card:
  "keeps_card h0 h \<Longrightarrow> keeps_card h0 (defer_command h)" "keeps_card h0 h \<Longrightarrow> keeps_card h0 (start_scan h)"
  "keeps_card h0 h \<Longrightarrow> keeps_card h0 (choose_scanned ro h)" "keeps_card h0 h \<Longrightarrow> keeps_card h0 (connect_typed ro h)"
  using begin_connect_card' [of h0 h ro]
  by (simp_all add: defer_command_def start_scan_def choose_scanned_def connect_typed_def Let_def split: option.split)

lemma wifi_command_card: "keeps_card h (wifi_command ro tp ops h)"
  unfolding wifi_command_def Let_def
  by (simp add: command_card begin_connect_card' forget_saved_card)

lemma start_job_card: "keeps_card h (start_job now up no_action h)"
  by (auto simp: start_job_def split: option.split)

lemma radio_pass_card: "keeps_card h (radio_pass ro sorter tp ops now completed up h)"
  unfolding radio_pass_def Let_def
  by (rule keeps_card_trans [OF keeps_card_trans [OF keeps_card_trans [OF radio_step_pass_card poll_job_card]
        wifi_command_card] start_job_card])

lemma link_lost_card: "keeps_card h (link_lost now h)"
  by (simp add: link_lost_def Let_def)

lemma keeps_card_ratputer:
  assumes "keeps_card (h :: ('v, 'd, 'w, 'k, 'r, 'c, 'h) ratputer) h'"
  shows "ml_usb_action h' = ml_usb_action h" "ml_ssh_action h' = ml_ssh_action h" "ml_browser h' = ml_browser h"
    "ml_server h' = ml_server h" "ml_network h' = ml_network h"
  using assms by (cases h; cases h'; simp add: keeps_card_def)+

lemma keeps_card_one_user:
  assumes "keeps_card h h'"
  shows "one_user h \<Longrightarrow> one_user h'" "asks_when_free h \<Longrightarrow> asks_when_free h'"
  using keeps_card_ratputer [OF assms] assms
  by (simp_all add: one_user_def asks_when_free_def server_active_def keeps_card_def)

text \<open>SFTP and SSH use the volume they are given and never make or lose one.\<close>

lemma continue_resize_volume:
  "continue_resize ops env s vol = Some (s', vol') \<Longrightarrow> vol' = None \<longleftrightarrow> vol = None"
  by (auto simp: continue_resize_def Let_def split: option.splits sum.splits prod.splits bool.splits status.splits)

lemma continue_write_volume: "snd (snd (continue_write ops env s vol)) = None \<longleftrightarrow> vol = None"
  by (auto simp: continue_write_def write_for_stream_def Let_def split: option.split sum.split prod.split handle.split)

lemma parse_next_volume: "snd (snd (parse_next ops env s vol)) = None \<longleftrightarrow> vol = None"
  by (auto simp: parse_next_def dispatch_def Let_def split: option.split prod.split status.split)

lemma sftp_step_volume:
  assumes "sftp_step ops env s vol = Some (b, s', vol')"
  shows "vol' = None \<longleftrightarrow> vol = None"
  using assms continue_write_volume [of ops env s vol] parse_next_volume [of ops env s vol]
    continue_resize_volume [of ops env "s\<lparr>sf_card_budget := False\<rparr>" vol s' vol']
  by (auto simp: sftp_step_def Let_def split: if_splits option.splits)

lemma sftp_rounds_volume:
  "sftp_rounds ops env co c n moved r s vol = Some (m, r', s', vol') \<Longrightarrow> vol' = None \<longleftrightarrow> vol = None"
proof (induction n arbitrary: moved r s vol)
  case (Suc n)
  have one: "vol1 = None \<longleftrightarrow> vol = None" if "sftp_round ops env co c r s vol = Some (m1, r1, s1, vol1)" for m1 r1 s1 vol1
    using that by (auto simp: sftp_round_def split: option.splits prod.splits sum.splits if_splits dest: sftp_step_volume)
  from Suc.prems show ?case
    by (auto simp: Let_def split: option.splits prod.splits if_splits dest!: one Suc.IH)
qed simp

lemma channel_sftp_volume:
  "channel_sftp ops env co r sh vol = Some (m, r', sh', vol') \<Longrightarrow> vol' = None \<longleftrightarrow> vol = None"
  unfolding channel_sftp_def
  by (auto split: option.splits prod.splits sum.splits channel_error.splits dest: sftp_rounds_volume)

lemma channel_pass_volume:
  "channel_pass ops cx rn r sh vol = Some (m, r', sh', vol') \<Longrightarrow> vol' = None \<longleftrightarrow> vol = None"
  by (auto simp: channel_pass_def split: if_splits option.splits prod.splits bool.splits dest: channel_sftp_volume)

lemma ssh_round_volume:
  "ssh_round ops cx so rn has_key k r sh vol = Some (m, k', r', sh', vol') \<Longrightarrow> vol' = None \<longleftrightarrow> vol = None"
  by (auto simp: ssh_round_def split: option.splits prod.splits dest: channel_pass_volume)

lemma ssh_rounds_volume:
  "ssh_rounds ops cx so rn has_key n k r sh vol = Some (b, k', r', sh', vol') \<Longrightarrow> vol' = None \<longleftrightarrow> vol = None"
  by (induction n arbitrary: k r sh vol) (auto split: option.splits prod.splits bool.splits dest: ssh_round_volume)

lemma ensure_hostkey_volume:
  "ensure_hostkey ops cr seed sv vol = (sv', vol') \<Longrightarrow> vol' = None \<longleftrightarrow> vol = None"
  by (auto simp: ensure_hostkey_def Let_def split: if_splits option.splits prod.splits sum.splits)

lemma poll_listener_volume:
  "poll_listener ops cr cx so rn sv vol = (sv', vol') \<Longrightarrow>
    (vol' = None \<longleftrightarrow> vol = None) \<and> sv_active sv' = sv_active sv"
  by (auto simp: poll_listener_def Let_def split: tcp_state.splits if_splits prod.splits
      dest: ensure_hostkey_volume ensure_hostkey_frame)

lemma ssh_poll_volume:
  assumes "ssh_poll ops cr cx so rn sv vol = Some (sv', vol')"
  shows "(vol' = None \<longleftrightarrow> vol = None) \<and> sv_active sv' = sv_active sv"
  using assms unfolding ssh_poll_def poll_session_def drop_session_def
  by (auto split: if_splits prod.splits option.splits bool.splits dest: poll_listener_volume ssh_rounds_volume)

lemma ssh_burst_volume:
  "ssh_burst bd cxs sv vol = Some (sv', vol') \<Longrightarrow> (vol' = None \<longleftrightarrow> vol = None) \<and> sv_active sv' = sv_active sv"
  by (induction cxs arbitrary: sv vol) (auto split: if_splits option.splits dest!: ssh_poll_volume)

lemma serve_ssh_frame:
  assumes "serve_ssh bd ev h = Some h'"
  shows "(hs_storage h' = None \<longleftrightarrow> hs_storage h = None) \<and> server_active h' = server_active h
    \<and> hs_usb_sd h' = hs_usb_sd h \<and> ml_browser h' = ml_browser h \<and> hs_view h' = hs_view h \<and> hs_disk h' = hs_disk h
    \<and> ml_usb_action h' = ml_usb_action h \<and> ml_ssh_action h' = ml_ssh_action h \<and> rh_action h' = rh_action h"
  using assms unfolding serve_ssh_def server_active_def
  by (auto simp: bind_eq_Some_conv split: option.splits prod.splits if_splits
      dest!: ssh_poll_volume ssh_burst_volume dest: ensure_hostkey_volume ensure_hostkey_frame)

lemma serve_ssh_one_user: "serve_ssh bd ev h = Some h' \<Longrightarrow> one_user h \<Longrightarrow> one_user h'"
  using serve_ssh_frame [of bd ev h h'] by (simp add: one_user_def)

text \<open>USB takes the card only when nobody uses it.\<close>

lemma sd_more_ratputer:
  assumes "sd_host.more (h' :: ('v, 'd, 'w, 'k, 'r, 'c, 'h) ratputer) = sd_host.more h"
  shows "ml_browser h' = ml_browser h" "ml_server h' = ml_server h" "ml_usb_action h' = ml_usb_action h"
    "ml_ssh_action h' = ml_ssh_action h" "rh_action h' = rh_action h" "ml_network h' = ml_network h"
  using assms by (cases h; cases h'; simp)+

lemma usb_more:
  "sd_host.more (usb_enter free mount dev holds h) = sd_host.more h"
  "sd_host.more (usb_exit mount toml ops wifi h) = sd_host.more h"
  "sd_host.more (usb_show due h) = sd_host.more h"
  "usb_service turns b h = Some h' \<Longrightarrow> sd_host.more h' = sd_host.more h"
  by (auto simp: usb_enter_def usb_exit_def regain_card_def usb_show_def usb_service_def Let_def
      split: option.splits prod.splits bool.splits)

lemma usb_service_frame:
  "usb_service turns b h = Some h' \<Longrightarrow> hs_storage h' = hs_storage h \<and> hs_view h' = hs_view h
    \<and> (hs_usb_sd h' = None \<longleftrightarrow> hs_usb_sd h = None)"
  by (auto simp: usb_service_def split: option.splits prod.splits)

lemma usb_show_frame:
  "hs_storage (usb_show due h) = hs_storage h" "hs_usb_sd (usb_show due h) = hs_usb_sd h" "hs_view (usb_show due h) = hs_view h"
  by (simp_all add: usb_show_def Let_def)

lemma usb_enter_card:
  assumes "hs_usb_sd h \<noteq> None \<longrightarrow> hs_storage h = None"
  shows "hs_usb_sd (usb_enter free mount dev holds h) \<noteq> None \<longrightarrow> hs_storage (usb_enter free mount dev holds h) = None"
  using assms by (auto simp: usb_enter_def Let_def split: option.split prod.split bool.split)

lemma usb_exit_idle: "hs_usb_sd h = None \<Longrightarrow> usb_exit mount toml ops wifi h = h"
  by (simp add: usb_exit_def)

lemma usb_exit_card:
  "hs_usb_sd (usb_exit mount toml ops wifi h) \<noteq> None \<Longrightarrow>
    hs_storage (usb_exit mount toml ops wifi h) = hs_storage h \<and> hs_usb_sd h \<noteq> None"
  by (auto simp: usb_exit_def regain_card_fields split: option.splits if_splits)

lemma usb_command_one_user:
  assumes "one_user h" "asks_when_free h"
  shows "one_user (usb_command bd h)"
proof -
  let ?h = "h\<lparr>ml_usb_action := 0\<rparr>"
  have h: "one_user ?h" using assms(1) by (simp add: one_user_def server_active_def)
  consider "ml_usb_action h = 0" | "ml_usb_action h = 1" | "ml_usb_action h = 2" | "2 < ml_usb_action h" by linarith
  then show ?thesis
  proof cases
    case 2
    let ?u = "usb_enter (bd_free bd) (bd_mount bd) (bd_device bd) (server_holds_sd ?h) ?h"
    note more = sd_more_ratputer [OF usb_more(1) [of "bd_free bd" "bd_mount bd" "bd_device bd" "server_holds_sd ?h" ?h]]
    have "ml_browser ?u = None \<and> \<not> server_active ?u"
      using assms(2) 2 more by (simp add: asks_when_free_def server_active_def)
    with usb_enter_card [of ?h] h 2 show ?thesis by (simp add: usb_command_def Let_def one_user_def)
  next
    case 3
    let ?u = "usb_exit (bd_mount bd) (bd_toml_parse bd) (bd_fat bd) (rh_wifi ?h \<noteq> None) ?h"
    note more = sd_more_ratputer [OF usb_more(2) [of "bd_mount bd" "bd_toml_parse bd" "bd_fat bd" "rh_wifi ?h \<noteq> None" ?h]]
    have "one_user ?u"
    proof (cases "hs_usb_sd ?h = None")
      case True
      with h show ?thesis by (simp add: usb_exit_idle)
    next
      case False
      with h have "hs_storage ?h = None" "ml_browser ?h = None" "\<not> server_active ?h" by (simp_all add: one_user_def)
      moreover from this more have "ml_browser ?u = None" "\<not> server_active ?u" by (simp_all add: server_active_def)
      ultimately show ?thesis using usb_exit_card [of _ _ _ _ ?h] unfolding one_user_def by metis
    qed
    with 3 show ?thesis by (simp add: usb_command_def Let_def)
  qed (use assms(1) h in \<open>simp_all add: usb_command_def Let_def\<close>)
qed

lemma usb_pass_one_user:
  assumes "one_user h" "asks_when_free h" "usb_pass bd ev h = Some h'"
  shows "one_user h'"
proof -
  from assms(3) obtain h1 where h1: "usb_service (ev_turns ev) (ev_bus ev) h = Some h1"
    "h' = usb_show (ev_stats_due ev) (usb_labels h1 (usb_command bd h1))" by (auto simp: usb_pass_def)
  note more = sd_more_ratputer [OF usb_more(4) [OF h1(1)]]
  have "one_user h1" "asks_when_free h1"
    using assms(1,2) usb_service_frame [OF h1(1)] more by (auto simp: one_user_def asks_when_free_def server_active_def)
  then have "one_user (usb_labels h1 (usb_command bd h1))"
    using usb_command_one_user [of h1 bd] by (simp add: usb_labels_def one_user_def server_active_def)
  then show ?thesis
    by (simp add: h1(2) one_user_def server_active_def usb_show_frame sd_more_ratputer [OF usb_more(3)])
qed

lemma start_ssh_one_user: "one_user h \<Longrightarrow> start_ssh h = Some h' \<Longrightarrow> one_user h'"
  by (auto simp: start_ssh_def set_ssh_login_text_def one_user_def server_active_def Let_def split: if_splits option.splits)

lemma save_password_one_user:
  assumes "one_user h" "save_server_password tp ops h = Some h'"
  shows "one_user h'"
proof (cases "hs_storage h")
  case None
  with assms show ?thesis
    by (auto simp: save_server_password_def one_user_def server_active_def Let_def split: if_splits)
next
  case (Some vol)
  have one: "one_user (h\<lparr>hs_config := c, hs_storage := Some v, ml_ssh_status := t\<rparr>)"
    "one_user ((set_ssh_login_text (h\<lparr>hs_config := c, hs_storage := Some v\<rparr>))\<lparr>hs_view := 8\<rparr>)" for c v t
    using assms(1) Some by (simp_all add: one_user_def server_active_def set_ssh_login_text_def Let_def)
  show ?thesis
    using assms Some one start_ssh_one_user [OF one(2)]
    by (auto simp: save_server_password_def Let_def split: if_splits prod.splits sum.splits)
      (simp_all add: one_user_def server_active_def)
qed

lemma stop_ssh_one_user: "one_user h \<Longrightarrow> one_user (stop_ssh so h)"
  by (simp add: one_user_def)

lemma ssh_command_one_user:
  assumes "one_user h" "ssh_command bd h = Some h'"
  shows "one_user h'"
proof -
  have h: "one_user (h\<lparr>ml_ssh_action := 0\<rparr>)" "one_user (h\<lparr>ml_ssh_action := 0, hs_view := 8\<rparr>)"
    using assms(1) by (simp_all add: one_user_def server_active_def)
  have said: "one_user (g\<lparr>ml_ssh_status := t\<rparr>)" "one_user (g\<lparr>ml_ssh_password := p, ml_ssh_status := t\<rparr>)"
    if "one_user g" for g t p
    using that by (simp_all add: one_user_def server_active_def)
  show ?thesis
    using assms h start_ssh_one_user [OF h(1)] start_ssh_one_user [OF h(2)] save_password_one_user [OF h(1)]
      said [OF stop_ssh_one_user [OF h(1), of "bd_socket bd"]]
    by (auto simp: ssh_command_def Let_def split: if_splits)
qed

text \<open>The rest of a pass shows things.\<close>

definition only_shows :: "('v, 'd, 'w, 'k, 'r, 'c, 'h) ratputer \<Rightarrow> ('v, 'd, 'w, 'k, 'r, 'c, 'h) ratputer \<Rightarrow> bool" where
  "only_shows h h' \<longleftrightarrow> hs_disk h' = hs_disk h \<and> hs_usb_sd h' = hs_usb_sd h \<and> hs_storage h' = hs_storage h \<and> hs_view h' = hs_view h
     \<and> ml_browser h' = ml_browser h \<and> ml_server h' = ml_server h \<and> ml_usb_action h' = ml_usb_action h
     \<and> ml_ssh_action h' = ml_ssh_action h \<and> rh_action h' = rh_action h"

lemma show_ssh_only: "only_shows h (show_ssh ev h)"
  by (simp add: show_ssh_def set_ssh_hostkey_text_def only_shows_def Let_def split: option.split)

lemma network_pass_only: "only_shows h (network_pass ev h)"
  by (simp add: network_pass_def link_lost_def say_wifi_def only_shows_def Let_def)

lemma tick_frame_only: "only_shows h (tick_frame ev h)"
  by (simp add: tick_frame_def say_wifi_def only_shows_def Let_def split: option.split)

lemma shown_only: "only_shows h (tick_frame ev (network_pass ev (show_ssh ev h)))"
  using show_ssh_only [of h ev] network_pass_only [of "show_ssh ev h" ev]
    tick_frame_only [of "network_pass ev (show_ssh ev h)" ev]
  by (simp add: only_shows_def)

lemma only_shows_one_user: "only_shows h h' \<Longrightarrow> one_user h \<Longrightarrow> one_user h'"
  by (simp add: only_shows_def one_user_def server_active_def)

text \<open>The parts of a successful pass.\<close>

lemma loop_pass_parts:
  assumes "loop_pass bd ev h = Some h'"
  obtains h1 h2 h3 h4 h5 h6 where
    "debug_input (bd_fat bd) ev (h\<lparr>ml_splash_done := ml_splash_done h \<or> ev_splash_over ev\<rparr>) = Some h1"
    "keyboard_keys (bd_fat bd) (ev_keys ev) h1 = Some h2"
    "browser_guard (bd_fat bd) (if hs_view h2 \<noteq> 8 then stop_ssh (bd_socket bd) h2 else h2) = Some h3"
    "with_browser (copy_poll (bd_fat bd)) h3 = Some h4"
    "usb_pass bd ev (radio_pass (bd_radio bd) (bd_sorter bd) (bd_toml_print bd) (bd_fat bd) (ev_now_ms ev)
       (ev_auto_completed ev) (ml_network h4 \<and> ev_link_up ev) h4) = Some h5"
    "ssh_command bd h5 = Some h6"
    "serve_ssh bd ev (tick_frame ev (network_pass ev (show_ssh ev h6))) = Some h'"
  using assms unfolding loop_pass_def bind_eq_Some_conv by blast

lemma loop_pass_one_user:
  assumes "one_user h" "asks_on_screen h" "loop_pass bd ev h = Some h'"
  shows "one_user h'"
proof -
  let ?h = "h\<lparr>ml_splash_done := ml_splash_done h \<or> ev_splash_over ev\<rparr>"
  from assms(3) obtain h1 h2 h3 h4 h5 h6 where p:
    "debug_input (bd_fat bd) ev ?h = Some h1" "keyboard_keys (bd_fat bd) (ev_keys ev) h1 = Some h2"
    "browser_guard (bd_fat bd) (if hs_view h2 \<noteq> 8 then stop_ssh (bd_socket bd) h2 else h2) = Some h3"
    "with_browser (copy_poll (bd_fat bd)) h3 = Some h4"
    "usb_pass bd ev (radio_pass (bd_radio bd) (bd_sorter bd) (bd_toml_print bd) (bd_fat bd) (ev_now_ms ev)
       (ev_auto_completed ev) (ml_network h4 \<and> ev_link_up ev) h4) = Some h5"
    "ssh_command bd h5 = Some h6"
    "serve_ssh bd ev (tick_frame ev (network_pass ev (show_ssh ev h6))) = Some h'"
    by (rule loop_pass_parts)
  have 0: "one_user ?h" "asks_on_screen ?h"
    using assms(1,2) by (simp_all add: one_user_def asks_on_screen_def server_active_def)
  have 2: "one_user h2" "asks_on_screen h2"
    using debug_input_quiet [of ?h "bd_fat bd" ev] keyboard_keys_quiet [of h1 "bd_fat bd" "ev_keys ev"] p(1,2) 0
    unfolding quiet_input_def by (blast intro: same_card_one_user)+
  have 4: "one_user h4" "asks_when_free h4"
    using guards_one_user [OF 2 p(3)] with_browser_one_user [OF _ _ p(4)] by blast+
  have "one_user h5" by (rule usb_pass_one_user [OF keeps_card_one_user(1,2) [OF radio_pass_card] p(5)]) (fact 4)+
  then show ?thesis
    by (blast intro: serve_ssh_one_user [OF p(7)] only_shows_one_user [OF shown_only] ssh_command_one_user [OF _ p(6)])
qed

text \<open>The owner at the USB side, over the parts.\<close>

lemma one_owner_eq:
  assumes "hs_disk h' = hs_disk h" "hs_usb_sd h' = hs_usb_sd h" "hs_storage h' = None \<longleftrightarrow> hs_storage h = None"
  shows "one_owner h' = one_owner h"
  using assms by (cases "hs_usb_sd h") (simp_all add: one_owner_def)

lemma with_browser_frame:
  "with_browser f h = Some h' \<Longrightarrow> hs_disk h' = hs_disk h \<and> hs_usb_sd h' = hs_usb_sd h
    \<and> (hs_storage h' = None \<longleftrightarrow> hs_storage h = None) \<and> (ml_browser h = None \<longrightarrow> h' = h)"
  by (auto simp: with_browser_def split: option.splits prod.splits)

lemma one_owner_updates [simp]:
  "one_owner (h\<lparr>ml_usb_action := a\<rparr>) = one_owner h" "one_owner (h\<lparr>rh_saved_labels := ls\<rparr>) = one_owner h"
  by (rule one_owner_eq; simp)+

lemma usb_command_owner:
  assumes "one_owner h"
  shows "one_owner (usb_command bd h)"
proof -
  have h: "one_owner (h\<lparr>ml_usb_action := 0\<rparr>)" using assms by simp
  show ?thesis
    unfolding usb_command_def Let_def
    using assms h usb_enter_owner [OF h, of "bd_free bd" "bd_mount bd" "bd_device bd"]
      usb_exit_owner [OF h, of "bd_mount bd" "bd_toml_parse bd" "bd_fat bd"] by presburger
qed

lemma usb_command_action: "ml_usb_action (usb_command bd h) = 0"
  using sd_more_ratputer(3) [OF usb_more(1) [of "bd_free bd" "bd_mount bd" "bd_device bd" _ "h\<lparr>ml_usb_action := 0\<rparr>"]]
    sd_more_ratputer(3) [OF usb_more(2) [of "bd_mount bd" "bd_toml_parse bd" "bd_fat bd" _ "h\<lparr>ml_usb_action := 0\<rparr>"]]
  by (simp add: usb_command_def Let_def del: not_None_eq)

lemma usb_pass_owner:
  assumes "one_owner h" "usb_pass bd ev h = Some h'"
  shows "one_owner h' \<and> ml_usb_action h' = 0"
proof -
  from assms(2) obtain h1 where h1: "usb_service (ev_turns ev) (ev_bus ev) h = Some h1"
    "h' = usb_show (ev_stats_due ev) (usb_labels h1 (usb_command bd h1))" by (auto simp: usb_pass_def)
  have "one_owner (usb_labels h1 (usb_command bd h1))"
    using usb_command_owner [OF usb_service_owner [OF assms(1) h1(1)], of bd] unfolding usb_labels_def by simp
  then show ?thesis
    using sd_more_ratputer(3) [OF usb_more(3), of "ev_stats_due ev" "usb_labels h1 (usb_command bd h1)"]
    by (simp add: h1(2) usb_show_owner usb_labels_def usb_command_action)
qed

lemma start_ssh_frame:
  "start_ssh h = Some h' \<Longrightarrow> hs_disk h' = hs_disk h \<and> hs_usb_sd h' = hs_usb_sd h \<and> hs_storage h' = hs_storage h
    \<and> ml_usb_action h' = ml_usb_action h \<and> ml_ssh_action h' = ml_ssh_action h"
  by (auto simp: start_ssh_def set_ssh_login_text_def Let_def split: if_splits option.splits)

lemma ssh_command_frame:
  assumes "ssh_command bd h = Some h'"
  shows "hs_disk h' = hs_disk h \<and> hs_usb_sd h' = hs_usb_sd h \<and> (hs_storage h' = None \<longleftrightarrow> hs_storage h = None)
    \<and> ml_usb_action h' = ml_usb_action h \<and> ml_ssh_action h' = 0"
  using assms unfolding ssh_command_def save_server_password_def set_ssh_login_text_def Let_def
  by (auto split: if_splits option.splits prod.splits sum.splits dest!: start_ssh_frame)

definition loop_ok :: "('v, 'd, 'w, 'k, 'r, 'c, 'h) ratputer \<Rightarrow> bool" where
  "loop_ok h \<longleftrightarrow> one_user h \<and> one_owner h \<and> ml_usb_action h = 0 \<and> ml_ssh_action h = 0"

lemma loop_pass_ok:
  assumes "loop_ok h" "loop_pass bd ev h = Some h'"
  shows "loop_ok h'"
proof -
  let ?h = "h\<lparr>ml_splash_done := ml_splash_done h \<or> ev_splash_over ev\<rparr>"
  from assms(2) obtain h1 h2 h3 h4 h5 h6 where p:
    "debug_input (bd_fat bd) ev ?h = Some h1" "keyboard_keys (bd_fat bd) (ev_keys ev) h1 = Some h2"
    "browser_guard (bd_fat bd) (if hs_view h2 \<noteq> 8 then stop_ssh (bd_socket bd) h2 else h2) = Some h3"
    "with_browser (copy_poll (bd_fat bd)) h3 = Some h4"
    "usb_pass bd ev (radio_pass (bd_radio bd) (bd_sorter bd) (bd_toml_print bd) (bd_fat bd) (ev_now_ms ev)
       (ev_auto_completed ev) (ml_network h4 \<and> ev_link_up ev) h4) = Some h5"
    "ssh_command bd h5 = Some h6"
    "serve_ssh bd ev (tick_frame ev (network_pass ev (show_ssh ev h6))) = Some h'"
    by (rule loop_pass_parts)
  let ?r = "radio_pass (bd_radio bd) (bd_sorter bd) (bd_toml_print bd) (bd_fat bd) (ev_now_ms ev)
       (ev_auto_completed ev) (ml_network h4 \<and> ev_link_up ev) h4"
  have user: "one_user h'"
    using loop_pass_one_user [OF _ _ assms(2)] assms(1) by (simp add: loop_ok_def asks_on_screen_def)
  have "same_card ?h h2"
    using debug_input_quiet [of ?h "bd_fat bd" ev] keyboard_keys_quiet [of h1 "bd_fat bd" "ev_keys ev"] p(1,2)
    unfolding quiet_input_def by (blast intro: same_card_trans)
  then have "hs_disk h2 = hs_disk h" "hs_usb_sd h2 = hs_usb_sd h" "hs_storage h2 = None \<longleftrightarrow> hs_storage h = None"
    by (simp_all add: same_card_def)
  with browser_guard_frame [OF p(3)] have "hs_disk h3 = hs_disk h" "hs_usb_sd h3 = hs_usb_sd h"
    "hs_storage h3 = None \<longleftrightarrow> hs_storage h = None" by (auto split: if_splits)
  with with_browser_frame [OF p(4)] have "hs_disk h4 = hs_disk h" "hs_usb_sd h4 = hs_usb_sd h"
    "hs_storage h4 = None \<longleftrightarrow> hs_storage h = None" by auto
  moreover have "keeps_card h4 ?r" by (rule radio_pass_card)
  ultimately have "one_owner ?r"
    using assms(1) one_owner_eq [of ?r h] by (simp add: keeps_card_def loop_ok_def)
  from usb_pass_owner [OF this p(5)] ssh_command_frame [OF p(6)]
  have "one_owner h6" "ml_usb_action h6 = 0" "ml_ssh_action h6 = 0"
    using one_owner_eq [of h6 h5] by simp_all
  with serve_ssh_frame [OF p(7)] shown_only [of h6 ev] one_owner_eq [of h' h6] user show ?thesis
    by (simp add: only_shows_def loop_ok_def)
qed

text \<open>The states between two passes: from a boot with or without a volume, over passes and the USB
  driver's callbacks.\<close>

inductive loop_reach ::
  "('v, 'd, 'w, 'k, 'r, 'c, 'h) board \<Rightarrow> ('v, 'd, 'w, 'k, 'r, 'c, 'h) ratputer \<Rightarrow> bool" for bd where
  boot: "hs_usb_sd h = None \<Longrightarrow> hs_disk h = usb_new \<Longrightarrow> ml_browser h = None \<Longrightarrow> \<not> server_active h \<Longrightarrow>
    ml_usb_action h = 0 \<Longrightarrow> ml_ssh_action h = 0 \<Longrightarrow> loop_reach bd h"
| pass: "loop_reach bd h \<Longrightarrow> loop_pass bd ev h = Some h' \<Longrightarrow> loop_reach bd h'"
| callback: "loop_reach bd h \<Longrightarrow>
    s \<in> {handler_reset (ud_shared (hs_disk h)), handler_enabled e (ud_shared (hs_disk h)),
      handler_configured c (ud_shared (hs_disk h)), snd (control_out i rq data (ud_shared (hs_disk h)))} \<Longrightarrow>
    loop_reach bd (h\<lparr>hs_disk := (hs_disk h)\<lparr>ud_shared := s\<rparr>\<rparr>)"

lemma loop_reach_ok: "loop_reach bd h \<Longrightarrow> loop_ok h"
proof (induction rule: loop_reach.induct)
  case (boot h)
  then show ?case by (simp add: loop_ok_def one_user_def one_owner_def usb_new_def shared_default_def)
next
  case (pass h ev h')
  then show ?case by (blast intro: loop_pass_ok)
next
  case (callback h s e c i rq data)
  with callbacks_keep_owner [OF callback.hyps(2)] show ?case
    by (simp add: loop_ok_def one_user_def server_active_def one_owner_def split: option.splits)
qed

text \<open>C7: While the card is exported over USB nothing in the firmware uses it: there is no FAT volume, no
  file browser and no running SSH server.  Without a volume there is no browser and no server either,
  and the card is exported exactly while the USB class has it.  This holds whatever keys, radio events
  and USB traffic meet in a pass, and whatever the libraries answer.\<close>

theorem exported_card_has_no_other_user:
  assumes "loop_reach bd h"
  shows "(hs_usb_sd h \<noteq> None \<longrightarrow> hs_storage h = None \<and> ml_browser h = None \<and> \<not> server_active h)
    \<and> (hs_storage h = None \<longrightarrow> ml_browser h = None \<and> \<not> server_active h)
    \<and> (hs_usb_sd h \<noteq> None \<longleftrightarrow> sh_attached (ud_shared (hs_disk h)))"
  using loop_reach_ok [OF assms] by (auto simp: loop_ok_def one_user_def one_owner_def split: option.splits)

subsection \<open>The USB screen without a card\<close>

text \<open>The radio changes the screen only for a password entry or a command.\<close>

definition calm :: "('v, 'd, 'w, 'z) radio_host_scheme \<Rightarrow> ('v, 'd, 'w, 'z) radio_host_scheme \<Rightarrow> bool" where
  "calm h h' \<longleftrightarrow> hs_view h' = hs_view h \<and> rh_action h' = rh_action h"

lemma calm_trans: "calm h h1 \<Longrightarrow> calm h1 h2 \<Longrightarrow> calm h h2"
  by (simp add: calm_def)

lemma calm_simps [simp]:
  "calm h h" "calm h (say_wifi t h') = calm h h'" "calm h (h'\<lparr>rh_wifi := w\<rparr>) = calm h h'"
  "calm h (h'\<lparr>rh_pending := s\<rparr>) = calm h h'" "calm h (h'\<lparr>rh_connecting := c\<rparr>) = calm h h'"
  "calm h (h'\<lparr>hs_auto_connect_at := a\<rparr>) = calm h h'" "calm h (h'\<lparr>rh_scan := ns\<rparr>) = calm h h'"
  "calm h (h'\<lparr>rh_scan_labels := ls\<rparr>) = calm h h'" "calm h (h'\<lparr>rh_job := j\<rparr>) = calm h h'"
  "calm h (h'\<lparr>rh_pass := p\<rparr>) = calm h h'" "calm h (h'\<lparr>rh_link_ssid := x\<rparr>) = calm h h'"
  "calm h (h'\<lparr>hs_auto_next := n\<rparr>) = calm h h'" "calm h (h'\<lparr>hs_config := cf\<rparr>) = calm h h'"
  "calm h (h'\<lparr>rh_saved_labels := ls\<rparr>) = calm h h'" "calm h (retry_host now h') = calm h h'"
  "calm h (snd (save_networks tp ops h')) = calm h h'"
  by (auto simp: calm_def say_wifi_def retry_host_def save_networks_def split: prod.split option.split sum.split)

lemma after_connected_calm: "hs_view h0 \<noteq> 5 \<Longrightarrow> calm h0 h \<Longrightarrow> calm h0 (after_connected tp ops n h)"
proof -
  assume h: "hs_view h0 \<noteq> 5" "calm h0 h"
  let ?cfg = "upsert n (hs_config h)"
  let ?g = "h\<lparr>rh_link_ssid := truncate_ascii (net_ssid n) top_bar_ssid_chars, hs_config := ?cfg,
      rh_saved_labels := saved_network_model ?cfg,
      hs_auto_next := (case position_of_ssid (net_ssid n) (cfg_networks ?cfg) of Some i \<Rightarrow> i
        | None \<Rightarrow> length (cfg_networks ?cfg) - 1), hs_auto_connect_at := None\<rparr>"
  have g: "calm h0 (snd (save_networks tp ops ?g))" using h(2) by simp
  then have "hs_view (snd (save_networks tp ops ?g)) \<noteq> 5" using h(1) by (simp add: calm_def)
  then show ?thesis
    using g unfolding after_connected_def Let_def case_prod_beta by (simp add: say_wifi_def calm_def)
qed

lemma radio_step_pass_calm: "hs_view h \<noteq> 5 \<Longrightarrow> calm h (radio_step_pass ro sorter tp ops h)"
  by (auto simp: radio_step_pass_def after_scan_def Let_def intro!: after_connected_calm
      split: option.split radio_step.split prod.split sum.split)

lemma poll_job_calm: "calm h (poll_job ro now completed h)"
  by (auto simp: poll_job_def Let_def split: option.split prod.split sum.split)

lemma start_job_calm: "calm h (start_job now up no_action h)"
  by (auto simp: start_job_def split: option.split)

lemma radio_pass_calm:
  assumes "hs_view h \<noteq> 5" "rh_action h = 0"
  shows "calm h (radio_pass ro sorter tp ops now completed up h)"
proof -
  let ?p = "poll_job ro now completed (radio_step_pass ro sorter tp ops h)"
  have p: "calm h ?p" by (rule calm_trans [OF radio_step_pass_calm poll_job_calm]) (fact assms(1))
  then have "rh_action ?p = 0" using assms(2) by (simp add: calm_def)
  then have "wifi_command ro tp ops ?p = ?p" by (simp add: wifi_command_def)
  then show ?thesis unfolding radio_pass_def Let_def using calm_trans [OF p start_job_calm] by simp
qed

text \<open>On the USB screen without an exported card, and nothing pending that could leave it; \<open>action\<close> is
  what the keys of a pass have asked for.\<close>

definition stranded :: "nat set \<Rightarrow> ('v, 'd, 'w, 'k, 'r, 'c, 'h) ratputer \<Rightarrow> bool" where
  "stranded actions h \<longleftrightarrow> hs_view h = 7 \<and> hs_usb_sd h = None \<and> ml_usb_action h \<in> actions \<and> ml_ssh_action h = 0
     \<and> rh_action h = 0"

lemma stranded_key: "stranded {0, 2} h \<Longrightarrow> stranded {0, 2} (key_pressed k h)"
  by (simp add: stranded_def key_pressed_def key_defs Let_def)

lemma stranded_answer [simp]: "stranded a (answer f h) = stranded a h"
  by (simp add: stranded_def answer_def)

lemma stranded_debug:
  assumes "stranded {0, 2} h" "debug_input ops ev h = Some h'"
  shows "stranded {0, 2} h'"
proof -
  have v: "hs_view h = 7" using assms(1) by (simp add: stranded_def)
  have k: "stranded {0, 2} (apply_debug_key k h)" for k
    using v assms(1) stranded_key [OF assms(1)] by (cases k) (simp_all add: apply_debug_key_def)
  show ?thesis
    using assms v k
    by (auto simp: debug_input_def debug_press_def debug_type_def append_debug_text_def debug_clear_def browser_screen_def
        split: option.splits debug_command.splits if_splits)
qed

lemma stranded_keys:
  "stranded {0, 2} h \<Longrightarrow> keyboard_keys ops ks h = Some h' \<Longrightarrow> stranded {0, 2} h'"
proof (induction ks arbitrary: h)
  case (Cons k ks)
  have v: "hs_view h = 7" using Cons.prems(1) by (simp add: stranded_def)
  have "stranded {0, 2} (screen_key k h)"
    using v Cons.prems(1) stranded_key [OF Cons.prems(1)]
    by (cases k) (auto simp: screen_key_def split: arrow.split)
  with Cons v show ?case
    by (auto simp: keyboard_key_def browser_screen_def bind_eq_Some_conv split: if_splits)
qed simp

text \<open>From the guards on, a pass leaves the screen where it is, whether or not the keys have just entered
  it, as long as there is no volume to export.\<close>

lemma usb_command_stranded:
  assumes "stranded {0, 2} h \<or> stranded {1} h \<and> hs_storage h = None"
  shows "stranded {0} (usb_command bd h)"
  using assms
  by (auto simp: stranded_def usb_command_def usb_enter_def usb_exit_def Let_def)

lemma usb_pass_stranded:
  assumes "stranded {0, 2} h \<or> stranded {1} h \<and> hs_storage h = None" "usb_pass bd ev h = Some h'"
  shows "stranded {0} h'"
proof -
  from assms(1) have "hs_usb_sd h = None" by (auto simp: stranded_def)
  with assms(2) have "h' = usb_show (ev_stats_due ev) (usb_labels h (usb_command bd h))"
    by (simp add: usb_pass_def usb_service_def)
  with usb_command_stranded [OF assms(1), of bd] \<open>hs_usb_sd h = None\<close> show ?thesis
    by (simp add: usb_labels_def usb_show_def stranded_def)
qed

lemma rest_of_pass_stranded:
  assumes "stranded {0, 2} h2 \<or> stranded {1} h2 \<and> hs_storage h2 = None"
    "browser_guard (bd_fat bd) (if hs_view h2 \<noteq> 8 then stop_ssh (bd_socket bd) h2 else h2) = Some h3"
    "with_browser (copy_poll (bd_fat bd)) h3 = Some h4"
    "usb_pass bd ev (radio_pass (bd_radio bd) (bd_sorter bd) (bd_toml_print bd) (bd_fat bd) now completed up h4) = Some h5"
    "ssh_command bd h5 = Some h6"
    "serve_ssh bd ev (tick_frame ev (network_pass ev (show_ssh ev h6))) = Some h'"
  shows "stranded {0} h'"
proof -
  let ?r = "radio_pass (bd_radio bd) (bd_sorter bd) (bd_toml_print bd) (bd_fat bd) now completed up h4"
  have v: "hs_view h2 = 7" using assms(1) by (auto simp: stranded_def)
  have h3: "h3 = (stop_ssh (bd_socket bd) h2)\<lparr>ml_browser := None\<rparr>"
    using assms(2) v by (simp add: browser_guard_def browser_screen_def)
  with with_browser_frame [OF assms(3)] have h4: "h4 = h3" by simp
  have s4: "stranded {0, 2} h4 \<or> stranded {1} h4 \<and> hs_storage h4 = None"
    using assms(1) by (auto simp: h4 h3 stranded_def)
  then have calm: "calm h4 ?r" by (intro radio_pass_calm) (auto simp: stranded_def)
  have card: "keeps_card h4 ?r" by (rule radio_pass_card)
  have "stranded {0, 2} ?r \<or> stranded {1} ?r \<and> hs_storage ?r = None"
    using s4 calm card keeps_card_ratputer [OF card] by (simp add: stranded_def calm_def keeps_card_def)
  from usb_pass_stranded [OF this assms(4)] have s5: "stranded {0} h5" .
  with assms(5) have "h6 = h5" by (simp add: ssh_command_def stranded_def)
  with s5 serve_ssh_frame [OF assms(6)] shown_only [of h6 ev] show ?thesis
    by (simp add: stranded_def only_shows_def)
qed

lemma loop_pass_after_keys:
  assumes "loop_pass bd ev h = Some h'"
  obtains h1 h2 where
    "debug_input (bd_fat bd) ev (h\<lparr>ml_splash_done := ml_splash_done h \<or> ev_splash_over ev\<rparr>) = Some h1"
    "keyboard_keys (bd_fat bd) (ev_keys ev) h1 = Some h2"
    "stranded {0, 2} h2 \<or> stranded {1} h2 \<and> hs_storage h2 = None \<longrightarrow> stranded {0} h'"
proof -
  from assms obtain h1 h2 h3 h4 h5 h6 where p:
    "debug_input (bd_fat bd) ev (h\<lparr>ml_splash_done := ml_splash_done h \<or> ev_splash_over ev\<rparr>) = Some h1"
    "keyboard_keys (bd_fat bd) (ev_keys ev) h1 = Some h2"
    "browser_guard (bd_fat bd) (if hs_view h2 \<noteq> 8 then stop_ssh (bd_socket bd) h2 else h2) = Some h3"
    "with_browser (copy_poll (bd_fat bd)) h3 = Some h4"
    "usb_pass bd ev (radio_pass (bd_radio bd) (bd_sorter bd) (bd_toml_print bd) (bd_fat bd) (ev_now_ms ev)
       (ev_auto_completed ev) (ml_network h4 \<and> ev_link_up ev) h4) = Some h5"
    "ssh_command bd h5 = Some h6"
    "serve_ssh bd ev (tick_frame ev (network_pass ev (show_ssh ev h6))) = Some h'"
    by (rule loop_pass_parts)
  show thesis by (rule that [OF p(1,2)]) (blast intro: rest_of_pass_stranded [OF _ p(3-7)])
qed

lemma loop_pass_stranded:
  assumes "stranded {0} h" "loop_pass bd ev h = Some h'"
  shows "stranded {0} h'"
proof -
  let ?h = "h\<lparr>ml_splash_done := ml_splash_done h \<or> ev_splash_over ev\<rparr>"
  have h: "stranded {0, 2} ?h" using assms(1) by (simp add: stranded_def)
  from assms(2) obtain h1 h2 where p: "debug_input (bd_fat bd) ev ?h = Some h1"
    "keyboard_keys (bd_fat bd) (ev_keys ev) h1 = Some h2"
    "stranded {0, 2} h2 \<or> stranded {1} h2 \<and> hs_storage h2 = None \<longrightarrow> stranded {0} h'"
    by (rule loop_pass_after_keys)
  from stranded_keys [OF stranded_debug [OF h p(1)] p(2)] p(3) show ?thesis by blast
qed

primrec loop_run ::
  "('v, 'd, 'w, 'k, 'r, 'c, 'h) board \<Rightarrow> events list \<Rightarrow> ('v, 'd, 'w, 'k, 'r, 'c, 'h) ratputer \<Rightarrow> ('v, 'd, 'w, 'k, 'r, 'c, 'h) ratputer option" where
  "loop_run bd [] h = Some h"
| "loop_run bd (ev # evs) h = Option.bind (loop_pass bd ev h) (loop_run bd evs)"

lemma loop_run_stranded: "stranded {0} h \<Longrightarrow> loop_run bd evs h = Some h' \<Longrightarrow> stranded {0} h'"
  by (induction evs arbitrary: h) (auto simp: bind_eq_Some_conv dest: loop_pass_stranded)

text \<open>C19: ENTER on USB DISK while there is no volume to export shows the USB screen, and from then on no
  key, debug command, radio event or passage of time leaves it: its EXIT is only an action for USB,
  which ignores it because the card was never exported.  Only a reset leads out.\<close>

theorem usb_screen_without_card_is_a_trap:
  assumes "hs_usb_sd h = None" "hs_storage h = None" "hs_view h = 0" "ml_menu_index h = 2" "\<not> input_blocked h"
    "ml_ssh_action h = 0" "rh_action h = 0" "ev_command ev = None" "ev_keys ev = [Key_Enter]"
    "loop_run bd (ev # evs) h = Some h'"
  shows "hs_view h' = 7 \<and> hs_usb_sd h' = None"
proof -
  from assms(10) obtain g where g: "loop_pass bd ev h = Some g" "loop_run bd evs g = Some h'"
    by (auto simp: bind_eq_Some_conv)
  let ?h = "h\<lparr>ml_splash_done := ml_splash_done h \<or> ev_splash_over ev\<rparr>"
  let ?g = "?h\<lparr>ml_usb_action := 1, hs_view := 7\<rparr>"
  have keys: "debug_input (bd_fat bd) ev ?h = Some ?h" "keyboard_keys (bd_fat bd) (ev_keys ev) ?h = Some ?g"
    using assms(1-9) by (simp_all add: debug_input_def keyboard_key_def browser_screen_def screen_key_def input_blocked_def
        key_pressed_def key_enter_def menu_enter_def)
  from g(1) obtain h1 h2 where p: "debug_input (bd_fat bd) ev ?h = Some h1"
    "keyboard_keys (bd_fat bd) (ev_keys ev) h1 = Some h2"
    "stranded {0, 2} h2 \<or> stranded {1} h2 \<and> hs_storage h2 = None \<longrightarrow> stranded {0} g"
    by (rule loop_pass_after_keys)
  have "h2 = ?g" using p(1,2) keys by simp
  moreover have "stranded {1} ?g" "hs_storage ?g = None" using assms by (simp_all add: stranded_def)
  ultimately have "stranded {0} g" using p(3) by blast
  from loop_run_stranded [OF this g(2)] show ?thesis by (simp add: stranded_def)
qed

subsection \<open>A device\<close>

definition sample_board ::
  "(nat \<Rightarrow> bytes, nat \<Rightarrow> bytes, unit, tcp_state, bytes, unit, unit) board" where
  "sample_board = \<lparr>bd_fat = one_volume, bd_mount = Some, bd_free = id, bd_device = ram_ops 8, bd_radio = silent_radio,
     bd_sorter = sort_example, bd_toml_print = \<lambda>c. None, bd_toml_parse = \<lambda>s. None, bd_crypto = sample_crypto,
     bd_socket = quiet_socket, bd_runner = quiet_runner\<rparr>"

definition sample_events :: "key_input list \<Rightarrow> events" where
  "sample_events keys = \<lparr>ev_splash_over = True, ev_command = None, ev_report = id, ev_keys = keys, ev_now = 0, ev_now_ms = 0,
     ev_auto_completed = False, ev_link_up = False, ev_online = False, ev_address = None, ev_turns = 0,
     ev_bus = \<lparr>tx = [], in_script = [], out_script = []\<rparr>, ev_stats_due = False,
     ev_sntp = \<lparr>se_lookup = \<lambda>_. None, se_bind = True, se_send = \<lambda>_ _. True, se_received = []\<rparr>,
     ev_sntp_done = False, ev_sntp_finished = 0, ev_frame_due = False, ev_key_seed = [],
     ev_first_poll = sample_context 0, ev_burst = []\<rparr>"

definition sample_rat ::
  "(nat \<Rightarrow> bytes) option \<Rightarrow> (nat \<Rightarrow> bytes, nat \<Rightarrow> bytes, unit, tcp_state, bytes, unit, unit) ratputer" where
  "sample_rat vol = radio_host.extend (sample_radio\<lparr>hs_storage := vol, hs_view := 0\<rparr>)
     \<lparr>ml_splash_done = True, ml_network = False, ml_menu_index = 2, ml_wifi_menu_index = 0, ml_usb_action = 0,
      ml_ssh_action = 0, ml_browser = None, ml_fm_ui = blank_ui, ml_server = None, ml_ssh_status = ''OFF'',
      ml_ssh_addr = [], ml_ssh_user = [], ml_ssh_password = [], ml_key_top = [], ml_key_bottom = [],
      ml_time = \<lparr>nt_job = None, nt_next = 0, nt_link_was_up = False, nt_clock = wall_clock_default\<rparr>,
      ml_link_state = 0, ml_console = console_new\<rparr>"

lemmas sample_defs = sample_board_def sample_events_def sample_rat_def sample_radio_def sample_host_def
  sd_host.extend_def radio_host.extend_def

lemmas pass_defs = loop_pass_def debug_input_def keyboard_key_def browser_screen_def screen_key_def input_blocked_def
  key_pressed_def key_enter_def key_back_def menu_enter_def stop_ssh_def browser_guard_def with_browser_def
  radio_pass_def radio_step_pass_def poll_job_def wifi_command_def start_job_def usb_pass_def usb_service_def
  usb_command_def usb_labels_def usb_show_def ssh_command_def show_ssh_def network_pass_def tick_frame_def
  serve_ssh_def link_state_def

text \<open>ENTER on a device with a card exports it.\<close>

theorem exported_card_has_no_other_user_witness:
  "\<exists>h. loop_pass sample_board (sample_events [Key_Enter]) (sample_rat (Some sample_disk)) = Some h
    \<and> hs_usb_sd h \<noteq> None \<and> hs_storage h = None"
proof -
  let ?p = "loop_pass sample_board (sample_events [Key_Enter]) (sample_rat (Some sample_disk))"
  have "\<exists>h. ?p = Some h \<and> hs_usb_sd h \<noteq> None"
    by (simp add: pass_defs sample_defs Let_def usb_enter_def usb_attach_def usb_initialize_def usb_new_def select_otg_phy_def
        server_holds_sd_def)
  then obtain h where h: "?p = Some h" "hs_usb_sd h \<noteq> None" by blast
  have "loop_reach sample_board (sample_rat (Some sample_disk))"
    by (rule loop_reach.boot) (simp_all add: sample_defs server_active_def)
  from exported_card_has_no_other_user [OF loop_reach.pass [OF this h(1)]] h show ?thesis by blast
qed

text \<open>On a device without a card, three ways to leave the screen.\<close>

theorem usb_screen_without_card_is_a_trap_witness:
  "\<exists>h. loop_run sample_board [sample_events [Key_Enter], sample_events [Key_Enter], sample_events [Key_Escape, Key_Backspace]]
      (sample_rat None) = Some h \<and> hs_view h = 7"
proof -
  let ?r = "loop_run sample_board [sample_events [Key_Enter], sample_events [Key_Enter], sample_events [Key_Escape, Key_Backspace]]
      (sample_rat None)"
  have "\<exists>h. ?r = Some h"
    by (simp add: pass_defs sample_defs Let_def usb_enter_def usb_exit_def server_holds_sd_def)
  then obtain h where h: "?r = Some h" by blast
  from usb_screen_without_card_is_a_trap [OF _ _ _ _ _ _ _ _ _ h] h show ?thesis
    by (simp add: sample_defs input_blocked_def)
qed

end
