(* ===== verification/Watchdog.thy ===== *)
theory Watchdog
  imports Rat_Prelude
begin

text \<open>
  The RTC watchdog of \<open>src/watchdog.rs\<close>: the reset history in retained memory, and the window that
  the main loop feeds and widens around slow operations.

  The hardware is the record \<open>rwdt\<close>: stage 0 resets the chip when it is enabled and the time since
  the last feed exceeds its timeout.  The reset causes and their numbers belong to \<open>esp-hal\<close>; the
  numbering is the parameter \<open>repr\<close> with its inverse \<open>from_repr\<close>.  The read-back registers are
  arguments.  Times are milliseconds since boot, windows are seconds.
\<close>

subsection \<open>Reset causes and their history\<close>

definition normal_window :: nat where "normal_window = 15"
definition slow_window_s :: nat where "slow_window_s = 25"
definition history_magic :: nat where "history_magic = 0x52415457"

datatype reset_reason = Chip_Power_On | Core_Sw | Cpu_Sw | Core_Rtc_Wdt | Cpu_Rtc_Wdt | Sys_Rtc_Wdt
  | Core_Mwdt0 | Core_Mwdt1 | Cpu_Mwdt0 | Cpu_Mwdt1 | Sys_Super_Wdt | Sys_Brown_Out | Core_Deep_Sleep
  | Sys_Clk_Glitch | Core_Efuse_Crc | Core_Usb_Uart | Core_Usb_Jtag | Core_Pwr_Glitch | Other_Reset nat

definition is_watchdog :: "reset_reason option \<Rightarrow> bool" where
  "is_watchdog c \<longleftrightarrow> c = Some Core_Rtc_Wdt \<or> c = Some Cpu_Rtc_Wdt \<or> c = Some Sys_Rtc_Wdt"

definition cause_name :: "reset_reason option \<Rightarrow> string" where
  "cause_name c = (case c of
     None \<Rightarrow> ''unknown''
   | Some Chip_Power_On \<Rightarrow> ''power_on''
   | Some Core_Sw \<Rightarrow> ''software'' | Some Cpu_Sw \<Rightarrow> ''software''
   | Some r \<Rightarrow>
      if is_watchdog c then ''watchdog''
      else (case r of
         Core_Mwdt0 \<Rightarrow> ''timer_watchdog'' | Core_Mwdt1 \<Rightarrow> ''timer_watchdog''
       | Cpu_Mwdt0 \<Rightarrow> ''timer_watchdog'' | Cpu_Mwdt1 \<Rightarrow> ''timer_watchdog''
       | Sys_Super_Wdt \<Rightarrow> ''super_watchdog'' | Sys_Brown_Out \<Rightarrow> ''brownout''
       | Core_Deep_Sleep \<Rightarrow> ''deep_sleep'' | Sys_Clk_Glitch \<Rightarrow> ''clk_glitch''
       | Core_Efuse_Crc \<Rightarrow> ''efuse_crc'' | Core_Usb_Uart \<Rightarrow> ''usb_uart''
       | Core_Usb_Jtag \<Rightarrow> ''usb_jtag'' | Core_Pwr_Glitch \<Rightarrow> ''pwr_glitch''
       | _ \<Rightarrow> ''other''))"

record retained =
  rt_magic :: nat
  rt_previous_cause :: nat
  rt_watchdog_resets :: nat
  rt_live_window_s :: nat
  rt_live_hold :: nat
  rt_live_cal :: nat

record window_snapshot =
  wn_window_s :: nat
  wn_hold :: nat
  wn_cal :: nat

definition check_magic :: "retained \<Rightarrow> retained" where
  "check_magic r =
    (if rt_magic r \<noteq> history_magic
     then \<lparr>rt_magic = history_magic, rt_previous_cause = 0, rt_watchdog_resets = 0, rt_live_window_s = 0,
           rt_live_hold = 0, rt_live_cal = 0\<rparr>
     else r)"

definition record_boot ::
  "(reset_reason \<Rightarrow> nat) \<Rightarrow> (nat \<Rightarrow> reset_reason option) \<Rightarrow> reset_reason option \<Rightarrow> retained \<Rightarrow>
   (reset_reason option \<times> nat) \<times> retained" where
  "record_boot repr from_repr cause r =
    (let r = check_magic r;
         previous = from_repr (rt_previous_cause r);
         r = r\<lparr>rt_previous_cause := (case cause of None \<Rightarrow> 0 | Some c \<Rightarrow> repr c)\<rparr>;
         r = (if is_watchdog cause
              then r\<lparr>rt_watchdog_resets := saturating_add 32 (rt_watchdog_resets r) 1\<rparr> else r)
     in ((previous, rt_watchdog_resets r), r))"

subsection \<open>The watchdog\<close>

record rwdt =
  hw_enabled :: bool
  hw_timeout_s :: nat
  hw_fed_at :: nat

record watchdog =
  wd_rwdt :: rwdt
  wd_window :: nat
  wd_armed :: bool
  wd_last_feed_ms :: nat
  wd_slowest_iteration_ms :: nat
  wd_boot_cause :: "reset_reason option"
  wd_previous_cause :: "reset_reason option"
  wd_watchdog_resets :: nat
  wd_previous_window :: window_snapshot
  wd_retained :: retained

definition watchdog_new ::
  "(reset_reason \<Rightarrow> nat) \<Rightarrow> (nat \<Rightarrow> reset_reason option) \<Rightarrow> reset_reason option \<Rightarrow> nat \<Rightarrow> rwdt \<Rightarrow>
   retained \<Rightarrow> watchdog" where
  "watchdog_new repr from_repr cause now hw r =
    (case record_boot repr from_repr cause r of
       ((previous, resets), r) \<Rightarrow>
         \<lparr>wd_rwdt = hw\<lparr>hw_enabled := False\<rparr>, wd_window = normal_window, wd_armed = False,
          wd_last_feed_ms = now, wd_slowest_iteration_ms = 0, wd_boot_cause = cause,
          wd_previous_cause = previous, wd_watchdog_resets = resets,
          wd_previous_window = \<lparr>wn_window_s = rt_live_window_s r, wn_hold = rt_live_hold r, wn_cal = rt_live_cal r\<rparr>,
          wd_retained = r\<rparr>)"

definition current_window :: "nat \<Rightarrow> nat \<Rightarrow> watchdog \<Rightarrow> window_snapshot" where
  "current_window hold cal w = \<lparr>wn_window_s = wd_window w, wn_hold = hold, wn_cal = cal\<rparr>"

definition boot_cause_name :: "watchdog \<Rightarrow> string" where
  "boot_cause_name w = cause_name (wd_boot_cause w)"

definition previous_cause_name :: "watchdog \<Rightarrow> string" where
  "previous_cause_name w = (case wd_previous_cause w of None \<Rightarrow> ''none'' | c \<Rightarrow> cause_name c)"

text \<open>Set the timeout, restart the counter, and keep what was programmed for the next boot.\<close>

definition program_window :: "nat \<Rightarrow> nat \<Rightarrow> nat \<Rightarrow> nat \<Rightarrow> watchdog \<Rightarrow> watchdog" where
  "program_window hold cal now window w =
    w\<lparr>wd_rwdt := (wd_rwdt w)\<lparr>hw_timeout_s := window, hw_fed_at := now\<rparr>, wd_window := window,
      wd_retained := (wd_retained w)\<lparr>rt_live_window_s := window, rt_live_hold := hold, rt_live_cal := cal\<rparr>\<rparr>"

definition arm :: "nat \<Rightarrow> nat \<Rightarrow> nat \<Rightarrow> watchdog \<Rightarrow> watchdog" where
  "arm hold cal now w =
    (program_window hold cal now normal_window (w\<lparr>wd_rwdt := (wd_rwdt w)\<lparr>hw_enabled := True\<rparr>\<rparr>))\<lparr>wd_armed := True\<rparr>"

definition disarm :: "watchdog \<Rightarrow> watchdog" where
  "disarm w = w\<lparr>wd_rwdt := (wd_rwdt w)\<lparr>hw_enabled := False\<rparr>, wd_armed := False\<rparr>"

definition feed_watchdog :: "nat \<Rightarrow> watchdog \<Rightarrow> watchdog" where
  "feed_watchdog now w =
    (let gap = now - wd_last_feed_ms w;
         w = (if wd_slowest_iteration_ms w < gap then w\<lparr>wd_slowest_iteration_ms := gap\<rparr> else w);
         w = w\<lparr>wd_last_feed_ms := now\<rparr>
     in if wd_armed w then w\<lparr>wd_rwdt := (wd_rwdt w)\<lparr>hw_fed_at := now\<rparr>\<rparr> else w)"

text \<open>The guard of a slow operation: the wide window while it lives, the normal one when it is
  dropped.\<close>

definition slow_window :: "nat \<Rightarrow> nat \<Rightarrow> nat \<Rightarrow> watchdog \<Rightarrow> watchdog" where
  "slow_window hold cal now w = (if wd_armed w then program_window hold cal now slow_window_s w else w)"

definition drop_slow_window :: "nat \<Rightarrow> nat \<Rightarrow> nat \<Rightarrow> watchdog \<Rightarrow> watchdog" where
  "drop_slow_window hold cal now w = (if wd_armed w then program_window hold cal now normal_window w else w)"

subsection \<open>The history survives resets\<close>

text \<open>The life of the chip since the battery was switched on: \<open>wd_life causes w\<close> says that the
  resets had the given causes, first to last, and that \<open>w\<close> is the watchdog now.  The retained memory
  is zero after power-on and survives every other reset; the rest of a watchdog is built anew.\<close>

definition blank_memory :: retained where
  "blank_memory = \<lparr>rt_magic = 0, rt_previous_cause = 0, rt_watchdog_resets = 0, rt_live_window_s = 0,
     rt_live_hold = 0, rt_live_cal = 0\<rparr>"

inductive wd_life ::
  "(reset_reason \<Rightarrow> nat) \<Rightarrow> (nat \<Rightarrow> reset_reason option) \<Rightarrow> reset_reason option list \<Rightarrow> watchdog \<Rightarrow> bool"
  for repr from_repr where
  power_on: "wd_life repr from_repr [c] (watchdog_new repr from_repr c now hw blank_memory)"
| reset: "wd_life repr from_repr cs w \<Longrightarrow>
    wd_life repr from_repr (cs @ [c]) (watchdog_new repr from_repr c now hw (wd_retained w))"
| armed: "wd_life repr from_repr cs w \<Longrightarrow> wd_life repr from_repr cs (arm hold cal now w)"
| disarmed: "wd_life repr from_repr cs w \<Longrightarrow> wd_life repr from_repr cs (disarm w)"
| fed: "wd_life repr from_repr cs w \<Longrightarrow> wd_life repr from_repr cs (feed_watchdog now w)"
| widened: "wd_life repr from_repr cs w \<Longrightarrow> wd_life repr from_repr cs (slow_window hold cal now w)"
| narrowed: "wd_life repr from_repr cs w \<Longrightarrow> wd_life repr from_repr cs (drop_slow_window hold cal now w)"

lemmas watchdog_steps = arm_def disarm_def feed_watchdog_def slow_window_def drop_slow_window_def
  program_window_def

lemma check_magic_kept: "rt_magic r = history_magic \<Longrightarrow> check_magic r = r"
  by (simp add: check_magic_def)

lemma check_magic_blank: "check_magic blank_memory = blank_memory\<lparr>rt_magic := history_magic\<rparr>"
  by (simp add: check_magic_def blank_memory_def history_magic_def)

text \<open>What the watchdog and its memory know of a history.\<close>

definition remembers :: "(reset_reason \<Rightarrow> nat) \<Rightarrow> reset_reason option list \<Rightarrow> watchdog \<Rightarrow> bool" where
  "remembers repr cs w \<longleftrightarrow>
     wd_boot_cause w = List.last cs
   \<and> wd_previous_cause w = (if length cs = 1 then None else List.last (butlast cs))
   \<and> wd_watchdog_resets w = min (length (filter is_watchdog cs)) (2 ^ 32 - 1)
   \<and> rt_magic (wd_retained w) = history_magic
   \<and> rt_previous_cause (wd_retained w) = (case List.last cs of None \<Rightarrow> 0 | Some c \<Rightarrow> repr c)
   \<and> rt_watchdog_resets (wd_retained w) = min (length (filter is_watchdog cs)) (2 ^ 32 - 1)"

lemma count_step:
  "saturating_add 32 (min n (2 ^ 32 - 1)) 1 = min (Suc n) (2 ^ 32 - 1)"
  by (simp add: saturating_add_def min_def)

lemma new_remembers_first:
  assumes "from_repr 0 = None"
  shows "remembers repr [c] (watchdog_new repr from_repr c now hw blank_memory)"
  using assms
  by (simp add: remembers_def watchdog_new_def record_boot_def check_magic_blank Let_def
      saturating_add_def) (simp add: blank_memory_def)

lemma new_remembers:
  assumes codes: "\<forall>c. from_repr (repr c) = Some c" "from_repr 0 = None"
    and cs: "cs \<noteq> []" and w: "remembers repr cs w"
  shows "remembers repr (cs @ [c]) (watchdog_new repr from_repr c now hw (wd_retained w))"
proof -
  have "from_repr (rt_previous_cause (wd_retained w)) = List.last cs"
    using w codes by (simp add: remembers_def split: option.splits)
  then show ?thesis
    using w cs
    by (simp add: remembers_def watchdog_new_def record_boot_def check_magic_kept Let_def
        count_step [simplified])
qed

lemma steps_remember:
  "remembers repr cs (arm hold cal now w) = remembers repr cs w"
  "remembers repr cs (disarm w) = remembers repr cs w"
  "remembers repr cs (feed_watchdog now w) = remembers repr cs w"
  "remembers repr cs (slow_window hold cal now w) = remembers repr cs w"
  "remembers repr cs (drop_slow_window hold cal now w) = remembers repr cs w"
  by (simp_all add: remembers_def watchdog_steps Let_def)

lemma wd_life_nonempty: "wd_life repr from_repr cs w \<Longrightarrow> cs \<noteq> []"
  by (induction rule: wd_life.induct) auto

lemma wd_life_remembers:
  assumes "\<forall>c. from_repr (repr c) = Some c" "from_repr 0 = None" "wd_life repr from_repr cs w"
  shows "remembers repr cs w"
  using assms(3)
proof (induction rule: wd_life.induct)
  case (reset cs w c now hw)
  then show ?case
    using new_remembers [OF assms(1,2)] wd_life_nonempty by blast
qed (simp_all add: new_remembers_first [of from_repr, OF assms(2)] steps_remember)


text \<open>A numbering of the causes for the witness.\<close>

fun sample_repr :: "reset_reason \<Rightarrow> nat" where
  "sample_repr Chip_Power_On = 1" | "sample_repr Core_Sw = 2" | "sample_repr Cpu_Sw = 3"
| "sample_repr Core_Rtc_Wdt = 4" | "sample_repr Cpu_Rtc_Wdt = 5" | "sample_repr Sys_Rtc_Wdt = 6"
| "sample_repr Core_Mwdt0 = 7" | "sample_repr Core_Mwdt1 = 8" | "sample_repr Cpu_Mwdt0 = 9"
| "sample_repr Cpu_Mwdt1 = 10" | "sample_repr Sys_Super_Wdt = 11" | "sample_repr Sys_Brown_Out = 12"
| "sample_repr Core_Deep_Sleep = 13" | "sample_repr Sys_Clk_Glitch = 14"
| "sample_repr Core_Efuse_Crc = 15" | "sample_repr Core_Usb_Uart = 16"
| "sample_repr Core_Usb_Jtag = 17" | "sample_repr Core_Pwr_Glitch = 18"
| "sample_repr (Other_Reset n) = n + 19"

definition sample_from_repr :: "nat \<Rightarrow> reset_reason option" where
  "sample_from_repr n =
    (if n = 0 then None
     else if n < 19 then
       Some ([Chip_Power_On, Core_Sw, Cpu_Sw, Core_Rtc_Wdt, Cpu_Rtc_Wdt, Sys_Rtc_Wdt, Core_Mwdt0,
         Core_Mwdt1, Cpu_Mwdt0, Cpu_Mwdt1, Sys_Super_Wdt, Sys_Brown_Out, Core_Deep_Sleep,
         Sys_Clk_Glitch, Core_Efuse_Crc, Core_Usb_Uart, Core_Usb_Jtag, Core_Pwr_Glitch] ! (n - 1))
     else Some (Other_Reset (n - 19)))"

lemma sample_repr_inverse: "sample_from_repr (sample_repr c) = Some c"
  by (cases c) (simp_all add: sample_from_repr_def nth_Cons')

lemma sample_none: "sample_from_repr 0 = None"
  by (simp add: sample_from_repr_def)

definition sample_boot :: "reset_reason option \<Rightarrow> retained \<Rightarrow> watchdog" where
  "sample_boot c r = watchdog_new sample_repr sample_from_repr c 0
     \<lparr>hw_enabled = False, hw_timeout_s = 0, hw_fed_at = 0\<rparr> r"

text \<open>Power-on, a hang that the watchdog ends, and the reset the terminal causes on reopening the port.\<close>

definition sample_hang :: watchdog where
  "sample_hang = sample_boot (Some Core_Usb_Uart) (wd_retained (sample_boot (Some Core_Rtc_Wdt)
     (wd_retained (arm 0 0 5 (sample_boot (Some Chip_Power_On) blank_memory)))))"

lemma sample_life:
  "wd_life sample_repr sample_from_repr [Some Chip_Power_On, Some Core_Rtc_Wdt, Some Core_Usb_Uart] sample_hang"
proof -
  let ?life = "wd_life sample_repr sample_from_repr"
  have first: "?life [Some Chip_Power_On] (arm 0 0 5 (sample_boot (Some Chip_Power_On) blank_memory))"
    unfolding sample_boot_def by (intro wd_life.intros)
  have second: "?life [Some Chip_Power_On, Some Core_Rtc_Wdt] (sample_boot (Some Core_Rtc_Wdt)
      (wd_retained (arm 0 0 5 (sample_boot (Some Chip_Power_On) blank_memory))))"
    using wd_life.reset [OF first] by (simp add: sample_boot_def)
  show ?thesis
    using wd_life.reset [OF second] by (simp add: sample_hang_def sample_boot_def)
qed


subsection \<open>When the chip is reset\<close>

text \<open>The hardware resets the chip at time \<open>now\<close> when the counter has run past its timeout.\<close>

definition bites :: "nat \<Rightarrow> watchdog \<Rightarrow> bool" where
  "bites now w \<longleftrightarrow> hw_enabled (wd_rwdt w) \<and> hw_fed_at (wd_rwdt w) + hw_timeout_s (wd_rwdt w) * 1000 < now"

definition window_known :: "watchdog \<Rightarrow> bool" where
  "window_known w \<longleftrightarrow> (hw_enabled (wd_rwdt w) \<longleftrightarrow> wd_armed w)
     \<and> (wd_armed w \<longrightarrow> hw_timeout_s (wd_rwdt w) = wd_window w
           \<and> rt_live_window_s (wd_retained w) = wd_window w
           \<and> (wd_window w = normal_window \<or> wd_window w = slow_window_s))"

lemma wd_life_window_known: "wd_life repr from_repr cs w \<Longrightarrow> window_known w"
  by (induction rule: wd_life.induct)
    (auto simp: window_known_def watchdog_new_def watchdog_steps Let_def split: prod.splits)

text \<open>The chip is reset only for a hang: after a pass of the loop an armed watchdog leaves the
  next pass at least fifteen seconds, inside the guard of a slow operation it leaves twenty-five
  seconds from its start, and after the guard is dropped fifteen seconds from there, never the rest of
  the time the operation used.  A pass that never comes is always ended by a reset.\<close>

theorem watchdog_bites_only_a_hang:
  assumes "wd_life repr from_repr cs w" "wd_armed w"
  shows "(bites later (feed_watchdog now w) \<longleftrightarrow> now + wd_window w * 1000 < later)
    \<and> normal_window \<le> wd_window w \<and> wd_window w \<le> slow_window_s
    \<and> (bites later (slow_window hold cal now w) \<longleftrightarrow> now + slow_window_s * 1000 < later)
    \<and> (bites later (drop_slow_window hold cal now w) \<longleftrightarrow> now + normal_window * 1000 < later)"
  using wd_life_window_known [OF assms(1)] assms(2)
  by (auto simp: bites_def window_known_def watchdog_steps Let_def normal_window_def slow_window_s_def)

theorem watchdog_bites_only_a_hang_witness:
  "bites 15010 (feed_watchdog 9 (arm 0 0 5 sample_hang)) \<and> \<not> bites 15009 (feed_watchdog 9 (arm 0 0 5 sample_hang))"
proof -
  have armed: "wd_armed (arm 0 0 5 sample_hang)" "wd_window (arm 0 0 5 sample_hang) = normal_window"
    by (simp_all add: watchdog_steps)
  show ?thesis
    using watchdog_bites_only_a_hang [OF wd_life.armed [OF sample_life] armed(1)] armed(2)
    by (simp add: normal_window_def)
qed

end
