(* ===== verification/Battery.thy ===== *)
theory Battery
  imports Rat_Prelude
begin

text \<open>
  The battery gauge of \<open>src/battery.rs\<close>: eight calibrated readings, a divider, smoothing, and
  the discharge curve.  The converter is a library peripheral: a function from its state to the
  outcome of one poll.  Voltages are millivolts; the readings are 16-bit.
\<close>

subsection \<open>Definitions\<close>

definition samples :: nat where "samples = 8"
definition max_polls_per_sample :: nat where "max_polls_per_sample = 100000"
definition divider_ratio :: nat where "divider_ratio = 2"

definition discharge_curve :: "(nat \<times> nat) list" where
  "discharge_curve = [(4150, 100), (4060, 90), (3980, 80), (3920, 70), (3870, 60), (3820, 50),
     (3790, 40), (3770, 30), (3740, 20), (3680, 10), (3400, 0)]"

text \<open>The loop over the windows of two points; 0 below the last one.\<close>

fun curve_percent :: "(nat \<times> nat) list \<Rightarrow> nat \<Rightarrow> nat" where
  "curve_percent ((high_mv, high_pct) # (low_mv, low_pct) # rest) mv =
    (if low_mv \<le> mv
     then low_pct + (mv - low_mv) * (high_pct - low_pct) div (high_mv - low_mv)
     else curve_percent ((low_mv, low_pct) # rest) mv)"
| "curve_percent _ mv = 0"

definition percent_from_mv :: "nat \<Rightarrow> nat" where
  "percent_from_mv mv =
    (if fst (hd discharge_curve) \<le> mv then 100 else curve_percent discharge_curve mv)"

datatype adc_outcome = Adc_Ok nat | Adc_Would_Block | Adc_Error

primrec read_pin_loop :: "('a \<Rightarrow> adc_outcome \<times> 'a) \<Rightarrow> nat \<Rightarrow> 'a \<Rightarrow> nat option \<times> 'a" where
  "read_pin_loop adc 0 a = (None, a)"
| "read_pin_loop adc (Suc polls) a =
    (case adc a of
       (Adc_Ok mv, a) \<Rightarrow> (Some mv, a)
     | (Adc_Would_Block, a) \<Rightarrow> read_pin_loop adc polls a
     | (Adc_Error, a) \<Rightarrow> (None, a))"

definition read_pin_mv :: "('a \<Rightarrow> adc_outcome \<times> 'a) \<Rightarrow> 'a \<Rightarrow> nat option \<times> 'a" where
  "read_pin_mv adc a = read_pin_loop adc max_polls_per_sample a"

primrec sum_samples :: "('a \<Rightarrow> adc_outcome \<times> 'a) \<Rightarrow> nat \<Rightarrow> nat \<Rightarrow> 'a \<Rightarrow> nat option \<times> 'a" where
  "sum_samples adc 0 acc a = (Some acc, a)"
| "sum_samples adc (Suc n) acc a =
    (case read_pin_mv adc a of
       (None, a) \<Rightarrow> (None, a)
     | (Some mv, a) \<Rightarrow> sum_samples adc n (acc + mv) a)"

record battery =
  filtered_mv :: "nat option"

definition battery_new :: battery where
  "battery_new = \<lparr>filtered_mv = None\<rparr>"

definition smooth :: "nat option \<Rightarrow> nat \<Rightarrow> nat" where
  "smooth previous mv = (case previous of Some p \<Rightarrow> (p * 3 + mv) div 4 | None \<Rightarrow> mv)"

definition sample_percent ::
  "('a \<Rightarrow> adc_outcome \<times> 'a) \<Rightarrow> battery \<Rightarrow> 'a \<Rightarrow> nat option \<times> battery \<times> 'a" where
  "sample_percent adc b a =
    (case sum_samples adc samples 0 a of
       (None, a) \<Rightarrow> (None, b, a)
     | (Some mvs, a) \<Rightarrow>
        let battery_mv = mvs div samples * divider_ratio;
            filtered = smooth (filtered_mv b) battery_mv
        in (Some (percent_from_mv filtered), b\<lparr>filtered_mv := Some filtered\<rparr>, a))"

subsection \<open>The curve\<close>

text \<open>Points that descend in both coordinates.\<close>

fun descending :: "(nat \<times> nat) list \<Rightarrow> bool" where
  "descending ((high_mv, high_pct) # (low_mv, low_pct) # rest) \<longleftrightarrow>
    low_mv < high_mv \<and> low_pct \<le> high_pct \<and> descending ((low_mv, low_pct) # rest)"
| "descending _ = True"

lemma curve_percent_le:
  "descending curve \<Longrightarrow> curve = (h, p) # rest \<Longrightarrow> mv < h \<Longrightarrow> curve_percent curve mv \<le> p"
proof (induction curve mv arbitrary: h p rest rule: curve_percent.induct)
  case (1 high_mv high_pct low_mv low_pct pts mv)
  show ?case
  proof (cases "low_mv \<le> mv")
    case True
    have "(mv - low_mv) * (high_pct - low_pct) \<le> (high_mv - low_mv) * (high_pct - low_pct)"
      using "1.prems" by (intro mult_le_mono1) auto
    then have "(mv - low_mv) * (high_pct - low_pct) div (high_mv - low_mv)
        \<le> (high_mv - low_mv) * (high_pct - low_pct) div (high_mv - low_mv)" by (rule div_le_mono)
    with "1.prems" True show ?thesis by auto
  next
    case False
    with "1.prems" "1.IH" [OF False, of low_mv low_pct pts] show ?thesis by auto
  qed
qed simp_all

lemma curve_percent_mono:
  "descending curve \<Longrightarrow> curve = (h, p) # rest \<Longrightarrow> x \<le> y \<Longrightarrow> y < h \<Longrightarrow>
    curve_percent curve x \<le> curve_percent curve y"
proof (induction curve y arbitrary: h p rest rule: curve_percent.induct)
  case (1 high_mv high_pct low_mv low_pct pts y)
  consider "low_mv \<le> x" | "x < low_mv" "low_mv \<le> y" | "y < low_mv" using "1.prems"(3) by linarith
  then show ?case
  proof cases
    case 1
    have "(x - low_mv) * (high_pct - low_pct) \<le> (y - low_mv) * (high_pct - low_pct)"
      using "1.prems"(3) by (intro mult_le_mono1) auto
    then show ?thesis using 1 "1.prems"(3) by (auto intro: div_le_mono)
  next
    case 2
    with "1.prems" have "curve_percent ((low_mv, low_pct) # pts) x \<le> low_pct"
      by (intro curve_percent_le) auto
    with 2 show ?thesis by simp
  next
    case 3
    with "1.prems" "1.IH" [of low_mv low_pct pts] show ?thesis by auto
  qed
qed simp_all

lemma curve_descending: "descending discharge_curve"
  by (simp add: discharge_curve_def)

lemma curve_head: "discharge_curve = (4150, 100) # tl discharge_curve"
  by (simp add: discharge_curve_def)

lemma percent_from_mv_mono: "x \<le> y \<Longrightarrow> percent_from_mv x \<le> percent_from_mv y"
  using curve_percent_le [OF curve_descending curve_head] curve_percent_mono [OF curve_descending curve_head]
  by (auto simp: percent_from_mv_def curve_head [THEN arg_cong [where f = hd]])

lemma percent_from_mv_le: "percent_from_mv mv \<le> 100"
  using percent_from_mv_mono [of mv "mv + 4150"]
  by (simp add: percent_from_mv_def discharge_curve_def)

text \<open>The readings are 16-bit, so every sum of the code stays below \<open>2 ^ 32\<close>.\<close>

definition adc_16_bit :: "('a \<Rightarrow> adc_outcome \<times> 'a) \<Rightarrow> bool" where
  "adc_16_bit adc \<longleftrightarrow> (\<forall>a mv a'. adc a = (Adc_Ok mv, a') \<longrightarrow> mv \<le> u16_max)"

lemma read_pin_bound: "adc_16_bit adc \<Longrightarrow> read_pin_mv adc a = (Some mv, a') \<Longrightarrow> mv \<le> u16_max"
proof -
  assume b: "adc_16_bit adc"
  have "read_pin_loop adc n a = (Some mv, a') \<Longrightarrow> mv \<le> u16_max" for n
    using b by (induction n arbitrary: a) (auto simp: adc_16_bit_def split: prod.splits adc_outcome.splits)
  then show "read_pin_mv adc a = (Some mv, a') \<Longrightarrow> mv \<le> u16_max" by (simp add: read_pin_mv_def)
qed

lemma sum_samples_bound:
  "adc_16_bit adc \<Longrightarrow> sum_samples adc n acc a = (Some mvs, a') \<Longrightarrow> mvs \<le> acc + n * u16_max"
proof (induction n arbitrary: acc a)
  case (Suc n)
  then obtain mv a1 where r: "read_pin_mv adc a = (Some mv, a1)" "sum_samples adc n (acc + mv) a1 = (Some mvs, a')"
    by (auto split: prod.splits option.splits)
  from Suc.IH [OF Suc.prems(1) r(2)] read_pin_bound [OF Suc.prems(1) r(1)] show ?case by simp
qed simp

definition battery_ok :: "battery \<Rightarrow> bool" where
  "battery_ok b \<longleftrightarrow> (\<forall>mv. filtered_mv b = Some mv \<longrightarrow> mv \<le> divider_ratio * u16_max)"



end
