(* ===== verification/Firmware.thy ===== *)
theory Firmware
  imports Main_Loop Watchdog Battery
begin

text \<open>
  The boot and the frame of the main loop of \<open>src/main.rs\<close> around the pass of \<open>Main_Loop\<close>: feeding the watchdog, the
  debug console with the replies to STATUS and WDT, the slow window around a radio step, the clock and
  the battery of the top bar, and the end of the pass with its delayed reboot and the two self-tests of
  the watchdog.  A pass ends with the next state, or with the chip reset or stopped (\<open>pass_end\<close>).

  Time passes in milliseconds; \<open>fw_env\<close> has the clock readings of a pass, what the serial port does, the
  heap and register readings, and the \<open>Debug\<close> text of strings and addresses, which \<open>core\<close> formats.  The
  watchdog bites when its counter has run out at the next moment that the code would touch it.
\<close>

subsection \<open>State\<close>

definition battery_every_ms :: nat where "battery_every_ms = 5000"
definition wdt_stall_secs :: nat where "wdt_stall_secs = 20"

record ('v, 'd, 'w, 'k, 'r, 'c, 'h) firmware =
  fw_rat :: "('v, 'd, 'w, 'k, 'r, 'c, 'h) ratputer"
  fw_watchdog :: watchdog
  fw_heap_min :: nat
  fw_reboot_at :: "nat option"
  fw_freeze_at :: "nat option"
  fw_stall_at :: "nat option"
  fw_shown_clock :: "(nat \<times> nat) option option"
  fw_clock_text :: string
  fw_clock_synced :: bool
  fw_battery :: battery
  fw_battery_at :: "nat option"
  fw_battery_percent :: int

record fw_env =
  fe_events :: events
  fe_received :: bytes
  fe_poll_room :: nat
  fe_poll_flushed :: bool
  fe_tail_room :: nat
  fe_tail_flushed :: bool
  fe_command_ms :: nat
  fe_radio_start_ms :: nat
  fe_radio_end_ms :: nat
  fe_tail_ms :: nat
  fe_stall_end_ms :: nat
  fe_heap_free :: nat
  fe_heap_free_end :: nat
  fe_hold :: nat
  fe_cal :: nat
  fe_quoted :: "string \<Rightarrow> string list"
  fe_ipv4 :: "string list"
  fe_adc :: "nat \<Rightarrow> adc_outcome \<times> nat"

abbreviation fe_now_ms :: "fw_env \<Rightarrow> nat" where
  "fe_now_ms env \<equiv> ev_now_ms (fe_events env)"

datatype ('v, 'd, 'w, 'k, 'r, 'c, 'h) pass_end =
  Panicked | Rebooting | Watchdog_Reset
  | Frozen "('v, 'd, 'w, 'k, 'r, 'c, 'h) firmware"
  | Pass_Done "('v, 'd, 'w, 'k, 'r, 'c, 'h) firmware"

subsection \<open>Replies to STATUS and WDT\<close>

definition bool_text :: "bool \<Rightarrow> string" where
  "bool_text b = (if b then ''true'' else ''false'')"

definition auth_name :: "auth_kind \<Rightarrow> string" where
  "auth_name a = (case a of Auth_Open \<Rightarrow> ''Open'' | Auth_Wep \<Rightarrow> ''Wep'' | Auth_Wpa \<Rightarrow> ''Wpa'' | Auth_Wpa2 \<Rightarrow> ''Wpa2''
     | Auth_Wpa_Wpa2 \<Rightarrow> ''WpaWpa2'')"

definition usb_state_name :: "usb_disk_state \<Rightarrow> string" where
  "usb_state_name s = (case s of Usb_Inactive \<Rightarrow> ''Inactive'' | Usb_Waiting \<Rightarrow> ''Waiting'' | Usb_Mounted \<Rightarrow> ''Mounted''
     | Usb_Ejected \<Rightarrow> ''Ejected'')"

definition option_pieces :: "('a \<Rightarrow> string list) \<Rightarrow> 'a option \<Rightarrow> string list" where
  "option_pieces f x = (case x of None \<Rightarrow> [''None''] | Some v \<Rightarrow> [''Some'', ''(''] @ f v @ ['')''])"

text \<open>The part that STATUS and WDT share.\<close>

definition watchdog_pieces :: "watchdog \<Rightarrow> string list" where
  "watchdog_pieces w =
    [''window_s='', dec (wd_window w), '' loop_max_ms='', dec (wd_slowest_iteration_ms w),
     '' last_reset='', boot_cause_name w, '' previous_reset='', previous_cause_name w,
     '' wdt_resets='', dec (wd_watchdog_resets w)]"

definition window_pieces :: "window_snapshot \<Rightarrow> string list" where
  "window_pieces s = [''window_s='', dec (wn_window_s s), '' hold='', dec (wn_hold s), '' cal='', dec (wn_cal s)]"

definition wdt_status :: "fw_env \<Rightarrow> watchdog \<Rightarrow> console \<Rightarrow> console" where
  "wdt_status env w c =
    (let c = say_ok [''wdt='', if wd_armed w then ''armed'' else ''disarmed''] c;
         c = say_data (watchdog_pieces w) c
     in say_data ([''now ''] @ window_pieces (current_window (fe_hold env) (fe_cal env) w)
          @ ['' | before_reset ''] @ window_pieces (wd_previous_window w)) c)"

definition radio_name :: "('v, 'd, 'w, 'k, 'r, 'c, 'h) ratputer \<Rightarrow> string" where
  "radio_name h = (case rh_pending h of
     Some (Scan_Step _) \<Rightarrow> ''scan''
   | Some (Connect_Step _ _) \<Rightarrow> ''connect''
   | None \<Rightarrow> if rh_job h \<noteq> None then ''auto_connect'' else ''idle'')"

definition say_networks :: "fw_env \<Rightarrow> ('v, 'd, 'w, 'k, 'r, 'c, 'h) ratputer \<Rightarrow> console \<Rightarrow> console" where
  "say_networks env h c =
    (let saved = cfg_networks (hs_config h); scan = rh_scan h;
         c = say_data [''lists saved='', dec (length saved), '' scan='', dec (length scan)] c;
         c = fold (\<lambda>(i, n). say_data ([''saved index='', dec i, '' ssid=''] @ fe_quoted env (net_ssid n)
               @ ['' auth='', auth_name (net_auth n)])) (enumerate 0 saved) c
     in fold (\<lambda>(i, n). say_data ([''scan index='', dec i, '' ssid=''] @ fe_quoted env (sn_ssid n)
               @ ['' rssi='', int_text (sn_signal n), '' auth='', auth_name (sn_auth n),
                  '' supported='', bool_text (sn_supported n)])) (enumerate 0 scan) c)"

text \<open>The line of the file screens; \<open>None\<close> is the panic of the label.\<close>

definition say_browser :: "fw_env \<Rightarrow> ('v, 'd, 'w, 'k, 'r, 'c, 'h) ratputer \<Rightarrow> console \<Rightarrow> console option" where
  "say_browser env h c =
    (if \<not> browser_screen (hs_view h) then Some c
     else
       let ui = ml_fm_ui h;
           selected = (case ml_browser h of None \<Rightarrow> Some None | Some fm \<Rightarrow> selected_label fm)
       in map_option (\<lambda>label. say_data ([''sd path=''] @ fe_quoted env (ui_path ui) @ ['' page='', dec (ui_page ui),
              '' index='', dec (case ml_browser h of None \<Rightarrow> 0 | Some fm \<Rightarrow> selected_index fm), '' selected='']
              @ option_pieces (fe_quoted env) label @ ['' copy='', bool_text (copying_now h), '' status='']
              @ fe_quoted env (ui_status ui)) c) selected)"

definition status_report ::
  "('v, 'd, 'w, 'k, 'r, 'c, 'h) board \<Rightarrow> fw_env \<Rightarrow> ('v, 'd, 'w, 'k, 'r, 'c, 'h) firmware \<Rightarrow> console \<Rightarrow> console option" where
  "status_report bd env fw c =
    (let h = fw_rat fw; w = fw_watchdog fw; view = hs_view h;
         c = say_ok [''status''] c;
         c = say_data [''system uptime_ms='', dec (fe_now_ms env), '' heap_free='', dec (fe_heap_free env),
               '' heap_free_min='', dec (fw_heap_min fw)] c;
         c = say_data ([''watchdog armed='', bool_text (wd_armed w), '' ''] @ watchdog_pieces w) c;
         c = say_data [''ui view='', dec view, '' name='', view_name view, '' menu='', dec (ml_menu_index h),
               '' wifi_menu='', dec (ml_wifi_menu_index h), '' saved='', dec (hs_saved_index h),
               '' scan='', dec (rh_scan_index h)] c;
         c = say_data ([''wifi link='', dec (ml_link_state h), '' radio='', radio_name h, '' status='']
               @ fe_quoted env (hs_wifi_status h)) c;
         c = (if ml_network h
              then say_data ([''network link_up='', bool_text (ev_link_up (fe_events env)), '' online='',
                     bool_text (ev_online (fe_events env)), '' ipv4=''] @ fe_ipv4 env) c
              else say_data [''network unavailable''] c);
         c = say_data [''storage mounted='', bool_text (hs_storage h \<noteq> None), '' usb_exported='',
               bool_text (hs_usb_sd h \<noteq> None)] c;
         c = say_data ([''usb state='', usb_state_name (usb_state (hs_disk h)), '' status='']
               @ fe_quoted env (hs_usb_status h)) c;
         c = (case ml_server h of
                None \<Rightarrow> c
              | Some sv \<Rightarrow> say_data ([''ssh state=''] @ fe_quoted env (ssh_state (bd_socket bd) sv)
                  @ ['' host_key='', fingerprint_text sv, '' sessions='', dec (sv_sessions_total sv)]) c);
         c = say_data ([''top clock=''] @ fe_quoted env (fw_clock_text fw) @ ['' synced='', bool_text (fw_clock_synced fw),
               '' battery='', int_text (fw_battery_percent fw), '' ssid=''] @ fe_quoted env (rh_link_ssid h)) c
     in map_option (say_networks env h) (say_browser env h c))"

subsection \<open>Commands with delayed effects\<close>

definition wdt_command ::
  "fw_env \<Rightarrow> debug_wdt \<Rightarrow> ('v, 'd, 'w, 'k, 'r, 'c, 'h) firmware \<Rightarrow>
   (console \<Rightarrow> console) \<times> ('v, 'd, 'w, 'k, 'r, 'c, 'h) firmware" where
  "wdt_command env action fw =
    (let w = fw_watchdog fw; exported = hs_usb_sd (fw_rat fw) \<noteq> None; due = Some (fe_command_ms env + 300) in
     case action of
       Wdt_Status \<Rightarrow> (wdt_status env w, fw)
     | Wdt_On \<Rightarrow>
        let w = (if \<not> wd_armed w then arm (fe_hold env) (fe_cal env) (fe_command_ms env) w else w)
        in (say_ok [''wdt=armed reset_after_s='', dec (wd_window w)], fw\<lparr>fw_watchdog := w\<rparr>)
     | Wdt_Off \<Rightarrow> (say_ok [''wdt=disarmed''], fw\<lparr>fw_watchdog := disarm w\<rparr>)
     | Wdt_Stall \<Rightarrow>
        if exported then (say_error [''busy_usb_disk''], fw)
        else (say_ok [''wdt=stalling seconds='', dec wdt_stall_secs], fw\<lparr>fw_stall_at := due\<rparr>)
     | Wdt_Freeze \<Rightarrow>
        if exported then (say_error [''busy_usb_disk''], fw)
        else (say_ok [''wdt=self_test_resetting''], fw\<lparr>fw_freeze_at := due\<rparr>))"

text \<open>What a command does to the frame, and the reply to STATUS or WDT; \<open>None\<close> is a panic.\<close>

definition frame_command ::
  "('v, 'd, 'w, 'k, 'r, 'c, 'h) board \<Rightarrow> fw_env \<Rightarrow> debug_command option \<Rightarrow> ('v, 'd, 'w, 'k, 'r, 'c, 'h) firmware \<Rightarrow>
   ((console \<Rightarrow> console) \<times> ('v, 'd, 'w, 'k, 'r, 'c, 'h) firmware) option" where
  "frame_command bd env command fw = (case command of
     Some Cmd_Status \<Rightarrow>
       map_option (\<lambda>c. (\<lambda>_. c, fw)) (status_report bd env fw (ml_console (fw_rat fw)))
   | Some (Cmd_Wdt action) \<Rightarrow> Some (wdt_command env action fw)
   | Some Cmd_Reboot \<Rightarrow> Some (id, fw\<lparr>fw_reboot_at := Some (fe_command_ms env + 500)\<rparr>)
   | _ \<Rightarrow> Some (id, fw))"

subsection \<open>The parts of a pass\<close>

text \<open>The guard of the slow window around a radio step; \<open>None\<close> is the reset by the watchdog.\<close>

definition radio_window ::
  "fw_env \<Rightarrow> bool \<Rightarrow> watchdog \<Rightarrow> watchdog option" where
  "radio_window env stepping w =
    (if \<not> stepping then Some w
     else if bites (fe_radio_start_ms env) w then None
     else
       let w = slow_window (fe_hold env) (fe_cal env) (fe_radio_start_ms env) w in
       if bites (fe_radio_end_ms env) w then None
       else Some (drop_slow_window (fe_hold env) (fe_cal env) (fe_radio_end_ms env) w))"

definition top_bar ::
  "fw_env \<Rightarrow> ('v, 'd, 'w, 'k, 'r, 'c, 'h) firmware \<Rightarrow> ('v, 'd, 'w, 'k, 'r, 'c, 'h) firmware" where
  "top_bar env fw =
    (let h = fw_rat fw; cfg = cfg_clock (hs_config h); now = ev_now (fe_events env);
         wc = nt_clock (ml_time h);
         shown = map_option (\<lambda>u. local_hh_mm u cfg) (unix_now now wc);
         fw = (if fw_shown_clock fw \<noteq> Some shown
               then fw\<lparr>fw_clock_text := clock_text cfg now wc, fw_clock_synced := is_synced wc,
                      fw_shown_clock := Some shown\<rparr>
               else fw)
     in if (case fw_battery_at fw of None \<Rightarrow> True | Some at \<Rightarrow> battery_every_ms \<le> fe_now_ms env - at) then
          (case sample_percent (fe_adc env) (fw_battery fw) 0 of
             (percent, b, _) \<Rightarrow>
               (case percent of None \<Rightarrow> fw | Some p \<Rightarrow> fw\<lparr>fw_battery_percent := int p\<rparr>)
                 \<lparr>fw_battery := b, fw_battery_at := Some (fe_now_ms env)\<rparr>)
        else fw)"

definition is_due :: "console \<Rightarrow> nat \<Rightarrow> nat option \<Rightarrow> bool" where
  "is_due c now at \<longleftrightarrow> (case at of None \<Rightarrow> False | Some deadline \<Rightarrow> output_idle c \<or> deadline \<le> now)"

text \<open>The self-test that stalls the loop in the slow window; \<open>None\<close> is the reset by the watchdog.\<close>

definition stall_test ::
  "fw_env \<Rightarrow> ('v, 'd, 'w, 'k, 'r, 'c, 'h) firmware \<Rightarrow> ('v, 'd, 'w, 'k, 'r, 'c, 'h) firmware option" where
  "stall_test env fw =
    (if \<not> is_due (ml_console (fw_rat fw)) (fe_tail_ms env) (fw_stall_at fw) then Some fw
     else if bites (fe_tail_ms env) (fw_watchdog fw) then None
     else
       let w = slow_window (fe_hold env) (fe_cal env) (fe_tail_ms env) (fw_watchdog fw) in
       if bites (fe_stall_end_ms env) w then None
       else Some (fw\<lparr>fw_stall_at := None,
              fw_watchdog := drop_slow_window (fe_hold env) (fe_cal env) (fe_stall_end_ms env) w\<rparr>))"

text \<open>The end of the pass: the console, the reboot, the two self-tests.\<close>

definition pass_tail ::
  "fw_env \<Rightarrow> ('v, 'd, 'w, 'k, 'r, 'c, 'h) firmware \<Rightarrow> ('v, 'd, 'w, 'k, 'r, 'c, 'h) pass_end" where
  "pass_tail env fw =
    (let c = snd (service (fe_tail_room env) (fe_tail_flushed env) (ml_console (fw_rat fw)));
         fw = fw\<lparr>fw_heap_min := min (fw_heap_min fw) (fe_heap_free_end env),
                 fw_rat := (fw_rat fw)\<lparr>ml_console := c\<rparr>\<rparr>
     in if is_due c (fe_tail_ms env) (fw_reboot_at fw) then Rebooting
        else case stall_test env fw of
          None \<Rightarrow> Watchdog_Reset
        | Some fw' \<Rightarrow>
            if is_due c (max (fe_tail_ms env) (if fw_stall_at fw' = fw_stall_at fw then 0 else fe_stall_end_ms env))
                 (fw_freeze_at fw')
            then Frozen fw' else Pass_Done fw')"

definition firmware_pass ::
  "('v, 'd, 'w, 'k, 'r, 'c, 'h) board \<Rightarrow> fw_env \<Rightarrow> ('v, 'd, 'w, 'k, 'r, 'c, 'h) firmware \<Rightarrow>
   ('v, 'd, 'w, 'k, 'r, 'c, 'h) pass_end" where
  "firmware_pass bd env fw =
    (if bites (fe_now_ms env) (fw_watchdog fw) then Watchdog_Reset
     else
       case console_poll (fe_poll_room env) (fe_poll_flushed env) (fe_received env) (ml_console (fw_rat fw)) of
         (command, _, _, c) \<Rightarrow>
       (let fw = fw\<lparr>fw_watchdog := feed_watchdog (fe_now_ms env) (fw_watchdog fw),
                   fw_heap_min := min (fw_heap_min fw) (fe_heap_free env),
                   fw_rat := (fw_rat fw)\<lparr>ml_console := c\<rparr>\<rparr>
        in case frame_command bd env command fw of
          None \<Rightarrow> Panicked
        | Some (report, fw) \<Rightarrow>
          (case loop_pass bd ((fe_events env)\<lparr>ev_command := command, ev_report := report\<rparr>) (fw_rat fw) of
             None \<Rightarrow> Panicked
           | Some h \<Rightarrow>
             (case radio_window env (rh_pending (fw_rat fw) \<noteq> None) (fw_watchdog fw) of
                None \<Rightarrow> Watchdog_Reset
              | Some w \<Rightarrow> pass_tail env (top_bar env (fw\<lparr>fw_rat := h, fw_watchdog := w\<rparr>))))))"

subsection \<open>The watchdog and the self-tests\<close>

text \<open>The hardware counts exactly while the watchdog is armed, and between two passes with the normal window.\<close>

definition guarded :: "watchdog \<Rightarrow> bool" where
  "guarded w \<longleftrightarrow> (hw_enabled (wd_rwdt w) \<longleftrightarrow> wd_armed w)
     \<and> (wd_armed w \<longrightarrow> hw_timeout_s (wd_rwdt w) = normal_window \<and> wd_window w = normal_window)"

abbreviation fed_at :: "watchdog \<Rightarrow> nat" where
  "fed_at w \<equiv> hw_fed_at (wd_rwdt w)"

lemma guarded_bites: "guarded w \<Longrightarrow> bites t w \<longleftrightarrow> wd_armed w \<and> fed_at w + 15000 < t"
  by (auto simp: guarded_def bites_def normal_window_def)

lemma guarded_steps:
  "guarded (arm hold cal t w)" "guarded (disarm w)" "guarded w \<Longrightarrow> guarded (feed_watchdog t w)"
  by (auto simp: guarded_def watchdog_steps Let_def)

text \<open>A guard of the slow window, from \<open>t\<close> to \<open>t'\<close>.\<close>

lemma slow_guard:
  assumes "guarded w"
  shows "bites t' (slow_window hold cal t w) \<longleftrightarrow> wd_armed w \<and> t + 25000 < t'"
    "guarded (drop_slow_window hold cal t' (slow_window hold cal t w))"
    "fed_at (drop_slow_window hold cal t' (slow_window hold cal t w)) = (if wd_armed w then t' else fed_at w)"
    "wd_armed (drop_slow_window hold cal t' (slow_window hold cal t w)) = wd_armed w"
  using assms by (auto simp: guarded_def bites_def watchdog_steps slow_window_s_def)

text \<open>The moments of a pass are in order and its parts are short: a pass takes at most fifteen seconds and
  so does the time before it, a radio step at most twenty-five, a stall its twenty and a second.\<close>

definition timely :: "fw_env \<Rightarrow> ('v, 'd, 'w, 'k, 'r, 'c, 'h) firmware \<Rightarrow> bool" where
  "timely env fw \<longleftrightarrow>
     (let now = fe_now_ms env; stepped = (if rh_pending (fw_rat fw) \<noteq> None then fe_radio_end_ms env else now)
      in now \<le> fed_at (fw_watchdog fw) + 15000
       \<and> now \<le> fe_command_ms env \<and> fe_command_ms env \<le> fe_tail_ms env
       \<and> fe_radio_start_ms env \<le> now + 15000 \<and> fe_radio_end_ms env \<le> fe_radio_start_ms env + 25000
       \<and> stepped \<le> fe_tail_ms env \<and> fe_tail_ms env \<le> stepped + 15000
       \<and> fe_stall_end_ms env \<le> fe_tail_ms env + wdt_stall_secs * 1000 + 1000)"

text \<open>A counter that was last restarted between two moments, if it runs.\<close>

definition fed_within :: "nat \<Rightarrow> nat \<Rightarrow> watchdog \<Rightarrow> bool" where
  "fed_within lo hi w \<longleftrightarrow> guarded w \<and> (wd_armed w \<longrightarrow> lo \<le> fed_at w \<and> fed_at w \<le> hi)"

lemma fed_within_feed: "guarded w \<Longrightarrow> fed_within t t (feed_watchdog t w)"
  by (auto simp: fed_within_def guarded_def watchdog_steps Let_def)

lemma fed_within_bites: "fed_within lo hi w \<Longrightarrow> t \<le> lo + 15000 \<Longrightarrow> \<not> bites t w"
  by (auto simp: fed_within_def guarded_bites)

lemma fed_within_weaken: "fed_within lo hi w \<Longrightarrow> lo' \<le> lo \<Longrightarrow> hi \<le> hi' \<Longrightarrow> fed_within lo' hi' w"
  by (auto simp: fed_within_def)

lemma frame_command_frame:
  assumes "frame_command bd env command fw = Some (report, fw')"
  shows "fw_rat fw' = fw_rat fw"
    and "fed_within lo lo (fw_watchdog fw) \<Longrightarrow> lo \<le> fe_command_ms env \<Longrightarrow> fed_within lo (fe_command_ms env) (fw_watchdog fw')"
  using assms
  by (auto simp: frame_command_def wdt_command_def Let_def fed_within_def guarded_def watchdog_steps
      split: option.splits debug_command.splits debug_wdt.splits if_splits)

lemma radio_window_fed:
  assumes "fed_within now hi w" "fe_radio_start_ms env \<le> now + 15000"
    "fe_radio_end_ms env \<le> fe_radio_start_ms env + 25000"
    "hi \<le> late" "(if stepping then fe_radio_end_ms env else now) \<le> late"
  shows "\<exists>w'. radio_window env stepping w = Some w'
    \<and> fed_within (if stepping then fe_radio_end_ms env else now) late w'"
proof (cases stepping)
  case True
  have w: "guarded w" using assms(1) by (simp add: fed_within_def)
  have "\<not> bites (fe_radio_start_ms env) w" using assms(1,2) by (rule fed_within_bites)
  with True assms show ?thesis
    by (auto simp: radio_window_def slow_guard [OF w] fed_within_def)
next
  case False
  with assms(1,4) show ?thesis by (auto simp: radio_window_def fed_within_def)
qed

lemma stall_test_fed:
  assumes "fed_within lo (fe_tail_ms env) (fw_watchdog fw)" "fe_tail_ms env \<le> lo + 15000"
    "fe_stall_end_ms env \<le> fe_tail_ms env + wdt_stall_secs * 1000 + 1000"
  shows "\<exists>fw'. stall_test env fw = Some fw' \<and> fw_freeze_at fw' = fw_freeze_at fw \<and> fw_rat fw' = fw_rat fw
    \<and> guarded (fw_watchdog fw')
    \<and> (wd_armed (fw_watchdog fw') \<longrightarrow> fed_at (fw_watchdog fw') \<le> max (fe_tail_ms env) (fe_stall_end_ms env))"
proof (cases "is_due (ml_console (fw_rat fw)) (fe_tail_ms env) (fw_stall_at fw)")
  case True
  have w: "guarded (fw_watchdog fw)" using assms(1) by (simp add: fed_within_def)
  have "\<not> bites (fe_tail_ms env) (fw_watchdog fw)" using assms(1,2) by (rule fed_within_bites)
  with True assms show ?thesis
    by (auto simp: stall_test_def slow_guard [OF w] wdt_stall_secs_def)
next
  case False
  with assms(1) show ?thesis by (auto simp: stall_test_def fed_within_def)
qed

lemma top_bar_frame [simp]:
  "fw_rat (top_bar env fw) = fw_rat fw" "fw_watchdog (top_bar env fw) = fw_watchdog fw"
  "fw_reboot_at (top_bar env fw) = fw_reboot_at fw" "fw_freeze_at (top_bar env fw) = fw_freeze_at fw"
  by (simp_all add: top_bar_def Let_def split: prod.split option.split)


text \<open>How a pass may end: not in a reset by the watchdog, and with a counter that runs from its last moments.\<close>

definition watched_end :: "fw_env \<Rightarrow> ('v, 'd, 'w, 'k, 'r, 'c, 'h) pass_end \<Rightarrow> bool" where
  "watched_end env r =
    (let watched = (\<lambda>w. guarded w \<and> (wd_armed w \<longrightarrow> fed_at w \<le> max (fe_tail_ms env) (fe_stall_end_ms env))) in
     case r of
       Watchdog_Reset \<Rightarrow> False
     | Frozen fw \<Rightarrow> watched (fw_watchdog fw)
     | Pass_Done fw \<Rightarrow> watched (fw_watchdog fw)
     | _ \<Rightarrow> True)"

lemma pass_tail_watched:
  assumes "fed_within lo (fe_tail_ms env) (fw_watchdog fw)" "fe_tail_ms env \<le> lo + 15000"
    "fe_stall_end_ms env \<le> fe_tail_ms env + wdt_stall_secs * 1000 + 1000"
  shows "watched_end env (pass_tail env fw)"
proof -
  let ?c = "snd (service (fe_tail_room env) (fe_tail_flushed env) (ml_console (fw_rat fw)))"
  let ?fw = "fw\<lparr>fw_heap_min := min (fw_heap_min fw) (fe_heap_free_end env), fw_rat := (fw_rat fw)\<lparr>ml_console := ?c\<rparr>\<rparr>"
  have "fed_within lo (fe_tail_ms env) (fw_watchdog ?fw)" using assms(1) by simp
  from stall_test_fed [OF this assms(2,3)] show ?thesis
    by (auto simp: pass_tail_def watched_end_def Let_def)
qed

text \<open>A pass after its first feed.\<close>

definition pass_rest ::
  "('v, 'd, 'w, 'k, 'r, 'c, 'h) board \<Rightarrow> fw_env \<Rightarrow> debug_command option \<Rightarrow> ('v, 'd, 'w, 'k, 'r, 'c, 'h) firmware \<Rightarrow>
   ('v, 'd, 'w, 'k, 'r, 'c, 'h) pass_end" where
  "pass_rest bd env command fw = (case frame_command bd env command fw of
      None \<Rightarrow> Panicked
    | Some (report, fw) \<Rightarrow>
      (case loop_pass bd ((fe_events env)\<lparr>ev_command := command, ev_report := report\<rparr>) (fw_rat fw) of
         None \<Rightarrow> Panicked
       | Some h \<Rightarrow> (case radio_window env (rh_pending (fw_rat fw) \<noteq> None) (fw_watchdog fw) of
            None \<Rightarrow> Watchdog_Reset
          | Some w \<Rightarrow> pass_tail env (top_bar env (fw\<lparr>fw_rat := h, fw_watchdog := w\<rparr>)))))"

definition begun ::
  "fw_env \<Rightarrow> ('v, 'd, 'w, 'k, 'r, 'c, 'h) firmware \<Rightarrow> debug_command option \<times> ('v, 'd, 'w, 'k, 'r, 'c, 'h) firmware" where
  "begun env fw =
    (case console_poll (fe_poll_room env) (fe_poll_flushed env) (fe_received env) (ml_console (fw_rat fw)) of
       (command, _, _, c) \<Rightarrow>
         (command, fw\<lparr>fw_watchdog := feed_watchdog (fe_now_ms env) (fw_watchdog fw),
           fw_heap_min := min (fw_heap_min fw) (fe_heap_free env), fw_rat := (fw_rat fw)\<lparr>ml_console := c\<rparr>\<rparr>))"

lemma firmware_pass_begun:
  "firmware_pass bd env fw =
    (if bites (fe_now_ms env) (fw_watchdog fw) then Watchdog_Reset
     else case begun env fw of (command, fw1) \<Rightarrow> pass_rest bd env command fw1)"
  by (simp add: firmware_pass_def pass_rest_def begun_def Let_def split: prod.split)

lemma begun_frame:
  assumes "begun env fw = (command, fw1)"
  shows "fw_watchdog fw1 = feed_watchdog (fe_now_ms env) (fw_watchdog fw)" "rh_pending (fw_rat fw1) = rh_pending (fw_rat fw)"
    "fw_reboot_at fw1 = fw_reboot_at fw" "fw_freeze_at fw1 = fw_freeze_at fw"
  using assms by (auto simp: begun_def split: prod.splits)

lemma pass_rest_watched:
  assumes "fed_within (fe_now_ms env) (fe_now_ms env) (fw_watchdog fw)" "timely env fw'"
    and "rh_pending (fw_rat fw') = rh_pending (fw_rat fw)"
  shows "watched_end env (pass_rest bd env command fw)"
proof (cases "frame_command bd env command fw")
  case (Some r)
  obtain report fw2 where r: "r = (report, fw2)" by (cases r)
  note f = frame_command_frame [OF Some [unfolded r]]
  let ?now = "fe_now_ms env"
  let ?stepped = "if rh_pending (fw_rat fw) \<noteq> None then fe_radio_end_ms env else ?now"
  have t: "?now \<le> fe_command_ms env" "fe_command_ms env \<le> fe_tail_ms env"
    "fe_radio_start_ms env \<le> ?now + 15000" "fe_radio_end_ms env \<le> fe_radio_start_ms env + 25000"
    "?stepped \<le> fe_tail_ms env" "fe_tail_ms env \<le> ?stepped + 15000"
    "fe_stall_end_ms env \<le> fe_tail_ms env + wdt_stall_secs * 1000 + 1000"
    using assms(2) unfolding assms(3) [symmetric] by (simp_all add: timely_def Let_def)
  from radio_window_fed [OF f(2) [OF assms(1) t(1)] t(3,4,2,5)] obtain w where w:
    "radio_window env (rh_pending (fw_rat fw) \<noteq> None) (fw_watchdog fw2) = Some w"
    "fed_within ?stepped (fe_tail_ms env) w" by blast
  have "watched_end env (pass_tail env (top_bar env (fw2\<lparr>fw_rat := h, fw_watchdog := w\<rparr>)))" for h
    by (rule pass_tail_watched [OF _ t(6,7)]) (use w(2) in simp)
  then show ?thesis
    by (auto simp: pass_rest_def Some r f(1) w(1) [simplified] watched_end_def split: option.split)
qed (simp add: pass_rest_def watched_end_def)

lemma firmware_pass_watched:
  assumes "guarded (fw_watchdog fw)" "timely env fw"
  shows "watched_end env (firmware_pass bd env fw)"
proof -
  obtain command fw1 where b: "begun env fw = (command, fw1)" by (cases "begun env fw")
  note frame = begun_frame [OF b]
  have "\<not> bites (fe_now_ms env) (fw_watchdog fw)"
    using assms by (simp add: guarded_bites timely_def Let_def)
  moreover have "watched_end env (pass_rest bd env command fw1)"
    by (rule pass_rest_watched [OF _ assms(2)]) (simp_all add: frame fed_within_feed assms(1))
  ultimately show ?thesis by (simp add: firmware_pass_begun b)
qed

subsection \<open>Boot\<close>

definition splash_after_ms :: nat where "splash_after_ms = 3500"
definition auto_connect_after_splash_ms :: nat where "auto_connect_after_splash_ms = 500"

text \<open>What the hardware and the libraries give \<open>main\<close>: the card, the Wi-Fi manager (\<open>None\<close> when it cannot be
  initialised; with it comes the network), the listening socket, the cause of the reset with the retained
  memory, and the readings.  \<open>bo_repr\<close> and \<open>bo_from_repr\<close> number the causes.\<close>

record ('d, 'w, 'k) boot_env =
  bo_card :: 'd
  bo_wifi :: "'w option"
  bo_socket :: 'k
  bo_repr :: "reset_reason \<Rightarrow> nat"
  bo_from_repr :: "nat \<Rightarrow> reset_reason option"
  bo_cause :: "reset_reason option"
  bo_rwdt :: rwdt
  bo_retained :: retained
  bo_hold :: nat
  bo_cal :: nat
  bo_start :: instant
  bo_watchdog_ms :: nat
  bo_heap_free :: nat

text \<open>The configuration, and whether the card can be used for it.\<close>

definition boot_config ::
  "('v, 'd, 'w, 'k, 'r, 'c, 'h) board \<Rightarrow> 'v option \<Rightarrow> wifi_config \<times> bool" where
  "boot_config bd storage =
    (case (case storage of None \<Rightarrow> Inl Se_Sd | Some vol \<Rightarrow> load (bd_toml_parse bd) (bd_fat bd) vol) of
       Inr cfg \<Rightarrow> (cfg, True)
     | Inl Se_Missing \<Rightarrow> (default_wifi_config, True)
     | Inl _ \<Rightarrow> (default_wifi_config, False))"

text \<open>The window's properties have the initial values of \<open>ui/ratputer.slint\<close> where \<open>main\<close> sets none.\<close>

definition boot_ui :: fm_ui where
  "boot_ui = \<lparr>ui_view_state = 0, ui_path = ''/'', ui_status = [], ui_index = 0, ui_action_index = 0, ui_name = [],
     ui_target = [], ui_rows = [], ui_count = 0, ui_more = False, ui_page = 1, ui_clipboard = [], ui_prompt = []\<rparr>"

definition boot_rat ::
  "('v, 'd, 'w, 'k, 'r, 'c, 'h) board \<Rightarrow> ('d, 'w, 'k) boot_env \<Rightarrow> ('v, 'd, 'w, 'k, 'r, 'c, 'h) ratputer" where
  "boot_rat bd bo =
    (let storage = bd_mount bd (bo_card bo);
         (cfg, storage_available) = boot_config bd storage;
         networks = length (cfg_networks cfg);
         radio = bo_wifi bo \<noteq> None;
         host = \<lparr>hs_storage = storage, hs_usb_sd = None, hs_disk = usb_new, hs_force_exit = False, hs_shown = None,
           hs_usb_status = (if usb_available (usb_new :: 'd usb_disk) then ''CONNECT USB CABLE'' else ''USB INIT ERROR''),
           hs_usb_stats = [], hs_config = cfg,
           hs_wifi_status = (if \<not> radio then ''WI-FI INIT ERROR'' else if storage_available then ''READY'' else ''SD ERROR''),
           hs_auto_next = networks - 1,
           hs_auto_connect_at = (if radio \<and> networks \<noteq> 0
             then Some (bo_start bo div 1000 + splash_after_ms + auto_connect_after_splash_ms) else None),
           hs_view = 0, hs_saved_index = 0\<rparr>;
         radio_part = sd_host.extend host \<lparr>rh_wifi = bo_wifi bo, rh_pending = None, rh_job = None, rh_pass = 1, rh_scan = [],
           rh_frame = 0, rh_action = 0, rh_action_index = 0, rh_connecting = False, rh_password = [], rh_selected = [],
           rh_scan_index = 0, rh_link_ssid = [], rh_saved_labels = saved_network_model cfg, rh_scan_labels = []\<rparr>
     in set_ssh_login_text (radio_host.extend radio_part
          \<lparr>ml_splash_done = False, ml_network = radio, ml_menu_index = 0, ml_wifi_menu_index = 0, ml_usb_action = 0,
           ml_ssh_action = 0, ml_browser = None, ml_fm_ui = boot_ui,
           ml_server = (if radio then Some (ssh_new (bd_fat bd) (bd_crypto bd) (bo_socket bo) storage) else None),
           ml_ssh_status = ''OFF'', ml_ssh_addr = ''NO WI-FI'', ml_ssh_user = ''USER:RAT'', ml_ssh_password = [],
           ml_key_top = [], ml_key_bottom = [],
           ml_time = \<lparr>nt_job = None, nt_next = bo_start bo, nt_link_was_up = False, nt_clock = wall_clock_default\<rparr>,
           ml_link_state = 0, ml_console = console_new\<rparr>))"

definition boot ::
  "('v, 'd, 'w, 'k, 'r, 'c, 'h) board \<Rightarrow> ('d, 'w, 'k) boot_env \<Rightarrow> ('v, 'd, 'w, 'k, 'r, 'c, 'h) firmware" where
  "boot bd bo =
    \<lparr>fw_rat = boot_rat bd bo,
     fw_watchdog = arm (bo_hold bo) (bo_cal bo) (bo_watchdog_ms bo)
       (watchdog_new (bo_repr bo) (bo_from_repr bo) (bo_cause bo) (bo_watchdog_ms bo) (bo_rwdt bo) (bo_retained bo)),
     fw_heap_min = bo_heap_free bo, fw_reboot_at = None, fw_freeze_at = None, fw_stall_at = None,
     fw_shown_clock = None, fw_clock_text = ''--:--'', fw_clock_synced = False, fw_battery = battery_new,
     fw_battery_at = None, fw_battery_percent = - 1\<rparr>"

lemma ssh_new_inactive: "\<not> sv_active (ssh_new ops cr socket vol)"
  by (simp add: ssh_new_def install_hostkey_def Let_def split: option.split sum.split)

lemma boot_reaches: "loop_reach bd (boot_rat bd bo)"
  by (rule loop_reach.boot)
    (simp_all add: boot_rat_def set_ssh_login_text_def server_active_def sd_host.extend_def radio_host.extend_def
      ssh_new_inactive Let_def split: prod.split)

subsection \<open>Lives of the firmware\<close>

text \<open>The states between two passes, from the boot on.\<close>

inductive fw_reach ::
  "('v, 'd, 'w, 'k, 'r, 'c, 'h) board \<Rightarrow> ('v, 'd, 'w, 'k, 'r, 'c, 'h) firmware \<Rightarrow> bool" for bd where
  booted: "fw_reach bd (boot bd bo)"
| passed: "fw_reach bd fw \<Longrightarrow> firmware_pass bd env fw = Pass_Done fw' \<Longrightarrow> fw_reach bd fw'"
| usb_callback: "fw_reach bd fw \<Longrightarrow>
    s \<in> {handler_reset (ud_shared (hs_disk (fw_rat fw))), handler_enabled e (ud_shared (hs_disk (fw_rat fw))),
      handler_configured c (ud_shared (hs_disk (fw_rat fw))), snd (control_out i rq data (ud_shared (hs_disk (fw_rat fw))))} \<Longrightarrow>
    fw_reach bd (fw\<lparr>fw_rat := (fw_rat fw)\<lparr>hs_disk := (hs_disk (fw_rat fw))\<lparr>ud_shared := s\<rparr>\<rparr>\<rparr>)"

text \<open>A completed pass is a pass of the loop.\<close>

lemma pass_tail_rat:
  "pass_tail env fw = Pass_Done fw' \<or> pass_tail env fw = Frozen fw' \<Longrightarrow> \<exists>c. fw_rat fw' = (fw_rat fw)\<lparr>ml_console := c\<rparr>"
  by (auto simp: pass_tail_def stall_test_def Let_def split: if_splits)

lemma loop_ok_console [simp]: "loop_ok (h\<lparr>ml_console := c\<rparr>) = loop_ok h"
  using one_owner_eq [of "h\<lparr>ml_console := c\<rparr>" h] by (simp add: loop_ok_def one_user_def server_active_def)

lemma parts_guarded:
  "frame_command bd env command fw = Some (report, fw') \<Longrightarrow> guarded (fw_watchdog fw) \<Longrightarrow> guarded (fw_watchdog fw')"
  "radio_window env stepping w = Some w' \<Longrightarrow> guarded w \<Longrightarrow> guarded w'"
  "stall_test env fw = Some fw' \<Longrightarrow> guarded (fw_watchdog fw) \<Longrightarrow> guarded (fw_watchdog fw')"
  by (auto simp: frame_command_def wdt_command_def radio_window_def stall_test_def Let_def slow_guard guarded_steps
      split: option.splits debug_command.splits debug_wdt.splits if_splits)

lemma pass_tail_guarded:
  "pass_tail env fw = Pass_Done fw' \<or> pass_tail env fw = Frozen fw' \<Longrightarrow> guarded (fw_watchdog fw) \<Longrightarrow> guarded (fw_watchdog fw')"
  by (auto simp: pass_tail_def Let_def split: if_splits option.splits dest!: parts_guarded(3))

text \<open>The parts of a completed pass.\<close>

lemma firmware_pass_parts:
  assumes "firmware_pass bd env fw = Pass_Done fw'"
  obtains command fw1 report fw2 h w where "begun env fw = (command, fw1)"
    "frame_command bd env command fw1 = Some (report, fw2)"
    "loop_pass bd ((fe_events env)\<lparr>ev_command := command, ev_report := report\<rparr>) (fw_rat fw2) = Some h"
    "radio_window env (rh_pending (fw_rat fw2) \<noteq> None) (fw_watchdog fw2) = Some w"
    "pass_tail env (top_bar env (fw2\<lparr>fw_rat := h, fw_watchdog := w\<rparr>)) = Pass_Done fw'"
proof -
  obtain command fw1 where b: "begun env fw = (command, fw1)" by (cases "begun env fw")
  with assms have "pass_rest bd env command fw1 = Pass_Done fw'"
    by (simp add: firmware_pass_begun split: if_splits)
  with b that show ?thesis by (auto simp: pass_rest_def split: option.splits)
qed

lemma firmware_pass_sound:
  assumes "loop_ok (fw_rat fw)" "guarded (fw_watchdog fw)" "firmware_pass bd env fw = Pass_Done fw'"
  shows "loop_ok (fw_rat fw') \<and> guarded (fw_watchdog fw')"
proof -
  from assms(3) obtain command fw1 report fw2 h w where p: "begun env fw = (command, fw1)"
    "frame_command bd env command fw1 = Some (report, fw2)"
    "loop_pass bd ((fe_events env)\<lparr>ev_command := command, ev_report := report\<rparr>) (fw_rat fw2) = Some h"
    "radio_window env (rh_pending (fw_rat fw2) \<noteq> None) (fw_watchdog fw2) = Some w"
    "pass_tail env (top_bar env (fw2\<lparr>fw_rat := h, fw_watchdog := w\<rparr>)) = Pass_Done fw'"
    by (rule firmware_pass_parts)
  have "loop_ok (fw_rat fw1)" using assms(1) p(1) by (auto simp: begun_def split: prod.splits)
  with loop_pass_ok [OF _ p(3)] frame_command_frame(1) [OF p(2)] have "loop_ok h" by simp
  moreover obtain c where "fw_rat fw' = h\<lparr>ml_console := c\<rparr>" using pass_tail_rat [OF disjI1 [OF p(5)]] by auto
  moreover have "guarded w"
    using parts_guarded(1) [OF p(2)] parts_guarded(2) [OF p(4)] begun_frame(1) [OF p(1)] assms(2)
    by (simp add: guarded_steps)
  then have "guarded (fw_watchdog fw')" using pass_tail_guarded [OF disjI1 [OF p(5)]] by simp
  ultimately show ?thesis by simp
qed

lemma fw_reach_sound:
  assumes "fw_reach bd fw"
  shows "loop_ok (fw_rat fw) \<and> guarded (fw_watchdog fw)"
  using assms
proof (induction rule: fw_reach.induct)
  case (passed fw env fw')
  then show ?case using firmware_pass_sound by blast
next
  case (usb_callback fw s e c i rq data)
  with callbacks_keep_owner [OF usb_callback.hyps(2)] show ?case
    by (simp add: loop_ok_def one_user_def server_active_def one_owner_def split: option.splits)
qed (simp add: boot_def loop_reach_ok [OF boot_reaches] guarded_steps)

text \<open>C20: The watchdog resets only a hang: in every reachable state a pass whose parts keep their times (a
  radio step of up to twenty-five seconds, the twenty seconds of the self-test STALL) does not end in
  a reset by the watchdog, whatever else happens in it.  After the self-test FREEZE has stopped the loop,
  the chip is reset within fifteen seconds of the last moment of the pass if the watchdog is armed, and
  never if it has been disarmed.\<close>

theorem watchdog_resets_only_hangs:
  assumes "fw_reach bd fw" "timely env fw"
  shows "firmware_pass bd env fw \<noteq> Watchdog_Reset
    \<and> (\<forall>fw' t. firmware_pass bd env fw = Frozen fw' \<longrightarrow> max (fe_tail_ms env) (fe_stall_end_ms env) + 15000 < t \<longrightarrow>
        (bites t (fw_watchdog fw') \<longleftrightarrow> wd_armed (fw_watchdog fw')))"
proof -
  have "watched_end env (firmware_pass bd env fw)"
    using fw_reach_sound [OF assms(1)] assms(2) by (simp add: firmware_pass_watched)
  then show ?thesis by (auto simp: watched_end_def Let_def guarded_bites)
qed

subsection \<open>A requested reboot\<close>

text \<open>Passes one after the other, as long as they complete.\<close>

primrec firmware_run ::
  "('v, 'd, 'w, 'k, 'r, 'c, 'h) board \<Rightarrow> fw_env list \<Rightarrow> ('v, 'd, 'w, 'k, 'r, 'c, 'h) firmware \<Rightarrow>
   ('v, 'd, 'w, 'k, 'r, 'c, 'h) pass_end" where
  "firmware_run bd [] fw = Pass_Done fw"
| "firmware_run bd (env # envs) fw = (case firmware_pass bd env fw of
     Pass_Done fw' \<Rightarrow> firmware_run bd envs fw' | r \<Rightarrow> r)"

text \<open>The command that a pass reads.\<close>

definition command_read :: "fw_env \<Rightarrow> ('v, 'd, 'w, 'k, 'r, 'c, 'h) firmware \<Rightarrow> debug_command option" where
  "command_read env fw =
    fst (console_poll (fe_poll_room env) (fe_poll_flushed env) (fe_received env) (ml_console (fw_rat fw)))"

lemma begun_command: "begun env fw = (command, fw1) \<Longrightarrow> command = command_read env fw"
  by (auto simp: begun_def command_read_def split: prod.splits)

lemma nothing_read: "fe_received env = [] \<Longrightarrow> command_read env fw = None"
  by (simp add: command_read_def console_poll_def split: prod.split)

text \<open>A scheduled reboot: nobody has asked for a freeze.\<close>

definition will_reboot :: "nat \<Rightarrow> ('v, 'd, 'w, 'k, 'r, 'c, 'h) firmware \<Rightarrow> bool" where
  "will_reboot due fw \<longleftrightarrow> fw_reboot_at fw = Some due \<and> fw_freeze_at fw = None"

definition loop_ends :: "('v, 'd, 'w, 'k, 'r, 'c, 'h) pass_end \<Rightarrow> bool" where
  "loop_ends r \<longleftrightarrow> r = Rebooting \<or> r = Watchdog_Reset \<or> r = Panicked"

lemma pass_tail_will_reboot:
  assumes "will_reboot due fw"
  shows "loop_ends (pass_tail env fw) \<or> fe_tail_ms env < due \<and> (\<exists>fw'. pass_tail env fw = Pass_Done fw' \<and> will_reboot due fw')"
  using assms
  by (auto simp: pass_tail_def will_reboot_def loop_ends_def is_due_def stall_test_def Let_def split: option.splits)

lemma firmware_pass_will_reboot:
  assumes "fw_freeze_at fw = None"
    and "command_read env fw = Some Cmd_Reboot \<and> due = fe_command_ms env + 500
      \<or> command_read env fw = None \<and> fw_reboot_at fw = Some due"
  shows "loop_ends (firmware_pass bd env fw)
    \<or> fe_tail_ms env < due \<and> (\<exists>fw'. firmware_pass bd env fw = Pass_Done fw' \<and> will_reboot due fw')"
proof (cases "bites (fe_now_ms env) (fw_watchdog fw)")
  case False
  obtain command fw1 where b: "begun env fw = (command, fw1)" by (cases "begun env fw")
  note frame = begun_frame [OF b] begun_command [OF b]
  have tail: "loop_ends (pass_tail env (top_bar env (fw2\<lparr>fw_rat := h, fw_watchdog := w\<rparr>)))
      \<or> fe_tail_ms env < due \<and> (\<exists>fw'. pass_tail env (top_bar env (fw2\<lparr>fw_rat := h, fw_watchdog := w\<rparr>)) = Pass_Done fw'
          \<and> will_reboot due fw')"
    if "frame_command bd env command fw1 = Some (report, fw2)" for report fw2 h w
    using that frame assms by (intro pass_tail_will_reboot) (auto simp: will_reboot_def frame_command_def)
  show ?thesis
  proof (cases "frame_command bd env command fw1")
    case (Some r)
    obtain report fw2 where "r = (report, fw2)" by (cases r)
    with Some tail show ?thesis
      by (simp add: firmware_pass_begun False b pass_rest_def loop_ends_def split: option.split)
  qed (simp add: firmware_pass_begun False b pass_rest_def loop_ends_def)
qed (simp add: firmware_pass_begun loop_ends_def)

lemma will_reboot_run:
  assumes "will_reboot due fw" "\<forall>e\<in>set envs. fe_received e = []" "envs \<noteq> []" "due \<le> fe_tail_ms (List.last envs)"
  shows "loop_ends (firmware_run bd envs fw)"
  using assms
proof (induction envs arbitrary: fw)
  case (Cons env envs)
  from Cons.prems(1,2) have "loop_ends (firmware_pass bd env fw)
    \<or> fe_tail_ms env < due \<and> (\<exists>fw'. firmware_pass bd env fw = Pass_Done fw' \<and> will_reboot due fw')"
    by (intro firmware_pass_will_reboot) (auto simp: will_reboot_def nothing_read)
  then show ?case
  proof (elim disjE conjE exE)
    fix fw' assume "fe_tail_ms env < due" "firmware_pass bd env fw = Pass_Done fw'" "will_reboot due fw'"
    with Cons show ?case by (cases "envs = []") auto
  qed (auto simp: loop_ends_def)
qed simp


subsection \<open>Samples\<close>

text \<open>A power-on with a card and a radio, and a pass that takes fourteen seconds.\<close>

definition sample_power_on :: "(nat \<Rightarrow> bytes, unit, tcp_state) boot_env" where
  "sample_power_on = \<lparr>bo_card = sample_disk, bo_wifi = Some (), bo_socket = Tcp_Closed, bo_repr = sample_repr,
     bo_from_repr = sample_from_repr, bo_cause = Some Chip_Power_On,
     bo_rwdt = \<lparr>hw_enabled = False, hw_timeout_s = 0, hw_fed_at = 0\<rparr>, bo_retained = blank_memory, bo_hold = 0, bo_cal = 0,
     bo_start = 0, bo_watchdog_ms = 0, bo_heap_free = 0\<rparr>"

definition sample_fw :: "console \<Rightarrow> (nat \<Rightarrow> bytes, nat \<Rightarrow> bytes, unit, tcp_state, bytes, unit, unit) firmware" where
  "sample_fw c = \<lparr>fw_rat = (sample_rat (Some sample_disk))\<lparr>ml_console := c\<rparr>, fw_watchdog = arm 0 0 0 sample_hang,
     fw_heap_min = 0, fw_reboot_at = None, fw_freeze_at = None, fw_stall_at = None, fw_shown_clock = None,
     fw_clock_text = [], fw_clock_synced = False, fw_battery = battery_new, fw_battery_at = None, fw_battery_percent = - 1\<rparr>"

definition sample_pass :: "bytes \<Rightarrow> nat \<Rightarrow> fw_env" where
  "sample_pass typed late = \<lparr>fe_events = sample_events [], fe_received = typed, fe_poll_room = 0, fe_poll_flushed = False,
     fe_tail_room = 0, fe_tail_flushed = False, fe_command_ms = 0, fe_radio_start_ms = 0, fe_radio_end_ms = 0,
     fe_tail_ms = late, fe_stall_end_ms = 0, fe_heap_free = 0, fe_heap_free_end = 0, fe_hold = 0, fe_cal = 0,
     fe_quoted = \<lambda>s. [s], fe_ipv4 = [], fe_adc = \<lambda>n. (Adc_Error, n)\<rparr>"

theorem watchdog_resets_only_hangs_witness:
  "firmware_pass sample_board (sample_pass [] 14000) (boot sample_board sample_power_on) \<noteq> Watchdog_Reset"
proof -
  have "rh_pending (boot_rat sample_board sample_power_on) = None"
    by (simp add: boot_rat_def set_ssh_login_text_def sd_host.extend_def radio_host.extend_def Let_def split: prod.split)
  then have "timely (sample_pass [] 14000) (boot sample_board sample_power_on)"
    by (simp add: timely_def sample_pass_def boot_def sample_power_on_def sample_events_def watchdog_steps wdt_stall_secs_def)
  with watchdog_resets_only_hangs [OF fw_reach.booted] show ?thesis by blast
qed

text \<open>A console in which REBOOT has been typed but for the return key, on a port that accepts nothing.\<close>

definition typed_reboot :: console where
  "typed_reboot = \<lparr>rx_line = to_bytes ''REBOOT'', rx_len = 6, rx_overflow = False, escape_state = 0, last_was_cr = False,
     tx_queue = [], tx_head = 0, tx_len = 0, tx_dirty = True\<rparr>"


end
