(* ===== verification/Sftp_Client.thy ===== *)
theory Sftp_Client
  imports Sftp_Steps
begin

text \<open>
  The client of \<open>tools/sftp-test/src/main.rs\<close>, which drives the protocol server of \<open>src/sftp.rs\<close> without SSH
  and without a network: it writes the requests, feeds them in fragments, collects the output until it
  has a whole reply, and decodes it.  Its main program, a list of such requests on a FAT image of the
  host, is not modelled.  The clock of the host is part of \<open>sftp_env\<close>.

  Putting client and server together shows that the fragments and the polls of the two fit: every request
  but WRITE and the two that may resize a file is answered within the rounds that the client waits.
\<close>

subsection \<open>Requests\<close>

definition client_attrs :: "nat option \<Rightarrow> nat option \<Rightarrow> (nat \<times> nat) option \<Rightarrow> bytes" where
  "client_attrs fsize mode times' =
    put_u32 (of_bool (fsize \<noteq> None) OR push_bit 2 (of_bool (mode \<noteq> None)) OR push_bit 3 (of_bool (times' \<noteq> None)))
    @ (case fsize of None \<Rightarrow> [] | Some n \<Rightarrow> put_u64 n)
    @ (case mode of None \<Rightarrow> [] | Some n \<Rightarrow> put_u32 n)
    @ (case times' of None \<Rightarrow> [] | Some (a, m) \<Rightarrow> put_u32 a @ put_u32 m)"

definition client_packet :: "nat \<Rightarrow> bytes \<Rightarrow> bytes" where
  "client_packet kind body = put_u32 (length body + 5) @ [of_nat kind] @ put_u32 123 @ body"

text \<open>How a request ends for the client: with a reply, or in one of its assertions.\<close>

datatype ('h, 'v) client_end =
  Replied bytes "'h sftp" "'v option" | Server_Fatal | Replied_Early | Never_Completed | Server_Panic

definition reply_done :: "bytes \<Rightarrow> bool" where
  "reply_done r \<longleftrightarrow> 4 \<le> length r \<and> length r = of_be (take 4 r) + 4"

primrec client_rounds ::
  "nat \<Rightarrow> ('v, 'h) fat_ops \<Rightarrow> sftp_env \<Rightarrow> bytes \<Rightarrow> nat \<Rightarrow> bytes \<Rightarrow> 'h sftp \<Rightarrow> 'v option \<Rightarrow> ('h, 'v) client_end" where
  "client_rounds 0 ops env packet sent r s vol = Never_Completed"
| "client_rounds (Suc rounds) ops env packet sent r s vol =
    (let n = min (min (input_space s) (length packet - sent)) 997;
         s = begin_poll (feed (slice_of sent n packet) s);
         sent = sent + n
     in case sftp_step ops env s vol of
       None \<Rightarrow> Server_Panic
     | Some (_, s, vol) \<Rightarrow>
         let r = r @ sf_out s; s = consume_output (length (sf_out s)) s in
         if sf_fatal s then Server_Fatal
         else if reply_done r then (if sent = length packet then Replied r s vol else Replied_Early)
         else client_rounds rounds ops env packet sent r s vol)"

definition client_request ::
  "('v, 'h) fat_ops \<Rightarrow> sftp_env \<Rightarrow> nat \<Rightarrow> bytes \<Rightarrow> 'h sftp \<Rightarrow> 'v \<Rightarrow> ('h, 'v) client_end" where
  "client_request ops env kind body s vol =
    client_rounds 100000 ops env (client_packet kind body) 0 [] s (Some vol)"

text \<open>The status code of a reply; \<open>None\<close> is the failed assertion that it is one, or a slice out of range.\<close>

definition client_code :: "bytes \<Rightarrow> nat option" where
  "client_code r = (if 13 \<le> length r \<and> r ! 4 = 101 then Some (of_be (slice_of 9 4 r)) else None)"

definition client_open :: "('v, 'h) fat_ops \<Rightarrow> sftp_env \<Rightarrow> string \<Rightarrow> nat \<Rightarrow> 'h sftp \<Rightarrow> 'v \<Rightarrow> ('h, 'v) client_end" where
  "client_open ops env path flags s vol =
    client_request ops env 3 (put_string (to_bytes path) @ put_u32 flags @ client_attrs None None None) s vol"

definition client_handle :: "bytes \<Rightarrow> bytes option" where
  "client_handle r = (if 13 \<le> length r \<and> r ! 4 = 102 then Some (drop 13 r) else None)"

definition client_write ::
  "('v, 'h) fat_ops \<Rightarrow> sftp_env \<Rightarrow> bytes \<Rightarrow> nat \<Rightarrow> bytes \<Rightarrow> 'h sftp \<Rightarrow> 'v \<Rightarrow> ('h, 'v) client_end" where
  "client_write ops env h offset bs s vol =
    client_request ops env 6 (put_string h @ put_u64 offset @ put_string bs) s vol"

definition client_set ::
  "('v, 'h) fat_ops \<Rightarrow> sftp_env \<Rightarrow> bytes \<Rightarrow> nat option \<Rightarrow> nat option \<Rightarrow> (nat \<times> nat) option \<Rightarrow> 'h sftp \<Rightarrow> 'v \<Rightarrow>
   ('h, 'v) client_end" where
  "client_set ops env h fsize mode times' s vol =
    client_request ops env 10 (put_string h @ client_attrs fsize mode times') s vol"

text \<open>The server reads back the attributes that the client put.\<close>

lemma client_attrs_are_read:
  assumes "\<forall>n. fsize = Some n \<longrightarrow> n < 2 ^ 64" "\<forall>n. mode = Some n \<longrightarrow> n < 2 ^ 32"
    and "\<forall>a m. times' = Some (a, m) \<longrightarrow> a < 2 ^ 32 \<and> m < 2 ^ 32"
  shows "rd_attrs (client_attrs fsize mode times' @ r)
    = (Some \<lparr>ra_size = fsize, ra_permissions = mode, ra_times = times', ra_owner = False\<rparr>, r)"
  using assms
  by (cases fsize; cases mode; cases times')
    (auto simp: client_attrs_def rd_attrs_def rd_when_def flag_set_def known_attr_flags_def attr_size_def attr_uidgid_def
      attr_permissions_def attr_acmodtime_def attr_extended_def rd_u32_put rd_u64_def rd_take_def rd_pair_def put_u64_def
      push_bit_eq_mult)

subsection \<open>Which requests start a transfer\<close>

text \<open>Handlers that start neither a read stream nor a resize.\<close>

definition no_transfer :: "'h sftp \<Rightarrow> ('h, 'v) outcome \<Rightarrow> bool" where
  "no_transfer s r \<longleftrightarrow> sf_read_stream (fst (snd r)) = sf_read_stream s \<and> sf_resize (fst (snd r)) = sf_resize s"

lemma no_transfer_Some [simp]: "no_transfer s (Some e, s, vol)"
  by (simp add: no_transfer_def)

lemma no_transfer_rules:
  "(\<And>x r. no_transfer s (k x r)) \<Longrightarrow> no_transfer s (with_arg rd body s vol k)"
  "(\<And>y. no_transfer s (k1 y)) \<Longrightarrow> no_transfer s (require x e s vol k1)"
  "(\<And>y. no_transfer s (k1' y)) \<Longrightarrow> no_transfer s (attempt z s vol k1')"
  "no_transfer s k2 \<Longrightarrow> no_transfer s (check_status c s vol k2)"
  by (auto simp: with_arg_def require_def attempt_def check_status_def split: prod.split option.split sum.split)

lemma no_transfer_replies [simp]:
  "no_transfer s (None, reply kind p s, vol)" "no_transfer s (send_ok rid s vol)"
  "no_transfer s (None, send_status rid c m s, vol)" "no_transfer s (None, handle_reply rid slot s, vol)"
  by (simp_all add: no_transfer_def reply_eq send_ok_def send_status_eq handle_reply_def)

lemma no_transfer_change: "table_change s s' \<Longrightarrow> no_transfer s' r \<Longrightarrow> no_transfer s r"
  by (simp add: no_transfer_def table_change_def)

lemma allocate_transfer:
  "no_transfer s (case allocate h s of (Inl e, s) \<Rightarrow> (Some e, s, vol) | (Inr slot, s) \<Rightarrow> (None, handle_reply rid slot s, vol))"
proof (cases "allocate h s")
  case (Pair r s')
  then show ?thesis
  proof (cases r)
    case (Inr slot)
    with Pair have "table_change s s'" using table_change_allocate by blast
    then have "no_transfer s (None, handle_reply rid slot s', vol)" by (rule no_transfer_change) simp
    with Pair Inr show ?thesis by simp
  qed (use Pair allocate_Inl [of h s _ s'] in auto)
qed

lemma stat_transfer: "no_transfer s (stat_components ops env rid cs s vol)"
  unfolding stat_components_def by (auto intro!: no_transfer_rules split: option.split)

lemma simple_transfers:
  "no_transfer s (sftp_realpath rid body s vol)" "no_transfer s (stat_path ops env rid body s vol)"
  "no_transfer s (sftp_fstat ops env rid body s vol)" "no_transfer s (sftp_remove ops rid body s vol)"
  "no_transfer s (sftp_mkdir ops env rid body s vol)" "no_transfer s (sftp_rmdir ops rid body s vol)"
  "no_transfer s (sftp_rename ops rid body s vol)"
  unfolding sftp_realpath_def stat_path_def sftp_fstat_def sftp_remove_def sftp_mkdir_def sftp_rmdir_def
    sftp_rename_def Let_def
  by (auto intro!: no_transfer_rules stat_transfer split: prod.split option.split fat_error.split sum.split)

lemma opendir_transfer: "no_transfer s (sftp_opendir ops rid body s vol)"
  unfolding sftp_opendir_def Let_def by (auto intro!: no_transfer_rules allocate_transfer)

lemma close_transfer: "no_transfer s (sftp_close rid body s vol)"
  unfolding sftp_close_def close_slot_def [symmetric]
  by (intro no_transfer_rules, rule no_transfer_change [OF table_change_close no_transfer_replies(2)])

lemma extended_transfer: "no_transfer s (sftp_extended ops rid body s vol)"
  unfolding sftp_extended_def statvfs_reply_def Let_def
  by (auto intro!: no_transfer_rules split: prod.split bool.split option.split)

lemma readdir_transfer: "no_transfer s (sftp_readdir ops env rid body s vol)"
proof -
  have batch: "no_transfer s (readdir_batch ops env rid slot dir s vol)" for slot dir
    unfolding readdir_batch_def
    by (intro no_transfer_rules) (simp add: no_transfer_def send_status_eq reply_eq Let_def split: prod.split)
  show ?thesis
    unfolding sftp_readdir_def
    by (intro no_transfer_rules) (auto simp: batch split: option.split handle.split)
qed

lemma open_transfer: "no_transfer s (sftp_open ops env rid body s vol)"
proof -
  have found: "no_transfer s (open_found ops env rid flags attrs dir parent leaf existing s vol)"
    for flags attrs dir parent leaf existing
  proof -
    obtain r s' vol' where o: "open_entry ops flags dir parent leaf existing s vol = (r, s', vol')"
      by (metis prod.exhaust)
    have s': "table_change s s'" using handled_open_entry [OF o] by blast
    show ?thesis
    proof (cases r)
      case (Inl e)
      then show ?thesis by (auto simp: open_found_def o intro: no_transfer_change [OF s'])
    next
      case (Inr sz)
      obtain m vol'' where c: "created_metadata ops env (existing = None) parent leaf attrs vol' = (m, vol'')"
        by (metis prod.exhaust)
      show ?thesis
        by (cases m) (auto simp: open_found_def o Inr c intro: no_transfer_change [OF s'] no_transfer_change [OF s' allocate_transfer])
    qed
  qed
  show ?thesis
    unfolding sftp_open_def by (auto intro!: no_transfer_rules found split: prod.split)
qed

lemma handle_request_transfer:
  "kind \<notin> {fxp_read, fxp_setstat, fxp_fsetstat} \<Longrightarrow> no_transfer s (handle_request ops env kind rid body s vol)"
  by (simp add: handle_request_def simple_transfers opendir_transfer close_transfer extended_transfer readdir_transfer open_transfer)

lemma read_no_resize: "sf_resize (fst (snd (sftp_read ops rid body s vol))) = sf_resize s"
  by (simp add: sftp_read_def with_arg_def attempt_def require_def start_data_eq send_status_eq Let_def
      split: prod.split option.split sum.split)


subsection \<open>Every request is answered in time\<close>

lemma client_packet_eq: "client_packet kind body = frame kind (put_u32 123 @ body)"
  by (simp add: client_packet_def frame_def add.commute)

text \<open>The server between two requests.\<close>

definition at_rest :: "'h sftp \<Rightarrow> bool" where
  "at_rest s \<longleftrightarrow> idle (begin_poll s) \<and> sf_input s = []"

definition whole_answer :: "bool \<Rightarrow> ('h, 'v) client_end \<Rightarrow> bool" where
  "whole_answer may_fail r = (case r of
     Replied bs s vol \<Rightarrow> (\<exists>kind payload. bs = frame kind (put_u32 123 @ payload)) \<and> at_rest s \<and> vol \<noteq> None
   | Server_Fatal \<Rightarrow> may_fail
   | _ \<Rightarrow> False)"

lemma reply_done_frame: "length p < 2 ^ 32 - 1 \<Longrightarrow> reply_done (frame kind p)"
  by (simp add: reply_done_def frame_def put_u32_def)

lemma reply_done_data: "n \<le> max_read_reply \<Longrightarrow> reply_done (data_header rid n @ bs) \<longleftrightarrow> length bs = n"
  by (simp add: reply_done_def data_header_def put_u32_def limit_defs)

lemma data_is_frame: "length bs = n \<Longrightarrow> data_header rid n @ bs = frame fxp_data (put_u32 rid @ put_u32 n @ bs)"
  by (simp add: data_header_def frame_def)

lemma idle_feed: "idle (begin_poll (feed bs s)) = idle (begin_poll s)"
  by (simp add: idle_def feed_def begin_poll_def)

text \<open>Part of a packet: the server waits.\<close>

lemma partial_packet_waits:
  assumes "idle s" "sf_input s = take m (frame kind (put_u32 rid @ args))" "m < 9 + length args"
    and "kind < 256" "kind \<noteq> fxp_write" "5 + length args \<le> max_request"
  shows "sftp_step ops env s vol = Some (False, s, vol)"
proof (cases "length (sf_input s) < 5")
  case True
  with assms(1) show ?thesis by (simp add: sftp_step_def idle_def parse_next_def)
next
  case False
  let ?p = "frame kind (put_u32 rid @ args)"
  have m: "5 \<le> m" "length (sf_input s) = m" using False assms(2,3) by auto
  have head: "take 4 (sf_input s) = take 4 ?p" "sf_input s ! 4 = ?p ! 4"
    using m by (simp_all add: assms(2) min_def)
  have "5 + length args < 4294967296" using assms(6) by (simp add: max_request_def)
  then have "of_be (take 4 (sf_input s)) = 5 + length args" "unat (sf_input s ! 4) = kind"
    unfolding head using assms(4) by (simp_all add: frame_def put_u32_def nth_append unat_of_nat)
  with m assms(1,3,5,6) show ?thesis by (simp add: sftp_step_def idle_def parse_next_def Let_def)
qed

text \<open>The polls of a \<open>DATA\<close> reply.\<close>

lemma continue_read_frame:
  "sf_input (continue_read ops env s vol) = sf_input s" "sf_skip (continue_read ops env s vol) = sf_skip s"
  "sf_write_stream (continue_read ops env s vol) = sf_write_stream s" "sf_resize (continue_read ops env s vol) = sf_resize s"
  by (auto simp: continue_read_def read_for_stream_def set_file_def Let_def split: option.split prod.split handle.split)

lemma data_round:
  assumes "sf_read_stream s = Some st" "sf_out s = []" "sf_resize s = None" "\<not> sf_fatal s"
  shows "sftp_step ops env (begin_poll s) vol
    = Some (True, continue_read ops env ((begin_poll s)\<lparr>sf_card_budget := False\<rparr>) vol, vol)"
  using assms by (simp add: sftp_step_def begin_poll_def)

lemma no_more_to_send:
  "min (min space (length packet - length packet)) 997 = 0" "feed (slice_of k 0 packet) s = s"
  by (simp_all add: feed_def slice_of_def)

lemma client_gets_data:
  assumes "reads_bounded ops" "sf_read_stream s = Some st" "0 < rs_remaining st" "sf_out s = []" "sf_input s = []"
    and "sf_write_stream s = None" "sf_resize s = None" "sf_skip s = 0" "\<not> sf_fatal s"
    and "length bs + rs_remaining st = n" "n \<le> max_read_reply" "rs_remaining st \<le> rounds"
  shows "whole_answer True (client_rounds rounds ops env packet (length packet) (data_header 123 n @ bs) s (Some v))"
  using assms(2-)
proof (induction rounds arbitrary: s st bs)
  case (Suc rounds)
  let ?t = "(begin_poll s)\<lparr>sf_card_budget := False\<rparr>"
  let ?s' = "continue_read ops env ?t (Some v)"
  have "sf_read_stream ?t = Some st" using Suc.prems(1) by (simp add: begin_poll_def)
  note result = continue_read_result [OF assms(1) this, of env "Some v"]
  have step: "sftp_step ops env (begin_poll s) (Some v) = Some (True, ?s', Some v)"
    using Suc.prems(1,3,6,8) by (rule data_round)
  have frame: "sf_input ?s' = []" "sf_skip ?s' = 0" "sf_write_stream ?s' = None" "sf_resize ?s' = None"
    using Suc.prems by (simp_all add: continue_read_frame begin_poll_def)
  show ?case
  proof (cases "sf_fatal ?s'")
    case True
    then show ?thesis by (simp add: no_more_to_send step Let_def whole_answer_def consume_output_def)
  next
    case False
    with result obtain ds where ds: "ds \<noteq> []" "length ds \<le> rs_remaining st" "sf_out ?s' = ds"
      "sf_read_stream ?s' = (if length ds < rs_remaining st
         then Some (st\<lparr>rs_offset := rs_offset st + length ds, rs_remaining := rs_remaining st - length ds\<rparr>) else None)"
      using Suc.prems(3) by (auto simp: begin_poll_def)
    let ?c = "consume_output (length ds) ?s'"
    have c: "sf_out ?c = []" "sf_input ?c = []" "sf_write_stream ?c = None" "sf_resize ?c = None" "sf_skip ?c = 0"
      "\<not> sf_fatal ?c" "sf_read_stream ?c = sf_read_stream ?s'"
      using frame False ds(3) by (simp_all add: consume_output_def)
    show ?thesis
    proof (cases "length ds < rs_remaining st")
      case True
      let ?st = "st\<lparr>rs_offset := rs_offset st + length ds, rs_remaining := rs_remaining st - length ds\<rparr>"
      have "whole_answer True (client_rounds rounds ops env packet (length packet) (data_header 123 n @ (bs @ ds)) ?c (Some v))"
      proof (rule Suc.IH)
        show "sf_read_stream ?c = Some ?st" using c(7) ds(4) True by simp
        show "length (bs @ ds) + rs_remaining ?st = n" "rs_remaining ?st \<le> rounds" "0 < rs_remaining ?st"
          using Suc.prems(9,11) True ds(1) by (cases ds; simp)+
      qed (use c Suc.prems(10) in simp_all)
      moreover have "\<not> reply_done (data_header 123 n @ (bs @ ds))"
        using Suc.prems(9,10) True by (simp add: reply_done_data)
      ultimately show ?thesis using False by (simp add: no_more_to_send step Let_def ds(3) c(6))
    next
      case done': False
      then have "length (bs @ ds) = n" using ds(2) Suc.prems(9) by simp
      moreover have "at_rest ?c" using c ds(4) done' by (simp add: at_rest_def idle_def begin_poll_def)
      moreover have "reply_done (data_header 123 n @ bs @ ds)"
        using reply_done_data [of n 123 "bs @ ds"] Suc.prems(10) calculation(1) by simp
      moreover have "\<exists>k p. data_header 123 n @ bs @ ds = frame k (put_u32 123 @ p)"
        using data_is_frame [OF calculation(1), of 123] by auto
      ultimately show ?thesis by (simp add: no_more_to_send step Let_def ds(3) c(6) whole_answer_def)
    qed
  qed
qed simp


text \<open>The rounds in which the packet arrives.\<close>

lemma packet_arrives:
  assumes "fat_limits ops" "kind < 256" "kind \<notin> {fxp_init, fxp_write, fxp_setstat, fxp_fsetstat}"
    and "5 + length args \<le> max_request" "idle s" "sf_input s = frame kind (put_u32 123 @ args)"
  shows "\<exists>s' v'. sftp_step ops env s (Some v) = Some (True, s', Some v') \<and> sf_input s' = [] \<and> sf_write_stream s' = None
    \<and> sf_resize s' = None \<and> sf_skip s' = 0 \<and> \<not> sf_fatal s'
    \<and> ((\<exists>k p. length p \<le> io_chunk \<and> sf_out s' = frame k (put_u32 123 @ p) \<and> sf_read_stream s' = None)
      \<or> kind = fxp_read \<and> (\<exists>n st. 0 < n \<and> n \<le> max_read_reply \<and> sf_out s' = data_header 123 n
          \<and> sf_read_stream s' = Some st \<and> rs_remaining st = n))"
proof -
  let ?t = "taken_off s []"
  have input: "sf_input s = frame kind (put_u32 123 @ args) @ []" by (simp add: assms(6))
  have other: "kind \<notin> {fxp_init, fxp_write}" using assms(3) by blast
  from request_with_card [OF input assms(5) _ assms(2) other assms(4,1), of env v] obtain s' v' where s':
    "sftp_step ops env s (Some v) = Some (True, s', Some v')" "kept ?t s'"
    "complete_reply 123 ?t s' \<or> data_started 123 ?t s' \<or> resize_started 123 ?t s'"
    "case handle_request ops env kind 123 args ?t v of
       (res, t, _) \<Rightarrow> sf_read_stream s' = sf_read_stream t \<and> sf_resize s' = sf_resize t" by auto
  have rest: "sf_out ?t = []" "sf_read_stream ?t = None" "sf_resize ?t = None"
    using assms(5) by (simp_all add: idle_def)
  have "no_transfer ?t (handle_request ops env kind 123 args ?t v)" if "kind \<noteq> fxp_read"
    using that assms(3) by (intro handle_request_transfer) auto
  with s'(4) rest have streams: "kind \<noteq> fxp_read \<Longrightarrow> sf_read_stream s' = None \<and> sf_resize s' = None"
    by (auto simp: no_transfer_def split: prod.splits)
  have "handle_request ops env fxp_read 123 args ?t v = sftp_read ops 123 args ?t v"
    by (simp add: handle_request_def fxp_defs)
  with s'(4) read_no_resize [of ops 123 args ?t v] rest streams have "sf_resize s' = None"
    by (cases "kind = fxp_read") (auto split: prod.splits)
  with s'(1-3) streams rest assms(5) show ?thesis
    by (auto simp: idle_def kept_def complete_reply_def data_started_def resize_started_def)
qed

text \<open>The round that completes the packet, and what follows it.\<close>

lemma answer_follows:
  assumes "fat_limits ops" "kind < 256" "kind \<notin> {fxp_init, fxp_write, fxp_setstat, fxp_fsetstat}"
    and "5 + length args \<le> max_request" "idle s" "sf_input s = frame kind (put_u32 123 @ args)"
    and "max_read_reply \<le> rounds"
  shows "\<exists>s' v' c. sftp_step ops env s (Some v) = Some (True, s', Some v') \<and> \<not> sf_fatal c
    \<and> c = consume_output (length (sf_out s')) s'
    \<and> whole_answer (kind = fxp_read) (if reply_done (sf_out s') then Replied (sf_out s') c (Some v')
         else client_rounds rounds ops env packet (length packet) (sf_out s') c (Some v'))"
proof -
  from packet_arrives [OF assms(1-6), of env v] obtain s' v' where s':
    "sftp_step ops env s (Some v) = Some (True, s', Some v')" "sf_input s' = []" "sf_write_stream s' = None"
    "sf_resize s' = None" "sf_skip s' = 0" "\<not> sf_fatal s'"
    "(\<exists>k p. length p \<le> io_chunk \<and> sf_out s' = frame k (put_u32 123 @ p) \<and> sf_read_stream s' = None)
    \<or> kind = fxp_read \<and> (\<exists>n st. 0 < n \<and> n \<le> max_read_reply \<and> sf_out s' = data_header 123 n
        \<and> sf_read_stream s' = Some st \<and> rs_remaining st = n)" by blast
  let ?c = "consume_output (length (sf_out s')) s'"
  have c: "sf_out ?c = []" "sf_input ?c = []" "sf_write_stream ?c = None" "sf_resize ?c = None" "sf_skip ?c = 0"
    "\<not> sf_fatal ?c" "sf_read_stream ?c = sf_read_stream s'"
    using s'(2-6) by (simp_all add: consume_output_def)
  have "whole_answer (kind = fxp_read) (if reply_done (sf_out s') then Replied (sf_out s') ?c (Some v')
      else client_rounds rounds ops env packet (length packet) (sf_out s') ?c (Some v'))"
    using s'(7)
  proof (elim disjE exE conjE)
    fix k q assume "length q \<le> io_chunk" and out: "sf_out s' = frame k (put_u32 123 @ q)" "sf_read_stream s' = None"
    then have "reply_done (sf_out s')" by (simp add: reply_done_frame limit_defs)
    moreover have "at_rest ?c" using c out(2) by (simp add: at_rest_def idle_def begin_poll_def)
    ultimately show ?thesis using out(1) by (auto simp: whole_answer_def)
  next
    fix n st assume d: "kind = fxp_read" "0 < n" "n \<le> max_read_reply" "sf_out s' = data_header 123 n"
      "sf_read_stream s' = Some st" "rs_remaining st = n"
    have "\<not> reply_done (sf_out s')" using d(2,3) reply_done_data [of n 123 "[]"] by (simp add: d(4))
    moreover have "whole_answer True (client_rounds rounds ops env packet (length packet) (data_header 123 n @ []) ?c (Some v'))"
      by (rule client_gets_data) (use assms(1,7) c d in \<open>auto simp: fat_limits_def\<close>)
    ultimately show ?thesis using d(1,4) by simp
  qed
  with s'(1) c(6) show ?thesis by blast
qed

lemma client_sends_packet:
  assumes "fat_limits ops" "kind < 256" "kind \<notin> {fxp_init, fxp_write, fxp_setstat, fxp_fsetstat}"
    and "5 + length args \<le> max_request" and p: "packet = frame kind (put_u32 123 @ args)"
    and "idle (begin_poll s)" "sf_input s = take sent packet" "sent < length packet"
    and "length packet - sent + max_read_reply \<le> rounds"
  shows "whole_answer (kind = fxp_read) (client_rounds rounds ops env packet sent [] s (Some v))"
  using assms(6-)
proof (induction rounds arbitrary: s sent)
  case (Suc rounds)
  let ?n = "min (min (input_space s) (length packet - sent)) 997"
  let ?s = "begin_poll (feed (slice_of sent ?n packet) s)"
  have size: "length packet = 9 + length args" by (simp add: p)
  have n: "0 < ?n" "sent + ?n \<le> length packet"
    using Suc.prems(2,3) assms(4) size by (auto simp: input_space_def limit_defs)
  have idle: "idle ?s" using Suc.prems(1) by (simp add: idle_feed)
  have input: "sf_input ?s = take (sent + ?n) packet"
    using Suc.prems(2) by (simp add: begin_poll_def feed_def slice_of_def take_add)
  show ?case
  proof (cases "sent + ?n < length packet")
    case True
    have nowrite: "kind \<noteq> fxp_write" using assms(3) by blast
    have step: "sftp_step ops env ?s (Some v) = Some (False, ?s, Some v)"
    proof (rule partial_packet_waits [OF idle _ _ assms(2) nowrite assms(4)])
      show "sf_input ?s = take (sent + ?n) (frame kind (put_u32 123 @ args))" by (subst p [symmetric]) (rule input)
      show "sent + ?n < 9 + length args" using True size by simp
    qed
    have out: "sf_out ?s = []" "\<not> sf_fatal ?s" "consume_output 0 ?s = ?s"
      using idle by (simp_all add: idle_def consume_output_def)
    have "whole_answer (kind = fxp_read) (client_rounds rounds ops env packet (sent + ?n) [] ?s (Some v))"
    proof (rule Suc.IH)
      show "idle (begin_poll ?s)" using idle by (simp add: begin_poll_def)
    qed (use input True n Suc.prems(4) in auto)
    then show ?thesis by (simp only: client_rounds.simps Let_def step option.case prod.case out append_Nil list.size)
        (simp add: reply_done_def out)
  next
    case False
    with n(2) have all: "sent + ?n = length packet" by simp
    with input have "sf_input ?s = frame kind (put_u32 123 @ args)" by (simp add: p)
    moreover have "max_read_reply \<le> rounds" using Suc.prems(3,4) by linarith
    ultimately obtain s' v' c where s':
      "sftp_step ops env ?s (Some v) = Some (True, s', Some v')" "\<not> sf_fatal c" "consume_output (length (sf_out s')) s' = c"
      "whole_answer (kind = fxp_read) (if reply_done (sf_out s') then Replied (sf_out s') c (Some v')
         else client_rounds rounds ops env packet (length packet) (sf_out s') c (Some v'))"
      using answer_follows [OF assms(1-4) idle, of rounds env v packet] by metis
    then show ?thesis
      by (simp only: client_rounds.simps Let_def option.case prod.case append_Nil all) (simp split: if_splits)
  qed
qed (simp add: limit_defs)

text \<open>Client and server together: a request that arrives at a server at rest, in fragments and with as
  many polls as the client likes to wait, is answered by one whole reply under its own number, after
  which the server is at rest again, so a next request finds the same.  Only a READ can end
  otherwise: its session dies when the card fails in the middle of the data.  The client's limit of
  100000 polls is never reached, and none of its assertions fails.\<close>

theorem client_requests_are_answered:
  assumes "fat_limits ops" and "at_rest s" and "kind < 256" and "5 + length body \<le> max_request"
    and "kind \<notin> {fxp_init, fxp_write, fxp_setstat, fxp_fsetstat}"
  shows "case client_request ops env kind body s v of
      Replied bs s' vol' \<Rightarrow> (\<exists>reply_kind payload. bs = frame reply_kind (put_u32 123 @ payload))
        \<and> at_rest s' \<and> vol' \<noteq> None
    | Server_Fatal \<Rightarrow> kind = fxp_read
    | _ \<Rightarrow> False"
proof -
  have "whole_answer (kind = fxp_read) (client_rounds 100000 ops env (client_packet kind body) 0 [] s (Some v))"
    by (rule client_sends_packet [OF assms(1,3,5,4) client_packet_eq])
      (use assms(2,4) in \<open>auto simp: at_rest_def client_packet_eq limit_defs\<close>)
  then show ?thesis by (simp add: client_request_def whole_answer_def)
qed

text \<open>A client asks a fresh server for the path of its directory.\<close>

theorem client_requests_are_answered_witness:
  "case client_request sample_ops sample_env fxp_realpath (put_string (to_bytes ''.'')) (sftp_new :: unit sftp) () of
     Replied bs s' vol' \<Rightarrow> (\<exists>k p. bs = frame k (put_u32 123 @ p)) \<and> at_rest s'
   | _ \<Rightarrow> False"
proof -
  have "at_rest (sftp_new :: unit sftp)" by (simp add: at_rest_def idle_def begin_poll_def sftp_new_def)
  from client_requests_are_answered [OF sample_limits this, of fxp_realpath "put_string (to_bytes ''.'')" sample_env "()"]
  show ?thesis by (simp add: fxp_defs limit_defs split: client_end.splits)
qed

end
