(* ===== verification/Image_Build.thy ===== *)
theory Image_Build
  imports Rat_Text
begin

text \<open>
  The build task of \<open>xtask/src/main.rs\<close>: it builds the firmware, merges it into one flash image and checks
  the headers of the image, because a wrong flash mode is found by the boot loader only.  The commands
  are the operating system's; \<open>build_world\<close> says how each, run in a directory, ends and which file is there
  afterwards.
\<close>

subsection \<open>The world\<close>

datatype command_end = Not_Started | Exit_Status bool

datatype build_error = Unknown_Command string | No_Repository_Root | Failed_To_Start string | Command_Failed string
  | Cannot_Open | Cannot_Read nat | Invalid_Header nat bytes bytes | Cannot_Inspect

record build_world =
  bw_args :: "string list"
  bw_root :: "string option"
  bw_features :: "string option"
  bw_run :: "string \<Rightarrow> string list \<Rightarrow> command_end"
  bw_image :: "bytes option"
  bw_image_len :: "nat option"

subsection \<open>The task\<close>

definition image_target :: string where "image_target = ''xtensa-esp32s3-none-elf''"
definition image_firmware :: string where "image_firmware = ''ratputer-rs''"
definition image_output :: string where "image_output = ''ratputer-adv.bin''"

definition run_build_command :: "build_world \<Rightarrow> string \<Rightarrow> string list \<Rightarrow> string \<Rightarrow> build_error option" where
  "run_build_command bw directory command description = (case bw_run bw directory command of
     Not_Started \<Rightarrow> Some (Failed_To_Start description)
   | Exit_Status success \<Rightarrow> if success then None else Some (Command_Failed description))"

definition expected_headers :: "(nat \<times> bytes) list" where
  "expected_headers = [(0, [0xE9]), (0x0002, [0x02]), (0x8000, [0xAA, 0x50]), (0x10000, [0xE9]), (0x10002, [0x02])]"

primrec check_headers :: "bytes \<Rightarrow> (nat \<times> bytes) list \<Rightarrow> build_error option" where
  "check_headers img [] = None"
| "check_headers img (e # es) = (case e of (offset, expected) \<Rightarrow>
     if length img < offset + length expected then Some (Cannot_Read offset)
     else
       let actual = slice_of offset (length expected) img in
       if actual \<noteq> expected then Some (Invalid_Header offset expected actual)
       else check_headers img es)"

definition verify_headers :: "bytes option \<Rightarrow> build_error option" where
  "verify_headers img = (case img of None \<Rightarrow> Some Cannot_Open | Some bs \<Rightarrow> check_headers bs expected_headers)"

definition cargo_command :: "string option \<Rightarrow> string list" where
  "cargo_command features = [''cargo'', ''build'', ''--release'']
     @ (case features of Some f \<Rightarrow> if trim f \<noteq> [] then [''--features'', f] else [] | None \<Rightarrow> [])"

definition espflash_command :: "string \<Rightarrow> string list" where
  "espflash_command root =
    [''espflash'', ''save-image'', ''--chip'', ''esp32s3'', ''--merge'', ''--skip-padding'', ''--flash-size'', ''8mb'',
     ''--flash-mode'', ''dio'', ''--flash-freq'', ''80mhz'',
     root @ ''/target/'' @ image_target @ ''/release/'' @ image_firmware, root @ ''/'' @ image_output]"

definition run_build :: "build_world \<Rightarrow> build_error + nat" where
  "run_build bw =
    (let command = (case drop 1 (bw_args bw) of c # _ \<Rightarrow> c | [] \<Rightarrow> ''build'') in
     if command \<noteq> ''build'' then Inl (Unknown_Command command)
     else case bw_root bw of
       None \<Rightarrow> Inl No_Repository_Root
     | Some root \<Rightarrow>
       (case run_build_command bw root (cargo_command (bw_features bw)) ''firmware build'' of
          Some e \<Rightarrow> Inl e
        | None \<Rightarrow>
          (case run_build_command bw root (espflash_command root) ''merged image generation'' of
             Some e \<Rightarrow> Inl e
           | None \<Rightarrow>
             (case verify_headers (bw_image bw) of
                Some e \<Rightarrow> Inl e
              | None \<Rightarrow> (case bw_image_len bw of None \<Rightarrow> Inl Cannot_Inspect | Some n \<Rightarrow> Inr n)))))"

definition exit_success :: "build_world \<Rightarrow> bool" where
  "exit_success bw \<longleftrightarrow> (case run_build bw of Inl _ \<Rightarrow> False | Inr _ \<Rightarrow> True)"

subsection \<open>What a success means\<close>

lemma check_headers_None:
  "check_headers img es = None
    \<longleftrightarrow> (\<forall>(offset, expected) \<in> set es. offset + length expected \<le> length img \<and> slice_of offset (length expected) img = expected)"
proof (induction es)
  case (Cons e es)
  then show ?case by (cases e) (auto simp: Let_def not_less split: if_splits)
qed simp

text \<open>A build that exits with success has built the firmware and written an image whose boot and application
  headers are those of a DIO image and whose partition table is in its place.\<close>

lemma successful_builds_boot:
  assumes "exit_success bw"
  shows "\<exists>img. bw_image bw = Some img \<and> 0x10003 \<le> length img
    \<and> slice_of 0 1 img = [0xE9] \<and> slice_of 2 1 img = [0x02] \<and> slice_of 0x8000 2 img = [0xAA, 0x50]
    \<and> slice_of 0x10000 1 img = [0xE9] \<and> slice_of 0x10002 1 img = [0x02]
    \<and> (\<exists>root. bw_root bw = Some root \<and> bw_run bw root (cargo_command (bw_features bw)) = Exit_Status True)"
proof -
  obtain img root where "bw_image bw = Some img" "check_headers img expected_headers = None"
    "bw_root bw = Some root" "bw_run bw root (cargo_command (bw_features bw)) = Exit_Status True"
    using assms
    by (auto simp: exit_success_def run_build_def run_build_command_def verify_headers_def Let_def
        split: if_splits option.splits command_end.splits list.splits)
  moreover have "\<forall>(offset, expected) \<in> set expected_headers.
      offset + length expected \<le> length img \<and> slice_of offset (length expected) img = expected"
    using calculation(2) by (simp only: check_headers_None)
  ultimately show ?thesis by (auto simp: expected_headers_def numeral_2_eq_2)
qed

end
