(* ===== verification/Sftp_Transfers.thy ===== *)
theory Sftp_Transfers
  imports Sftp_Steps
begin

text \<open>
  The transfers of the SFTP server over many polls: a \<open>DATA\<close> reply carries the bytes of the file
  it was asked for or ends the session, and a \<open>WRITE\<close> that is acknowledged has stored its whole
  payload.  The documented behaviour of the library's readers and writers is a hypothesis about the
  operations of the volume, for one file.
\<close>

subsection \<open>Reading\<close>

text \<open>\<open>pos r\<close> is the offset of a reader or cursor of the file, \<open>None\<close> for any other handle.\<close>

definition reader_contract ::
  "('v, 'h) fat_ops \<Rightarrow> 'v \<Rightarrow> 'h file_entry \<Rightarrow> bytes \<Rightarrow> ('h \<Rightarrow> nat option) \<Rightarrow> bool" where
  "reader_contract ops vol entry data pos \<longleftrightarrow>
    (\<forall>r. reader_new ops vol entry = Some r \<longrightarrow> pos r = Some 0)
    \<and> (\<forall>c r k. reader_from_cursor ops vol entry c = Some r \<longrightarrow> pos c = Some k \<longrightarrow> pos r = Some k)
    \<and> (\<forall>r r' n. pos r \<noteq> None \<longrightarrow> reader_seek ops vol r n = Some r' \<longrightarrow> pos r' = Some n)
    \<and> (\<forall>r r' n k bs. pos r = Some k \<longrightarrow> reader_read ops vol r n = Some (bs, r') \<longrightarrow>
         length bs \<le> n \<and> bs = slice_of k (length bs) data \<and> pos r' = Some (k + length bs))
    \<and> (\<forall>r k. pos r = Some k \<longrightarrow> pos (reader_cursor ops r) = Some k)"

definition cursor_ok :: "('h \<Rightarrow> nat option) \<Rightarrow> 'h file_handle \<Rightarrow> bool" where
  "cursor_ok pos f \<longleftrightarrow> (\<forall>k c. fh_read_at f = Some (k, c) \<longrightarrow> pos c = Some k)"

lemma reader_contractD:
  assumes "reader_contract ops vol entry data pos"
  shows "reader_new ops vol entry = Some r \<Longrightarrow> pos r = Some 0"
    and "reader_from_cursor ops vol entry c = Some r \<Longrightarrow> pos c = Some k \<Longrightarrow> pos r = Some k"
    and "pos r = Some j \<Longrightarrow> reader_seek ops vol r n = Some r' \<Longrightarrow> pos r' = Some n"
    and "pos r = Some k \<Longrightarrow> reader_read ops vol r n = Some (bs, r') \<Longrightarrow>
      length bs \<le> n \<and> bs = slice_of k (length bs) data \<and> pos r' = Some (k + length bs)"
    and "pos r = Some k \<Longrightarrow> pos (reader_cursor ops r) = Some k"
  using assms unfolding reader_contract_def by (blast, blast, blast, blast, blast)

lemma seek_reader_pos:
  assumes "reader_contract ops vol entry data pos" "cursor_ok pos f"
    and "seek_reader ops vol entry (fh_read_at f) offset = Some r"
  shows "pos r = Some offset"
proof -
  have fresh: "pos r = Some offset" if "Option.bind (reader_new ops vol entry) (\<lambda>r. reader_seek ops vol r offset) = Some r"
  proof -
    from that obtain q where q: "reader_new ops vol entry = Some q" "reader_seek ops vol q offset = Some r"
      by (cases "reader_new ops vol entry") simp_all
    show ?thesis by (rule reader_contractD(3) [OF assms(1) reader_contractD(1) [OF assms(1) q(1)] q(2)])
  qed
  show ?thesis
  proof (cases "fh_read_at f")
    case None
    then show ?thesis using assms(3) fresh by (simp add: seek_reader_def)
  next
    case (Some kc)
    obtain k c where kc: "kc = (k, c)" by (cases kc)
    show ?thesis
    proof (cases "k = offset")
      case True
      then have "reader_from_cursor ops vol entry c = Some r" "pos c = Some offset"
        using assms(2,3) Some kc by (simp_all add: seek_reader_def cursor_ok_def)
      then show ?thesis by (rule reader_contractD(2) [OF assms(1)])
    next
      case False
      then show ?thesis using assms(3) fresh Some kc by (simp add: seek_reader_def)
    qed
  qed
qed

lemma read_chunk_contents:
  assumes "reader_contract ops vol entry data pos" "cursor_ok pos f"
    and "find_in ops vol (fh_parent f) (fh_leaf f) = Some (entry, d)"
    and "read_chunk ops vol f offset count = (r, f')"
  shows "cursor_ok pos f' \<and> fh_parent f' = fh_parent f \<and> fh_leaf f' = fh_leaf f
    \<and> (\<forall>bs. r = Some bs \<longrightarrow> length bs \<le> count \<and> bs = slice_of offset (length bs) data)"
proof (cases "seek_reader ops vol entry (fh_read_at f) offset")
  case None
  then show ?thesis using assms(3,4) by (auto simp: read_chunk_def cursor_ok_def)
next
  case (Some h)
  have h: "pos h = Some offset" by (rule seek_reader_pos [OF assms(1,2) Some])
  show ?thesis
  proof (cases "reader_read ops vol h count")
    case None
    then show ?thesis using assms(3,4) Some by (auto simp: read_chunk_def cursor_ok_def)
  next
    case (Some q)
    obtain bs h' where q: "q = (bs, h')" by (cases q)
    have bs: "length bs \<le> count" "bs = slice_of offset (length bs) data"
      and h': "pos (reader_cursor ops h') = Some (offset + length bs)"
      using reader_contractD(4) [OF assms(1) h Some [unfolded q]] reader_contractD(5) [OF assms(1)] by blast+
    from assms(3,4) Some q \<open>seek_reader ops vol entry (fh_read_at f) offset = Some h\<close>
    have "r = Some bs" "f' = f\<lparr>fh_read_at := Some (offset + length bs, reader_cursor ops h')\<rparr>"
      by (simp_all add: read_chunk_def)
    with bs h' show ?thesis by (simp add: cursor_ok_def)
  qed
qed

text \<open>A session that is sending a \<open>DATA\<close> reply from a file.\<close>

definition sending ::
  "('v, 'h) fat_ops \<Rightarrow> 'v \<Rightarrow> 'h file_entry \<Rightarrow> ('h \<Rightarrow> nat option) \<Rightarrow> read_stream \<Rightarrow> 'h sftp \<Rightarrow> bool" where
  "sending ops vol entry pos st s \<longleftrightarrow> sf_read_stream s = Some st \<and> sf_resize s = None \<and> sf_out s = []
     \<and> \<not> sf_fatal s \<and> rs_slot st < length (sf_handles s)
     \<and> (\<exists>f d. sf_handles s ! rs_slot st = Some (File f) \<and> cursor_ok pos f
          \<and> find_in ops vol (fh_parent f) (fh_leaf f) = Some (entry, d))"

text \<open>Poll, step, send everything: until the reply is complete or the session is over.\<close>

primrec send_rounds ::
  "('v, 'h) fat_ops \<Rightarrow> sftp_env \<Rightarrow> 'v option \<Rightarrow> nat \<Rightarrow> 'h sftp \<Rightarrow> bytes \<times> 'h sftp" where
  "send_rounds ops env vol 0 s = ([], s)"
| "send_rounds ops env vol (Suc n) s =
    (if sf_read_stream s = None \<or> sf_fatal s then ([], s)
     else (case sftp_step ops env (begin_poll s) vol of
       None \<Rightarrow> ([], s)
     | Some (_, s, _) \<Rightarrow>
        (case send_rounds ops env vol n (consume_output (length (sf_out s)) s) of
           (bs, s') \<Rightarrow> (sf_out s @ bs, s'))))"

lemma sending_step:
  assumes contract: "reader_contract ops vol entry data pos" and send: "sending ops vol entry pos st s"
    and remaining: "0 < rs_remaining st"
  shows "\<exists>s'. sftp_step ops env (begin_poll s) (Some vol) = Some (True, s', Some vol)
    \<and> (sf_fatal s' \<or> (\<exists>n. 0 < n \<and> n \<le> rs_remaining st \<and> sf_out s' = slice_of (rs_offset st) n data
         \<and> length (sf_out s') = n
         \<and> (if n < rs_remaining st
            then sending ops vol entry pos (st\<lparr>rs_offset := rs_offset st + n, rs_remaining := rs_remaining st - n\<rparr>)
                   (consume_output (length (sf_out s')) s')
            else sf_read_stream s' = None \<and> \<not> sf_fatal s')))"
proof -
  from send obtain f d where f: "sf_handles s ! rs_slot st = Some (File f)" "cursor_ok pos f"
    "find_in ops vol (fh_parent f) (fh_leaf f) = Some (entry, d)" and slot: "rs_slot st < length (sf_handles s)"
    and s: "sf_read_stream s = Some st" "sf_resize s = None" "sf_out s = []" "\<not> sf_fatal s"
    unfolding sending_def by blast
  define count where "count = min (rs_remaining st) io_chunk"
  obtain r f' where rc: "read_chunk ops vol f (rs_offset st) count = (r, f')" by (metis prod.exhaust)
  note c = read_chunk_contents [OF contract f(2,3) rc]
  have step: "sftp_step ops env (begin_poll s) (Some vol)
      = Some (True, continue_read ops env (s\<lparr>sf_card_budget := False\<rparr>) (Some vol), Some vol)"
    using s by (simp add: sftp_step_def begin_poll_def)
  show ?thesis
  proof (cases "\<exists>bs. r = Some bs \<and> bs \<noteq> []")
    case False
    then have "sf_fatal (continue_read ops env (s\<lparr>sf_card_budget := False\<rparr>) (Some vol))"
      using rc by (auto simp: continue_read_def s(1) read_for_stream_def f(1) count_def split: option.split)
    with step show ?thesis by blast
  next
    case True
    then obtain bs where r: "r = Some bs" "bs \<noteq> []" by blast
    let ?s' = "continue_read ops env (s\<lparr>sf_card_budget := False\<rparr>) (Some vol)"
    have bs: "length bs \<le> rs_remaining st" "bs = slice_of (rs_offset st) (length bs) data"
      using c r(1) by (auto simp: count_def)
    have fields: "sf_out ?s' = bs" "sf_resize ?s' = None" "\<not> sf_fatal ?s'"
      "sf_handles ?s' = (sf_handles s)[rs_slot st := Some (File f')]"
      "sf_read_stream ?s' = (if length bs < rs_remaining st
         then Some (st\<lparr>rs_offset := rs_offset st + length bs, rs_remaining := rs_remaining st - length bs\<rparr>)
         else None)"
      using rc r s by (simp_all add: continue_read_def read_for_stream_def f(1) count_def set_file_def Let_def)
    have "sending ops vol entry pos (st\<lparr>rs_offset := rs_offset st + length bs,
        rs_remaining := rs_remaining st - length bs\<rparr>) (consume_output (length (sf_out ?s')) ?s')"
      if "length bs < rs_remaining st"
      using that fields slot c f(3) by (simp add: sending_def consume_output_def)
    with fields bs r(2) step show ?thesis
      by (intro exI [of _ ?s'] conjI disjI2 exI [of _ "length bs"]) auto
  qed
qed

lemma sending_cases:
  assumes "reader_contract ops vol entry data pos" "sending ops vol entry pos st s" "0 < rs_remaining st"
  obtains (dead) t where "sftp_step ops env (begin_poll s) (Some vol) = Some (True, t, Some vol)" "sf_fatal t"
  | (whole) t where "sftp_step ops env (begin_poll s) (Some vol) = Some (True, t, Some vol)" "\<not> sf_fatal t"
      "sf_out t = slice_of (rs_offset st) (rs_remaining st) data" "length (sf_out t) = rs_remaining st"
      "sf_read_stream t = None"
  | (part) t k where "sftp_step ops env (begin_poll s) (Some vol) = Some (True, t, Some vol)"
      "0 < k" "k < rs_remaining st" "sf_out t = slice_of (rs_offset st) k data" "length (sf_out t) = k"
      "sending ops vol entry pos (st\<lparr>rs_offset := rs_offset st + k, rs_remaining := rs_remaining st - k\<rparr>)
         (consume_output (length (sf_out t)) t)"
  using sending_step [OF assms, of env] by (metis le_neq_implies_less)

lemma send_rounds_stop:
  "sf_fatal t \<or> sf_read_stream t = None \<Longrightarrow>
    send_rounds ops env vol n (consume_output k t) = ([], consume_output k t)"
  by (cases n) (auto simp: consume_output_def)

text \<open>C2: After the header of a \<open>DATA\<close> reply, the polls that follow send exactly the promised
  bytes of the file, from the promised offset, or end the session; at most one poll per byte.\<close>

theorem data_replies_carry_the_file:
  assumes "reader_contract ops vol entry data pos" and "sending ops vol entry pos st s"
    and "0 < rs_remaining st" and "rs_remaining st \<le> rounds"
    and "send_rounds ops env (Some vol) rounds s = (bs, s')"
  shows "sf_fatal s' \<or> (bs = slice_of (rs_offset st) (rs_remaining st) data
    \<and> length bs = rs_remaining st \<and> sf_read_stream s' = None)"
  using assms
proof (induction rounds arbitrary: st s bs)
  case (Suc n)
  have active: "sf_read_stream s = Some st" "\<not> sf_fatal s" using Suc.prems(2) by (simp_all add: sending_def)
  from Suc.prems(1-3) show ?case
  proof (cases rule: sending_cases [where env = env])
    case (dead t)
    with Suc.prems(5) active show ?thesis by (simp add: send_rounds_stop) (auto simp: consume_output_def)
  next
    case (whole t)
    with Suc.prems(5) active show ?thesis by (simp add: send_rounds_stop) (auto simp: consume_output_def)
  next
    case (part t k)
    let ?st = "st\<lparr>rs_offset := rs_offset st + k, rs_remaining := rs_remaining st - k\<rparr>"
    let ?u = "consume_output (length (sf_out t)) t"
    obtain bs2 where r: "send_rounds ops env (Some vol) n ?u = (bs2, s')" "bs = sf_out t @ bs2"
      using Suc.prems(5) active part(1) by (auto split: prod.splits)
    have "sf_fatal s' \<or> (bs2 = slice_of (rs_offset ?st) (rs_remaining ?st) data
        \<and> length bs2 = rs_remaining ?st \<and> sf_read_stream s' = None)"
      by (rule Suc.IH [OF Suc.prems(1) part(6) _ _ r(1)]) (use part(2,3) Suc.prems(4) in auto)
    then show ?thesis
      using r(2) part(2-5) slice_of_add [of "rs_offset st" k "rs_remaining st - k" data] by auto
  qed
qed simp

subsection \<open>A volume of one file\<close>

text \<open>The volume is the contents of its one file, a handle is an offset: an instance of the
  contracts of this theory.\<close>

definition one_entry :: "bytes \<Rightarrow> nat file_entry" where
  "one_entry data = \<lparr>fe_name = ''f'', fe_is_directory = False, fe_len = length data, fe_attributes = 0,
     fe_modified = fat_date_time_new 2026 1 1 0 0 0, fe_accessed = 0, fe_location = 0\<rparr>"

definition one_file_ops :: "(bytes, nat) fat_ops" where
  "one_file_ops = \<lparr>vol_root_dir = \<lambda>v. 0, dir_open = \<lambda>v d n. Some 0,
     dir_find = \<lambda>v d n. Some (Some (one_entry v)),
     dir_entries = \<lambda>v d. [], vol_create_file = \<lambda>v d n. (None, v), vol_create_dir = \<lambda>v d n. (Inr 0, v),
     vol_truncate = \<lambda>v e n. (True, take n v), vol_delete = \<lambda>v e. (None, v), vol_rename = \<lambda>v e d n. (None, v),
     vol_repair_dir = \<lambda>v e. (True, v), vol_set_times = \<lambda>v e m a. (True, v),
     vol_set_attributes = \<lambda>v e a. (True, v), vol_sync = \<lambda>v. (True, v), vol_free_clusters = \<lambda>v. Some 0,
     vol_max_cluster = \<lambda>v. 2, vol_cluster_size = \<lambda>v. 512, vol_volume_id = \<lambda>v. 0,
     reader_new = \<lambda>v e. Some 0, reader_from_cursor = \<lambda>v e c. Some c, reader_seek = \<lambda>v r n. Some n,
     reader_read = \<lambda>v r n. Some (take n (drop r v), r + length (take n (drop r v))),
     reader_cursor = \<lambda>r. r, writer_new = \<lambda>v e. (Some 0, []),
     writer_append = \<lambda>v e. (Some (length v), v), writer_append_from_cursor = \<lambda>v e c. (Some (length v), v),
     writer_at = \<lambda>v e n. (Some n, v), writer_write = \<lambda>v w b. (Some (length b, w + length b), splice_at w b v),
     writer_append_cursor = \<lambda>w. w, writer_finish = \<lambda>v w. (True, v), writer_drop = \<lambda>v w. v\<rparr>"

lemma one_file_reads: "reader_contract one_file_ops v e v Some"
  by (auto simp: reader_contract_def one_file_ops_def slice_of_def min_def)

lemma one_file_find: "find_in one_file_ops v p l = Some (one_entry v, 0)"
proof -
  have "walk_dirs one_file_ops v 0 p = Some 0"
    by (induction p) (simp_all add: one_file_ops_def)
  then show ?thesis by (simp add: find_in_def open_dir_path_def) (simp add: one_file_ops_def)
qed

definition plain_file :: "bool \<Rightarrow> 'h file_handle" where
  "plain_file append_mode = \<lparr>fh_parent = [], fh_leaf = ''f'', fh_readable = True, fh_writable = True,
     fh_append_mode = append_mode, fh_size = 0, fh_append = None, fh_read_at = None\<rparr>"

theorem data_replies_carry_the_file_witness:
  "\<exists>bs s'. send_rounds one_file_ops sample_env (Some [7, 8, 9]) 2
      ((sftp_new :: nat sftp)\<lparr>sf_handles := [Some (File (plain_file False))],
        sf_read_stream := Some \<lparr>rs_slot = 0, rs_offset = 1, rs_remaining = 2\<rparr>\<rparr>) = (bs, s')
    \<and> (sf_fatal s' \<or> bs = [8, 9])"
proof -
  let ?st = "\<lparr>rs_slot = 0, rs_offset = 1, rs_remaining = 2\<rparr>"
  let ?s = "(sftp_new :: nat sftp)\<lparr>sf_handles := [Some (File (plain_file False))], sf_read_stream := Some ?st\<rparr>"
  have s: "sending one_file_ops [7, 8, 9] (one_entry [7, 8, 9]) Some ?st ?s"
    by (simp add: sending_def sftp_new_def plain_file_def cursor_ok_def one_file_find)
  obtain bs s' where r: "send_rounds one_file_ops sample_env (Some [7, 8, 9]) 2 ?s = (bs, s')"
    by (metis prod.exhaust)
  from data_replies_carry_the_file [OF one_file_reads s _ _ r] show ?thesis
    using r by (auto simp: slice_of_def)
qed

subsection \<open>Writing\<close>

text \<open>What a write that the library reports complete has done, for the file of a path: \<open>content\<close>
  is its contents in a volume.\<close>

definition writer_contract ::
  "('v, 'h) fat_ops \<Rightarrow> string list \<Rightarrow> string \<Rightarrow> ('v \<Rightarrow> bytes) \<Rightarrow> bool" where
  "writer_contract ops parent leaf content \<longleftrightarrow>
    (\<forall>v e d. find_in ops v parent leaf = Some (e, d) \<longrightarrow> fe_len e = length (content v))
    \<and> (\<forall>v e d cursor k w v1 bs w' v2 v3.
         find_in ops v parent leaf = Some (e, d) \<longrightarrow> k \<le> length (content v) \<longrightarrow>
         open_writer ops v e cursor k = (Some w, v1) \<longrightarrow>
         writer_write ops v1 w bs = (Some (length bs, w'), v2) \<longrightarrow>
         writer_finish ops v2 w' = (True, v3) \<longrightarrow> content v3 = splice_at k bs (content v))"

lemma one_file_writes: "writer_contract one_file_ops p l (\<lambda>v. v)"
  by (auto simp: writer_contract_def one_file_find one_entry_def)
    (auto simp: open_writer_def one_file_ops_def one_entry_def split: if_splits option.splits)

lemma write_chunk_contents:
  assumes "writer_contract ops (fh_parent f) (fh_leaf f) content"
    and "write_chunk ops v f k bs = (None, f', v')"
  shows "k \<le> length (content v) \<and> content v' = splice_at k bs (content v)
    \<and> fh_parent f' = fh_parent f \<and> fh_leaf f' = fh_leaf f \<and> fh_append_mode f' = fh_append_mode f"
proof -
  from assms(2) obtain e d w v1 w' v2 where
    w: "find_in ops v (fh_parent f) (fh_leaf f) = Some (e, d)" "k \<le> fe_len e"
      "open_writer ops v e (if fh_size f \<noteq> fe_len e then None else fh_append f) k = (Some w, v1)"
      "writer_write ops v1 w bs = (Some (length bs, w'), v2)" "writer_finish ops v2 w' = (True, v')"
    and f': "fh_parent f' = fh_parent f" "fh_leaf f' = fh_leaf f" "fh_append_mode f' = fh_append_mode f"
    by (auto simp: write_chunk_def Let_def split: option.splits prod.splits if_splits bool.splits)
  from assms(1) w(1) have "fe_len e = length (content v)" unfolding writer_contract_def by blast
  with w(2) have k: "k \<le> length (content v)" by simp
  with assms(1) w have "content v' = splice_at k bs (content v)"
    unfolding writer_contract_def by blast
  with k f' show ?thesis by auto
qed

text \<open>The contents after a whole payload: appended, or at its offset with the gap zero-filled.\<close>

definition stored :: "bool \<Rightarrow> nat \<Rightarrow> bytes \<Rightarrow> bytes \<Rightarrow> bytes" where
  "stored append_mode k payload old =
    (if payload = [] then old
     else if append_mode then old @ payload
     else splice_at k payload (old @ replicate (k - length old) 0))"

lemma splice_at_end: "splice_at (length xs) ys xs = xs @ ys"
  by (simp add: splice_at_def)

lemma stored_append: "bs \<noteq> [] \<Longrightarrow>
  stored am (k + length bs) p (stored am k bs old) = stored am k (bs @ p) old"
proof (cases "p = [] \<or> am")
  case False
  assume "bs \<noteq> []"
  define padded where "padded = old @ replicate (k - length old) 0"
  have len: "k \<le> length padded" by (simp add: padded_def)
  have "k + length bs \<le> length (splice_at k bs padded)" using len by (simp add: splice_at_def)
  moreover have "splice_at (k + length bs) p (splice_at k bs padded) = splice_at k (bs @ p) padded"
    using len by (simp add: splice_at_def ac_simps)
  ultimately show ?thesis
    using False \<open>bs \<noteq> []\<close> by (simp add: stored_def padded_def [symmetric])
qed (auto simp: stored_def)

lemma stored_gap:
  "length old + n \<le> k \<Longrightarrow> stored False k p (old @ replicate n 0) = stored False k p old \<or> p = []"
proof -
  assume "length old + n \<le> k"
  then have "replicate n (0 :: u8) @ replicate (k - (length old + n)) 0 = replicate (k - length old) 0"
    by (simp add: replicate_add [symmetric])
  then show ?thesis by (simp add: stored_def)
qed

text \<open>A session that receives the payload of a \<open>WRITE\<close> for a file.\<close>

definition holds_file :: "string list \<Rightarrow> string \<Rightarrow> bool \<Rightarrow> nat \<Rightarrow> 'h sftp \<Rightarrow> bool" where
  "holds_file parent leaf am i s \<longleftrightarrow> i < length (sf_handles s)
     \<and> (\<exists>f. sf_handles s ! i = Some (File f) \<and> fh_parent f = parent \<and> fh_leaf f = leaf
          \<and> fh_append_mode f = am)"

definition receiving :: "string list \<Rightarrow> string \<Rightarrow> bool \<Rightarrow> write_stream \<Rightarrow> 'h sftp \<Rightarrow> bool" where
  "receiving parent leaf am st s \<longleftrightarrow> sf_write_stream s = Some st \<and> sf_read_stream s = None \<and> sf_resize s = None
     \<and> sf_out s = [] \<and> \<not> sf_fatal s \<and> holds_file parent leaf am (ws_slot st) s
     \<and> (\<forall>e. ws_failed st = Some e \<longrightarrow> proper_error e)"

lemma write_payload_contents:
  assumes contract: "writer_contract ops parent leaf content" and recv: "holds_file parent leaf am (ws_slot st) s"
    and f: "sf_handles s ! ws_slot st = Some (File f)" and count: "0 < count" "count \<le> length (sf_input s)"
    and ok: "ws_failed st = None" and res: "write_payload ops env st f count s v = (r, s', v')"
  shows "(\<exists>st' e. r = Inl st' \<and> ws_failed st' = Some e) \<or> (\<exists>e. r = Inr (Some e))
    \<or> (r = Inl st \<and> \<not> am \<and> (\<exists>n. 0 < n \<and> length (content v) + n \<le> ws_offset st
          \<and> content v' = content v @ replicate n 0))
    \<or> (r = Inr None \<and> content v' = stored am (ws_offset st) (take count (sf_input s)) (content v))"
proof -
  from recv f have path: "fh_parent f = parent" "fh_leaf f = leaf" "fh_append_mode f = am"
    by (auto simp: holds_file_def)
  show ?thesis
  proof (cases "find_in ops v parent leaf")
    case None
    with res path show ?thesis by (auto simp: write_payload_def)
  next
    case (Some ed)
    obtain e d where e: "find_in ops v parent leaf = Some (e, d)" using Some by (cases ed) auto
    have len: "fe_len e = length (content v)" using contract e unfolding writer_contract_def by blast
    define k where "k = (if am then length (content v) else ws_offset st)"
    note contract' = contract [folded path(1,2)]
    show ?thesis
    proof (cases "length (content v) < k")
      case True
      define n where "n = min (k - length (content v)) write_chunk_len"
      have gap: "\<not> am" "k = ws_offset st" "0 < n" "length (content v) + n \<le> ws_offset st"
        using True by (auto simp: k_def n_def write_chunk_len_def split: if_splits)
      obtain q f' v2 where w: "write_chunk ops v f (length (content v)) (replicate n 0) = (q, f', v2)"
        by (metis prod.exhaust)
      show ?thesis
      proof (cases q)
        case None
        from write_chunk_contents [OF contract' w [unfolded None]]
        have "content v2 = content v @ replicate n 0" by (simp add: splice_at_end)
        moreover have "r = Inl st" "v' = v2"
          using res e path len w None True by (auto simp: write_payload_def Let_def k_def n_def split: if_splits)
        ultimately show ?thesis using gap by blast
      next
        case (Some x)
        then have "r = Inl (st\<lparr>ws_failed := Some x\<rparr>)"
          using res e path len w True by (auto simp: write_payload_def Let_def k_def n_def split: if_splits)
        then show ?thesis by simp
      qed
    next
      case False
      obtain q f' v2 where w: "write_chunk ops v f k (take count (sf_input s)) = (q, f', v2)"
        by (metis prod.exhaust)
      have r: "r = Inr q" "v' = v2"
        using res e path len w False by (auto simp: write_payload_def Let_def k_def split: if_splits)
      show ?thesis
      proof (cases q)
        case None
        from write_chunk_contents [OF contract' w [unfolded None]]
        have "content v2 = splice_at k (take count (sf_input s)) (content v)" by simp
        moreover have "take count (sf_input s) \<noteq> []" using count by auto
        ultimately show ?thesis
          using r None False by (cases am) (simp_all add: stored_def k_def splice_at_end)
      qed (use r in simp)
    qed
  qed
qed

lemma write_chunk_path:
  "write_chunk ops v f k bs = (r, f', v') \<Longrightarrow>
    fh_parent f' = fh_parent f \<and> fh_leaf f' = fh_leaf f \<and> fh_append_mode f' = fh_append_mode f"
  by (auto simp: write_chunk_def Let_def split: option.splits prod.splits if_splits bool.splits)

lemma holds_set_file:
  "holds_file p l am i s \<Longrightarrow> sf_handles s ! i = Some (File f) \<Longrightarrow>
    fh_parent g = fh_parent f \<and> fh_leaf g = fh_leaf f \<and> fh_append_mode g = fh_append_mode f \<Longrightarrow>
    holds_file p l am i (count_card_write env (set_file i g s))"
  by (auto simp: holds_file_def set_file_def count_card_write_def)

lemma holds_written: "holds_file p l am i s \<Longrightarrow> holds_file p l am i (invalidate_written i s)"
proof -
  assume h: "holds_file p l am i s"
  then obtain f where f: "sf_handles s ! i = Some (File f)" "i < length (sf_handles s)"
    and path: "fh_parent f = p" "fh_leaf f = l" "fh_append_mode f = am" by (auto simp: holds_file_def)
  have "sf_handles (invalidate_written i s) =
      map (invalidate_other f) (take i (sf_handles s)) @ Some (File (f\<lparr>fh_read_at := None\<rparr>))
        # map (invalidate_other f) (drop (Suc i) (sf_handles s))"
    by (simp add: invalidate_written_def f(1))
  with f(2) path show ?thesis by (simp add: holds_file_def nth_append)
qed

lemma write_payload_holds:
  assumes "write_payload ops env st f count s v = (r, s', v')" "holds_file p l am (ws_slot st) s"
    and "sf_handles s ! ws_slot st = Some (File f)"
  shows "holds_file p l am (ws_slot st) s'"
proof -
  have put: "holds_file p l am (ws_slot st) (count_card_write env (set_file (ws_slot st) g s))"
    if "write_chunk ops v f k bs = (q, g, w)" for k bs q g w
    by (rule holds_set_file [OF assms(2,3) write_chunk_path [OF that]])
  show ?thesis
    using assms(1,2)
    by (auto simp: write_payload_def Let_def split: option.splits prod.splits if_splits
        intro: put holds_written)
qed

primrec write_rounds ::
  "('v, 'h) fat_ops \<Rightarrow> sftp_env \<Rightarrow> bytes list \<Rightarrow> 'h sftp \<Rightarrow> 'v option
    \<Rightarrow> ('h sftp \<times> 'v option \<times> bytes list) option" where
  "write_rounds ops env [] s vol = Some (s, vol, [])"
| "write_rounds ops env (bs # feeds) s vol =
    (if sf_write_stream s = None then Some (s, vol, bs # feeds)
     else (case sftp_step ops env (begin_poll (feed bs s)) vol of
       None \<Rightarrow> None
     | Some (_, s, vol) \<Rightarrow> write_rounds ops env feeds s vol))"

lemma receiving_poll: "receiving p l am st s \<Longrightarrow> receiving p l am st (begin_poll (feed bs s))"
  by (auto simp: receiving_def holds_file_def begin_poll_def feed_def)

lemma receiving_step:
  "receiving p l am st s \<Longrightarrow> sftp_step ops env s vol = Some (continue_write ops env s vol)"
  by (simp add: receiving_def sftp_step_def)

lemma holds_cong:
  "sf_handles t = sf_handles s \<Longrightarrow> holds_file p l am i t = holds_file p l am i s"
  by (simp add: holds_file_def)

text \<open>The end of a chunk: the answer, or the stream that waits for the rest.\<close>

text \<open>The session in the middle of a poll: the stream is taken out while a chunk is written.\<close>

definition taking :: "string list \<Rightarrow> string \<Rightarrow> bool \<Rightarrow> nat \<Rightarrow> 'h sftp \<Rightarrow> bool" where
  "taking parent leaf am slot s \<longleftrightarrow> sf_write_stream s = None \<and> sf_read_stream s = None \<and> sf_resize s = None
     \<and> sf_out s = [] \<and> \<not> sf_fatal s \<and> holds_file parent leaf am slot s"

lemma receivingD:
  assumes "receiving parent leaf am st s"
  shows "sf_write_stream s = Some st" "taking parent leaf am (ws_slot st) (s\<lparr>sf_write_stream := None\<rparr>)"
    "taking parent leaf am (ws_slot st) (s\<lparr>sf_write_stream := None, sf_card_budget := False\<rparr>)"
    "ws_failed st = Some e \<Longrightarrow> proper_error e"
  using assms by (auto simp: receiving_def taking_def holds_file_def)

lemma taking_receives:
  "taking parent leaf am (ws_slot st) s \<Longrightarrow> \<forall>e. ws_failed st = Some e \<longrightarrow> proper_error e \<Longrightarrow>
    receiving parent leaf am st (s\<lparr>sf_write_stream := Some st\<rparr>)"
  by (simp add: taking_def receiving_def holds_file_def)

lemma consume_payload_cases:
  assumes "taking parent leaf am (ws_slot st) s" "\<forall>e. ws_failed st = Some e \<longrightarrow> proper_error e"
  shows "if ws_remaining st \<le> n
    then sf_write_stream (consume_payload n st s) = None
      \<and> sf_out (consume_payload n st s) = status_frame (ws_id st)
          (case ws_failed st of None \<Rightarrow> Status fx_ok ''OK'' | Some e \<Rightarrow> e)
      \<and> sf_input (consume_payload n st s) = drop n (sf_input s)
    else receiving parent leaf am (st\<lparr>ws_remaining := ws_remaining st - n\<rparr>) (consume_payload n st s)
      \<and> sf_input (consume_payload n st s) = drop n (sf_input s)"
  using assms
  by (auto simp: consume_payload_def end_write_def send_status_eq receiving_def taking_def holds_file_def
      split: option.split status.split)

lemma failed_payload:
  assumes "taking parent leaf am (ws_slot st) s" "ws_failed st = Some e" "proper_error e"
  shows "(\<exists>st'. receiving parent leaf am st' (consume_payload n st s) \<and> ws_failed st' = Some e \<and> ws_id st' = ws_id st)
    \<or> (sf_write_stream (consume_payload n st s) = None \<and> sf_out (consume_payload n st s) = status_frame (ws_id st) e)"
proof (cases "ws_remaining st \<le> n")
  case False
  with consume_payload_cases [OF assms(1), of n] assms
  have "receiving parent leaf am (st\<lparr>ws_remaining := ws_remaining st - n\<rparr>) (consume_payload n st s)" by simp
  with assms(2) show ?thesis by fastforce
qed (use consume_payload_cases [OF assms(1), of n] assms in auto)

lemma stored_payload:
  assumes "taking parent leaf am (ws_slot st) s" "ws_failed st = None" "n \<le> ws_remaining st"
  shows "sf_input (consume_payload n st s) = drop n (sf_input s)
    \<and> (if n = ws_remaining st
       then sf_write_stream (consume_payload n st s) = None
         \<and> sf_out (consume_payload n st s) = status_frame (ws_id st) (Status fx_ok ''OK'')
       else receiving parent leaf am (st\<lparr>ws_remaining := ws_remaining st - n\<rparr>) (consume_payload n st s))"
  using consume_payload_cases [OF assms(1), of n] assms(2,3) by (auto split: if_splits)

lemma invalidate_written_frame [simp, frame_simps]:
  "sf_input (invalidate_written i s) = sf_input s" "sf_out (invalidate_written i s) = sf_out s"
  "sf_read_stream (invalidate_written i s) = sf_read_stream s"
  "sf_write_stream (invalidate_written i s) = sf_write_stream s"
  "sf_resize (invalidate_written i s) = sf_resize s" "sf_fatal (invalidate_written i s) = sf_fatal s"
  by (auto simp: invalidate_written_def split: option.split handle.split)

lemma write_payload_frame:
  "write_payload ops env st f count s v = (r, s', v') \<Longrightarrow>
    sf_input s' = sf_input s \<and> sf_out s' = sf_out s \<and> sf_read_stream s' = sf_read_stream s
    \<and> sf_write_stream s' = sf_write_stream s \<and> sf_resize s' = sf_resize s \<and> sf_fatal s' = sf_fatal s"
  by (auto simp: write_payload_def Let_def count_card_write_def set_file_def
      split: option.splits prod.splits if_splits)

lemma write_payload_id:
  "write_payload ops env st f count s v = (Inl st', s', v') \<Longrightarrow> ws_id st' = ws_id st \<and> ws_slot st' = ws_slot st
    \<and> (\<forall>e. ws_failed st' = Some e \<longrightarrow> ws_failed st = Some e \<or> proper_error e)"
  by (auto simp: write_payload_def Let_def dest: write_chunk_Some
      split: option.splits prod.splits if_splits)

lemma write_payload_refused: "write_payload ops env st f count s v = (Inr (Some e), s', v') \<Longrightarrow> proper_error e"
  by (auto simp: write_payload_def Let_def dest: write_chunk_Some
      split: option.splits prod.splits if_splits)

lemma write_payload_taking:
  assumes "write_payload ops env st f count t v = (r, u, v2)" "taking parent leaf am (ws_slot st) t"
    and "sf_handles t ! ws_slot st = Some (File f)"
  shows "taking parent leaf am (ws_slot st) u" "sf_input u = sf_input t"
  using write_payload_frame [OF assms(1)] write_payload_holds [OF assms(1) _ assms(3)] assms(2)
  by (simp_all add: taking_def)

lemma taking_written:
  "taking parent leaf am slot u \<Longrightarrow> taking parent leaf am slot (count_payload n (invalidate_written slot u))"
  using holds_written [of parent leaf am slot u] by (auto simp: taking_def count_payload_def holds_file_def)

text \<open>What one poll with the card's turn does, in terms of the write itself.\<close>

lemma continue_write_chunk:
  assumes st: "sf_write_stream s = Some st" and f: "sf_handles s ! ws_slot st = Some (File f)"
    and budget: "sf_card_budget s" and left: "0 < ws_remaining st" and ok: "ws_failed st = None"
    and step: "continue_write ops env s (Some v) = (b, s', vol')"
  obtains (waits) "s' = s" "vol' = Some v"
  | (chunk) n r u v2 where "0 < n" "n \<le> length (sf_input s)" "n \<le> ws_remaining st"
      "write_payload ops env st f n (s\<lparr>sf_write_stream := None, sf_card_budget := False\<rparr>) v = (r, u, v2)"
      "vol' = Some v2" "s' = (case r of
          Inl stream \<Rightarrow> u\<lparr>sf_write_stream := Some stream\<rparr>
        | Inr None \<Rightarrow> consume_payload n (st\<lparr>ws_offset := ws_offset st + n\<rparr>)
            (count_payload n (invalidate_written (ws_slot st) u))
        | Inr (Some e) \<Rightarrow> consume_payload n (st\<lparr>ws_failed := Some e\<rparr>) u)"
proof -
  define count where "count = min (min (length (sf_input s)) (ws_remaining st)) write_chunk_len"
  define t where "t = s\<lparr>sf_write_stream := None, sf_card_budget := False\<rparr>"
  show thesis
  proof (cases "min (length (sf_input s)) (ws_remaining st) = 0 \<or>
      (min (length (sf_input s)) (ws_remaining st) < write_chunk_len
        \<and> min (length (sf_input s)) (ws_remaining st) < ws_remaining st)")
    case True
    then show thesis using step left waits by (auto simp: continue_write_def st Let_def)
  next
    case False
    obtain r u v2 where w: "write_payload ops env st f count t v = (r, u, v2)" by (metis prod.exhaust)
    have f': "sf_handles t ! ws_slot st = Some (File f)" using f by (simp add: t_def)
    have "0 < count" "count \<le> length (sf_input s)" "count \<le> ws_remaining st"
      using False by (auto simp: count_def write_chunk_len_def)
    moreover have "vol' = Some v2 \<and> s' = (case r of
          Inl stream \<Rightarrow> u\<lparr>sf_write_stream := Some stream\<rparr>
        | Inr None \<Rightarrow> consume_payload count (st\<lparr>ws_offset := ws_offset st + count\<rparr>)
            (count_payload count (invalidate_written (ws_slot st) u))
        | Inr (Some e) \<Rightarrow> consume_payload count (st\<lparr>ws_failed := Some e\<rparr>) u)"
      using step False left ok budget w f'
      by (auto simp: continue_write_def st Let_def t_def [symmetric] count_def [symmetric] write_for_stream_def
          split: sum.splits option.splits)
    ultimately show thesis using chunk w unfolding t_def by blast
  qed
qed

text \<open>One poll of a session that receives, up to the first error.\<close>

lemma receiving_progress:
  assumes contract: "writer_contract ops parent leaf content" and recv: "receiving parent leaf am st s"
    and budget: "sf_card_budget s" and left: "0 < ws_remaining st" and ok: "ws_failed st = None"
    and step: "continue_write ops env s (Some v) = (b, s', vol')"
  shows "(s' = s \<and> vol' = Some v)
    \<or> (\<exists>st' e. receiving parent leaf am st' s' \<and> ws_failed st' = Some e \<and> ws_id st' = ws_id st)
    \<or> (\<exists>e. sf_write_stream s' = None \<and> proper_error e \<and> sf_out s' = status_frame (ws_id st) e)
    \<or> (\<exists>v' n. receiving parent leaf am st s' \<and> sf_input s' = sf_input s \<and> vol' = Some v'
         \<and> \<not> am \<and> length (content v) + n \<le> ws_offset st \<and> content v' = content v @ replicate n 0)
    \<or> (\<exists>v' n. 0 < n \<and> n \<le> length (sf_input s) \<and> n \<le> ws_remaining st \<and> vol' = Some v'
         \<and> content v' = stored am (ws_offset st) (take n (sf_input s)) (content v)
         \<and> sf_input s' = drop n (sf_input s)
         \<and> (if n = ws_remaining st
            then sf_write_stream s' = None \<and> sf_out s' = status_frame (ws_id st) (Status fx_ok ''OK'')
            else receiving parent leaf am
              (st\<lparr>ws_offset := ws_offset st + n, ws_remaining := ws_remaining st - n\<rparr>) s'))"
proof -
  let ?t = "s\<lparr>sf_write_stream := None, sf_card_budget := False\<rparr>"
  note st = receivingD(1) [OF recv] and t = receivingD(3) [OF recv]
  then have hold: "holds_file parent leaf am (ws_slot st) ?t" by (simp add: taking_def)
  then obtain f where f: "sf_handles s ! ws_slot st = Some (File f)" by (auto simp: holds_file_def)
  from st f budget left ok step show ?thesis
  proof (cases rule: continue_write_chunk)
    case (chunk n r u v2)
    have f': "sf_handles ?t ! ws_slot st = Some (File f)" using f by simp
    have n: "n \<le> length (sf_input ?t)" using chunk(2) by simp
    note u = write_payload_taking [OF chunk(4) t f']
    from write_payload_contents [OF contract hold f' chunk(1) n ok chunk(4)] consider
      (gone) st' e where "r = Inl st'" "ws_failed st' = Some e" | (refused) e where "r = Inr (Some e)"
      | (gap) k where "r = Inl st" "\<not> am" "length (content v) + k \<le> ws_offset st" "content v2 = content v @ replicate k 0"
      | (data) "r = Inr None" "content v2 = stored am (ws_offset st) (take n (sf_input ?t)) (content v)"
      by blast
    then show ?thesis
    proof cases
      case gone
      with chunk(4) have st': "ws_id st' = ws_id st" "ws_slot st' = ws_slot st" "proper_error e"
        using write_payload_id [of ops env st f n ?t v st' u v2] ok by auto
      with gone taking_receives [of parent leaf am st' u] u(1) chunk(6) show ?thesis by auto
    next
      case gap
      with taking_receives [OF u(1)] ok chunk(5,6) u(2) show ?thesis by fastforce
    next
      case refused
      have "proper_error e" by (rule write_payload_refused [OF chunk(4) [unfolded refused]])
      with failed_payload [of parent leaf am "st\<lparr>ws_failed := Some e\<rparr>" u e n] u(1) show ?thesis
        by (auto simp: chunk(6) refused)
    next
      case data
      let ?st = "st\<lparr>ws_offset := ws_offset st + n\<rparr>"
      let ?u = "count_payload n (invalidate_written (ws_slot st) u)"
      have "s' = consume_payload n ?st ?u" "sf_input ?u = sf_input s"
        using chunk(6) data(1) u(2) by (simp_all add: count_payload_def)
      with stored_payload [of parent leaf am ?st ?u n] taking_written [OF u(1)] ok chunk(1-3,5) data(2)
      show ?thesis by (intro disjI2 exI [of _ v2] exI [of _ n]) auto
    qed
  qed simp
qed

text \<open>After an error the payload is still consumed, and the answer is an error.\<close>

lemma failed_step:
  assumes recv: "receiving parent leaf am st s" and e: "ws_failed st = Some e"
    and step: "continue_write ops env s vol = (b, s', vol')"
  shows "(\<exists>st'. receiving parent leaf am st' s' \<and> ws_failed st' = Some e \<and> ws_id st' = ws_id st)
    \<or> (sf_write_stream s' = None \<and> sf_out s' = status_frame (ws_id st) e)"
proof -
  define count where "count = min (min (length (sf_input s)) (ws_remaining st)) write_chunk_len"
  note st = receivingD(1) [OF recv] and t = receivingD(2) [OF recv] and proper = receivingD(4) [OF recv e]
  consider "s' = s" | "ws_remaining st = 0" "s' = end_write st (s\<lparr>sf_write_stream := None\<rparr>)"
    | "s' = consume_payload count st (s\<lparr>sf_write_stream := None\<rparr>)"
    using step e by (auto simp: continue_write_def st count_def Let_def split: if_splits)
  then show ?thesis
  proof cases
    case 1
    with recv e show ?thesis by blast
  next
    case 2
    with t e show ?thesis by (auto simp: end_write_def taking_def send_status_eq split: status.split)
  next
    case 3
    with failed_payload [OF t e proper] show ?thesis by simp
  qed
qed

lemma failed_rounds:
  "receiving parent leaf am st s \<Longrightarrow> ws_failed st = Some e \<Longrightarrow>
    write_rounds ops env feeds s vol = Some (s', vol', rest) \<Longrightarrow> sf_write_stream s' = None \<Longrightarrow>
    sf_out s' = status_frame (ws_id st) e"
proof (induction feeds arbitrary: st s vol)
  case Nil
  then show ?case by (simp add: receiving_def)
next
  case (Cons bs feeds)
  let ?u = "begin_poll (feed bs s)"
  note u = receiving_poll [OF Cons.prems(1), of bs]
  obtain b t w where step: "continue_write ops env ?u vol = (b, t, w)" by (metis prod.exhaust)
  have active: "sf_write_stream s \<noteq> None" using Cons.prems(1) by (simp add: receiving_def)
  have next_rounds: "write_rounds ops env feeds t w = Some (s', vol', rest)"
    using Cons.prems(3) active by (simp add: receiving_step [OF u] step)
  from failed_step [OF u Cons.prems(2) step] show ?case
  proof
    assume "\<exists>st'. receiving parent leaf am st' t \<and> ws_failed st' = Some e \<and> ws_id st' = ws_id st"
    with Cons.IH next_rounds Cons.prems(4) show ?thesis by metis
  next
    assume done': "sf_write_stream t = None \<and> sf_out t = status_frame (ws_id st) e"
    then have "write_rounds ops env feeds t w = Some (t, w, feeds)" by (cases feeds) simp_all
    with next_rounds done' show ?thesis by simp
  qed
qed

lemma status_frame_ok: "proper_error e \<Longrightarrow> rid < 4294967296 \<Longrightarrow>
  status_frame rid e \<noteq> status_frame rid (Status fx_ok ''OK'')"
proof
  assume e: "proper_error e" and rid: "rid < 4294967296"
    and eq: "status_frame rid e = status_frame rid (Status fx_ok ''OK'')"
  obtain c m where c: "e = Status c m" by (cases e)
  with e have bounds: "c \<noteq> 0" "c < 256" "length m \<le> 64" by simp_all
  have "drop 5 (frame k p) = p" for k p by (simp add: frame_def)
  with arg_cong [OF eq, of "drop 5"] c
  have "put_u32 rid @ put_u32 c @ put_string (to_bytes m) @ put_string []
      = put_u32 rid @ put_u32 fx_ok @ put_string (to_bytes ''OK'') @ put_string []"
    by (simp only: status_frame_def status.case)
  then have "put_u32 c @ put_string (to_bytes m) @ put_string [] = put_u32 fx_ok @ put_string (to_bytes ''OK'') @ put_string []"
    by simp
  then have "c = fx_ok"
    by (rule wire_u32.put_injective [THEN conjunct1, rotated 2]) (use bounds(2) in \<open>simp_all add: fx_ok_def\<close>)
  with bounds show False by (simp add: fx_ok_def)
qed

text \<open>The claim of a whole payload, for the bytes \<open>incoming\<close> still to come and the contents \<open>old\<close>; a
  chunk stored or a gap filled leads to the claim for what is left.\<close>

definition payload_stored ::
  "('v \<Rightarrow> bytes) \<Rightarrow> bool \<Rightarrow> write_stream \<Rightarrow> bytes \<Rightarrow> bytes \<Rightarrow> 'v option \<Rightarrow> bytes \<Rightarrow> bool" where
  "payload_stored content am st incoming old vol left \<longleftrightarrow>
    (\<exists>v. vol = Some v \<and> ws_remaining st \<le> length incoming
       \<and> content v = stored am (ws_offset st) (take (ws_remaining st) incoming) old \<and> left = drop (ws_remaining st) incoming)"

lemma payload_after_gap:
  assumes "payload_stored content False st incoming (old @ replicate n 0) vol left" "0 < ws_remaining st"
    "length old + n \<le> ws_offset st"
  shows "payload_stored content False st incoming old vol left"
proof -
  have "take (ws_remaining st) incoming \<noteq> []" using assms(1,2) by (auto simp: payload_stored_def)
  with stored_gap [OF assms(3), of "take (ws_remaining st) incoming"] assms(1) show ?thesis
    by (simp add: payload_stored_def)
qed

lemma payload_after_chunk:
  assumes "payload_stored content am (st\<lparr>ws_offset := ws_offset st + n, ws_remaining := ws_remaining st - n\<rparr>)
      (drop n incoming) (stored am (ws_offset st) (take n incoming) old) vol left"
    "0 < n" "n \<le> ws_remaining st" "n \<le> length incoming"
  shows "payload_stored content am st incoming old vol left"
proof -
  have "length (take n incoming) = n" "take n incoming \<noteq> []" using assms(2,4) by auto
  then have "stored am (ws_offset st + n) p (stored am (ws_offset st) (take n incoming) old)
      = stored am (ws_offset st) (take n incoming @ p) old" for p
    using stored_append [of "take n incoming" am "ws_offset st" p old] by simp
  moreover have "take (ws_remaining st) incoming = take n incoming @ take (ws_remaining st - n) (drop n incoming)"
    using take_add [of n "ws_remaining st - n" incoming] assms(3) by simp
  moreover have "drop (ws_remaining st) incoming = drop (ws_remaining st - n) (drop n incoming)"
    using assms(3) by (simp only: drop_drop le_add_diff_inverse2)
  ultimately show ?thesis using assms(1,3,4) by (auto simp: payload_stored_def)
qed

lemma acknowledged_payload:
  assumes "writer_contract ops parent leaf content" and "receiving parent leaf am st s"
    and "ws_failed st = None" and "0 < ws_remaining st" and "ws_id st < 2 ^ 32"
    and "write_rounds ops env feeds s (Some v) = Some (s', vol', rest)"
    and "sf_write_stream s' = None" and "sf_out s' = status_frame (ws_id st) (Status fx_ok ''OK'')"
  shows "payload_stored content am st (sf_input s @ concat feeds) (content v) vol' (sf_input s' @ concat rest)"
  using assms
proof (induction feeds arbitrary: st s v)
  case Nil
  then show ?case by (simp add: receiving_def)
next
  case (Cons bs feeds)
  define u where "u = begin_poll (feed bs s)"
  have u: "receiving parent leaf am st u" "sf_card_budget u" "sf_input u = sf_input s @ bs"
    using receiving_poll [OF Cons.prems(2)] by (simp_all add: u_def begin_poll_def feed_def)
  obtain b t w where step: "continue_write ops env u (Some v) = (b, t, w)" by (metis prod.exhaust)
  have active: "sf_write_stream s \<noteq> None" using Cons.prems(2) by (simp add: receiving_def)
  have rounds: "write_rounds ops env feeds t w = Some (s', vol', rest)"
    using Cons.prems(6) active by (simp add: u_def [symmetric] receiving_step [OF u(1)] step)
  have stop: "write_rounds ops env feeds t w = Some (t, w, feeds)" if "sf_write_stream t = None"
    using that by (cases feeds) simp_all
  have rid: "ws_id st < 4294967296" using Cons.prems(5) by simp
  have "payload_stored content am st (sf_input u @ concat feeds) (content v) vol' (sf_input s' @ concat rest)"
    using receiving_progress [OF Cons.prems(1) u(1,2) Cons.prems(4,3) step]
  proof (elim disjE exE conjE)
    assume "t = u" "w = Some v"
    with Cons.IH [OF Cons.prems(1) u(1) Cons.prems(3-5) _ Cons.prems(7,8)] rounds show ?thesis by simp
  next
    fix st' e assume f: "receiving parent leaf am st' t" "ws_failed st' = Some e" "ws_id st' = ws_id st"
    then have "proper_error e" by (simp add: receiving_def)
    with failed_rounds [OF f(1,2) rounds Cons.prems(7)] f(3) Cons.prems(8) status_frame_ok rid show ?thesis by metis
  next
    fix e assume r: "sf_write_stream t = None" "proper_error e" "sf_out t = status_frame (ws_id st) e"
    from stop [OF r(1)] rounds have "s' = t" by simp
    with r Cons.prems(8) status_frame_ok [OF r(2) rid] show ?thesis by simp
  next
    fix v' n assume g: "receiving parent leaf am st t" "sf_input t = sf_input u" "w = Some v'" "\<not> am"
      "length (content v) + n \<le> ws_offset st" "content v' = content v @ replicate n 0"
    from Cons.IH [OF Cons.prems(1) g(1) Cons.prems(3-5) rounds [unfolded g(3)] Cons.prems(7,8)] g(2,4,6)
    show ?thesis using payload_after_gap [OF _ Cons.prems(4) g(5)] by simp
  next
    fix v' n assume d: "0 < n" "n \<le> length (sf_input u)" "n \<le> ws_remaining st" "w = Some v'"
      "content v' = stored am (ws_offset st) (take n (sf_input u)) (content v)" "sf_input t = drop n (sf_input u)"
      "if n = ws_remaining st
       then sf_write_stream t = None \<and> sf_out t = status_frame (ws_id st) (Status fx_ok ''OK'')
       else receiving parent leaf am (st\<lparr>ws_offset := ws_offset st + n, ws_remaining := ws_remaining st - n\<rparr>) t"
    show ?thesis
    proof (cases "n = ws_remaining st")
      case True
      with d(7) stop rounds have "s' = t" "vol' = w" "rest = feeds" by simp_all
      with d True show ?thesis by (simp add: payload_stored_def)
    next
      case False
      with d(7) have recv: "receiving parent leaf am
        (st\<lparr>ws_offset := ws_offset st + n, ws_remaining := ws_remaining st - n\<rparr>) t" by simp
      from Cons.IH [OF Cons.prems(1) recv _ _ _ rounds [unfolded d(4)] Cons.prems(7)] Cons.prems(3,5,8) d False
      show ?thesis by (intro payload_after_chunk [OF _ d(1,3)]) auto
    qed
  qed
  then show ?case by (simp add: u(3))
qed

text \<open>C1: When a \<open>WRITE\<close> is acknowledged, the file holds its payload: at the requested offset with
  any gap zero-filled, or at the end for a handle opened for appending; exactly the payload has been
  taken off the input.  This holds however the payload is split over polls.\<close>

theorem acknowledged_writes_are_stored:
  assumes "writer_contract ops parent leaf content" and "receiving parent leaf am st s"
    and "ws_failed st = None" and "0 < ws_remaining st" and "ws_id st < 2 ^ 32"
    and "write_rounds ops env feeds s (Some v) = Some (s', vol', rest)"
    and "sf_write_stream s' = None" and "sf_out s' = status_frame (ws_id st) (Status fx_ok ''OK'')"
  shows "\<exists>v'. vol' = Some v'
    \<and> ws_remaining st \<le> length (sf_input s @ concat feeds)
    \<and> content v' = stored am (ws_offset st) (take (ws_remaining st) (sf_input s @ concat feeds)) (content v)
    \<and> sf_input s' @ concat rest = drop (ws_remaining st) (sf_input s @ concat feeds)"
  using acknowledged_payload [OF assms] by (simp add: payload_stored_def)

lemma one_file_write_chunk:
  assumes "k \<le> length v" "k + length bs \<le> u32_max"
  shows "\<exists>f'. write_chunk one_file_ops v f k bs = (None, f', splice_at k bs v)"
proof -
  have len: "fe_len (one_entry v) = length v" "\<not> is_read_only (one_entry v)"
    by (simp_all add: one_entry_def is_read_only_def)
  have "\<exists>w. open_writer one_file_ops v (one_entry v) c k = (Some w, v) \<and> w = k" for c
    using assms(1) by (cases c) (simp_all add: open_writer_def len one_file_ops_def)
  moreover have "writer_write one_file_ops v k bs = (Some (length bs, k + length bs), splice_at k bs v)"
    "writer_finish one_file_ops w h = (True, w)" for w h
    by (simp_all add: one_file_ops_def)
  ultimately show ?thesis
    using assms by (simp add: write_chunk_def one_file_find len Let_def checked_add_def)
qed

theorem acknowledged_writes_are_stored_witness:
  "\<exists>s' rest. write_rounds one_file_ops sample_env [[8, 9]]
      ((sftp_new :: nat sftp)\<lparr>sf_handles := [Some (File (plain_file False))],
        sf_write_stream := Some \<lparr>ws_id = 5, ws_slot = 0, ws_remaining = 2, ws_offset = 1, ws_failed = None\<rparr>\<rparr>)
      (Some [7]) = Some (s', Some [7, 8, 9], rest)"
proof -
  define st where "st = \<lparr>ws_id = 5, ws_slot = 0, ws_remaining = 2, ws_offset = 1, ws_failed = None\<rparr>"
  define s where "s = (sftp_new :: nat sftp)\<lparr>sf_handles := [Some (File (plain_file False))], sf_write_stream := Some st\<rparr>"
  define u where "u = begin_poll (feed [8, 9] s)"
  define t where "t = u\<lparr>sf_write_stream := None, sf_card_budget := False\<rparr>"
  have st: "ws_id st = 5" "ws_slot st = 0" "ws_remaining st = 2" "ws_offset st = 1" "ws_failed st = None"
    by (simp_all add: st_def)
  have recv: "receiving [] ''f'' False st s"
    by (simp add: receiving_def holds_file_def sftp_new_def plain_file_def s_def st)
  obtain f' where w: "write_chunk one_file_ops [7] (plain_file False) 1 [8, 9] = (None, f', splice_at 1 [8, 9] [7])"
    using one_file_write_chunk [of 1 "[7]" "[8, 9]" "plain_file False"] by auto
  have u: "take 2 (sf_input t) = [8, 9]" "sf_handles t ! 0 = Some (File (plain_file False))"
    "sf_write_stream u = Some st" "sf_card_budget u" "length (sf_input u) = 2" "sf_out t = []"
    by (simp_all add: begin_poll_def feed_def sftp_new_def u_def t_def s_def)
  have payload: "write_payload one_file_ops sample_env st (plain_file False) 2 t [7]
      = (Inr None, count_card_write sample_env (set_file 0 f' t), splice_at 1 [8, 9] [7])"
    using w u(1) st by (simp add: write_payload_def one_file_find one_entry_def plain_file_def)
  have fits: "min 2 write_chunk_len = 2" by (simp add: write_chunk_len_def)
  define s' where "s' = consume_payload 2 (st\<lparr>ws_offset := 1 + 2\<rparr>) (count_payload 2 (invalidate_written 0
      (count_card_write sample_env (set_file 0 f' t))))"
  have step: "continue_write one_file_ops sample_env u (Some [7]) = (True, s', Some (splice_at 1 [8, 9] [7]))"
    using u(2-5) payload st fits
    by (simp add: continue_write_def write_for_stream_def Let_def t_def s'_def del: One_nat_def)
  have r: "write_rounds one_file_ops sample_env [[8, 9]] s (Some [7]) = Some (s', Some [7, 8, 9], [])"
    using receiving_step [OF receiving_poll [OF recv], of one_file_ops sample_env "[8, 9]" "Some [7]"] step recv
    by (simp add: u_def [symmetric] receiving_def splice_at_def)
  have "sf_write_stream s' = None" "sf_out s' = status_frame (ws_id st) (Status fx_ok ''OK'')"
    using u(6) st by (simp_all add: s'_def consume_payload_def end_write_def send_status_eq count_payload_def
        count_card_write_def set_file_def t_def)
  from acknowledged_writes_are_stored [OF one_file_writes recv _ _ _ r this] r st show ?thesis
    by (simp add: s_def st_def)
qed

end
