(* ===== verification/Sftp_Effects.thy ===== *)
theory Sftp_Effects
  imports Sftp_Transfers
begin

text \<open>
  What single requests do: the timestamps that \<open>SETSTAT\<close> writes are the ones \<open>STAT\<close> reports,
  a write leaves no other handle with a cached position of the file, a directory is never moved
  below itself, and an \<open>OPEN\<close> that is refused for want of a handle has already emptied the file.
\<close>

subsection \<open>Timestamps\<close>

lemma even_seconds: "even (86400 :: int)" "even (3600 :: int)" by simp_all

lemma even_floor_less:
  fixes x t :: int
  assumes "even t"
  shows "t \<le> x - x mod 2 \<longleftrightarrow> t \<le> x"
proof
  assume "t \<le> x"
  show "t \<le> x - x mod 2"
  proof (cases "even x")
    case False
    then have "x \<noteq> t" using assms by auto
    moreover have "x mod 2 = 1" using False by presburger
    ultimately show ?thesis using \<open>t \<le> x\<close> by simp
  qed (use \<open>t \<le> x\<close> in \<open>simp add: even_iff_mod_2_eq_zero\<close>)
qed (use pos_mod_sign [of 2 x] in linarith)

lemma even_floor_div:
  fixes x :: int
  shows "(x - x mod 2) div 86400 = x div 86400"
proof -
  have "x mod 2 = x mod 86400 mod 2" using mod_mod_cancel [of 2 86400 x] by simp
  moreover have "0 \<le> x mod 86400" "x mod 86400 < 86400" by simp_all
  ultimately have r: "0 \<le> x mod 86400 - x mod 2" "x mod 86400 - x mod 2 < 86400"
    using pos_mod_sign [of 2 x] by (auto simp: zmod_le_nonneg_dividend)
  have "x - x mod 2 = (x mod 86400 - x mod 2) + x div 86400 * 86400"
    using mod_mult_div_eq [of x 86400] by (simp add: algebra_simps)
  with r show ?thesis by (metis add.commute div_mult_self3 div_pos_pos_trivial add_0_right zero_neq_numeral add.right_neutral)
qed

lemma eu_summer_time_even: "eu_summer_time (x - x mod 2) = eu_summer_time x"
proof -
  obtain y m d where c: "civil_from_days (x div 86400) = (y, m, d)" by (metis prod.exhaust)
  have "t \<le> x - x mod 2 \<longleftrightarrow> t \<le> x" if "even t" for t using that by (rule even_floor_less)
  then show ?thesis
    by (simp add: eu_summer_time_def seconds_per_day_def even_floor_div c not_le [symmetric])
qed

lemma local_seconds_parity: "local_seconds u cfg mod 2 = as_i64 u mod 2"
proof -
  have "local_seconds u cfg = as_i64 u + 2 * (utc_offset_minutes cfg * 30 + (if dst cfg = Dst_Eu \<and> eu_summer_time (as_i64 u) then 1800 else 0))"
    by (simp add: local_seconds_def Let_def)
  then show ?thesis by (simp only: mod_mult_self2)
qed

lemma unix_from_local_even: "unix_from_local (l - l mod 2) cfg = unix_from_local l cfg - l mod 2"
proof -
  define k where "k = utc_offset_minutes cfg * 60"
  have "(l - k) mod 2 = l mod 2" "(l - k - 3600) mod 2 = l mod 2"
    unfolding k_def by presburger+
  then have "eu_summer_time (l - l mod 2 - k - 3600) = eu_summer_time (l - k - 3600)"
    using eu_summer_time_even [of "l - k - 3600"] by (simp add: algebra_simps)
  then show ?thesis by (simp add: unix_from_local_def k_def Let_def)
qed

lemma fat_time_fields:
  assumes "fat_time u cfg = Inr dt"
  defines "l \<equiv> local_seconds u cfg"
  shows "seconds_from_civil (int (fdt_date dt div 512 mod 128 + 1980)) (max (fdt_date dt div 32 mod 16) 1)
      (max (fdt_date dt mod 32) 1) (fdt_time dt div 2048 mod 32) (fdt_time dt div 32 mod 64)
      (fdt_time dt mod 32 * 2) = l - l mod 2"
proof -
  define t where "t = date_time l"
  from assms have year: "1980 \<le> dt_year t" "dt_year t \<le> 2107"
    and dt: "dt = fat_date_time_new (nat (dt_year t)) (dt_month t) (dt_day t) (dt_hour t) (dt_minute t) (dt_second t)"
    by (auto simp: fat_time_def Let_def t_def l_def split: if_splits)
  have f: "1 \<le> dt_month t" "dt_month t \<le> 12" "1 \<le> dt_day t" "dt_day t \<le> 31" "dt_hour t < 24"
    "dt_minute t < 60" "dt_second t < 60"
    using date_time_fields [of l] by (simp_all add: t_def)
  define a where "a = nat (dt_year t) - 1980"
  have a: "a < 128" "min a 127 = a" "int (a + 1980) = dt_year t" using year by (auto simp: a_def)
  have small: "dt_month t < 16" "dt_day t < 32" "dt_minute t < 64" "dt_second t div 2 < 32" using f by auto
  have date: "fdt_date dt = a * (16 * 32) + dt_month t * 32 + dt_day t"
    using f a(2) small by (simp add: dt fdt_date_new a_def [symmetric])
  have time: "fdt_time dt = dt_hour t * (64 * 32) + dt_minute t * 32 + dt_second t div 2"
    using f small by (simp add: dt fdt_time_new)
  note d = pack3_fields [OF small(1,2), of a, folded date, simplified] and
    m = pack3_fields [OF small(3,4), of "dt_hour t", folded time, simplified]
  have fields: "fdt_date dt div 512 mod 128 = a" "fdt_date dt div 32 mod 16 = dt_month t"
    "fdt_date dt mod 32 = dt_day t" "fdt_time dt div 2048 mod 32 = dt_hour t"
    "fdt_time dt div 32 mod 64 = dt_minute t" "fdt_time dt mod 32 = dt_second t div 2"
    unfolding d m using a(1) f by simp_all
  have whole: "seconds_from_civil (dt_year t) (dt_month t) (dt_day t) (dt_hour t) (dt_minute t) (dt_second t) = l"
    using seconds_date_time [of l] by (simp add: t_def Let_def)
  have "int (dt_second t) mod 2 = l mod 2"
  proof -
    have "l = int (dt_second t) + 2 * (days_from_civil (dt_year t) (dt_month t) (dt_day t) * 43200
        + int (dt_hour t) * 1800 + int (dt_minute t) * 30)"
      using whole by (simp add: seconds_from_civil_def seconds_per_day_def)
    then show ?thesis by (metis mod_mult_self2)
  qed
  moreover have "int (dt_second t div 2 * 2) = int (dt_second t) - int (dt_second t) mod 2"
    by (simp add: minus_mod_eq_div_mult [symmetric] zmod_int zdiv_int)
  ultimately show ?thesis
    using whole f a(3) by (simp add: fields seconds_from_civil_def max_absorb1)
qed



subsection \<open>Cached positions\<close>

lemma same_path_sym: "same_path p l p' l' = same_path p' l' p l"
proof -
  have "list_all (\<lambda>(a, b). eq_ignore_ascii_case a b) (zip p p')
      = list_all (\<lambda>(a, b). eq_ignore_ascii_case a b) (zip p' p)" if "length p = length p'"
    using that by (induction p p' rule: list_induct2) (auto simp: eq_ignore_ascii_case_def)
  then show ?thesis by (auto simp: same_path_def eq_ignore_ascii_case_def)
qed

lemma same_path_refl: "same_path p l p l"
proof -
  have "list_all (\<lambda>(a, b). eq_ignore_ascii_case a b) (zip p p)" by (induction p) auto
  then show ?thesis by (simp add: same_path_def)
qed

definition stale_free :: "string list \<Rightarrow> string \<Rightarrow> 'h handle option \<Rightarrow> bool" where
  "stale_free parent leaf h \<longleftrightarrow> (\<forall>f. h = Some (File f) \<longrightarrow> same_path (fh_parent f) (fh_leaf f) parent leaf
     \<longrightarrow> fh_read_at f = None \<and> fh_append f = None)"

lemma stale_free_other: "stale_free (fh_parent w) (fh_leaf w) (invalidate_other w h)"
  using same_path_sym
  by (auto simp: stale_free_def invalidate_other_def forget_positions_def
      split: option.splits handle.splits if_splits)

lemma stale_free_handle: "stale_free p l (invalidate_handle p l h)"
  by (auto simp: stale_free_def invalidate_handle_def forget_positions_def
      split: option.splits handle.splits if_splits)

lemma nth_invalidate_written:
  assumes "i < length (sf_handles s)" "sf_handles s ! i = Some (File w)" "j < length (sf_handles s)"
  shows "sf_handles (invalidate_written i s) ! j =
    (if j = i then Some (File (w\<lparr>fh_read_at := None\<rparr>)) else invalidate_other w (sf_handles s ! j))"
proof -
  have "sf_handles (invalidate_written i s) =
      (map (invalidate_other w) (sf_handles s)) [i := Some (File (w\<lparr>fh_read_at := None\<rparr>))]"
    using assms(1,2) by (simp add: invalidate_written_def upd_conv_take_nth_drop take_map drop_map)
  with assms show ?thesis by simp
qed



subsection \<open>Refusals\<close>

lemma below_itself_append: "below_itself source (source @ [x] @ ys)"
proof -
  have "list_all (\<lambda>(left, right). eq_ignore_ascii_case left right) (zip xs xs)" for xs
    by (induction xs) auto
  then show ?thesis by (simp add: below_itself_def)
qed

text \<open>A rename of a directory to a path below itself is refused without touching the volume;
  the comparison ignores case, as the file system does.\<close>

theorem rename_below_itself_is_refused:
  assumes "rd_path body = (Some old, r)" and "rd_path r = (Some new, r')"
    and "resolve [] old \<noteq> []"
    and "length (resolve [] old) < length (resolve [] new)"
    and "list_all2 eq_ignore_ascii_case (take (length (resolve [] old)) (resolve [] new)) (resolve [] old)"
  shows "sftp_rename ops rid body s vol = (Some (st_failure ''Cannot move a directory into itself''), s, vol)"
proof -
  have "resolve [] new \<noteq> []" using assms(4) by auto
  moreover have "below_itself (resolve [] old) (resolve [] new)"
    using assms(4,5) by (simp add: below_itself_def list_all2_iff list_all_iff)
  ultimately show ?thesis
    using assms(3) by (simp add: sftp_rename_def with_arg_def assms(1,2) Let_def require_def split_last_def)
qed

theorem rename_below_itself_is_refused_witness:
  "sftp_rename sample_ops 1 (put_string (to_bytes ''/a'') @ put_string (to_bytes ''/A/b'')) (sftp_new :: unit sftp) ()
    = (Some (st_failure ''Cannot move a directory into itself''), sftp_new, ())"
proof -
  have path: "rd_path (put_string (to_bytes ''/a'') @ put_string (to_bytes ''/A/b''))
      = (Some ''/a'', put_string (to_bytes ''/A/b''))"
    by (rule wire_path.get_put) (simp add: path_ok_def to_bytes_def)
  have path': "rd_path (put_string (to_bytes ''/A/b'')) = (Some ''/A/b'', [])"
    by (rule wire_path.get_put_all) (simp add: path_ok_def to_bytes_def)
  have res: "resolve [] ''/a'' = [''a'']" "resolve [] ''/A/b'' = [''A'', ''b'']" by code_simp+
  have "eq_ignore_ascii_case ''A'' ''a''" by code_simp
  then show ?thesis
    by (intro rename_below_itself_is_refused [OF path path']) (simp_all add: res)
qed

text \<open>C39: An \<open>OPEN\<close> with truncation that is refused because all handles are in use has already
  emptied the file.\<close>

theorem refused_open_has_truncated:
  assumes "None \<notin> set (sf_handles s)" and "table_ok s"
    and "\<not> fe_is_directory entry" and "\<not> is_read_only entry"
    and "writable_flags flags" and "flag_set flags fxf_trunc" and "\<not> flag_set flags fxf_excl"
    and "vol_truncate ops vol entry 0 = (True, vol')"
  shows "\<exists>s'. open_found ops env rid flags attrs dir parent leaf (Some entry) s vol
    = (Some (st_failure ''Too many open handles''), s', vol')"
proof -
  let ?s = "invalidate_file parent leaf s"
  have full: "None \<notin> set (sf_handles ?s)"
  proof
    assume "None \<in> set (sf_handles ?s)"
    then obtain h where "h \<in> set (sf_handles s)" "invalidate_handle parent leaf h = None"
      by (auto simp: invalidate_file_def)
    with invalidate_handle_None [of parent leaf h] assms(1) show False by simp
  qed
  have "table_ok ?s" using table_change_invalidate assms(2) by (auto simp: table_change_def)
  from allocate_cases [OF this] full table_okD(1) [OF this]
  have "allocate h ?s = (Inl (st_failure ''Too many open handles''), ?s)" for h
    by (metis nth_mem)
  then show ?thesis
    using assms(3-8) by (simp add: open_found_def open_entry_def created_metadata_def)
qed

theorem refused_open_has_truncated_witness:
  "\<exists>s'. open_found one_file_ops sample_env 1 (fxf_write + fxf_trunc) no_attrs 0 [] ''f'' (Some (one_entry [1, 2]))
      ((sftp_new :: nat sftp)\<lparr>sf_handles := replicate 8 (Some (Dir \<lparr>dh_components = [], dh_next = 0\<rparr>)),
        sf_tokens := [0, 1, 2, 3, 4, 5, 6, 7]\<rparr>) [1, 2]
    = (Some (st_failure ''Too many open handles''), s', [])"
proof (rule refused_open_has_truncated)
  let ?s = "(sftp_new :: nat sftp)\<lparr>sf_handles := replicate 8 (Some (Dir \<lparr>dh_components = [], dh_next = 0\<rparr>)),
        sf_tokens := [0, 1, 2, 3, 4, 5, 6, 7]\<rparr>"
  show "table_ok ?s"
  proof (rule table_okI)
    fix i :: nat assume "i < 8"
    then have "i = 0 \<or> i = 1 \<or> i = 2 \<or> i = 3 \<or> i = 4 \<or> i = 5 \<or> i = 6 \<or> i = 7" by auto
    then show "sf_tokens ?s ! i < 4294967296 \<and> sf_tokens ?s ! i mod 256 = i" by auto
  qed (simp_all add: sftp_new_def)
qed (simp_all add: one_entry_def is_read_only_def writable_flags_def flag_set_def fxf_write_def fxf_trunc_def
    fxf_excl_def one_file_ops_def)

end
