(* ===== verification/File_Copy_Correct.thy ===== *)
theory File_Copy_Correct
  imports File_Copy
begin

text \<open>
  A copy job ends, and a file it reports complete is the source byte for byte.  The volume library is
  seen through a view, a record of four functions that exist only in these proofs.
\<close>

subsection \<open>A copy ends, and copies what is there\<close>

text \<open>The source as a finite tree, and what the copy relies on in the library.  A view of the
  library says in which volumes the source is intact, which handles belong to the copy, and
  what a reader reads: its data, and the position of a reader or a cursor in it.\<close>

record ('v, 'h) copy_view =
  vw_intact :: "'v \<Rightarrow> bool"
  vw_below :: "'h \<Rightarrow> bool"
  vw_data :: "'h \<Rightarrow> bytes"
  vw_pos :: "'h \<Rightarrow> nat"

datatype src_tree = Src_File bytes | Src_Dir "(string \<times> src_tree) list"

definition is_src_dir :: "src_tree \<Rightarrow> bool" where
  "is_src_dir t = (case t of Src_Dir _ \<Rightarrow> True | Src_File _ \<Rightarrow> False)"

lemma is_src_dir_simps [simp]: "is_src_dir (Src_Dir kids)" "\<not> is_src_dir (Src_File bs)"
  by (simp_all add: is_src_dir_def)

fun lists_kids :: "'h file_entry option list \<Rightarrow> (string \<times> src_tree) list \<Rightarrow> bool" where
  "lists_kids [] kids = (kids = [])"
| "lists_kids (None # _) kids = True"
| "lists_kids (Some e # records) kids =
    (if dots (fe_name e) then lists_kids records kids
     else (case kids of [] \<Rightarrow> False
       | (n, t) # rest \<Rightarrow> fe_name e = n \<and> fe_is_directory e = is_src_dir t \<and> lists_kids records rest))"

text \<open>Readers return the data of their file, from where they are.\<close>

definition readers_read :: "('v, 'h) fat_ops \<Rightarrow> ('v, 'h) copy_view \<Rightarrow> bool" where
  "readers_read ops vw \<longleftrightarrow>
    (\<forall>v r n bs r'. vw_intact vw v \<longrightarrow> reader_read ops v r n = Some (bs, r') \<longrightarrow>
       vw_pos vw r \<le> length (vw_data vw r) \<longrightarrow>
         bs = slice_of (vw_pos vw r) (length bs) (vw_data vw r)
         \<and> vw_pos vw (reader_cursor ops r') = vw_pos vw r + length bs
         \<and> (bs = [] \<longrightarrow> 0 < n \<longrightarrow> vw_pos vw r = length (vw_data vw r))
         \<and> vw_pos vw r + length bs \<le> length (vw_data vw r))"

text \<open>A reader of this file starts at its beginning or goes on from a cursor.\<close>

definition file_source ::
  "('v, 'h) fat_ops \<Rightarrow> ('v, 'h) copy_view \<Rightarrow> string list \<Rightarrow> string \<Rightarrow> bytes \<Rightarrow> bool" where
  "file_source ops vw path name data \<longleftrightarrow>
    (\<forall>v v1 e. vw_intact vw v \<longrightarrow> vw_intact vw v1 \<longrightarrow> lookup ops v path name = Some e \<longrightarrow>
      (\<forall>r. reader_new ops v1 e = Some r \<longrightarrow> vw_pos vw r = 0 \<and> vw_data vw r = data)
      \<and> (\<forall>c r. reader_from_cursor ops v1 e c = Some r \<longrightarrow> vw_pos vw r = vw_pos vw c \<and> vw_data vw r = data))"

text \<open>Directories list their children; a listing may end early with an error.\<close>

fun tree_source :: "('v, 'h) fat_ops \<Rightarrow> ('v, 'h) copy_view \<Rightarrow> string list \<Rightarrow> (string \<times> src_tree) list \<Rightarrow> bool" where
  "tree_source ops vw path kids \<longleftrightarrow>
    (\<forall>v d. vw_intact vw v \<longrightarrow> open_path ops v path = Some d \<longrightarrow> lists_kids (dir_entries ops v d) kids)
    \<and> (\<forall>(n, t) \<in> set kids. case t of
          Src_File data \<Rightarrow> file_source ops vw path n data
        | Src_Dir sub \<Rightarrow> tree_source ops vw (path @ [n]) sub)"

text \<open>What is written at the places \<open>at\<close> of the copy (a directory and a name in it) leaves the
  source intact: creating there, and everything a writer does that was opened on an entry there.\<close>

definition leaves :: "('v, 'h) copy_view \<Rightarrow> 'h option \<times> 'v \<Rightarrow> bool" where
  "leaves vw r \<longleftrightarrow> vw_intact vw (snd r) \<and> (\<forall>h. fst r = Some h \<longrightarrow> vw_below vw h)"

definition places_apart ::
  "('v, 'h) fat_ops \<Rightarrow> ('v, 'h) copy_view \<Rightarrow> (string list \<Rightarrow> string \<Rightarrow> bool) \<Rightarrow> bool" where
  "places_apart ops vw at \<longleftrightarrow>
    (\<forall>v p n d. vw_intact vw v \<longrightarrow> at p n \<longrightarrow> open_path ops v p = Some d \<longrightarrow>
       (\<forall>e. dir_find ops v d n = Some (Some e) \<longrightarrow> vw_below vw (fe_location e))
       \<and> leaves vw (apfst (map_option fe_location) (vol_create_file ops v d n))
       \<and> vw_intact vw (snd (vol_create_dir ops v d n)))"

definition writers_apart :: "('v, 'h) fat_ops \<Rightarrow> ('v, 'h) copy_view \<Rightarrow> bool" where
  "writers_apart ops vw \<longleftrightarrow>
    (\<forall>v. vw_intact vw v \<longrightarrow>
       (\<forall>e. vw_below vw (fe_location e) \<longrightarrow>
          leaves vw (writer_new ops v e) \<and> (\<forall>c. leaves vw (writer_append_from_cursor ops v e c)))
       \<and> (\<forall>w. vw_below vw w \<longrightarrow>
          (\<forall>bs. leaves vw (apfst (map_option snd) (writer_write ops v w bs)))
          \<and> vw_intact vw (snd (writer_finish ops v w))))"

definition writes_apart ::
  "('v, 'h) fat_ops \<Rightarrow> ('v, 'h) copy_view \<Rightarrow> (string list \<Rightarrow> string \<Rightarrow> bool) \<Rightarrow> bool" where
  "writes_apart ops vw at \<longleftrightarrow> places_apart ops vw at \<and> writers_apart ops vw"

text \<open>The steps a tree takes: each child is entered, a directory is left, a file takes at most
  one step per byte and one to see its end.\<close>

fun work :: "src_tree \<Rightarrow> nat" where
  "work (Src_File data) = length data + 2"
| "work (Src_Dir kids) = 2 + sum_list (map (\<lambda>(n, t). work t) kids)"

abbreviation work_kids :: "(string \<times> src_tree) list \<Rightarrow> nat" where
  "work_kids kids \<equiv> sum_list (map (\<lambda>(n, t). work t) kids)"

declare tree_source.simps [simp del]

lemma nth_item_lists:
  assumes "lists_kids records kids" "nth_item records p (p + i) = Some r"
  shows "case r of
      None \<Rightarrow> length kids \<le> i
    | Some it \<Rightarrow> i < length kids \<and> it_name it = fst (kids ! i)
        \<and> it_directory it = is_src_dir (snd (kids ! i))"
  using assms
proof (induction records kids arbitrary: p i rule: lists_kids.induct)
  case (3 e records kids)
  show ?case
  proof (cases "dots (fe_name e)")
    case True
    with 3 show ?thesis by simp
  next
    case False
    with "3.prems"(1) obtain n t rest where k: "kids = (n, t) # rest" "fe_name e = n"
      "fe_is_directory e = is_src_dir t" "lists_kids records rest"
      by (cases kids) auto
    show ?thesis
    proof (cases i)
      case 0
      with "3.prems"(2) False k show ?thesis by (auto simp: item_of_def)
    next
      case (Suc j)
      with "3.prems"(2) False have "nth_item records (p + 1) (p + 1 + j) = Some r" by simp
      from "3.IH"(2) [OF False k(1) refl k(4) this] Suc k(1) show ?thesis by (simp split: option.splits)
    qed
  qed
qed (auto split: option.splits)

lemma item_at_lists:
  assumes "tree_source ops vw path kids" "vw_intact vw v" "item_at ops v path i = Some r"
  shows "case r of
      None \<Rightarrow> length kids \<le> i
    | Some it \<Rightarrow> i < length kids \<and> it_name it = fst (kids ! i)
        \<and> it_directory it = is_src_dir (snd (kids ! i))"
proof -
  from assms(3) obtain d where d: "open_path ops v path = Some d"
    "nth_item (dir_entries ops v d) 0 i = Some r"
    by (auto simp: item_at_def split: option.splits)
  with assms(1,2) have "lists_kids (dir_entries ops v d) kids" by (subst (asm) tree_source.simps) blast
  from nth_item_lists [OF this, of 0 i r] d(2) show ?thesis by simp
qed

lemma tree_source_child:
  assumes "tree_source ops vw path kids" "i < length kids"
  shows "case snd (kids ! i) of
      Src_File data \<Rightarrow> file_source ops vw path (fst (kids ! i)) data
    | Src_Dir sub \<Rightarrow> tree_source ops vw (path @ [fst (kids ! i)]) sub"
proof -
  from assms(2) have "kids ! i \<in> set kids" by simp
  with assms(1) show ?thesis by (subst (asm) tree_source.simps) (auto split: prod.splits)
qed

definition read_pos :: "('v, 'h) copy_view \<Rightarrow> 'h file_copy \<Rightarrow> nat" where
  "read_pos vw f = (case fc_read_cursor f of None \<Rightarrow> 0 | Some c \<Rightarrow> vw_pos vw c)"

definition file_left :: "('v, 'h) fat_ops \<Rightarrow> ('v, 'h) copy_view \<Rightarrow> 'h file_copy option \<Rightarrow> nat \<Rightarrow> bool" where
  "file_left ops vw fo m = (case fo of
     None \<Rightarrow> m = 0
   | Some f \<Rightarrow> \<exists>data. file_source ops vw (fc_source f) (fc_name f) data
       \<and> read_pos vw f \<le> length data \<and> m = length data - read_pos vw f + 1)"

definition frame_left :: "directory_copy \<times> (string \<times> src_tree) list \<Rightarrow> nat" where
  "frame_left fk = 1 + work_kids (drop (dc_next (fst fk)) (snd fk))"

definition frames_ok ::
  "('v, 'h) fat_ops \<Rightarrow> ('v, 'h) copy_view \<Rightarrow> directory_copy list \<Rightarrow> (string \<times> src_tree) list list \<Rightarrow> bool" where
  "frames_ok ops vw = list_all2 (\<lambda>f k. tree_source ops vw (dc_source f) k)"

definition frames_left :: "directory_copy list \<Rightarrow> (string \<times> src_tree) list list \<Rightarrow> nat" where
  "frames_left fs kss = sum_list (map frame_left (zip fs kss))"

definition job_left :: "('v, 'h) fat_ops \<Rightarrow> ('v, 'h) copy_view \<Rightarrow> 'h copy_job \<Rightarrow> nat \<Rightarrow> bool" where
  "job_left ops vw job m \<longleftrightarrow> (\<exists>kss l. frames_ok ops vw (cj_directories job) kss
     \<and> file_left ops vw (cj_file job) l \<and> m = frames_left (cj_directories job) kss + l)"

text \<open>The places a job may write, and that its steps write nowhere else.\<close>

definition aims :: "(string list \<Rightarrow> string \<Rightarrow> bool) \<Rightarrow> 'h copy_job \<Rightarrow> bool" where
  "aims at job \<longleftrightarrow> (\<forall>f. cj_file job = Some f \<longrightarrow> at (fc_target f) (fc_name f))
     \<and> (\<forall>d \<in> set (cj_directories job). \<forall>q n. at (dc_target d @ q) n)"

lemma aims_step:
  assumes "aims at job" "copy_step ops job v = (Some (b, job'), v')"
  shows "aims at job'"
proof -
  note places = copy_step_places [OF assms(2)]
  have "at (fc_target f) (fc_name f)" if "cj_file job' = Some f" for f
    using places assms(1) that unfolding aims_def by (metis append_Nil2)
  moreover have "at (dc_target d @ q) n" if "d \<in> set (cj_directories job')" for d q n
  proof -
    from places that obtain d0 q0 where "d0 \<in> set (cj_directories job)" "dc_target d = dc_target d0 @ q0" by blast
    with assms(1) show ?thesis by (simp add: aims_def)
  qed
  ultimately show ?thesis by (simp add: aims_def)
qed

lemma leavesD: "leaves vw (x, v') \<Longrightarrow> vw_intact vw v' \<and> (\<forall>h. x = Some h \<longrightarrow> vw_below vw h)"
  by (simp add: leaves_def)

lemma apart_place:
  assumes "writes_apart ops vw at" "vw_intact vw v" "at p n" "open_path ops v p = Some d"
  shows "(\<forall>e. dir_find ops v d n = Some (Some e) \<longrightarrow> vw_below vw (fe_location e))
    \<and> leaves vw (apfst (map_option fe_location) (vol_create_file ops v d n))
    \<and> vw_intact vw (snd (vol_create_dir ops v d n))"
  using assms unfolding writes_apart_def places_apart_def by blast

lemma apart_open:
  assumes "writes_apart ops vw at" "vw_intact vw v" "vw_below vw (fe_location e)"
  shows "leaves vw (writer_new ops v e) \<and> leaves vw (writer_append_from_cursor ops v e c)"
  using assms unfolding writes_apart_def writers_apart_def by blast

lemma apart_write:
  assumes "writes_apart ops vw at" "vw_intact vw v" "vw_below vw w"
  shows "leaves vw (apfst (map_option snd) (writer_write ops v w bs)) \<and> vw_intact vw (snd (writer_finish ops v w))"
  using assms unfolding writes_apart_def writers_apart_def by blast

lemma copy_target_keeps:
  assumes "writes_apart ops vw at" "vw_intact vw v" "at (fc_target f) (fc_name f)"
    and "open_path ops v (fc_target f) = Some d" "copy_target ops v d f = (x, v')"
  shows "vw_intact vw v' \<and> (\<forall>e. x = Some e \<longrightarrow> vw_below vw (fe_location e))"
  using apart_place [OF assms(1-4)] assms(2,5)
  by (auto simp: copy_target_def present_def leaves_def split: if_splits option.splits)

lemma copy_writer_keeps:
  assumes "writes_apart ops vw at" "vw_intact vw v" "vw_below vw (fe_location e)" "copy_writer ops v e f = (x, v')"
  shows "vw_intact vw v' \<and> (\<forall>w. x = Some w \<longrightarrow> vw_below vw w)"
proof -
  have "leaves vw (writer_new ops v e)" "leaves vw (writer_append_from_cursor ops v e c)" for c
    using apart_open [OF assms(1-3)] by blast+
  then have "leaves vw (copy_writer ops v e f)"
    using assms(2) by (auto simp: copy_writer_def leaves_def split: option.splits)
  with assms(4) show ?thesis by (simp add: leaves_def)
qed

lemma copy_write_keeps:
  assumes "writes_apart ops vw at" "vw_intact vw v" "vw_below vw w" "copy_write ops v w buf = (x, v')"
  shows "vw_intact vw v' \<and> (\<forall>w. x = Some w \<longrightarrow> vw_below vw w)"
proof (cases "buf = []")
  case True
  with assms(2-4) show ?thesis by (auto simp: copy_write_def)
next
  case False
  obtain r v1 where wr: "writer_write ops v w buf = (r, v1)" by (cases "writer_write ops v w buf")
  with apart_write [OF assms(1-3), of buf] have v1: "vw_intact vw v1" "\<And>n w'. r = Some (n, w') \<Longrightarrow> vw_below vw w'"
    by (auto simp: leaves_def)
  have fin: "vw_intact vw (snd (writer_finish ops v1 w'))" if "vw_below vw w'" for w'
    using apart_write [OF assms(1) v1(1) that] by blast
  from assms(3,4) wr v1 fin False show ?thesis
    by (auto simp: copy_write_def split: option.splits if_splits)
qed

lemma copy_data_keeps:
  assumes "writes_apart ops vw at" "vw_intact vw v" "vw_below vw (fe_location e)" "copy_data ops v s e f = (x, v')"
  shows "vw_intact vw v'"
proof (cases "copy_reader ops v s f = None \<or> (\<exists>r. copy_reader ops v s f = Some r \<and> reader_read ops v r copy_chunk = None)")
  case True
  with assms(2,4) show ?thesis by (auto simp: copy_data_def)
next
  case False
  then obtain r buf r' where rd: "copy_reader ops v s f = Some r" "reader_read ops v r copy_chunk = Some (buf, r')"
    by auto
  obtain w v1 where wr: "copy_writer ops v e f = (w, v1)" by (cases "copy_writer ops v e f")
  note k1 = copy_writer_keeps [OF assms(1-3) wr]
  show ?thesis
  proof (cases w)
    case None
    with assms(4) rd wr k1 show ?thesis by (simp add: copy_data_def)
  next
    case (Some w1)
    obtain w2 v2 where w2: "copy_write ops v1 w1 buf = (w2, v2)" by (cases "copy_write ops v1 w1 buf")
    note k2 = copy_write_keeps [OF assms(1) _ _ w2]
    show ?thesis
    proof (cases w2)
      case None
      with assms(4) rd wr Some w2 k1 k2 show ?thesis by (simp add: copy_data_def)
    next
      case (Some w3)
      obtain ok v3 where fin: "writer_finish ops v2 w3 = (ok, v3)" by (cases "writer_finish ops v2 w3")
      with k1 k2 Some \<open>w = Some w1\<close> have "vw_intact vw v3" using apart_write [OF assms(1), of v2 w3] by simp
      with assms(4) rd wr w2 Some fin \<open>w = Some w1\<close> show ?thesis
        by (cases ok) (simp_all add: copy_data_def)
    qed
  qed
qed

lemma copy_step_keeps:
  assumes apart: "writes_apart ops vw at" and v: "vw_intact vw v" and at: "aims at job"
    and step: "copy_step ops job v = (x, v')"
  shows "vw_intact vw v'"
proof (cases "cj_file job")
  case (Some f)
  with at have f: "at (fc_target f) (fc_name f)" by (simp add: aims_def)
  have kept: "vw_intact vw v2"
    if "open_path ops v (fc_target f) = Some d" "copy_target ops v d f = (Some e, v1)" "copy_data ops v1 s e f = (y, v2)"
    for d e v1 s y v2
    using copy_target_keeps [OF apart v f that(1,2)] copy_data_keeps [OF apart _ _ that(3)] by blast
  have kept1: "vw_intact vw v1" if "open_path ops v (fc_target f) = Some d" "copy_target ops v d f = (y, v1)" for d y v1
    using copy_target_keeps [OF apart v f that] by blast
  from step Some v show ?thesis
    by (auto simp: copy_step_def copy_file_step_def split: option.splits prod.splits if_splits dest: kept kept1)
next
  case None
  show ?thesis
  proof (cases "cj_directories job" rule: rev_cases)
    case Nil
    with step None v show ?thesis by (simp add: copy_step_def copy_directory_step_def)
  next
    case (snoc fs f)
    with at have "at (dc_target f @ []) n" for n unfolding aims_def by (metis in_set_conv_decomp)
    then have f: "at (dc_target f) n" for n by simp
    have kept: "vw_intact vw v1" if "enter_directory ops (f\<lparr>dc_next := k\<rparr>) n l v = (y, v1)" for k n l y v1
    proof (cases "open_path ops v (dc_target f)")
      case (Some d)
      from apart_place [OF apart v f Some] have "vw_intact vw v2" if "vol_create_dir ops v d n = (z, v2)" for z v2
        using that by (metis snd_conv)
      with that Some v show ?thesis
        by (auto simp: enter_directory_def split: if_splits prod.splits sum.splits)
    qed (use that v in \<open>auto simp: enter_directory_def split: if_splits\<close>)
    from step None snoc v show ?thesis
      by (auto simp: copy_step_def copy_directory_step_def Let_def split: option.splits prod.splits if_splits dest: kept)
  qed
qed

lemma copy_data_reads:
  assumes reads: "readers_read ops vw"
    and src: "file_source ops vw (fc_source f) (fc_name f) data" "lookup ops v (fc_source f) (fc_name f) = Some source"
    and intact: "vw_intact vw v" "vw_intact vw v1"
    and at: "read_pos vw f \<le> length data"
    and step: "copy_data ops v1 source target f = (Some (count, f'), v')"
  shows "read_pos vw f + count \<le> length data" "count = 0 \<Longrightarrow> read_pos vw f = length data"
    "read_pos vw f' = read_pos vw f + count" "fc_source f' = fc_source f" "fc_target f' = fc_target f"
    "fc_name f' = fc_name f" "fc_started f'"
proof -
  from step obtain reader buf reader' w v1' w' v2 where d:
    "copy_reader ops v1 source f = Some reader" "reader_read ops v1 reader copy_chunk = Some (buf, reader')"
    and count: "count = length buf" and f': "f' = f\<lparr>fc_read_cursor := Some (reader_cursor ops reader'),
       fc_started := True, fc_write_cursor := Some (writer_append_cursor ops w')\<rparr>"
    by (rule copy_dataD)
  from d(1) src intact have r: "vw_pos vw reader = read_pos vw f" "vw_data vw reader = data"
    unfolding file_source_def copy_reader_def read_pos_def by (auto split: option.splits)
  from reads intact(2) d(2) r at
  have rd: "buf = slice_of (read_pos vw f) (length buf) data"
    "vw_pos vw (reader_cursor ops reader') = read_pos vw f + length buf"
    "buf = [] \<Longrightarrow> read_pos vw f = length data" "read_pos vw f + length buf \<le> length data"
    unfolding readers_read_def by (metis copy_chunk_def zero_less_numeral)+
  from rd count f'
  show "read_pos vw f + count \<le> length data" "count = 0 \<Longrightarrow> read_pos vw f = length data"
    "read_pos vw f' = read_pos vw f + count" "fc_source f' = fc_source f" "fc_target f' = fc_target f"
    "fc_name f' = fc_name f" "fc_started f'"
    by (auto simp: read_pos_def copy_chunk_def)
qed

lemma file_step_decreases:
  assumes "job_left ops vw job m" "cj_file job = Some f" "copy_file_step ops f job v = (Some (b, job'), v')"
    and env: "readers_read ops vw" "writes_apart ops vw at" "vw_intact vw v" "aims at job"
  shows "\<not> b \<and> (\<exists>m' < m. job_left ops vw job' m')"
proof -
  from assms(1,2) obtain kss data where k: "frames_ok ops vw (cj_directories job) kss"
    "file_source ops vw (fc_source f) (fc_name f) data" "read_pos vw f \<le> length data"
    "m = frames_left (cj_directories job) kss + (length data - read_pos vw f + 1)"
    by (auto simp: job_left_def file_left_def)
  from assms(3) obtain source target dest count f' v1 where s:
    "lookup ops v (fc_source f) (fc_name f) = Some source"
    and t: "open_path ops v (fc_target f) = Some dest" "copy_target ops v dest f = (Some target, v1)"
    and s': "copy_data ops v1 source target f = (Some (count, f'), v')" "\<not> b"
    "job' = job\<lparr>cj_copied := cj_copied job + count,
       cj_files := (if count = 0 then cj_files job + 1 else cj_files job),
       cj_file := (if count = 0 then None else Some f')\<rparr>"
    by (rule copy_file_stepD)
  have "at (fc_target f) (fc_name f)" using env(4) assms(2) by (simp add: aims_def)
  from copy_target_keeps [OF env(2,3) this t] have "vw_intact vw v1" by blast
  note r = copy_data_reads [OF env(1) k(2) s env(3) this k(3) s'(1)]
  define l where "l = (if count = 0 then 0 else length data - read_pos vw f' + 1)"
  have "file_left ops vw (cj_file job') l"
    using r k(2) s'(3) by (auto simp: file_left_def l_def)
  then have "job_left ops vw job' (frames_left (cj_directories job) kss + l)"
    using k(1) s'(3) by (auto simp: job_left_def)
  moreover have "frames_left (cj_directories job) kss + l < m"
    using r(1,3) k(3,4) by (auto simp: l_def)
  ultimately show ?thesis using s'(2) by blast
qed

lemma frames_snoc:
  "frames_ok ops vw (fs @ [f]) kss \<longleftrightarrow>
    (\<exists>ks k. kss = ks @ [k] \<and> frames_ok ops vw fs ks \<and> tree_source ops vw (dc_source f) k)"
proof (cases kss rule: rev_cases)
  case (snoc ks k)
  show ?thesis
  proof (cases "length fs = length ks")
    case True
    with snoc show ?thesis by (simp add: frames_ok_def list_all2_append)
  next
    case False
    with snoc show ?thesis by (auto simp: frames_ok_def dest!: list_all2_lengthD)
  qed
qed (simp add: frames_ok_def)

lemma frames_left_snoc:
  "frames_ok ops vw fs ks \<Longrightarrow> frames_left (fs @ [f]) (ks @ [k]) = frames_left fs ks + frame_left (f, k)"
  by (simp add: frames_left_def frames_ok_def list_all2_lengthD)

lemma frame_left_next:
  "dc_next f < length k \<Longrightarrow> frame_left (f, k)
    = frame_left (f\<lparr>dc_next := dc_next f + 1\<rparr>, k) + work (snd (k ! dc_next f))"
  using Cons_nth_drop_Suc [of "dc_next f" k]
  by (simp add: frame_left_def split: prod.splits) (metis (no_types, lifting) case_prod_conv list.simps(9) prod.collapse sum_list.Cons add.commute)

lemma directory_step_decreases:
  assumes "job_left ops vw job m" "cj_file job = None" "cj_directories job \<noteq> []"
    and "copy_directory_step ops job v = (Some (b, job'), v')" and intact: "vw_intact vw v"
  shows "\<not> b \<and> (\<exists>m' < m. job_left ops vw job' m')"
proof -
  obtain fs f where fs: "cj_directories job = fs @ [f]" using assms(3) by (cases "cj_directories job" rule: rev_cases) auto
  from assms(1,2) fs obtain ks k where k: "frames_ok ops vw fs ks" "tree_source ops vw (dc_source f) k"
    "m = frames_left fs ks + frame_left (f, k)"
    by (auto simp: job_left_def file_left_def frames_snoc frames_left_snoc)
  let ?f = "f\<lparr>dc_next := dc_next f + 1\<rparr>" and ?c = "snd (k ! dc_next f)"
  have top: "frames_ok ops vw (fs @ [?f]) (ks @ [k])" using k by (simp add: frames_snoc)
  have next_item: "dc_next f < length k" "it_name it = fst (k ! dc_next f)" "it_directory it = is_src_dir ?c"
      "m = frames_left (fs @ [?f]) (ks @ [k]) + work ?c"
    if "item_at ops v (dc_source f) (dc_next f) = Some (Some it)" for it
    using item_at_lists [OF k(2) intact that] k(3) frame_left_next [of f k]
    by (simp_all add: frames_left_snoc [OF k(1)])
  note child = tree_source_child [OF k(2)]
  from assms(4) fs show ?thesis
  proof (cases rule: copy_directory_stepE)
    case finished
    then have "job_left ops vw job' (frames_left fs ks)"
      using k(1) assms(2) by (auto simp: job_left_def file_left_def)
    moreover have "frames_left fs ks < m" using k(3) by (simp add: frame_left_def)
    ultimately show ?thesis using finished by blast
  next
    case (file_found it)
    note i = next_item [OF file_found(1)]
    obtain data where data: "?c = Src_File data" using i(3) file_found(2) by (cases ?c) auto
    have "file_left ops vw (cj_file job') (length data + 1)"
      using child [OF i(1)] data i(2) file_found(4) by (auto simp: file_left_def begin_file_def read_pos_def)
    then have "job_left ops vw job' (frames_left (fs @ [?f]) (ks @ [k]) + (length data + 1))"
      using top file_found(4) unfolding job_left_def
      by (intro exI [of _ "ks @ [k]"] exI [of _ "length data + 1"]) simp
    moreover have "frames_left (fs @ [?f]) (ks @ [k]) + (length data + 1) < m" using i(4) data by simp
    ultimately show ?thesis using file_found by blast
  next
    case (directory_found it ch)
    note i = next_item [OF directory_found(1)]
    obtain sub where sub: "?c = Src_Dir sub" using i(3) directory_found(2) by (cases ?c) auto
    have "tree_source ops vw (dc_source ch) sub" using child [OF i(1)] sub directory_found(5) i(2) by simp
    with top have ok: "frames_ok ops vw ((fs @ [?f]) @ [ch]) ((ks @ [k]) @ [sub])"
      by (simp only: frames_snoc [of _ _ "fs @ [?f]"]) blast
    then have "job_left ops vw job' (frames_left ((fs @ [?f]) @ [ch]) ((ks @ [k]) @ [sub]) + 0)"
      using directory_found(9) assms(2) unfolding job_left_def
      by (intro exI [of _ "(ks @ [k]) @ [sub]"] exI [of _ "0::nat"]) (simp add: file_left_def)
    moreover have "frames_left ((fs @ [?f]) @ [ch]) ((ks @ [k]) @ [sub]) + 0 < m"
      using i(4) sub directory_found(7) frames_left_snoc [OF top, of ch sub] by (simp add: frame_left_def)
    ultimately show ?thesis using directory_found by blast
  qed
qed

text \<open>What every step keeps while it brings the job nearer to its end.\<close>

definition on_course ::
  "('v, 'h) fat_ops \<Rightarrow> ('v, 'h) copy_view \<Rightarrow> (string list \<Rightarrow> string \<Rightarrow> bool) \<Rightarrow> 'h copy_job \<Rightarrow> 'v \<Rightarrow> nat \<Rightarrow> bool" where
  "on_course ops vw at job v m \<longleftrightarrow> vw_intact vw v \<and> aims at job \<and> job_left ops vw job m"

lemma step_decreases:
  assumes env: "readers_read ops vw" "writes_apart ops vw at"
    and job: "on_course ops vw at job v m" "copy_step ops job v = (Some (False, job'), v')"
  shows "\<exists>m' < m. on_course ops vw at job' v' m'"
proof -
  from job(1) have on: "vw_intact vw v" "aims at job" "job_left ops vw job m" by (simp_all add: on_course_def)
  have "\<exists>m' < m. job_left ops vw job' m'"
  proof (cases "cj_file job")
    case None
    with job(2) have "cj_directories job \<noteq> []" "copy_directory_step ops job v = (Some (False, job'), v')"
      by (auto simp: copy_step_def copy_directory_step_def)
    from directory_step_decreases [OF on(3) None this on(1)] show ?thesis by simp
  next
    case (Some f)
    with job(2) have "copy_file_step ops f job v = (Some (False, job'), v')" by (simp add: copy_step_def)
    from file_step_decreases [OF on(3) Some this env on(1,2)] show ?thesis by simp
  qed
  with copy_step_keeps [OF env(2) on(1,2) job(2)] aims_step [OF on(2) job(2)] show ?thesis
    by (auto simp: on_course_def)
qed

lemma run_ends:
  assumes env: "readers_read ops vw" "writes_apart ops vw at"
  shows "on_course ops vw at job v m \<Longrightarrow> m < n \<Longrightarrow> fst (copy_run ops n job v) \<noteq> Running job'"
proof (induction n arbitrary: job m v)
  case (Suc n)
  obtain r v1 where step: "copy_step ops job v = (r, v1)" by (cases "copy_step ops job v")
  show ?case
  proof (cases r)
    case (Some x)
    obtain b j where x: "x = (b, j)" by (cases x)
    show ?thesis
    proof (cases b)
      case False
      with step Some x have "copy_step ops job v = (Some (False, j), v1)" by simp
      from step_decreases [OF env Suc.prems(1) this] obtain m'
        where "m' < m" "on_course ops vw at j v1 m'" by blast
      with Suc.IH [of j v1 m'] Suc.prems(2) step Some x False show ?thesis by simp
    qed (use step Some x in simp)
  qed (use step in simp)
qed simp

text \<open>C16: Copying a directory ends: for any tree in the source that the writes below the destination
  leave intact, the job has finished or failed after one step for every entry, one for every directory
  it leaves and at most one for every byte and every file end.\<close>

theorem copies_end:
  assumes "readers_read ops vw" "writes_apart ops vw (\<lambda>p n. \<exists>q. p = target @ q)"
    and "vw_intact vw vol" "tree_source ops vw source kids"
  shows "fst (copy_run ops (work (Src_Dir kids)) (directory_job source target) vol) \<noteq> Running job"
proof (rule run_ends [OF assms(1,2)])
  have "job_left ops vw (directory_job source target) (1 + work_kids kids)"
    using assms(4) by (auto simp: job_left_def directory_job_def file_left_def frames_ok_def frames_left_def
        frame_left_def intro!: exI [of _ "[kids]"])
  then show "on_course ops vw (\<lambda>p n. \<exists>q. p = target @ q) (directory_job source target) vol (1 + work_kids kids)"
    using assms(3) by (auto simp: on_course_def aims_def directory_job_def)
qed simp

text \<open>What a copy of one file relies on in the writers: \<open>content\<close> is what the destination holds,
  and a writer that is opened on it, with the cursor of its end, adds to its end what it reports
  written.\<close>

definition writes_onto ::
  "('v, 'h) fat_ops \<Rightarrow> ('v, 'h) copy_view \<Rightarrow> ('v \<Rightarrow> bytes) \<Rightarrow> 'h \<Rightarrow> 'v \<Rightarrow> bytes \<Rightarrow> bool" where
  "writes_onto ops vw content w v old \<longleftrightarrow>
    (\<forall>v'. writer_finish ops v w = (True, v') \<longrightarrow>
       content v' = old \<and> vw_pos vw (writer_append_cursor ops w) = length old)
    \<and> (\<forall>bs w' v1 v'. writer_write ops v w bs = (Some (length bs, w'), v1) \<longrightarrow>
         writer_finish ops v1 w' = (True, v') \<longrightarrow>
           content v' = old @ bs \<and> vw_pos vw (writer_append_cursor ops w') = length (old @ bs))"

definition file_sink ::
  "('v, 'h) fat_ops \<Rightarrow> ('v, 'h) copy_view \<Rightarrow> string list \<Rightarrow> string \<Rightarrow> ('v \<Rightarrow> bytes) \<Rightarrow> bool" where
  "file_sink ops vw path name content \<longleftrightarrow>
    (\<forall>v d e v1 w v2. open_path ops v path = Some d \<longrightarrow> vol_create_file ops v d name = (Some e, v1) \<longrightarrow>
       writer_new ops v1 e = (Some w, v2) \<longrightarrow> writes_onto ops vw content w v2 [])
    \<and> (\<forall>v d e c w v1. open_path ops v path = Some d \<longrightarrow> dir_find ops v d name = Some (Some e) \<longrightarrow>
         vw_pos vw c = length (content v) \<longrightarrow>
         writer_append_from_cursor ops v e c = (Some w, v1) \<longrightarrow> writes_onto ops vw content w v1 (content v))"

lemma copy_write_onto:
  assumes "writes_onto ops vw content w v old" "copy_write ops v w buf = (Some w', v1)"
    and "writer_finish ops v1 w' = (True, v')"
  shows "content v' = old @ buf \<and> vw_pos vw (writer_append_cursor ops w') = length (old @ buf)"
proof (cases "buf = []")
  case True
  with assms show ?thesis by (simp add: copy_write_def writes_onto_def)
next
  case False
  with assms(2) have "writer_write ops v w buf = (Some (length buf, w'), v1)"
    by (auto simp: copy_write_def split: prod.splits option.splits if_splits)
  with assms(1,3) show ?thesis unfolding writes_onto_def by blast
qed

text \<open>A copy in progress: the destination holds what has been read.\<close>

definition copied_so_far :: "('v, 'h) copy_view \<Rightarrow> ('v \<Rightarrow> bytes) \<Rightarrow> bytes \<Rightarrow> 'h file_copy \<Rightarrow> 'v \<Rightarrow> bool" where
  "copied_so_far vw content data f v \<longleftrightarrow> read_pos vw f \<le> length data
     \<and> (if fc_started f
         then content v = take (read_pos vw f) data
           \<and> (\<forall>c. fc_write_cursor f = Some c \<longrightarrow> vw_pos vw c = length (content v))
         else read_pos vw f = 0)"

lemma copy_data_content:
  assumes reads: "readers_read ops vw" and intact: "vw_intact vw v" "vw_intact vw v1"
    and src: "file_source ops vw (fc_source f) (fc_name f) data"
    "lookup ops v (fc_source f) (fc_name f) = Some source"
    and sink: "file_sink ops vw (fc_target f) (fc_name f) content"
    and at: "copied_so_far vw content data f v"
    and dest: "open_path ops v (fc_target f) = Some dest" "copy_target ops v dest f = (Some target, v1)"
    and step: "copy_data ops v1 source target f = (Some (count, f'), v')"
  shows "copied_so_far vw content data f' v' \<and> fc_started f' \<and> (count = 0 \<longrightarrow> content v' = data)"
proof -
  from step obtain reader buf reader' w v2 w' v3 where d:
    "copy_reader ops v1 source f = Some reader" "reader_read ops v1 reader copy_chunk = Some (buf, reader')"
    "copy_writer ops v1 target f = (Some w, v2)" "copy_write ops v2 w buf = (Some w', v3)"
    "writer_finish ops v3 w' = (True, v')" and count: "count = length buf"
    and f': "f' = f\<lparr>fc_read_cursor := Some (reader_cursor ops reader'),
       fc_started := True, fc_write_cursor := Some (writer_append_cursor ops w')\<rparr>"
    by (rule copy_dataD)
  have pos: "read_pos vw f \<le> length data" using at by (simp add: copied_so_far_def)
  note r = copy_data_reads [OF reads src intact pos step]
  have "vw_pos vw reader = read_pos vw f \<and> vw_data vw reader = data"
    using d(1) src intact unfolding file_source_def copy_reader_def read_pos_def by (auto split: option.splits)
  then have buf: "buf = slice_of (read_pos vw f) (length buf) data"
    using reads intact(2) d(2) pos unfolding readers_read_def by metis
  have "writes_onto ops vw content w v2 (take (read_pos vw f) data)"
  proof (cases "fc_started f")
    case True
    then have "v1 = v" "dir_find ops v dest (fc_name f) = Some (Some target)"
      using dest(2) by (auto simp: copy_target_def present_def split: option.splits)
    moreover obtain c where c: "writer_append_from_cursor ops v1 target c = (Some w, v2)" "fc_write_cursor f = Some c"
      using d(3) True by (auto simp: copy_writer_def split: option.splits)
    moreover have "vw_pos vw c = length (content v)" using at True c(2) by (simp add: copied_so_far_def)
    ultimately have "writes_onto ops vw content w v2 (content v)"
      using sink dest(1) unfolding file_sink_def by blast
    with at True show ?thesis by (simp add: copied_so_far_def)
  next
    case False
    then have "vol_create_file ops v dest (fc_name f) = (Some target, v1)" "writer_new ops v1 target = (Some w, v2)"
      using dest(2) d(3) by (auto simp: copy_target_def copy_writer_def split: if_splits)
    then have "writes_onto ops vw content w v2 []" using sink dest(1) unfolding file_sink_def by blast
    with at False show ?thesis by (simp add: copied_so_far_def)
  qed
  from copy_write_onto [OF this d(4,5)] have c: "content v' = take (read_pos vw f) data @ buf"
    "vw_pos vw (writer_append_cursor ops w') = length (content v')" by simp_all
  from c(1) buf have "content v' = take (read_pos vw f + count) data"
    by (simp only: slice_of_def take_add count)
  with r pos c(2) f' show ?thesis by (auto simp: copied_so_far_def)
qed

lemma copy_run_content:
  assumes env: "readers_read ops vw" "writes_apart ops vw at" "at target name"
    and src: "file_source ops vw source name data" and sink: "file_sink ops vw target name content"
    and intact: "vw_intact vw v"
    and job: "cj_file job = Some f" "cj_directories job = []" "cj_files job = k" "cj_copied job = c + read_pos vw f"
    and f: "fc_source f = source" "fc_target f = target" "fc_name f = name"
    and so_far: "copied_so_far vw content data f v"
    and run: "copy_run ops n job v = (Copied job', v')"
  shows "content v' = data \<and> cj_files job' = k + 1 \<and> cj_copied job' = c + length data"
  using intact job f so_far run
proof (induction n arbitrary: job f v)
  case (Suc n)
  obtain r v1 where step: "copy_file_step ops f job v = (r, v1)" by (cases "copy_file_step ops f job v")
  with Suc.prems(2,10) obtain b j where r: "r = Some (b, j)" by (cases r) (auto simp: copy_step_def)
  from step [unfolded r] obtain src_e target_e dest count f' v0 where s:
    "lookup ops v (fc_source f) (fc_name f) = Some src_e"
    "open_path ops v (fc_target f) = Some dest"
    "copy_target ops v dest f = (Some target_e, v0)"
    "copy_data ops v0 src_e target_e f = (Some (count, f'), v1)"
    "\<not> b" "j = job\<lparr>cj_copied := cj_copied job + count,
       cj_files := (if count = 0 then cj_files job + 1 else cj_files job),
       cj_file := (if count = 0 then None else Some f')\<rparr>"
    by (rule copy_file_stepD)
  note srcf = src [folded Suc.prems(6,8)] and sinkf = sink [folded Suc.prems(7,8)]
  have at: "at (fc_target f) (fc_name f)" using env(3) Suc.prems(7,8) by simp
  from copy_target_keeps [OF env(2) Suc.prems(1) at s(2,3)] have v0: "vw_intact vw v0" "vw_below vw (fe_location target_e)"
    by simp_all
  from copy_data_keeps [OF env(2) v0 s(4)] have v1: "vw_intact vw v1" .
  have pos: "read_pos vw f \<le> length data" using Suc.prems(9) by (simp add: copied_so_far_def)
  note rd = copy_data_reads [OF env(1) srcf s(1) Suc.prems(1) v0(1) pos s(4)]
  note ct = copy_data_content [OF env(1) Suc.prems(1) v0(1) srcf s(1) sinkf Suc.prems(9) s(2,3,4)]
  have run: "copy_run ops n j v1 = (Copied job', v')"
    using Suc.prems(2,10) step r s(5) by (simp add: copy_step_def)
  show ?case
  proof (cases "count = 0")
    case True
    with s(6) Suc.prems(3) have "copy_step ops j v1 = (Some (True, j), v1)"
      by (simp add: copy_step_def copy_directory_step_def)
    with run have "job' = j" "v' = v1" by (cases n; simp)+
    with True ct rd(2) s(6) Suc.prems(4,5) show ?thesis by simp
  next
    case False
    have "content v' = data \<and> cj_files job' = k + 1 \<and> cj_copied job' = c + length data"
    proof (rule Suc.IH [of v1 j f'])
      show "cj_copied j = c + read_pos vw f'" using s(6) Suc.prems(5) rd(3) by simp
    qed (use s(6) False Suc.prems rd ct run v1 in simp_all)
    then show ?thesis .
  qed
qed simp

text \<open>C12: Copying a file ends after at most one step per byte and two more, and a copy that is
  reported complete holds exactly the bytes of the source.\<close>

theorem copied_file_is_exact:
  assumes "readers_read ops vw" "writes_apart ops vw (\<lambda>p n. p = target \<and> n = name)" "vw_intact vw vol"
    and "file_source ops vw source name data" "file_sink ops vw target name content"
  shows "\<exists>r vol'. copy_run ops (length data + 2) (file_job source target name) vol = (r, vol')
    \<and> (r = Failed \<or> (\<exists>job. r = Copied job \<and> content vol' = data
         \<and> cj_files job = 1 \<and> cj_copied job = length data))"
proof -
  let ?job = "file_job source target name"
  let ?at = "\<lambda>p n. p = target \<and> n = name"
  obtain r vol' where run: "copy_run ops (length data + 2) ?job vol = (r, vol')" by (metis prod.exhaust)
  have "job_left ops vw ?job (length data + 1)"
    using assms(4) by (auto simp: job_left_def file_job_def file_left_def frames_ok_def frames_left_def read_pos_def)
  then have "on_course ops vw ?at ?job vol (length data + 1)"
    using assms(3) by (simp add: on_course_def aims_def file_job_def)
  then have ends: "r \<noteq> Running j" for j
    using run_ends [OF assms(1,2), of ?job vol "length data + 1" "length data + 2" j] run by simp
  have "content vol' = data \<and> cj_files job = 0 + 1 \<and> cj_copied job = 0 + length data" if "r = Copied job" for job
    by (rule copy_run_content [OF assms(1,2) _ assms(4,5,3), of ?job "\<lparr>fc_source = source, fc_target = target, fc_name = name,
        fc_read_cursor = None, fc_write_cursor = None, fc_started = False\<rparr>" 0 0 "length data + 2" job vol'])
       (use run that in \<open>simp_all add: file_job_def read_pos_def copied_so_far_def del: copy_run.simps\<close>)
  with run ends show ?thesis by (cases r) auto
qed

subsection \<open>A card with two files\<close>

text \<open>The root holds \<open>a\<close> (three bytes) and \<open>b\<close> (one byte); the volume is the list of files in the
  directory \<open>d\<close>.  A handle is a name and a position.\<close>

definition pair_data :: "string \<Rightarrow> bytes" where
  "pair_data n = (if n = ''a'' then [7, 8, 9] else [1])"

definition pair_entry :: "string \<Rightarrow> nat \<Rightarrow> (string \<times> nat) file_entry" where
  "pair_entry name len = \<lparr>fe_name = name, fe_is_directory = False, fe_len = len, fe_attributes = 0,
     fe_modified = fat_date_time_new 2026 1 1 0 0 0, fe_accessed = 0, fe_location = (name, 0)\<rparr>"

definition append_named :: "string \<Rightarrow> bytes \<Rightarrow> (string \<times> bytes) list \<Rightarrow> (string \<times> bytes) list" where
  "append_named n bs = map (\<lambda>(m, x). if m = n then (m, x @ bs) else (m, x))"

lemma append_named_same: "map_of (append_named n bs v) n = map_option (\<lambda>x. x @ bs) (map_of v n)"
  by (induction v) (auto simp: append_named_def)

definition pair_card :: "((string \<times> bytes) list, string \<times> nat) fat_ops" where
  "pair_card = \<lparr>vol_root_dir = \<lambda>v. ([], 0), dir_open = \<lambda>v d n. if n = ''d'' then Some (''d'', 0) else None,
     dir_find = \<lambda>v d n. if d = ([], 0)
       then Some (if n = ''a'' \<or> n = ''b'' then Some (pair_entry n (length (pair_data n))) else None)
       else Some (map_option (\<lambda>bs. pair_entry n (length bs)) (map_of v n)),
     dir_entries = \<lambda>v d. [Some (pair_entry ''a'' 3), Some (pair_entry ''b'' 1)],
     vol_create_file = \<lambda>v d n. (Some (pair_entry n 0), (n, []) # v),
     vol_create_dir = \<lambda>v d n. (Inl Other_Fat_Error, v),
     vol_truncate = \<lambda>v e n. (False, v), vol_delete = \<lambda>v e. (Some Other_Fat_Error, v),
     vol_rename = \<lambda>v e d n. (Some Other_Fat_Error, v),
     vol_repair_dir = \<lambda>v e. (False, v), vol_set_times = \<lambda>v e m a. (True, v),
     vol_set_attributes = \<lambda>v e a. (True, v), vol_sync = \<lambda>v. (True, v), vol_free_clusters = \<lambda>v. Some 0,
     vol_max_cluster = \<lambda>v. 2, vol_cluster_size = \<lambda>v. 512, vol_volume_id = \<lambda>v. 0,
     reader_new = \<lambda>v e. Some (fe_name e, 0), reader_from_cursor = \<lambda>v e c. Some (fe_name e, snd c),
     reader_seek = \<lambda>v r n. Some (fst r, n),
     reader_read = \<lambda>v r n. let bs = take n (drop (snd r) (pair_data (fst r))) in Some (bs, (fst r, snd r + length bs)),
     reader_cursor = \<lambda>r. r, writer_new = \<lambda>v e. (Some (fe_name e, 0), v),
     writer_append = \<lambda>v e. (Some (fe_name e, 0), v), writer_append_from_cursor = \<lambda>v e c. (Some (fe_name e, snd c), v),
     writer_at = \<lambda>v e n. (Some (fe_name e, n), v),
     writer_write = \<lambda>v w b. (Some (length b, (fst w, snd w + length b)), append_named (fst w) b v),
     writer_append_cursor = \<lambda>w. w, writer_finish = \<lambda>v w. (True, v), writer_drop = \<lambda>v w. v\<rparr>"

definition pair_view :: "((string \<times> bytes) list, string \<times> nat) copy_view" where
  "pair_view = \<lparr>vw_intact = \<lambda>v. True, vw_below = \<lambda>h. True, vw_data = \<lambda>h. pair_data (fst h), vw_pos = snd\<rparr>"

lemma pair_reads: "readers_read pair_card pair_view"
  by (auto simp: readers_read_def pair_card_def pair_view_def slice_of_def Let_def min_def)

lemma pair_apart: "writes_apart pair_card pair_view at"
  by (simp add: writes_apart_def places_apart_def writers_apart_def leaves_def pair_view_def)

lemma pair_intact: "vw_intact pair_view v"
  by (simp add: pair_view_def)

lemma pair_source: "file_source pair_card pair_view [] n (pair_data n)"
  by (auto simp: file_source_def lookup_def open_path_def present_def pair_card_def pair_view_def pair_entry_def
      split: option.splits if_splits)

lemma pair_root:
  "tree_source pair_card pair_view [] [(''a'', Src_File [7, 8, 9]), (''b'', Src_File [1])]"
  using pair_source [of "''a''"] pair_source [of "''b''"]
  by (subst tree_source.simps) (auto simp: pair_data_def open_path_def pair_card_def pair_entry_def dots_def)

theorem copies_end_witness:
  "\<forall>job. fst (copy_run pair_card 10 (directory_job [] [''d'']) []) \<noteq> Running job"
  using copies_end [OF pair_reads pair_apart pair_intact pair_root, of "[''d'']" "[]"] by (simp del: copy_run.simps)

definition pair_content :: "(string \<times> bytes) list \<Rightarrow> bytes" where
  "pair_content v = (case map_of v ''a'' of Some bs \<Rightarrow> bs | None \<Rightarrow> [])"

lemma pair_sink: "file_sink pair_card pair_view [''d''] ''a'' pair_content"
proof -
  have dir: "open_path pair_card v [''d''] = Some (''d'', 0)" for v by (simp add: open_path_def pair_card_def)
  show ?thesis
    unfolding file_sink_def writes_onto_def dir
    by (auto simp: pair_card_def pair_view_def pair_entry_def pair_content_def append_named_same split: option.splits)
qed

theorem copied_file_is_exact_witness:
  "\<exists>r vol'. copy_run pair_card 5 (file_job [] [''d''] ''a'') [] = (r, vol')
    \<and> (r = Failed \<or> (\<exists>job. r = Copied job \<and> pair_content vol' = [7, 8, 9]))"
proof -
  have a: "pair_data ''a'' = [7, 8, 9]" by (simp add: pair_data_def)
  have five: "length [7 :: u8, 8, 9] + 2 = 5" by simp
  show ?thesis
    using copied_file_is_exact [OF pair_reads pair_apart pair_intact pair_source [of "''a''", unfolded a] pair_sink, of "[]"]
    unfolding five by blast
qed

end
