(* ===== verification/Spec2Isabelle.thy ===== *)
theory Spec2Isabelle
  imports Firmware Sftp_Client Image_Build Sftp_Effects File_Copy_Correct
begin

text \<open>
  Verification library of the Ratputer firmware: an ESP32-S3 handheld whose SD card is used by its own
  file browser, exported over USB, or served over SSH and SFTP.

  \<^bold>\<open>The program and its model.\<close>  The firmware is one loop without threads.  Each pass takes input, runs
  one bounded step of every service, and draws.  The services share the card, the configuration and the
  current screen; asynchronous parts are futures polled once per pass.  The model follows the source
  files, one group of theories for each:

  \<^item> \<open>Rat_Prelude\<close>, \<open>Rat_Text\<close>: machine arithmetic with its overflow written out, byte order, list
    splicing; the string functions of the standard library.
  \<^item> \<open>Fat_Volume\<close>: the interface of the vendored FAT library as a record \<open>fat_ops\<close>, and the packed
    timestamp.  \<open>Fs_Path\<close>: \<open>src/fspath.rs\<close>, paths and listings.
  \<^item> \<open>Wifi_Config\<close>: the configuration in \<open>src/storage.rs\<close>.  \<open>Wall_Clock\<close>: \<open>src/clock.rs\<close> and the clock
    half of \<open>src/storage.rs\<close>.
  \<^item> \<open>Sd_Block\<close>: \<open>src/sdblock.rs\<close>, a seekable view of a partition over any block device.
  \<^item> \<open>Usb_Msc\<close>, \<open>Usb_Msc_Correct\<close>: \<open>src/msc.rs\<close>, the mass-storage class with its block cache.
    \<open>Usb_Disk\<close>: \<open>src/usbdisk.rs\<close> and the hand-over of the card in \<open>src/main.rs\<close>.
  \<^item> \<open>Sftp_Wire\<close>, \<open>Sftp_Server\<close>, \<open>Sftp_Requests\<close>: \<open>src/sftp.rs\<close>, wire format, session state, all
    requests and the step function.  \<open>Sftp_Handles\<close>, \<open>Sftp_Session\<close>, \<open>Sftp_Steps\<close>, \<open>Sftp_Transfers\<close>,
    \<open>Sftp_Effects\<close>: its correctness.  \<open>Sftp_Client\<close>: the client of \<open>tools/sftp-test/src/main.rs\<close> that drives it.
  \<^item> \<open>Ssh_Fingerprint\<close>, \<open>Ssh_Shell\<close>, \<open>Ssh_Server\<close>: \<open>src/ssh.rs\<close>, fingerprint, command shell and
    channels, listener, host key, poll and timeouts.
  \<^item> \<open>File_Copy\<close>, \<open>File_Copy_Correct\<close>, \<open>File_Manager\<close>: \<open>src/filemanager.rs\<close>, the copy job and the browser.
  \<^item> \<open>Debug_Console\<close>: \<open>src/debug.rs\<close>.  \<open>Battery\<close>: \<open>src/battery.rs\<close>.  \<open>Watchdog\<close>: \<open>src/watchdog.rs\<close>.
  \<^item> \<open>Wifi_Scan\<close>: \<open>src/wifi.rs\<close>.  \<open>Wifi_Radio\<close>: the radio's share of \<open>src/main.rs\<close>.  \<open>Network_Time\<close>:
    \<open>src/net.rs\<close> and its share of \<open>src/main.rs\<close>.
  \<^item> \<open>Main_Loop\<close>: one pass of \<open>src/main.rs\<close> over all of these, with the navigation callback of
    \<open>ui/ratputer.slint\<close>.  \<open>Firmware\<close>: the boot and the frame around the pass, with the watchdog, the debug console and
    its replies, the top bar, the delayed reboot and the watchdog's self-tests.
  \<^item> \<open>Image_Build\<close>: \<open>xtask/src/main.rs\<close>, which builds the flash image and checks its headers.

  A struct is a record with the fields of the source, an enum a datatype, an error a value of a sum or an
  option.  \<open>None\<close> as the result of a whole step is a panic.  Counters and sizes are natural numbers with
  the width of their type written at each operation that can wrap; bytes are 8-bit words; strings are
  their UTF-8 bytes.  A function that changes shared state takes and returns it.

  \<^bold>\<open>Interfaces.\<close>  Locales state what one component promises to its users, each interpreted on the model:
  \<open>byte_store\<close> (a seekable store that reads back what was written; the partition adapter), \<open>wire_codec\<close>
  (a field that is read back from what was put; the five field types of SFTP), \<open>handle_table\<close> (tokens find
  their handle, closed ones nothing; the SFTP handle array), \<open>byte_queue\<close> (a bounded queue; the transmit
  ring of the console).

  \<^bold>\<open>What is shown.\<close>
  \<^item> Data integrity.  The adapter reads and writes exactly its bytes of the partition and no others.
    READ(10) and WRITE(10) move exactly the blocks asked for, through a cache that stays a copy of the
    card and is emptied when another card is attached.  SFTP delivers the bytes it promised or ends the
    session, acknowledges a write only when all of it is stored, and leaves no stale positions in other
    handles.  A copy that ends well is the source byte for byte and overwrites nothing.
  \<^item> Ownership.  The card is with the FAT volume or with USB and never with both; while it is exported no
    browser and no SSH server runs.  The static SSH buffers belong to one session, the radio to one user.
  \<^item> Protocols.  Every SFTP request and every USB command is answered once under its own tag; sessions stay
    within their buffers, never panic and never block for good; closed handles stay closed.  The test
    client's fragments and polls fit the server: it never waits in vain for a reply.
  \<^item> Resets.  The watchdog does not reset a loop whose parts keep their times; a requested reboot happens.
  \<^item> Termination.  Every SSH poll returns; a copy ends within a number of steps that is computed from the
    source tree; the retries of the automatic connection visit each network three times and stop.
  \<^item> Data formats.  Calendar dates, local times, timestamps, paths, network time and typed commands.
  \<^item> Screens.  The browser's selection stays on an entry and inside its viewport.
  \<^item> Defects.  Theorems that state what the code does where it does not do what it means to: the USB screen
    that cannot be left when no card was exported, directory names that panic the browser, a refused OPEN
    that has truncated the file, the self-test FREEZE on a disarmed watchdog, and the end of network time
    in 2036.

  \<^bold>\<open>Bounds and fuel.\<close>  \<open>read_10_loop\<close> has one unit of fuel for each block and sends at least one block in
  each turn.  The rounds of a transfer are bounded by one poll for each byte left.  A copy is bounded by the
  work of its source tree: its entries, its bytes and its directories.  The output loop of the SSH server
  is a \<open>partial_function\<close>, which is shown to return because what the socket takes shortens the output.
  \<open>ssh_poll\<close> makes eight rounds of sixteen protocol steps, as in the code.

  \<^bold>\<open>Not modelled.\<close>  The FAT, SSH, TOML, USB, Wi-Fi and IP libraries and the drivers are parameters; where
  a theorem relies on them, their documented behaviour is a named hypothesis with a witness.  Layout and
  drawing are output only.  Of the main loop: hardware setup, the counters of
  the SSH screen and heap profiling.  Ownership of the card changes between whole USB
  commands, since both happen in the same thread.  One poll of the SSH server reads the clock once.  The
  automatic connection does its work in the poll that completes it.  Capacities of vectors are ignored.
  The list of test cases that the test client runs on a FAT image of the host, and the build script
  \<open>build.rs\<close>, are not modelled.
\<close>

end
